(* ===== verification/Prelude.thy ===== *)
theory Prelude
  imports Main "HOL-Library.Word"
begin

text \<open>
  Shared vocabulary of the development: the machine types of the C and C++ code under
  \<^verbatim>\<open>src/dnsgw_test_ha/klink\<close> (an LP64 platform: \<^verbatim>\<open>char\<close> 8, \<^verbatim>\<open>int\<close> 32, \<^verbatim>\<open>long\<close> 64 bits),
  the collections of rewrite rules the component theories extend, and the facts on lists
  and words that more than one component uses.
\<close>

unbundle bit_operations_syntax

section \<open>Machine types\<close>

type_synonym byte = "8 word"      \<comment> \<open>\<^verbatim>\<open>char\<close>, \<^verbatim>\<open>unsigned char\<close>\<close>
type_synonym cint = "32 word"     \<comment> \<open>\<^verbatim>\<open>int\<close>, \<^verbatim>\<open>unsigned int\<close>\<close>
type_synonym clong = "64 word"    \<comment> \<open>\<^verbatim>\<open>long\<close>, and the bit pattern of a \<^verbatim>\<open>double\<close>\<close>

named_theorems table_simps "facts about the lookup table operations"
named_theorems wire_simps "facts about serialised fields"
named_theorems dll_simps "facts about the doubly linked list heap"

section \<open>Lists\<close>

lemma nth_append_last [simp]: "(xs @ [x]) ! length xs = x"
  by simp

lemma foldl_list_update_length [simp]:
  "length (foldl (\<lambda>t (i, v). t[i := v]) xs ws) = length xs"
  by (induction ws arbitrary: xs) auto

text \<open>A table filled by a sequence of stores keeps the value of every index stored once.\<close>

lemma foldl_list_update_other:
  "i \<notin> fst ` set ws \<Longrightarrow> foldl (\<lambda>t (i, v). t[i := v]) xs ws ! i = xs ! i"
  by (induction ws arbitrary: xs) auto

lemma foldl_list_update_nth:
  assumes "distinct (map fst ws)" and "(i, v) \<in> set ws" and "i < length xs"
  shows "foldl (\<lambda>t (i, v). t[i := v]) xs ws ! i = v"
  using assms
proof (induction ws arbitrary: xs)
  case Nil
  then show ?case by simp
next
  case (Cons w ws)
  show ?case
  proof (cases "w = (i, v)")
    case True
    with Cons.prems have "i \<notin> fst ` set ws" by auto
    with True Cons.prems show ?thesis by (simp add: foldl_list_update_other)
  next
    case False
    with Cons show ?thesis by (cases w) auto
  qed
qed

lemma distinct_filter_split:
  "distinct (filter P xs) \<Longrightarrow> distinct (filter (\<lambda>x. \<not> P x) xs) \<Longrightarrow> distinct xs"
  by (induction xs) (auto split: if_splits)

section \<open>The combinations of a list, in lexicographic order\<close>

fun kcomb :: "nat \<Rightarrow> 'a list \<Rightarrow> 'a list list" where
  "kcomb 0 xs = [[]]"
| "kcomb (Suc k) [] = []"
| "kcomb (Suc k) (x # xs) = map ((#) x) (kcomb k xs) @ kcomb (Suc k) xs"

lemma kcomb_elem:
  "ys \<in> set (kcomb k xs) \<Longrightarrow>
   length ys = k \<and> set ys \<subseteq> set xs \<and> (sorted_wrt P xs \<longrightarrow> sorted_wrt P ys)"
  by (induction k xs arbitrary: ys rule: kcomb.induct) (auto, blast+)

lemma distinct_kcomb: "distinct xs \<Longrightarrow> distinct (kcomb k xs)"
proof (induction k xs rule: kcomb.induct)
  case (3 k x xs)
  then show ?case by (auto simp: distinct_map dest: kcomb_elem)
qed auto

lemma filter_in_kcomb: "filter P xs \<in> set (kcomb (length (filter P xs)) xs)"
proof (induction xs)
  case (Cons x xs)
  have "zs \<in> set (kcomb (length zs) xs) \<Longrightarrow> zs \<in> set (kcomb (length zs) (x # xs))" for zs
    by (cases zs) auto
  with Cons show ?case by simp
qed simp

lemma kcomb_map: "kcomb k (map f xs) = map (map f) (kcomb k xs)"
  by (induction k xs rule: kcomb.induct) auto

lemma length_kcomb: "length (kcomb k xs) = length xs choose k"
  by (induction k xs rule: kcomb.induct) auto

section \<open>Loops whose body may be undefined\<close>

text \<open>
  A C \<^verbatim>\<open>for\<close> loop over a list of counter values; the body returns None where the C
  program has undefined behaviour or does not return.
\<close>

primrec for_loop :: "('i \<Rightarrow> 's \<Rightarrow> 's option) \<Rightarrow> 'i list \<Rightarrow> 's \<Rightarrow> 's option" where
  "for_loop body [] s = Some s"
| "for_loop body (i # is) s = Option.bind (body i s) (for_loop body is)"

lemma for_loop_append [simp]:
  "for_loop body (xs @ ys) s = Option.bind (for_loop body xs s) (for_loop body ys)"
  by (induction xs arbitrary: s) (auto simp: bind_assoc split: bind_splits)

lemma for_loop_total:
  assumes "\<And>i s. i \<in> set is \<Longrightarrow> I s \<Longrightarrow> body i s = Some (step i s) \<and> I (step i s)"
    and "I s"
  shows "for_loop body is s = Some (fold step is s) \<and> I (fold step is s)"
  using assms by (induction "is" arbitrary: s) auto

section \<open>Words that fit into a number of bits\<close>

definition fits :: "nat \<Rightarrow> 'a::len word \<Rightarrow> bool" where
  "fits n w \<longleftrightarrow> (\<forall>i\<ge>n. \<not> bit w i)"

lemma fits_iff_take_bit: "fits n w \<longleftrightarrow> take_bit n w = w"
proof
  assume "fits n w"
  then show "take_bit n w = w"
    by (intro bit_eqI) (auto simp: fits_def bit_take_bit_iff not_le[symmetric])
next
  assume eq: "take_bit n w = w"
  have "\<not> bit (take_bit n w) i" if "n \<le> i" for i
    using that by (simp add: bit_take_bit_iff)
  with eq show "fits n w" by (simp add: fits_def)
qed

lemma fits_iff_unat: "fits n w \<longleftrightarrow> unat w < 2 ^ n"
proof -
  have "take_bit n w = w \<longleftrightarrow> take_bit n (unat w) = unat w"
    by (simp add: word_unat_eq_iff unsigned_take_bit_eq)
  then show ?thesis by (simp add: fits_iff_take_bit take_bit_nat_eq_self_iff)
qed

lemma fits_mono: "fits m w \<Longrightarrow> m \<le> n \<Longrightarrow> fits n w"
  by (auto simp: fits_def)

lemma fits_xor [intro]: "fits n v \<Longrightarrow> fits n w \<Longrightarrow> fits n (v XOR w)"
  by (auto simp: fits_def bit_xor_iff)

lemma fits_Suc: "fits (Suc n) w \<Longrightarrow> \<not> bit w n \<Longrightarrow> fits n w"
  by (metis fits_def le_antisym not_less_eq_eq)

lemma bit_two_power: "bit (2 ^ m :: 'a::len word) i \<longleftrightarrow> i = m \<and> m < LENGTH('a)"
  by (auto simp: bit_exp_iff possible_bit_word)

lemma and_two_power_eq_0:
  assumes "m < LENGTH('a)"
  shows "(2 ^ m :: 'a::len word) AND p = 0 \<longleftrightarrow> \<not> bit p m"
proof
  assume "(2 ^ m :: 'a word) AND p = 0"
  then have "\<not> bit ((2 ^ m :: 'a word) AND p) m" by simp
  with assms show "\<not> bit p m" by (simp add: bit_and_iff bit_two_power)
next
  assume "\<not> bit p m"
  then show "(2 ^ m :: 'a word) AND p = 0"
    by (intro bit_word_eqI) (auto simp: bit_and_iff bit_two_power)
qed

lemma drop_bit_two_power:
  "n \<le> m \<Longrightarrow> m < LENGTH('a) \<Longrightarrow> drop_bit n (2 ^ m :: 'a::len word) = 2 ^ (m - n)"
  by (intro bit_word_eqI) (auto simp: bit_drop_bit_eq bit_two_power)

lemma sint_nonneg_fits: "fits 63 (w :: 64 word) \<Longrightarrow> sint w = uint w"
proof -
  assume w: "fits 63 w"
  then have "\<not> bit (uint w) 63" by (simp add: fits_def bit_uint_iff)
  moreover have "take_bit 63 (uint w) = uint w"
    using w by (simp add: fits_iff_take_bit flip: unsigned_take_bit_eq)
  ultimately show ?thesis
    by (simp add: sint_uint signed_take_bit_eq_if_positive)
qed

lemma word_xor_eq_0: "v XOR w = 0 \<longleftrightarrow> v = (w :: 'a::len word)"
proof
  assume "v XOR w = 0"
  then have "\<not> bit (v XOR w) i" for i by simp
  then show "v = w" by (intro bit_word_eqI) (auto simp: bit_xor_iff)
qed simp

lemma add_two_power_eq_xor: "\<not> bit v n \<Longrightarrow> n < LENGTH('a) \<Longrightarrow> v + 2 ^ n = v XOR (2 ^ n :: 'a::len word)"
  by (rule disjunctive_add_eq_xor) (simp add: and_two_power_eq_0 and.commute[of v])

lemma scast_small: "m < 2 ^ 31 \<Longrightarrow> (scast (of_nat m :: cint) :: clong) = of_nat m"
proof -
  assume m: "m < 2 ^ 31"
  then have "int m < 2 ^ 31" by (metis of_nat_less_iff of_nat_numeral of_nat_power)
  then have "sint (of_nat m :: cint) = int m" by (simp add: signed_of_nat signed_take_bit_int_eq_self)
  then show ?thesis by (simp add: scast_eq)
qed

end
