(* ===== verification/Memory.thy ===== *)
theory Memory
  imports Prelude
begin

text \<open>
  The parts of the C and C++ run-time the modelled code works on: heap buffers with bytes that
  may be indeterminate, \<^verbatim>\<open>memcpy\<close> with its bounds, the little-endian image of
  an \<^verbatim>\<open>int\<close> and of a \<^verbatim>\<open>double\<close>, and the library functions
  \<^verbatim>\<open>strncmp\<close>, \<^verbatim>\<open>atoi\<close> and \<^verbatim>\<open>sprintf("%d")\<close> on byte strings. An access
  outside a buffer, and a read of an indeterminate byte, is None.
\<close>

section \<open>Buffers\<close>

type_synonym buffer = "byte option list"
type_synonym cstring = "byte list"   \<comment> \<open>the characters of a \<^verbatim>\<open>std::string\<close>\<close>

definition str :: "char list \<Rightarrow> cstring" where
  "str s = map of_char s"

text \<open>Different texts are different byte strings.\<close>

lemma of_char_byte: "(of_char c :: byte) = of_char d \<longleftrightarrow> c = d"
proof -
  have "unat (of_char x :: byte) = of_char x" for x
  proof -
    have "(of_char x :: byte) = of_nat (of_char x)" by (rule of_nat_of_char[symmetric])
    moreover have "of_char x < (256 :: nat)" by simp
    ultimately show ?thesis by (simp only: unat_of_nat) simp
  qed
  then show ?thesis by (metis of_char_eq_iff)
qed

lemma str_eq_iff: "str a = str b \<longleftrightarrow> a = b"
  unfolding str_def by (rule inj_map_eq_map) (simp add: inj_def of_char_byte)

definition alloc :: "nat \<Rightarrow> buffer" where
  "alloc n = replicate n None"

definition write_at :: "nat \<Rightarrow> byte list \<Rightarrow> buffer \<Rightarrow> buffer option" where
  "write_at off bs buf =
     (if off + length bs \<le> length buf
      then Some (take off buf @ map Some bs @ drop (off + length bs) buf) else None)"

definition read_at :: "nat \<Rightarrow> nat \<Rightarrow> buffer \<Rightarrow> byte list option" where
  "read_at off n buf =
     (if off + n \<le> length buf \<and> list_all (\<lambda>x. x \<noteq> None) (take n (drop off buf))
      then Some (map the (take n (drop off buf))) else None)"

text \<open>Consecutive \<^verbatim>\<open>memcpy(buffer + offset, ...); offset += ...\<close>.\<close>

primrec write_chunks :: "byte list list \<Rightarrow> nat \<times> buffer \<Rightarrow> (nat \<times> buffer) option" where
  "write_chunks [] s = Some s"
| "write_chunks (c # cs) s =
     Option.bind (write_at (fst s) c (snd s)) (\<lambda>buf. write_chunks cs (fst s + length c, buf))"

lemma length_alloc [simp]: "length (alloc n) = n"
  by (simp add: alloc_def)

lemma write_chunks_prefix:
  "write_chunks cs (length pre, map Some pre @ alloc n) =
     (if length (concat cs) \<le> n
      then Some (length pre + length (concat cs), map Some (pre @ concat cs) @ alloc (n - length (concat cs)))
      else None)"
proof (induction cs arbitrary: pre n)
  case (Cons c cs)
  show ?case
  proof (cases "length c \<le> n")
    case True
    have "write_at (length pre) c (map Some pre @ alloc n)
        = Some (map Some (pre @ c) @ alloc (n - length c))"
      using True by (simp add: write_at_def alloc_def)
    then show ?thesis using Cons[of "pre @ c" "n - length c"] True by (auto simp: add.assoc)
  next
    case False
    then show ?thesis by (simp add: write_at_def)
  qed
qed simp

lemma write_chunks_alloc [wire_simps]:
  "write_chunks cs (0, alloc n) =
     (if length (concat cs) \<le> n
      then Some (length (concat cs), map Some (concat cs) @ alloc (n - length (concat cs))) else None)"
  using write_chunks_prefix[of cs "[]" n] by simp

lemma read_at_slice [wire_simps]:
  "read_at (length pre) (length bs) (pre @ map Some bs @ post) = Some bs"
  by (auto simp: read_at_def list_all_iff comp_def)

lemma alloc_0 [simp]: "alloc 0 = []"
  by (simp add: alloc_def)

section \<open>Images of machine values\<close>

definition int_bytes :: "cint \<Rightarrow> byte list" where
  "int_bytes w = map (\<lambda>i. ucast (drop_bit (8 * i) w)) [0, 1, 2, 3]"

definition bytes_int :: "byte list \<Rightarrow> cint" where
  "bytes_int bs = foldr (\<lambda>b w. ucast b OR push_bit 8 w) bs 0"

definition double_bytes :: "clong \<Rightarrow> byte list" where
  "double_bytes w = map (\<lambda>i. ucast (drop_bit (8 * i) w)) [0, 1, 2, 3, 4, 5, 6, 7]"

definition bytes_double :: "byte list \<Rightarrow> clong" where
  "bytes_double bs = foldr (\<lambda>b w. ucast b OR push_bit 8 w) bs 0"

lemma length_int_bytes [simp]: "length (int_bytes w) = 4"
  by (simp add: int_bytes_def)

lemma length_double_bytes [simp]: "length (double_bytes w) = 8"
  by (simp add: double_bytes_def)

lemma join_low_byte:
  "ucast (ucast w :: byte) OR push_bit 8 (drop_bit 8 w) = (w :: 'a::len word)"
  by (rule bit_word_eqI) (auto simp: bit_or_iff bit_ucast_iff bit_push_bit_iff bit_drop_bit_eq not_le,
      metis le_add_diff_inverse not_le)

lemma bytes_int_bytes [simp]: "bytes_int (int_bytes w) = w"
proof -
  have "drop_bit 24 w = ucast (ucast (drop_bit 24 w) :: byte)"
    by (rule bit_word_eqI) (auto simp: bit_ucast_iff bit_drop_bit_eq dest: bit_imp_le_length)
  then have "bytes_int (int_bytes w) = ucast (ucast w :: byte) OR push_bit 8 (ucast (ucast (drop_bit 8 w) :: byte)
      OR push_bit 8 (ucast (ucast (drop_bit 8 (drop_bit 8 w)) :: byte) OR push_bit 8 (drop_bit 8 (drop_bit 8 (drop_bit 8 w)))))"
    by (simp add: bytes_int_def int_bytes_def)
  then show ?thesis by (simp only: join_low_byte)
qed

lemma bytes_double_bytes [simp]: "bytes_double (double_bytes w) = w"
proof -
  have "drop_bit 56 w = ucast (ucast (drop_bit 56 w) :: byte)"
    by (rule bit_word_eqI) (auto simp: bit_ucast_iff bit_drop_bit_eq dest: bit_imp_le_length)
  then have "bytes_double (double_bytes w) = ucast (ucast w :: byte)
      OR push_bit 8 (ucast (ucast (drop_bit 8 w) :: byte)
      OR push_bit 8 (ucast (ucast (drop_bit 8 (drop_bit 8 w)) :: byte)
      OR push_bit 8 (ucast (ucast (drop_bit 8 (drop_bit 8 (drop_bit 8 w))) :: byte)
      OR push_bit 8 (ucast (ucast (drop_bit 8 (drop_bit 8 (drop_bit 8 (drop_bit 8 w)))) :: byte)
      OR push_bit 8 (ucast (ucast (drop_bit 8 (drop_bit 8 (drop_bit 8 (drop_bit 8 (drop_bit 8 w))))) :: byte)
      OR push_bit 8 (ucast (ucast (drop_bit 8 (drop_bit 8 (drop_bit 8 (drop_bit 8 (drop_bit 8 (drop_bit 8 w)))))) :: byte)
      OR push_bit 8 (drop_bit 8 (drop_bit 8 (drop_bit 8 (drop_bit 8 (drop_bit 8 (drop_bit 8 (drop_bit 8 w)))))))))))))"
    by (simp add: bytes_double_def double_bytes_def)
  then show ?thesis by (simp only: join_low_byte)
qed

section \<open>Strings\<close>

text \<open>\<^verbatim>\<open>std::string::operator<\<close>: lexicographic on unsigned characters.\<close>

fun str_less :: "cstring \<Rightarrow> cstring \<Rightarrow> bool" where
  "str_less _ [] = False"
| "str_less [] (y # ys) = True"
| "str_less (x # xs) (y # ys) = (x < y \<or> x = y \<and> str_less xs ys)"

text \<open>\<^verbatim>\<open>strncmp\<close> on \<^verbatim>\<open>c_str()\<close>: past the last character it reads the terminating zero.\<close>

fun strncmp :: "nat \<Rightarrow> cstring \<Rightarrow> cstring \<Rightarrow> int" where
  "strncmp 0 xs ys = 0"
| "strncmp (Suc n) xs ys =
     (let x = (case xs of [] \<Rightarrow> 0 | c # _ \<Rightarrow> c); y = (case ys of [] \<Rightarrow> 0 | c # _ \<Rightarrow> c) in
      if x \<noteq> y then uint x - uint y else if x = 0 then 0 else strncmp n (tl xs) (tl ys))"

fun print_nat :: "nat \<Rightarrow> cstring" where
  "print_nat n =
     (if n < 10 then [of_nat (48 + n)] else print_nat (n div 10) @ [of_nat (48 + n mod 10)])"

declare print_nat.simps [simp del]

definition print_int :: "cint \<Rightarrow> cstring" where   \<comment> \<open>\<^verbatim>\<open>sprintf("%d")\<close>\<close>
  "print_int w = (if sint w < 0 then 45 # print_nat (nat (- sint w)) else print_nat (nat (sint w)))"

definition print_long :: "clong \<Rightarrow> cstring" where   \<comment> \<open>\<^verbatim>\<open>sprintf("%ld")\<close>, \<^verbatim>\<open>operator<<\<close>\<close>
  "print_long w = (if sint w < 0 then 45 # print_nat (nat (- sint w)) else print_nat (nat (sint w)))"

text \<open>The characters of a C string in a buffer: up to the first zero byte, if there is one.\<close>

fun c_string :: "buffer \<Rightarrow> cstring option" where
  "c_string [] = None"
| "c_string (None # bs) = None"
| "c_string (Some b # bs) = (if b = 0 then Some [] else map_option ((#) b) (c_string bs))"

lemma c_string_append:
  "0 \<notin> set bs \<Longrightarrow> c_string (map Some bs @ rest) = map_option ((@) bs) (c_string rest)"
  by (induction bs) (cases "c_string rest", auto)+

text \<open>\<^verbatim>\<open>atoi\<close>: white space, a sign, digits; the value is converted to \<^verbatim>\<open>int\<close>.\<close>

definition is_digit :: "byte \<Rightarrow> bool" where
  "is_digit c \<longleftrightarrow> 48 \<le> c \<and> c \<le> 57"

definition digits_value :: "cstring \<Rightarrow> int" where
  "digits_value ds = foldl (\<lambda>v d. 10 * v + (uint d - 48)) 0 ds"

definition atoi :: "cstring \<Rightarrow> cint" where
  "atoi s =
     (let s = dropWhile (\<lambda>c. c = 32 \<or> 9 \<le> c \<and> c \<le> 13) s in
      case s of [] \<Rightarrow> 0
      | c # cs \<Rightarrow>
          if c = 45 then word_of_int (- digits_value (takeWhile is_digit cs))
          else if c = 43 then word_of_int (digits_value (takeWhile is_digit cs))
          else word_of_int (digits_value (takeWhile is_digit s)))"

lemma str_less_irrefl: "\<not> str_less s s"
  by (induction s) auto

lemma str_less_trans: "str_less a b \<Longrightarrow> str_less b c \<Longrightarrow> str_less a c"
proof (induction a b arbitrary: c rule: str_less.induct)
  case (2 y ys)
  then show ?case by (cases c) auto
next
  case (3 x xs y ys)
  then show ?case by (cases c) (auto intro: less_trans)
qed simp

lemma str_less_total: "\<not> str_less a b \<Longrightarrow> \<not> str_less b a \<Longrightarrow> a = b"
proof (induction a b rule: str_less.induct)
  case (1 a)
  then show ?case by (cases a) auto
next
  case (3 x xs y ys)
  then have "\<not> x < y" "\<not> y < x" by auto
  then have "x = y" by simp
  with 3 show ?case by auto
qed simp

lemma print_nat_nonempty: "print_nat n \<noteq> []"
  by (subst print_nat.simps) simp

lemma print_nat_digits: "c \<in> set (print_nat n) \<Longrightarrow> is_digit c"
proof (induction n arbitrary: c rule: print_nat.induct)
  case (1 n)
  have d: "is_digit (of_nat (48 + k))" if "k < 10" for k
  proof -
    have "unat (of_nat (48 + k) :: byte) = 48 + k"
      using that by (simp only: unat_of_nat) simp
    then show ?thesis using that by (simp only: is_digit_def word_le_nat_alt) simp
  qed
  show ?case
  proof (cases "n < 10")
    case True
    with "1.prems" d[of n] show ?thesis by (simp add: print_nat.simps[of n])
  next
    case False
    with "1.prems" have "c \<in> set (print_nat (n div 10)) \<or> c = of_nat (48 + n mod 10)"
      by (auto simp: print_nat.simps[of n])
    then show ?thesis using "1.IH"[OF False] d[of "n mod 10"] by auto
  qed
qed

end
