(* ===== verification/Lookup_Table.thy ===== *)
theory Lookup_Table
  imports Memory
begin

text \<open>
  \<^verbatim>\<open>plnode/ds/lookup_table.h\<close> and \<^verbatim>\<open>lookup_table_iterator.h\<close>: a
  \<^verbatim>\<open>std::map\<close> behind a reader-writer lock. Every operation holds the lock from its
  first to its last access, so each is one atomic step on the table. The map is the list of its
  entries in iteration order; it never uses \<^verbatim>\<open>operator==\<close> of the keys, only
  \<^verbatim>\<open>operator<\<close>, which is the parameter \<open>lt\<close>. The locale \<open>key_order\<close> is the
  contract \<^verbatim>\<open>std::map\<close> puts on \<open>lt\<close>; under it the operations implement a finite
  map over the keys' identities.
\<close>

section \<open>\<^verbatim>\<open>std::map\<close>\<close>

type_synonym ('k, 'v) table = "('k \<times> 'v) list"

fun map_find :: "('k \<Rightarrow> 'k \<Rightarrow> bool) \<Rightarrow> 'k \<Rightarrow> ('k, 'v) table \<Rightarrow> 'v option" where
  "map_find lt k [] = None"
| "map_find lt k ((k', v) # t) = (if lt k k' \<or> lt k' k then map_find lt k t else Some v)"

fun map_insert :: "('k \<Rightarrow> 'k \<Rightarrow> bool) \<Rightarrow> 'k \<Rightarrow> 'v \<Rightarrow> ('k, 'v) table \<Rightarrow> ('k, 'v) table" where
  "map_insert lt k v [] = [(k, v)]"
| "map_insert lt k v ((k', v') # t) =
     (if lt k k' then (k, v) # (k', v') # t
      else if lt k' k then (k', v') # map_insert lt k v t else (k', v') # t)"

fun map_assign :: "('k \<Rightarrow> 'k \<Rightarrow> bool) \<Rightarrow> 'k \<Rightarrow> 'v \<Rightarrow> ('k, 'v) table \<Rightarrow> ('k, 'v) table" where
  "map_assign lt k v [] = []"
| "map_assign lt k v ((k', v') # t) =
     (if lt k k' \<or> lt k' k then (k', v') # map_assign lt k v t else (k', v) # t)"

fun map_erase :: "('k \<Rightarrow> 'k \<Rightarrow> bool) \<Rightarrow> 'k \<Rightarrow> ('k, 'v) table \<Rightarrow> ('k, 'v) table" where
  "map_erase lt k [] = []"
| "map_erase lt k ((k', v') # t) =
     (if lt k k' \<or> lt k' k then (k', v') # map_erase lt k t else t)"

section \<open>\<^verbatim>\<open>LookupTable\<close>\<close>

text \<open>
  Each operation returns the code's Boolean with the new table. \<open>table_add\<close> returns
  \<^verbatim>\<open>!exists\<close> where \<^verbatim>\<open>exists\<close> was set on insertion: True means that the key was
  there already. \<open>table_remove\<close> always returns False. \<^verbatim>\<open>table[key] = value\<close>, reached only for
  a present key, is \<open>map_assign\<close>.
\<close>

definition table_empty :: "('k, 'v) table" where
  "table_empty = []"

definition table_size :: "('k, 'v) table \<Rightarrow> nat" where
  "table_size t = length t"

definition table_clear :: "('k, 'v) table \<Rightarrow> ('k, 'v) table" where
  "table_clear t = []"

definition table_add ::
    "('k \<Rightarrow> 'k \<Rightarrow> bool) \<Rightarrow> 'k \<Rightarrow> 'v \<Rightarrow> ('k, 'v) table \<Rightarrow> bool \<times> ('k, 'v) table" where
  "table_add lt k v t =
     (let (exists, t) = (if map_find lt k t = None then (True, map_insert lt k v t) else (False, t))
      in (\<not> exists, t))"

definition table_lookup :: "('k \<Rightarrow> 'k \<Rightarrow> bool) \<Rightarrow> 'k \<Rightarrow> ('k, 'v) table \<Rightarrow> 'v option" where
  "table_lookup lt k t = map_find lt k t"

definition table_update ::
    "('k \<Rightarrow> 'k \<Rightarrow> bool) \<Rightarrow> 'k \<Rightarrow> 'v \<Rightarrow> ('k, 'v) table \<Rightarrow> bool \<times> ('k, 'v) table" where
  "table_update lt k v t =
     (if map_find lt k t = None then (False, map_insert lt k v t) else (True, map_assign lt k v t))"

definition table_update_strict ::
    "('k \<Rightarrow> 'k \<Rightarrow> bool) \<Rightarrow> 'k \<Rightarrow> 'v \<Rightarrow> ('k, 'v) table \<Rightarrow> bool \<times> ('k, 'v) table" where
  "table_update_strict lt k v t =
     (if map_find lt k t = None then (False, t) else (True, map_assign lt k v t))"

definition table_remove ::
    "('k \<Rightarrow> 'k \<Rightarrow> bool) \<Rightarrow> 'k \<Rightarrow> ('k, 'v) table \<Rightarrow> bool \<times> ('k, 'v) table" where
  "table_remove lt k t = (False, if map_find lt k t \<noteq> None then map_erase lt k t else t)"

section \<open>\<^verbatim>\<open>LookupTableIterator\<close>\<close>

text \<open>An iterator is the list of the keys still to come; dereferencing the end is undefined.\<close>

definition reset_iterator :: "('k, 'v) table \<Rightarrow> 'k list" where
  "reset_iterator t = map fst t"

definition hasMoreKey :: "'k list \<Rightarrow> bool" where
  "hasMoreKey it \<longleftrightarrow> it \<noteq> []"

definition getNextKey :: "'k list \<Rightarrow> ('k \<times> 'k list) option" where
  "getNextKey it = (case it of [] \<Rightarrow> None | k # it \<Rightarrow> Some (k, it))"

section \<open>Sequences of operations\<close>

text \<open>
  A client of a table, as a sequence of calls and what they return: of the table, and of the
  map from key identities to values that the table stands for.
\<close>

datatype ('k, 'v) table_call =
  Add 'k 'v | Update 'k 'v | Update_Strict 'k 'v | Remove 'k | Lookup 'k | Size | Clear

datatype 'v table_return = Flag bool | Value "'v option" | Count nat | Done

fun table_step ::
    "('k \<Rightarrow> 'k \<Rightarrow> bool) \<Rightarrow> ('k, 'v) table_call \<Rightarrow> ('k, 'v) table \<Rightarrow> 'v table_return \<times> ('k, 'v) table" where
  "table_step lt (Add k v) t = map_prod Flag id (table_add lt k v t)"
| "table_step lt (Update k v) t = map_prod Flag id (table_update lt k v t)"
| "table_step lt (Update_Strict k v) t = map_prod Flag id (table_update_strict lt k v t)"
| "table_step lt (Remove k) t = map_prod Flag id (table_remove lt k t)"
| "table_step lt (Lookup k) t = (Value (table_lookup lt k t), t)"
| "table_step lt Size t = (Count (table_size t), t)"
| "table_step lt Clear t = (Done, table_clear t)"

fun table_run ::
    "('k \<Rightarrow> 'k \<Rightarrow> bool) \<Rightarrow> ('k, 'v) table_call list \<Rightarrow> ('k, 'v) table \<Rightarrow> 'v table_return list \<times> ('k, 'v) table" where
  "table_run lt [] t = ([], t)"
| "table_run lt (c # cs) t =
     (let (r, t) = table_step lt c t; (rs, t) = table_run lt cs t in (r # rs, t))"

fun spec_step :: "('k \<Rightarrow> 'c) \<Rightarrow> ('k, 'v) table_call \<Rightarrow> ('c \<Rightarrow> 'v option) \<Rightarrow> 'v table_return \<times> ('c \<Rightarrow> 'v option)" where
  "spec_step key (Add k v) m =
     (if m (key k) = None then (Flag False, m(key k \<mapsto> v)) else (Flag True, m))"
| "spec_step key (Update k v) m = (Flag (m (key k) \<noteq> None), m(key k \<mapsto> v))"
| "spec_step key (Update_Strict k v) m =
     (if m (key k) = None then (Flag False, m) else (Flag True, m(key k \<mapsto> v)))"
| "spec_step key (Remove k) m = (Flag False, m(key k := None))"
| "spec_step key (Lookup k) m = (Value (m (key k)), m)"
| "spec_step key Size m = (Count (card (dom m)), m)"
| "spec_step key Clear m = (Done, \<lambda>_. None)"

fun spec_run ::
    "('k \<Rightarrow> 'c) \<Rightarrow> ('k, 'v) table_call list \<Rightarrow> ('c \<Rightarrow> 'v option) \<Rightarrow> 'v table_return list \<times> ('c \<Rightarrow> 'v option)" where
  "spec_run key [] m = ([], m)"
| "spec_run key (c # cs) m =
     (let (r, m) = spec_step key c m; (rs, m) = spec_run key cs m in (r # rs, m))"

lemma set_map_insert: "map_find lt k t = None \<Longrightarrow> set (map_insert lt k v t) = insert (k, v) (set t)"
proof (induction t)
  case (Cons e t)
  then show ?case by (cases e) (auto split: if_splits)
qed simp

section \<open>The contract of the comparison, and what it gives\<close>

text \<open>
  \<open>key\<close> is what the comparison looks at: two keys neither of which is less are the same entry.
\<close>

locale key_order =
  fixes lt :: "'k \<Rightarrow> 'k \<Rightarrow> bool"
    and key :: "'k \<Rightarrow> 'c"
  assumes lt_irrefl: "\<not> lt a a"
    and lt_trans: "lt a b \<Longrightarrow> lt b c \<Longrightarrow> lt a c"
    and lt_key: "\<not> lt a b \<and> \<not> lt b a \<longleftrightarrow> key a = key b"
begin

text \<open>The abstract value of a table: a map from key identities to values.\<close>

definition abs_map :: "('k, 'v) table \<Rightarrow> 'c \<Rightarrow> 'v option" where
  "abs_map t = map_of (map (\<lambda>(k, v). (key k, v)) t)"

definition wf_table :: "('k, 'v) table \<Rightarrow> bool" where
  "wf_table t \<longleftrightarrow> sorted_wrt lt (map fst t)"

lemma wf_Nil [simp]: "wf_table []"
  by (simp add: wf_table_def)

lemma wf_Cons: "wf_table (e # t) \<longleftrightarrow> (\<forall>k\<in>fst ` set t. lt (fst e) k) \<and> wf_table t"
  by (auto simp: wf_table_def)

lemma abs_map_Nil [simp]: "abs_map [] = (\<lambda>_. None)"
  by (simp add: abs_map_def)

lemma abs_map_Cons [simp]: "abs_map ((k, v) # t) = (abs_map t)(key k \<mapsto> v)"
  by (simp add: abs_map_def)

lemma lt_either: "lt a b \<or> lt b a \<longleftrightarrow> key a \<noteq> key b"
  using lt_key by blast

lemma lt_key_neq: "lt a b \<Longrightarrow> key a \<noteq> key b"
  using lt_either by blast

lemma map_find_abs [table_simps]: "map_find lt k t = abs_map t (key k)"
proof (induction t)
  case (Cons e t)
  then show ?case using lt_either[of k "fst e"] by (cases e) auto
qed simp

lemma abs_map_insert [table_simps]:
  "abs_map t (key k) = None \<Longrightarrow> abs_map (map_insert lt k v t) = (abs_map t)(key k \<mapsto> v)"
proof (induction t)
  case (Cons e t)
  obtain k' v' where e: "e = (k', v')" by fastforce
  with Cons.prems have "key k' \<noteq> key k" by (auto split: if_splits)
  with Cons e lt_either[of k k'] show ?case by (auto simp: fun_upd_twist split: if_splits)
qed simp

lemma fst_map_insert: "fst ` set (map_insert lt k v t) \<subseteq> insert k (fst ` set t)"
proof (induction t)
  case (Cons e t)
  then show ?case by (cases e) (simp, blast)
qed simp

lemma wf_map_insert [table_simps]: "wf_table t \<Longrightarrow> wf_table (map_insert lt k v t)"
proof (induction t)
  case (Cons e t)
  obtain k' v' where e: "e = (k', v')" by fastforce
  have h: "\<forall>k''\<in>fst ` set t. lt k' k''" and t: "wf_table t" using Cons.prems e by (auto simp: wf_Cons)
  consider "lt k k'" | "\<not> lt k k'" "lt k' k" | "\<not> lt k k'" "\<not> lt k' k" by blast
  then show ?case
  proof cases
    case 1
    with h t e show ?thesis by (auto simp: wf_Cons intro: lt_trans)
  next
    case 2
    with h have "\<forall>k''\<in>fst ` set (map_insert lt k v t). lt k' k''"
      using fst_map_insert[of k v t] by blast
    with 2 e Cons.IH[OF t] show ?thesis by (simp add: wf_Cons)
  next
    case 3
    with Cons.prems e show ?thesis by simp
  qed
qed (simp add: wf_table_def)

lemma abs_map_assign [table_simps]:
  "abs_map t (key k) \<noteq> None \<Longrightarrow> abs_map (map_assign lt k v t) = (abs_map t)(key k \<mapsto> v)"
proof (induction t)
  case (Cons e t)
  obtain k' v' where e: "e = (k', v')" by fastforce
  show ?case
  proof (cases "key k = key k'")
    case True
    with e lt_either[of k k'] show ?thesis by (auto simp: fun_eq_iff)
  next
    case False
    with Cons e lt_either[of k k'] show ?thesis by (auto simp: fun_upd_twist)
  qed
qed simp

lemma keys_map_assign [table_simps]: "map fst (map_assign lt k v t) = map fst t"
  by (induction t) auto

lemma wf_map_assign [table_simps]: "wf_table (map_assign lt k v t) \<longleftrightarrow> wf_table t"
  by (simp add: wf_table_def keys_map_assign)

lemma set_map_erase: "set (map_erase lt k t) \<subseteq> set t"
proof (induction t)
  case (Cons e t)
  then show ?case by (cases e) (simp, blast)
qed simp

lemma wf_map_erase [table_simps]: "wf_table t \<Longrightarrow> wf_table (map_erase lt k t)"
proof (induction t)
  case (Cons e t)
  then show ?case using set_map_erase[of k t] by (cases e) (auto simp: wf_Cons)
qed simp

lemma wf_head_fresh: "wf_table ((k, v) # t) \<Longrightarrow> abs_map t (key k) = None"
proof (induction t)
  case (Cons e t)
  then have "lt k (fst e)" "wf_table ((k, v) # t)" by (auto simp: wf_Cons)
  with Cons.IH lt_key_neq[of k "fst e"] show ?case by (cases e) auto
qed simp

lemma abs_map_erase [table_simps]:
  "wf_table t \<Longrightarrow> abs_map (map_erase lt k t) = (abs_map t)(key k := None)"
proof (induction t)
  case (Cons e t)
  obtain k' v' where e: "e = (k', v')" by fastforce
  show ?case
  proof (cases "key k = key k'")
    case True
    then have "abs_map t (key k) = None" using wf_head_fresh Cons.prems e by fastforce
    then show ?thesis using True e lt_either[of k k'] by (auto simp: fun_eq_iff)
  next
    case False
    moreover have "wf_table t" using Cons.prems by (simp add: wf_Cons)
    ultimately show ?thesis
      using Cons.IH e lt_either[of k k'] by (auto simp: fun_eq_iff)
  qed
qed (simp add: fun_eq_iff)

lemma abs_map_dom_card: "wf_table t \<Longrightarrow> card (dom (abs_map t)) = length t \<and> finite (dom (abs_map t))"
proof (induction t)
  case (Cons e t)
  obtain k v where e: "e = (k, v)" by fastforce
  then have "key k \<notin> dom (abs_map t)" using wf_head_fresh Cons.prems by fastforce
  with Cons e show ?case by (simp add: wf_Cons dom_fun_upd del: fun_upd_apply)
qed simp

text \<open>The four updates refine map update, restriction and deletion.\<close>

lemma table_add_refines:
  "wf_table t \<Longrightarrow> table_add lt k v t = (b, t') \<Longrightarrow>
   wf_table t' \<and> b = (abs_map t (key k) \<noteq> None) \<and>
   abs_map t' = (if b then abs_map t else (abs_map t)(key k \<mapsto> v))"
  by (auto simp: table_add_def table_simps split: if_splits)

lemma table_update_refines:
  "wf_table t \<Longrightarrow> table_update lt k v t = (b, t') \<Longrightarrow>
   wf_table t' \<and> b = (abs_map t (key k) \<noteq> None) \<and> abs_map t' = (abs_map t)(key k \<mapsto> v)"
  by (auto simp: table_update_def table_simps split: if_splits)

lemma table_update_strict_refines:
  "wf_table t \<Longrightarrow> table_update_strict lt k v t = (b, t') \<Longrightarrow>
   wf_table t' \<and> b = (abs_map t (key k) \<noteq> None) \<and>
   abs_map t' = (if b then (abs_map t)(key k \<mapsto> v) else abs_map t)"
  by (auto simp: table_update_strict_def table_simps split: if_splits)

lemma table_remove_refines:
  "wf_table t \<Longrightarrow> table_remove lt k t = (b, t') \<Longrightarrow>
   wf_table t' \<and> b = False \<and> abs_map t' = (abs_map t)(key k := None)"
  by (auto simp: table_remove_def table_simps fun_eq_iff split: if_splits)

text \<open>Iteration visits every entry once, and the lookup of a visited key succeeds.\<close>

lemma lookup_of_entry: "wf_table t \<Longrightarrow> (k, v) \<in> set t \<Longrightarrow> table_lookup lt k t = Some v"
proof (induction t)
  case (Cons e t)
  obtain k' v' where e: "e = (k', v')" by fastforce
  show ?case
  proof (cases "e = (k, v)")
    case True
    then show ?thesis by (simp add: table_lookup_def table_simps lt_irrefl)
  next
    case False
    with Cons.prems e have "(k, v) \<in> set t" "lt k' k" by (auto simp: wf_Cons)
    with Cons e show ?thesis
      by (auto simp: table_lookup_def table_simps wf_Cons dest: lt_key_neq)
  qed
qed simp

lemma lookup_Some_entry:
  "table_lookup lt k t = Some v \<Longrightarrow> \<exists>k'. (k', v) \<in> set t \<and> key k' = key k"
  by (induction t) (auto simp: table_lookup_def table_simps split: if_splits)

text \<open>A step of the table is a step of the map.\<close>

lemma table_step_refines:
  assumes "wf_table t" and "table_step lt c t = (r, t')"
  shows "wf_table t' \<and> spec_step key c (abs_map t) = (r, abs_map t')"
  using assms
proof (cases c)
  case (Add k v)
  with assms show ?thesis by (auto simp: table_add_def table_simps split: if_splits)
next
  case (Update k v)
  with assms show ?thesis by (auto simp: table_update_def table_simps split: if_splits)
next
  case (Update_Strict k v)
  with assms show ?thesis by (auto simp: table_update_strict_def table_simps split: if_splits)
next
  case (Remove k)
  with assms show ?thesis by (auto simp: table_remove_def table_simps fun_eq_iff split: if_splits)
next
  case Size
  with assms abs_map_dom_card[OF assms(1)] show ?thesis by (auto simp: table_size_def)
qed (auto simp: table_lookup_def table_clear_def table_simps)

lemma table_run_refines:
  "wf_table t \<Longrightarrow> table_run lt cs t = (rs, t') \<Longrightarrow>
   wf_table t' \<and> spec_run key cs (abs_map t) = (rs, abs_map t')"
proof (induction cs arbitrary: t rs t')
  case (Cons c cs)
  obtain r t1 where 1: "table_step lt c t = (r, t1)" by fastforce
  obtain rs1 t2 where 2: "table_run lt cs t1 = (rs1, t2)" by fastforce
  with 1 Cons.prems have eq: "rs = r # rs1" "t' = t2" by auto
  from table_step_refines[OF Cons.prems(1) 1] have "wf_table t1"
    "spec_step key c (abs_map t) = (r, abs_map t1)" by auto
  with Cons.IH[OF _ 2] eq show ?case by simp
qed simp

end

end
