(* ===== verification/Overlay_ID.thy ===== *)
theory Overlay_ID
  imports Lookup_Table
begin

text \<open>
  \<^verbatim>\<open>plnode/ds/overlay_id.h\<close>, \<^verbatim>\<open>host_address.h\<close> and \<^verbatim>\<open>message_state_index.h\<close>, the keys and values
  of the tables of a peer, with the interface \<^verbatim>\<open>plnode/protocol/code.h\<close> of the codes an overlay id is taken from. The
  contract of a code is the locale \<open>ABSCode\<close>; the order of each key type is an instance of \<open>key_order\<close>.
\<close>

section \<open>Codes\<close>

text \<open>
  A code object: \<open>encode\<close> and \<open>decode\<close> work on the state of the code (the tables of the Golay code),
  which \<open>inv\<close> describes, and may be undefined.
\<close>

locale ABSCode =
  fixes encode :: "clong \<Rightarrow> 's \<Rightarrow> (clong \<times> 's) option"
    and decode :: "clong \<Rightarrow> 's \<Rightarrow> (clong \<times> 's) option"
    and K :: nat and N :: nat
    and inv :: "'s \<Rightarrow> bool"
  assumes encode_total: "inv s \<Longrightarrow> fits K m \<Longrightarrow> \<exists>c s'. encode m s = Some (c, s') \<and> fits N c \<and> inv s'"
    and decode_encode: "inv s \<Longrightarrow> fits K m \<Longrightarrow> encode m s = Some (c, s1) \<Longrightarrow> inv s1 \<Longrightarrow> inv s2 \<Longrightarrow>
      \<exists>s3. decode c s2 = Some (m, s3) \<and> inv s3"
begin

lemma encode_inj:
  assumes "inv s" and "fits K m" and "fits K m'"
    and "encode m s = Some (c, s1)" and "encode m' s = Some (c, s2)"
  shows "m = m'"
proof -
  have "inv s1" "inv s2" using encode_total[OF assms(1,2)] encode_total[OF assms(1,3)] assms(4,5) by auto
  then obtain s3 s4 where "decode c s = Some (m, s3)" "decode c s = Some (m', s4)"
    using decode_encode assms by meson
  then show ?thesis by simp
qed

lemma encode_inv: "inv s \<Longrightarrow> fits K m \<Longrightarrow> encode m s = Some (c, s') \<Longrightarrow> inv s' \<and> fits N c"
  using encode_total[of s m] by auto

end

text \<open>A code that decodes every word of its length, as the processing of requests needs.\<close>

locale Total_ABSCode = ABSCode +
  assumes decode_total: "inv s \<Longrightarrow> fits N c \<Longrightarrow> \<exists>m s'. decode c s = Some (m, s') \<and> inv s'"
    and K_range: "0 < K \<and> K \<le> 32"
    and N_range: "22 \<le> N"
begin

lemma K_word: "sint (of_nat K :: cint) = int K"
  using K_range by (simp add: signed_of_nat signed_take_bit_int_eq_self)

end

section \<open>\<^verbatim>\<open>OverlayID\<close>\<close>

record OverlayID =
  overlay_id :: clong
  prefix_length :: cint
  MAX_LENGTH :: cint

definition OverlayID_new :: "clong \<Rightarrow> cint \<Rightarrow> cint \<Rightarrow> OverlayID" where
  "OverlayID_new i p m = \<lparr>overlay_id = i, prefix_length = p, MAX_LENGTH = m\<rparr>"

text \<open>The constructor from a pattern decodes it with the given code.\<close>

definition OverlayID_pattern ::
    "(clong \<Rightarrow> 's \<Rightarrow> (clong \<times> 's) option) \<Rightarrow> nat \<Rightarrow> clong \<Rightarrow> 's \<Rightarrow> (OverlayID \<times> 's) option" where
  "OverlayID_pattern decode K pattern s =
     map_option (\<lambda>(i, s). (OverlayID_new i (of_nat K) (of_nat K), s)) (decode pattern s)"

text \<open>The accessors go through \<^verbatim>\<open>int\<close>: the id is cut to 32 bits, and extended again on setting.\<close>

definition GetOverlay_id :: "OverlayID \<Rightarrow> cint" where
  "GetOverlay_id oid = ucast (overlay_id oid)"

definition SetOverlay_id :: "cint \<Rightarrow> OverlayID \<Rightarrow> OverlayID" where
  "SetOverlay_id i oid = oid\<lparr>overlay_id := scast i\<rparr>"

text \<open>The ids that survive the way through \<^verbatim>\<open>int\<close>.\<close>

definition int_key :: "OverlayID \<Rightarrow> bool" where
  "int_key key \<longleftrightarrow> scast (GetOverlay_id key) = overlay_id key"

text \<open>A shift by a count outside 0 to 31 is undefined.\<close>

definition getBitAtPosition :: "cint \<Rightarrow> cint \<Rightarrow> cint option" where
  "getBitAtPosition value n =
     (if 0 \<le> sint n \<and> sint n < 32
      then Some (signed_drop_bit (unat n) (value AND push_bit (unat n) 1) AND 1) else None)"

definition GetBitAtPosition :: "OverlayID \<Rightarrow> cint \<Rightarrow> cint option" where
  "GetBitAtPosition oid n = getBitAtPosition (ucast (overlay_id oid)) n"

definition ToggleBitAtPosition :: "OverlayID \<Rightarrow> cint \<Rightarrow> OverlayID option" where
  "ToggleBitAtPosition oid n =
     (if 0 \<le> sint n \<and> sint n < 32
      then Some (oid\<lparr>overlay_id := overlay_id oid XOR scast (push_bit (unat n) 1 :: cint)\<rparr>) else None)"

text \<open>The loop of \<^verbatim>\<open>GetMatchedPrefixLength\<close>, from \<^verbatim>\<open>position\<close> down; it stops at 0 without comparing it.\<close>

fun match_position :: "OverlayID \<Rightarrow> OverlayID \<Rightarrow> nat \<Rightarrow> nat option" where
  "match_position a b 0 = Some 0"
| "match_position a b (Suc p) =
     (case (GetBitAtPosition a (of_nat (Suc p)), GetBitAtPosition b (of_nat (Suc p))) of
        (Some x, Some y) \<Rightarrow> if x \<noteq> y then Some (Suc p) else match_position a b p
      | _ \<Rightarrow> None)"

definition GetMatchedPrefixLength :: "OverlayID \<Rightarrow> OverlayID \<Rightarrow> int option" where
  "GetMatchedPrefixLength a b =
     (let position = sint (MAX_LENGTH a) - 1 in
      if position > 0
      then map_option (\<lambda>p. sint (MAX_LENGTH a) - int p - 1) (match_position a b (nat position))
      else Some (sint (MAX_LENGTH a) - position - 1))"

definition oid_eq :: "OverlayID \<Rightarrow> OverlayID \<Rightarrow> bool" where   \<comment> \<open>\<^verbatim>\<open>operator==\<close>\<close>
  "oid_eq a b = (if prefix_length a \<noteq> prefix_length b then False
     else if overlay_id a \<noteq> overlay_id b then False else True)"

definition oid_less :: "OverlayID \<Rightarrow> OverlayID \<Rightarrow> bool" where   \<comment> \<open>\<^verbatim>\<open>operator<\<close>\<close>
  "oid_less a b \<longleftrightarrow> overlay_id a <s overlay_id b"

fun digit_loop :: "nat \<Rightarrow> nat" where
  "digit_loop number = (if number \<noteq> 0 then Suc (digit_loop (number div 10)) else 0)"

declare digit_loop.simps [simp del]

definition oid_numDigits :: "cint \<Rightarrow> nat" where
  "oid_numDigits number = digit_loop (unat number)"

definition oid_getStringSize :: "OverlayID \<Rightarrow> nat" where
  "oid_getStringSize oid = nat (sint (MAX_LENGTH oid)) + 1 + oid_numDigits (prefix_length oid)"

text \<open>The characters of the bits, most significant first, written by the loop of \<^verbatim>\<open>toString\<close>.\<close>

definition oid_bits :: "OverlayID \<Rightarrow> cstring option" where
  "oid_bits oid = those (map (\<lambda>i. map_option (\<lambda>b. 48 + ucast b) (GetBitAtPosition oid (of_nat i)))
     (rev [0..<nat (sint (MAX_LENGTH oid))]))"

definition oid_toString :: "OverlayID \<Rightarrow> buffer option" where
  "oid_toString oid =
     Option.bind (oid_bits oid) (\<lambda>bits.
     Option.bind (write_at 0 bits (alloc (oid_getStringSize oid + 1))) (\<lambda>result.
     Option.bind (write_at (length bits) (58 # print_int (prefix_length oid) @ [0]) result) (\<lambda>result.
     write_at (oid_getStringSize oid) [0] result)))"

definition oid_toString_append :: "OverlayID \<Rightarrow> cstring \<Rightarrow> cstring option" where
  "oid_toString_append oid result = map_option (\<lambda>bits. result @ bits) (oid_bits oid)"

section \<open>\<^verbatim>\<open>HostAddress\<close>\<close>

record HostAddress =
  hostName :: cstring
  hostPort :: cint

definition HostAddress_default :: HostAddress where
  "HostAddress_default = \<lparr>hostName = [], hostPort = - 1\<rparr>"

definition HostAddress_new :: "cstring \<Rightarrow> cint \<Rightarrow> HostAddress" where
  "HostAddress_new n p = \<lparr>hostName = n, hostPort = p\<rparr>"

definition host_less :: "HostAddress \<Rightarrow> HostAddress \<Rightarrow> bool" where
  "host_less a b =
     (let minLength = length (hostName a);
          minLength = (if minLength > length (hostName b) then length (hostName b) else minLength)
      in if strncmp minLength (hostName a) (hostName b) < 0 then True else hostPort a <s hostPort b)"

definition host_eq :: "HostAddress \<Rightarrow> HostAddress \<Rightarrow> bool" where
  "host_eq a b =
     (let minLength = length (hostName a);
          minLength = (if minLength > length (hostName b) then length (hostName b) else minLength)
      in strncmp minLength (hostName a) (hostName b) = 0 \<and> hostPort a = hostPort b)"

definition host_numDigits :: "cint \<Rightarrow> nat" where
  "host_numDigits number = (if number = 0 then 1 else digit_loop (unat number))"

definition host_getStringSize :: "HostAddress \<Rightarrow> nat" where
  "host_getStringSize a = length (hostName a) + 1 + host_numDigits (hostPort a)"

text \<open>\<^verbatim>\<open>sprintf("%s:%d")\<close> prints the name up to its first zero byte.\<close>

definition host_toString :: "HostAddress \<Rightarrow> buffer option" where
  "host_toString a =
     Option.bind (write_at 0 (takeWhile (\<lambda>c. c \<noteq> 0) (hostName a) @ 58 # print_int (hostPort a) @ [0])
       (alloc (host_getStringSize a + 1))) (\<lambda>result.
     write_at (host_getStringSize a) [0] result)"

section \<open>\<^verbatim>\<open>MessageStateIndex\<close>\<close>

record MessageStateIndex =
  name_hash :: cint
  message_seq_no :: cint

definition MessageStateIndex_default :: MessageStateIndex where
  "MessageStateIndex_default = \<lparr>name_hash = - 1, message_seq_no = - 1\<rparr>"

definition index_less :: "MessageStateIndex \<Rightarrow> MessageStateIndex \<Rightarrow> bool" where
  "index_less a b = (if name_hash a \<noteq> name_hash b then name_hash a <s name_hash b
     else message_seq_no a <s message_seq_no b)"

definition index_eq :: "MessageStateIndex \<Rightarrow> MessageStateIndex \<Rightarrow> bool" where
  "index_eq a b \<longleftrightarrow> name_hash a = name_hash b \<and> message_seq_no a = message_seq_no b"

section \<open>The orders of the keys\<close>

lemma sless_sint: "(a :: 'a::len word) <s b \<longleftrightarrow> sint a < sint b"
  by (simp add: word_sless_alt)

lemma sint_eq_iff: "sint (a :: 'a::len word) = sint b \<longleftrightarrow> a = b"
  by (fact word_eq_iff_signed[symmetric])

interpretation oid: key_order oid_less overlay_id
  by unfold_locales (auto simp: oid_less_def sless_sint not_less order.eq_iff[symmetric] sint_eq_iff)

interpretation name: key_order str_less "\<lambda>s. s"
  by unfold_locales (auto simp: str_less_irrefl intro: str_less_trans dest: str_less_total)

interpretation index: key_order index_less "\<lambda>i. (name_hash i, message_seq_no i)"
  by unfold_locales (auto simp: index_less_def sless_sint not_less order.eq_iff[symmetric] sint_eq_iff split: if_splits)

section \<open>Tables of a peer are finite maps\<close>

text \<open>
  A table keyed by overlay ids (routing table, proactive cache, cache index) behaves as a
  finite map: any sequence of its operations, from the empty table, returns what the same
  operations return on a map from 64-bit ids to values, where ids that differ only in
  their prefix length are one key; its size is the number of keys, and its entries stay
  strictly sorted.
\<close>

theorem oid_table_is_map:
  "\<exists>t. table_run oid_less cs table_empty = (fst (spec_run overlay_id cs (\<lambda>_. None)), t) \<and>
    oid.abs_map t = snd (spec_run overlay_id cs (\<lambda>_. None)) \<and>
    sorted_wrt oid_less (map fst t) \<and> table_size t = card (dom (oid.abs_map t))"
proof -
  obtain rs t where t: "table_run oid_less cs table_empty = (rs, t)" by fastforce
  from oid.table_run_refines[OF _ this]
  have "oid.wf_table t" "spec_run overlay_id cs (\<lambda>_. None) = (rs, oid.abs_map t)"
    by (auto simp: table_empty_def)
  with t oid.abs_map_dom_card[of t] show ?thesis
    by (simp add: oid.wf_table_def table_size_def)
qed

section \<open>Prefix matching\<close>

lemma length_takeWhile_eq: "length (takeWhile P xs) = length xs \<longleftrightarrow> (\<forall>x \<in> set xs. P x)"
  by (induction xs) auto

lemma bit_getBitAtPosition:
  assumes "i < 32"
  shows "getBitAtPosition value (of_nat i) = Some (if bit value i then 1 else 0)"
proof -
  have i: "sint (of_nat i :: cint) = int i" "unat (of_nat i :: cint) = i"
    using assms by (simp_all add: signed_of_nat signed_take_bit_int_eq_self unat_of_nat)
  have "signed_drop_bit i (value AND push_bit i 1) AND 1 = (if bit value i then 1 else 0)"
    using assms
    by (intro bit_word_eqI)
       (auto simp: bit_signed_drop_bit_iff bit_and_iff bit_two_power bit_1_iff not_le not_less)
  with assms i show ?thesis by (simp add: getBitAtPosition_def)
qed

lemma GetBitAtPosition_bit:
  "i < 32 \<Longrightarrow> GetBitAtPosition oid (of_nat i) = Some (if bit (overlay_id oid) i then 1 else 0)"
  by (simp add: GetBitAtPosition_def bit_getBitAtPosition bit_ucast_iff)

text \<open>The number of leading bits, from bit \<open>n - 1\<close> down to bit 1, that two ids share.\<close>

definition common_prefix :: "nat \<Rightarrow> OverlayID \<Rightarrow> OverlayID \<Rightarrow> nat" where
  "common_prefix n a b =
     length (takeWhile (\<lambda>i. bit (overlay_id a) i = bit (overlay_id b) i) (rev [1..<n]))"

lemma match_position_eq:
  "p < 32 \<Longrightarrow> match_position a b p = Some (p - common_prefix (Suc p) a b) \<and> common_prefix (Suc p) a b \<le> p"
proof (induction p)
  case (Suc p)
  then show ?case
    by (auto simp: GetBitAtPosition_bit common_prefix_def simp del: of_nat_Suc split: if_splits)
qed (simp add: common_prefix_def)

lemma GetMatchedPrefixLength_eq:
  assumes "sint (MAX_LENGTH a) = int n" and "0 < n" and "n \<le> 32"
  shows "GetMatchedPrefixLength a b = Some (int (common_prefix n a b)) \<and> common_prefix n a b < n"
proof -
  obtain p where p: "n = Suc p" "sint (MAX_LENGTH a) = int (Suc p)" "p < 32"
    using assms by (cases n) auto
  have m: "match_position a b p = Some (p - common_prefix n a b)" "common_prefix n a b \<le> p"
    using match_position_eq[OF p(3), of a b] p(1) by auto
  have "GetMatchedPrefixLength a b = Some (int (common_prefix n a b))"
  proof (cases "p = 0")
    case True
    with p show ?thesis by (simp add: GetMatchedPrefixLength_def common_prefix_def)
  next
    case False
    with m p show ?thesis by (simp add: GetMatchedPrefixLength_def of_nat_diff)
  qed
  with m(2) p(1) show ?thesis by simp
qed

lemma common_prefix_full:
  "0 < n \<Longrightarrow> common_prefix n a b = n - 1 \<longleftrightarrow> (\<forall>i \<in> {1..<n}. bit (overlay_id a) i = bit (overlay_id b) i)"
  using length_takeWhile_eq[of _ "rev [1..<n]"] by (simp add: common_prefix_def)

text \<open>
  For an id length of 1 to 32 bits the prefix loop is defined and returns the number of
  leading bits the two ids share, among all bits but the last: bit 0 is never compared, so the
  result is below the length, and it equals the length minus one exactly when the ids agree on
  bits 1 and up.
\<close>

theorem matched_prefix_length:
  assumes "sint (MAX_LENGTH a) = int n" and "0 < n" and "n \<le> 32"
  shows "GetMatchedPrefixLength a b = Some (int (common_prefix n a b)) \<and> common_prefix n a b < n \<and>
    (common_prefix n a b = n - 1 \<longleftrightarrow> (\<forall>i \<in> {1..<n}. bit (overlay_id a) i = bit (overlay_id b) i))"
  using GetMatchedPrefixLength_eq[OF assms] common_prefix_full[OF assms(2)] by simp

lemma matched_prefix_length_witness:
  "GetMatchedPrefixLength (OverlayID_new 0b101101 6 6) (OverlayID_new 0b101011 6 6) = Some 3"
proof -
  have "common_prefix 6 (OverlayID_new 0b101101 6 6) (OverlayID_new 0b101011 6 6) = 3"
    by (simp add: common_prefix_def OverlayID_new_def upt_rec)
  with matched_prefix_length[of "OverlayID_new 0b101101 6 6" 6 "OverlayID_new 0b101011 6 6"]
  show ?thesis by (simp add: OverlayID_new_def)
qed

section \<open>Printing\<close>

lemma digit_loop_print: "0 < n \<Longrightarrow> digit_loop n = length (print_nat n)"
proof (induction n rule: digit_loop.induct)
  case (1 n)
  show ?case
  proof (cases "n < 10")
    case True
    with 1 show ?thesis by (simp add: digit_loop.simps[of n] digit_loop.simps[of 0] print_nat.simps[of n])
  next
    case False
    with 1 show ?thesis by (simp add: digit_loop.simps[of n] print_nat.simps[of n])
  qed
qed

lemma print_nat_no_zero: "0 \<notin> set (print_nat n)"
  using print_nat_digits[of 0 n] by (auto simp: is_digit_def)

lemma write_at_alloc:
  "length pre = off \<Longrightarrow> off + length bs \<le> n \<Longrightarrow>
   write_at off bs (map Some pre @ alloc (n - off)) = Some (map Some (pre @ bs) @ alloc (n - (off + length bs)))"
  by (simp add: write_at_def alloc_def)

lemma write_at_overflow: "length buf < off + length bs \<Longrightarrow> write_at off bs buf = None"
  by (simp add: write_at_def)

definition bit_chars :: "OverlayID \<Rightarrow> nat \<Rightarrow> cstring" where
  "bit_chars oid n = map (\<lambda>i. if bit (overlay_id oid) i then 49 else 48) (rev [0..<n])"

lemma those_map_Some: "(\<And>x. x \<in> set xs \<Longrightarrow> f x = Some (g x)) \<Longrightarrow> those (map f xs) = Some (map g xs)"
  by (induction xs) auto

lemma oid_bits_eq:
  "nat (sint (MAX_LENGTH oid)) = n \<Longrightarrow> n \<le> 32 \<Longrightarrow> oid_bits oid = Some (bit_chars oid n)"
  unfolding oid_bits_def bit_chars_def
  by (rule trans[OF arg_cong[where f = those] those_map_Some[where g = "\<lambda>i. if bit (overlay_id oid) i then 49 else 48"]])
     (auto simp: GetBitAtPosition_bit)

lemma c_string_terminated: "0 \<notin> set bs \<Longrightarrow> c_string (map Some (bs @ 0 # r) @ rest) = Some bs"
  using c_string_append[of bs "Some 0 # map Some r @ rest"] by simp

lemma rewrite_last_zero: "length bs = n \<Longrightarrow> write_at n [0] (map Some (bs @ [0])) = Some (map Some (bs @ [0]))"
  by (auto simp: write_at_def)

lemma sint_nonneg_uint: "0 \<le> sint (w :: 'a::len word) \<Longrightarrow> sint w = uint w"
proof -
  assume "0 \<le> sint w"
  moreover have "sint w < 2 ^ LENGTH('a)"
    by (rule less_le_trans[OF sint_lt]) (simp add: power_increasing)
  ultimately show "sint w = uint w" by (simp add: uint_sint take_bit_int_eq_self)
qed

lemma print_int_nonneg: "0 \<le> sint w \<Longrightarrow> print_int w = print_nat (unat w)"
  by (simp add: print_int_def sint_nonneg_uint)

text \<open>
  Printing an overlay id of at most 32 bits: for a positive prefix length the buffer holds
  the bits, a colon and the decimal prefix length, ended by a zero byte, and no store leaves
  it; a prefix length of 0, to which \<^verbatim>\<open>numDigits\<close> assigns no digit, makes the terminator
  land behind the buffer.
\<close>

theorem oid_toString_ok:
  assumes "sint (MAX_LENGTH oid) = int n" and "n \<le> 32" and "0 \<le> sint (prefix_length oid)"
  shows "oid_toString oid =
    (if prefix_length oid = 0 then None
     else Some (map Some (bit_chars oid n @ 58 # print_nat (unat (prefix_length oid)) @ [0])))"
proof -
  let ?d = "print_nat (unat (prefix_length oid))" and ?b = "bit_chars oid n"
  let ?sz = "n + 1 + digit_loop (unat (prefix_length oid))"
  have sz: "oid_getStringSize oid = ?sz" using assms(1)
    by (simp add: oid_getStringSize_def oid_numDigits_def)
  have b: "oid_bits oid = Some ?b" "length ?b = n"
    using oid_bits_eq[of oid n] assms by (simp_all add: bit_chars_def)
  have w: "write_at 0 ?b (alloc (?sz + 1)) = Some (map Some ?b @ alloc (?sz + 1 - n))"
    using write_at_alloc[of "[]" 0 ?b "?sz + 1"] b(2) by simp
  show ?thesis
  proof (cases "prefix_length oid = 0")
    case True
    have "write_at n (58 # print_int 0 @ [0]) (map Some ?b @ alloc (?sz + 1 - n)) = None"
      by (rule write_at_overflow) (simp add: True b(2) digit_loop.simps[of 0] print_int_def print_nat.simps[of 0])
    with w b sz True show ?thesis by (simp add: oid_toString_def)
  next
    case False
    then have d: "digit_loop (unat (prefix_length oid)) = length ?d"
      using digit_loop_print[of "unat (prefix_length oid)"] by (simp add: unat_gt_0)
    have "write_at n (58 # ?d @ [0]) (map Some ?b @ alloc (?sz + 1 - n)) = Some (map Some (?b @ 58 # ?d @ [0]))"
      using write_at_alloc[of ?b n "58 # ?d @ [0]" "?sz + 1"] b(2) d by simp
    moreover have "write_at ?sz [0] (map Some ((?b @ 58 # ?d) @ [0])) = Some (map Some ((?b @ 58 # ?d) @ [0]))"
      by (rule rewrite_last_zero) (simp add: b(2) d)
    ultimately show ?thesis
      using w b sz False assms(3) by (simp add: oid_toString_def print_int_nonneg)
  qed
qed

lemma oid_toString_ok_witness:
  "oid_toString (OverlayID_new 5 3 3) = Some (map Some [49, 48, 49, 58, 51, 0]) \<and>
   oid_toString (OverlayID_new 5 0 3) = None"
  using oid_toString_ok[of "OverlayID_new 5 3 3" 3] oid_toString_ok[of "OverlayID_new 5 0 3" 3]
  by (simp add: OverlayID_new_def bit_chars_def upt_rec print_nat.simps[of 3])

text \<open>
  Printing a host address with a non-negative port fills its buffer exactly with the name,
  a colon, the port and the zero byte.
\<close>

theorem host_toString_ok:
  assumes "0 \<notin> set (hostName a)" and "0 \<le> sint (hostPort a)"
  shows "host_toString a = Some (map Some (hostName a @ 58 # print_nat (unat (hostPort a)) @ [0]))"
proof -
  let ?s = "hostName a @ 58 # print_nat (unat (hostPort a))"
  have "host_numDigits (hostPort a) = length (print_nat (unat (hostPort a)))"
    using digit_loop_print[of "unat (hostPort a)"]
    by (auto simp: host_numDigits_def print_nat.simps[of 0] unat_gt_0)
  then have sz: "host_getStringSize a = length ?s" by (simp add: host_getStringSize_def)
  have "takeWhile (\<lambda>c. c \<noteq> 0) (hostName a) = hostName a"
    using assms(1) by (simp add: takeWhile_eq_all_conv) metis
  with assms(2) have t: "takeWhile (\<lambda>c. c \<noteq> 0) (hostName a) @ 58 # print_int (hostPort a) @ [0] = ?s @ [0]"
    by (simp add: print_int_nonneg)
  have "write_at 0 (?s @ [0]) (alloc (length ?s + 1)) = Some (map Some (?s @ [0]))"
    using write_at_alloc[of "[]" 0 "?s @ [0]" "length ?s + 1"] by simp
  with rewrite_last_zero[of ?s "length ?s"] t sz show ?thesis
    by (simp only: host_toString_def bind.bind_lunit) simp
qed

lemma host_toString_ok_witness:
  "host_toString (HostAddress_new [104, 49] 80) = Some (map Some [104, 49, 58, 56, 48, 0])"
  using host_toString_ok[of "HostAddress_new [104, 49] 80"]
  by (simp add: HostAddress_new_def print_nat.simps[of 80] print_nat.simps[of 8])

section \<open>Comparing host addresses\<close>

lemma strncmp_eq_0:
  "0 \<notin> set xs \<Longrightarrow> 0 \<notin> set ys \<Longrightarrow> n \<le> length xs \<Longrightarrow> n \<le> length ys \<Longrightarrow>
   strncmp n xs ys = 0 \<longleftrightarrow> take n xs = take n ys"
proof (induction n xs ys rule: strncmp.induct)
  case (2 n xs ys)
  then obtain x xs' y ys' where "xs = x # xs'" "ys = y # ys'"
    by (metis Suc_le_length_iff)
  with 2 show ?case by (auto simp: word_uint_eq_iff)
qed simp

text \<open>
  The equality of host addresses compares names only up to the shorter one: two addresses
  are equal exactly when the ports agree and one name is a prefix of the other. So the
  relation is not transitive, and its order is not asymmetric.
\<close>

theorem host_eq_prefix:
  assumes "0 \<notin> set (hostName a)" and "0 \<notin> set (hostName b)"
  shows "host_eq a b \<longleftrightarrow> hostPort a = hostPort b \<and>
    (\<exists>s. hostName a = hostName b @ s \<or> hostName b = hostName a @ s)"
proof -
  let ?n = "min (length (hostName a)) (length (hostName b))"
  have "host_eq a b \<longleftrightarrow> strncmp ?n (hostName a) (hostName b) = 0 \<and> hostPort a = hostPort b"
    by (auto simp: host_eq_def Let_def min_def)
  moreover have "strncmp ?n (hostName a) (hostName b) = 0 \<longleftrightarrow> take ?n (hostName a) = take ?n (hostName b)"
    using assms by (intro strncmp_eq_0) auto
  moreover have "take ?n (hostName a) = take ?n (hostName b) \<longleftrightarrow>
      (\<exists>s. hostName a = hostName b @ s \<or> hostName b = hostName a @ s)"
  proof (cases "length (hostName a) \<le> length (hostName b)")
    case True
    then show ?thesis by (auto simp: min_def) (metis append_take_drop_id)
  next
    case False
    then show ?thesis by (auto simp: min_def) (metis append_take_drop_id)
  qed
  ultimately show ?thesis by blast
qed

lemma host_eq_prefix_witness:
  "host_eq (HostAddress_new [97] 5) (HostAddress_new [97, 98] 5)"
  using host_eq_prefix[of "HostAddress_new [97] 5" "HostAddress_new [97, 98] 5"]
  by (simp add: HostAddress_new_def)

lemma host_order_not_asymmetric:
  "host_less (HostAddress_new [97] 5) (HostAddress_new [98] 3) \<and>
   host_less (HostAddress_new [98] 3) (HostAddress_new [97] 5)"
  by (simp add: host_less_def HostAddress_new_def sless_sint)

lemma host_eq_not_transitive:
  "host_eq (HostAddress_new [97] 5) (HostAddress_new [] 5) \<and>
   host_eq (HostAddress_new [] 5) (HostAddress_new [98] 5) \<and>
   \<not> host_eq (HostAddress_new [97] 5) (HostAddress_new [98] 5)"
  by (simp add: host_eq_def HostAddress_new_def)

end
