(* ===== verification/Wire.thy ===== *)
theory Wire
  imports Overlay_ID "HOL-Library.Monad_Syntax"
begin

text \<open>
  The primitives of the wire format that every \<^verbatim>\<open>serialize\<close> and \<^verbatim>\<open>deserialize\<close> of
  \<^verbatim>\<open>plnode/message\<close> is written with: \<^verbatim>\<open>memcpy(buffer + offset, ...); offset += ...\<close>. A
  writer is a list of chunks for \<open>write_chunks\<close>. A reader takes what is left of the buffer from
  its offset on, and returns the value with what is left behind it; a read past the end is
  undefined (no reader looks at \<^verbatim>\<open>buffer_length\<close>). The locale \<open>wire_field\<close> is the contract
  of an encoder and its reader.
\<close>

section \<open>Readers\<close>

definition rd :: "nat \<Rightarrow> buffer \<Rightarrow> (byte list \<times> buffer) option" where
  "rd n b = map_option (\<lambda>bs. (bs, drop n b)) (read_at 0 n b)"

definition rd_char :: "buffer \<Rightarrow> (byte \<times> buffer) option" where
  "rd_char b = map_option (map_prod hd id) (rd 1 b)"

definition rd_int :: "buffer \<Rightarrow> (cint \<times> buffer) option" where
  "rd_int b = map_option (map_prod bytes_int id) (rd 4 b)"

definition rd_double :: "buffer \<Rightarrow> (clong \<times> buffer) option" where
  "rd_double b = map_option (map_prod bytes_double id) (rd 8 b)"

primrec rd_many :: "(buffer \<Rightarrow> ('a \<times> buffer) option) \<Rightarrow> nat \<Rightarrow> buffer \<Rightarrow> ('a list \<times> buffer) option" where
  "rd_many dec 0 b = Some ([], b)"
| "rd_many dec (Suc n) b =
     do { (x, b) \<leftarrow> dec b; (xs, b) \<leftarrow> rd_many dec n b; Some (x # xs, b) }"

text \<open>A length and a loop over the characters; a negative length is an empty loop.\<close>

definition rd_string :: "buffer \<Rightarrow> (cstring \<times> buffer) option" where
  "rd_string b = do { (n, b) \<leftarrow> rd_int b; rd_many rd_char (nat (sint n)) b }"

text \<open>Three integers into the fields of an existing overlay id.\<close>

definition rd_oid :: "OverlayID \<Rightarrow> buffer \<Rightarrow> (OverlayID \<times> buffer) option" where
  "rd_oid oid b =
     do { (o_id, b) \<leftarrow> rd_int b; (p_len, b) \<leftarrow> rd_int b; (m_len, b) \<leftarrow> rd_int b;
          Some ((SetOverlay_id o_id oid)\<lparr>prefix_length := p_len, MAX_LENGTH := m_len\<rparr>, b) }"

section \<open>Writers\<close>

definition string_chunks :: "cstring \<Rightarrow> byte list list" where
  "string_chunks s = int_bytes (of_nat (length s)) # map (\<lambda>ch. [ch]) s"

definition oid_chunks :: "OverlayID \<Rightarrow> byte list list" where
  "oid_chunks oid =
     [int_bytes (GetOverlay_id oid), int_bytes (prefix_length oid), int_bytes (MAX_LENGTH oid)]"

text \<open>
  \<^verbatim>\<open>const char* p = x.GetHostName().c_str()\<close> points into a temporary copy that is gone when
  \<^verbatim>\<open>p\<close> is read. With reference-counted strings (\<open>cow\<close>) the copy shares its buffer with the
  member and the read finds the characters; otherwise it is undefined.
\<close>

definition temp_chars :: "bool \<Rightarrow> cstring \<Rightarrow> cstring option" where
  "temp_chars cow s = (if cow \<or> s = [] then Some s else None)"

section \<open>The contract of a field\<close>

locale wire_field =
  fixes enc :: "'a \<Rightarrow> byte list"
    and dec :: "buffer \<Rightarrow> ('a \<times> buffer) option"
    and ok :: "'a \<Rightarrow> bool"
  assumes dec_enc: "ok x \<Longrightarrow> dec (map Some (enc x) @ rest) = Some (x, rest)"
begin

lemma dec_enc_end: "ok x \<Longrightarrow> dec (map Some (enc x)) = Some (x, [])"
  using dec_enc[of x "[]"] by simp

lemma dec_many:
  "list_all ok xs \<Longrightarrow>
   rd_many dec (length xs) (map Some (concat (map enc xs)) @ rest) = Some (xs, rest)"
proof (induction xs)
  case (Cons x xs)
  then have "ok x" "list_all ok xs" by auto
  from dec_enc[OF this(1), of "map Some (concat (map enc xs)) @ rest"] Cons.IH[OF this(2)]
  show ?case by simp
qed simp

lemma enc_inj: "ok x \<Longrightarrow> ok y \<Longrightarrow> enc x = enc y \<Longrightarrow> x = y"
  using dec_enc[of x "[]"] dec_enc[of y "[]"] by simp

end

lemma rd_prefix: "length bs = n \<Longrightarrow> rd n (map Some bs @ rest) = Some (bs, rest)"
  by (auto simp: rd_def read_at_def list_all_iff comp_def)

interpretation int_field: wire_field int_bytes rd_int "\<lambda>_. True"
  by unfold_locales (simp add: rd_int_def rd_prefix)

interpretation char_field: wire_field "\<lambda>c. [c]" rd_char "\<lambda>_. True"
proof
  show "rd_char (map Some [c] @ rest) = Some (c, rest)" for c rest
    using rd_prefix[of "[c]" 1 rest] by (simp add: rd_char_def)
qed

interpretation double_field: wire_field double_bytes rd_double "\<lambda>_. True"
  by unfold_locales (simp add: rd_double_def rd_prefix)

definition string_ok :: "cstring \<Rightarrow> bool" where
  "string_ok s \<longleftrightarrow> length s < 2 ^ 31"

lemma sint_of_nat_small: "n < 2 ^ 31 \<Longrightarrow> sint (of_nat n :: cint) = int n"
  by (simp add: signed_of_nat signed_take_bit_int_eq_self)

lemma concat_singletons [simp]: "concat (map (\<lambda>c. [c]) s) = s"
  by (induction s) auto

interpretation string_field: wire_field "\<lambda>s. concat (string_chunks s)" rd_string string_ok
proof
  fix s rest
  assume "string_ok s"
  then show "rd_string (map Some (concat (string_chunks s)) @ rest) = Some (s, rest)"
    using char_field.dec_many[of s rest]
    by (simp add: rd_string_def string_chunks_def int_field.dec_enc string_ok_def sint_of_nat_small list_all_iff)
qed

interpretation oid_field: wire_field "\<lambda>oid. concat (oid_chunks oid)" "rd_oid old" int_key
  by unfold_locales
     (auto simp: rd_oid_def oid_chunks_def int_field.dec_enc SetOverlay_id_def int_key_def)

lemmas field_simps_wire [wire_simps] =
  int_field.dec_enc[OF TrueI] char_field.dec_enc[OF TrueI] double_field.dec_enc[OF TrueI]
  string_field.dec_enc oid_field.dec_enc
  int_field.dec_enc_end[OF TrueI] double_field.dec_enc_end[OF TrueI]
  string_field.dec_enc_end oid_field.dec_enc_end

lemma length_string_chunks [simp]: "length (concat (string_chunks s)) = 4 + length s"
  by (simp add: string_chunks_def)

lemma length_oid_chunks [simp]: "length (concat (oid_chunks oid)) = 12"
  by (simp add: oid_chunks_def)

lemma rd_char_Cons [wire_simps]: "rd_char (Some c # rest) = Some (c, rest)"
  using char_field.dec_enc[of c rest] by simp

end
