(* ===== verification/Messages.thy ===== *)
theory Messages
  imports Wire
begin

text \<open>
  \<^verbatim>\<open>plnode/message/message.h\<close> and the messages between peers, \<^verbatim>\<open>plnode/message/p2p\<close>. A
  message class is a record; a derived class extends the record of \<^verbatim>\<open>ABSMessage\<close>, so the code
  of the base class is polymorphic in the extension. \<open>serialize\<close> fills a buffer of the size
  \<^verbatim>\<open>getSize\<close> computes, \<open>deserialize\<close> overwrites the fields of an existing object. Printing
  is left out.
\<close>

section \<open>Message types\<close>

abbreviation "MSG_PEER_CONFIG \<equiv> 1 :: byte"
abbreviation "MSG_PEER_START \<equiv> 2 :: byte"
abbreviation "MSG_PEER_CHANGE_STATUS \<equiv> 3 :: byte"
abbreviation "MSG_PEER_INIT \<equiv> 4 :: byte"
abbreviation "MSG_PEER_INITIATE_GET \<equiv> 5 :: byte"
abbreviation "MSG_PEER_INITIATE_PUT \<equiv> 6 :: byte"
abbreviation "MSG_PEER_FORCE_LOG \<equiv> 7 :: byte"
abbreviation "MSG_DYN_CHANGE_STATUS \<equiv> 11 :: byte"
abbreviation "MSG_START_GENERATE_NAME \<equiv> 31 :: byte"
abbreviation "MSG_START_LOOKUP_NAME \<equiv> 32 :: byte"
abbreviation "MSG_PLEXUS_PUT \<equiv> 41 :: byte"
abbreviation "MSG_PLEXUS_GET \<equiv> 42 :: byte"
abbreviation "MSG_PLEXUS_GET_REPLY \<equiv> 43 :: byte"
abbreviation "MSG_PLEXUS_PUT_REPLY \<equiv> 44 :: byte"
abbreviation "MSG_CACHE_ME \<equiv> 51 :: byte"
abbreviation "MSG_RETRIEVE \<equiv> 53 :: byte"
abbreviation "MSG_RETRIEVE_REPLY \<equiv> 54 :: byte"

section \<open>\<^verbatim>\<open>ABSMessage\<close>\<close>

record ABSMessage =
  messageType :: byte
  sequence_no :: cint
  dest_host :: cstring
  dest_port :: cint
  source_host :: cstring
  source_port :: cint
  overlay_hops :: byte
  overlay_ttl :: byte
  ip_hops :: cint
  latency :: clong
  dst_oid :: OverlayID
  src_oid :: OverlayID

definition calculateOverlayTTL :: "cint \<Rightarrow> 'a ABSMessage_scheme \<Rightarrow> 'a ABSMessage_scheme" where
  "calculateOverlayTTL networkSize m = m\<lparr>overlay_ttl := 10\<rparr>"

text \<open>
  The constructors draw the next number of the static \<^verbatim>\<open>sequence_no_generator\<close>, returned
  updated with the object. \<open>ABSMessage_INIT\<close> is the one without arguments, on the raw object: the
  type, the ports and the overlay ids keep whatever the memory held.
\<close>

definition ABSMessage_INIT ::
    "cint \<Rightarrow> cint \<Rightarrow> 'a ABSMessage_scheme \<Rightarrow> cint \<times> 'a ABSMessage_scheme" where
  "ABSMessage_INIT network_size gen m =
     (gen + 1, calculateOverlayTTL network_size
        (m\<lparr>sequence_no := gen, overlay_hops := 0, ip_hops := 0, latency := 0, dest_host := [], source_host := []\<rparr>))"

definition ABSMessage_type ::
    "cint \<Rightarrow> byte \<Rightarrow> cint \<Rightarrow> 'a ABSMessage_scheme \<Rightarrow> cint \<times> 'a ABSMessage_scheme" where
  "ABSMessage_type network_size ty gen m =
     map_prod id (\<lambda>m. m\<lparr>messageType := ty\<rparr>) (ABSMessage_INIT network_size gen m)"

definition ABSMessage_new ::
    "cint \<Rightarrow> byte \<Rightarrow> cstring \<Rightarrow> cint \<Rightarrow> cstring \<Rightarrow> cint \<Rightarrow> OverlayID \<Rightarrow> OverlayID \<Rightarrow> cint \<Rightarrow> cint \<times> ABSMessage" where
  "ABSMessage_new network_size ty sh sp dh dp soid doid gen =
     (gen + 1, calculateOverlayTTL network_size
       \<lparr>messageType = ty, sequence_no = gen, dest_host = dh, dest_port = dp, source_host = sh, source_port = sp,
        overlay_hops = 0, overlay_ttl = 0, ip_hops = 0, latency = 0, dst_oid = doid, src_oid = soid\<rparr>)"

definition decrementOverlayTtl :: "'a ABSMessage_scheme \<Rightarrow> 'a ABSMessage_scheme" where
  "decrementOverlayTtl m = m\<lparr>overlay_ttl := overlay_ttl m - 1\<rparr>"

definition incrementOverlayHops :: "'a ABSMessage_scheme \<Rightarrow> 'a ABSMessage_scheme" where
  "incrementOverlayHops m = m\<lparr>overlay_hops := overlay_hops m + 1\<rparr>"

definition incrementIpHops :: "cint \<Rightarrow> 'a ABSMessage_scheme \<Rightarrow> 'a ABSMessage_scheme" where
  "incrementIpHops n m = m\<lparr>ip_hops := ip_hops m + n\<rparr>"

definition getBaseSize :: "'a ABSMessage_scheme \<Rightarrow> nat" where
  "getBaseSize m = 1 * 3 + 4 * 12 + 1 * (length (dest_host m) + length (source_host m)) + 8"

definition base_chunks :: "'a ABSMessage_scheme \<Rightarrow> byte list list" where
  "base_chunks m =
     [[messageType m], int_bytes (sequence_no m)] @ string_chunks (dest_host m) @ [int_bytes (dest_port m)]
     @ string_chunks (source_host m) @ [int_bytes (source_port m)]
     @ [[overlay_hops m], [overlay_ttl m], int_bytes (ip_hops m), double_bytes (latency m)]
     @ oid_chunks (dst_oid m) @ oid_chunks (src_oid m)"

definition ABSMessage_serialize :: "'a ABSMessage_scheme \<Rightarrow> buffer option" where
  "ABSMessage_serialize m = map_option snd (write_chunks (base_chunks m) (0, alloc (getBaseSize m)))"

definition ABSMessage_deserialize :: "buffer \<Rightarrow> 'a ABSMessage_scheme \<Rightarrow> 'a ABSMessage_scheme option" where
  "ABSMessage_deserialize b m =
     do { (ty, b) \<leftarrow> rd_char b; (seq, b) \<leftarrow> rd_int b;
          (dh, b) \<leftarrow> rd_string b; (dp, b) \<leftarrow> rd_int b;
          (sh, b) \<leftarrow> rd_string b; (sp, b) \<leftarrow> rd_int b;
          (hops, b) \<leftarrow> rd_char b; (ttl, b) \<leftarrow> rd_char b; (ih, b) \<leftarrow> rd_int b; (lat, b) \<leftarrow> rd_double b;
          (doid, b) \<leftarrow> rd_oid (dst_oid m) b; (soid, b) \<leftarrow> rd_oid (src_oid m) b;
          Some (m\<lparr>messageType := ty, sequence_no := seq, dest_host := dh, dest_port := dp,
            source_host := sh, source_port := sp, overlay_hops := hops, overlay_ttl := ttl,
            ip_hops := ih, latency := lat, dst_oid := doid, src_oid := soid\<rparr>) }"

text \<open>
  A derived \<^verbatim>\<open>serialize\<close>: a buffer of \<open>sz\<close> bytes, the buffer of the base class copied to its
  start, then the fields of the class.
\<close>

definition serialize_with :: "byte list list \<Rightarrow> nat \<Rightarrow> 'a ABSMessage_scheme \<Rightarrow> buffer option" where
  "serialize_with chunks sz m =
     do { parent \<leftarrow> ABSMessage_serialize m;
          bytes \<leftarrow> read_at 0 (length parent) parent;
          map_option snd (write_chunks (bytes # chunks) (0, alloc sz)) }"

section \<open>What the base class puts on the wire\<close>

definition base_ok :: "'a ABSMessage_scheme \<Rightarrow> bool" where
  "base_ok m \<longleftrightarrow> string_ok (dest_host m) \<and> string_ok (source_host m) \<and> int_key (dst_oid m) \<and> int_key (src_oid m)"

text \<open>The object \<open>m0\<close> with the base fields of \<open>m\<close>.\<close>

definition copy_base :: "'a ABSMessage_scheme \<Rightarrow> 'b ABSMessage_scheme \<Rightarrow> 'b ABSMessage_scheme" where
  "copy_base m m0 = m0\<lparr>messageType := messageType m, sequence_no := sequence_no m, dest_host := dest_host m,
     dest_port := dest_port m, source_host := source_host m, source_port := source_port m,
     overlay_hops := overlay_hops m, overlay_ttl := overlay_ttl m, ip_hops := ip_hops m,
     latency := latency m, dst_oid := dst_oid m, src_oid := src_oid m\<rparr>"

lemma base_size: "length (concat (base_chunks m)) = getBaseSize m"
  by (simp add: base_chunks_def getBaseSize_def)

lemma getBaseSize_copy [simp]: "getBaseSize (copy_base m m0) = getBaseSize m"
  by (simp add: getBaseSize_def copy_base_def)

lemma ABSMessage_serialize_eq: "ABSMessage_serialize m = Some (map Some (concat (base_chunks m)))"
  using write_chunks_alloc[of "base_chunks m" "getBaseSize m"]
  by (simp add: ABSMessage_serialize_def base_size)

lemma serialize_with_eq:
  "serialize_with chunks sz m =
     (if getBaseSize m + length (concat chunks) \<le> sz
      then Some (map Some (concat (base_chunks m)) @ map Some (concat chunks)
             @ alloc (sz - (getBaseSize m + length (concat chunks)))) else None)"
proof -
  let ?b = "concat (base_chunks m)"
  have "read_at 0 (length (map Some ?b)) (map Some ?b) = Some ?b"
    using read_at_slice[of "[]" ?b "[]"] by simp
  then show ?thesis
    using write_chunks_alloc[of "?b # chunks" sz]
    by (simp add: serialize_with_def ABSMessage_serialize_eq base_size del: length_concat)
qed

lemma base_decode [wire_simps]:
  "base_ok m \<Longrightarrow> ABSMessage_deserialize (map Some (concat (base_chunks m)) @ rest) m0 = Some (copy_base m m0)"
  by (simp add: ABSMessage_deserialize_def base_chunks_def base_ok_def copy_base_def wire_simps)

lemma drop_base [wire_simps]:
  "drop (getBaseSize m) (map Some (concat (base_chunks m)) @ rest) = rest"
  by (simp add: base_size[symmetric] del: length_concat)

end
