(* ===== verification/Peer_Messages.thy ===== *)
theory Peer_Messages
  imports Messages
begin

text \<open>
  The messages between peers, \<^verbatim>\<open>plnode/message/p2p\<close>: PUT, GET, their replies, CACHE_ME, RETRIEVE
  and its reply. Each class has its record, constructor, \<open>getSize\<close>, \<open>serialize\<close> and
  \<open>deserialize\<close>, and the round trip from one object to another.
\<close>

section \<open>\<^verbatim>\<open>MessagePUT\<close>\<close>

record MessagePUT = ABSMessage +
  put_target_oid :: OverlayID
  put_deviceName :: cstring
  put_hostAddress :: HostAddress

definition MessagePUT_new ::
    "cint \<Rightarrow> cstring \<Rightarrow> cint \<Rightarrow> cstring \<Rightarrow> cint \<Rightarrow> OverlayID \<Rightarrow> OverlayID \<Rightarrow> OverlayID \<Rightarrow>
     cstring \<Rightarrow> HostAddress \<Rightarrow> cint \<Rightarrow> cint \<times> MessagePUT" where
  "MessagePUT_new network_size sh sp dh dp soid doid target name host gen =
     map_prod id (\<lambda>m. ABSMessage.extend m (MessagePUT.fields target name host))
       (ABSMessage_new network_size MSG_PLEXUS_PUT sh sp dh dp soid doid gen)"

definition MessagePUT_getSize :: "MessagePUT \<Rightarrow> nat" where
  "MessagePUT_getSize m = getBaseSize m + (4 * 4 + length (put_deviceName m))
     + (4 * 2 + length (hostName (put_hostAddress m)))"

definition MessagePUT_serialize :: "MessagePUT \<Rightarrow> buffer option" where
  "MessagePUT_serialize m = serialize_with
     (oid_chunks (put_target_oid m) @ string_chunks (put_deviceName m)
      @ string_chunks (hostName (put_hostAddress m)) @ [int_bytes (hostPort (put_hostAddress m))])
     (MessagePUT_getSize m) m"

definition MessagePUT_deserialize :: "buffer \<Rightarrow> MessagePUT \<Rightarrow> MessagePUT option" where
  "MessagePUT_deserialize b m =
     do { m \<leftarrow> ABSMessage_deserialize b m;
          let b = drop (getBaseSize m) b;
          (oid, b) \<leftarrow> rd_oid (put_target_oid m) b;
          (name, b) \<leftarrow> rd_string b;
          (host, b) \<leftarrow> rd_string b;
          (port, b) \<leftarrow> rd_int b;
          Some (m\<lparr>put_target_oid := oid, put_deviceName := name,
            put_hostAddress := (put_hostAddress m)\<lparr>hostName := host, hostPort := port\<rparr>\<rparr>) }"

section \<open>\<^verbatim>\<open>MessageGET\<close>\<close>

record MessageGET = ABSMessage +
  get_target_oid :: OverlayID
  get_deviceName :: cstring

definition MessageGET_new ::
    "cint \<Rightarrow> cstring \<Rightarrow> cint \<Rightarrow> cstring \<Rightarrow> cint \<Rightarrow> OverlayID \<Rightarrow> OverlayID \<Rightarrow> OverlayID \<Rightarrow>
     cstring \<Rightarrow> cint \<Rightarrow> cint \<times> MessageGET" where
  "MessageGET_new network_size sh sp dh dp soid doid target name gen =
     map_prod id (\<lambda>m. ABSMessage.extend m (MessageGET.fields target name))
       (ABSMessage_new network_size MSG_PLEXUS_GET sh sp dh dp soid doid gen)"

text \<open>
  \<^verbatim>\<open>getSize\<close> computes the size and then ends without a \<^verbatim>\<open>return\<close>. What the call yields is not
  defined by the program: it is the argument \<open>rv\<close> of \<open>serialize\<close>.
\<close>

definition MessageGET_size :: "MessageGET \<Rightarrow> nat" where
  "MessageGET_size m = getBaseSize m + 4 * 4 + length (get_deviceName m)"

definition MessageGET_serialize :: "nat \<Rightarrow> MessageGET \<Rightarrow> buffer option" where
  "MessageGET_serialize rv m = serialize_with
     (oid_chunks (get_target_oid m) @ string_chunks (get_deviceName m)) rv m"

definition MessageGET_deserialize :: "buffer \<Rightarrow> MessageGET \<Rightarrow> MessageGET option" where
  "MessageGET_deserialize b m =
     do { m \<leftarrow> ABSMessage_deserialize b m;
          let b = drop (getBaseSize m) b;
          (oid, b) \<leftarrow> rd_oid (get_target_oid m) b;
          (name, b) \<leftarrow> rd_string b;
          Some (m\<lparr>get_target_oid := oid, get_deviceName := name\<rparr>) }"

section \<open>\<^verbatim>\<open>MessageGET_REPLY\<close>\<close>

record MessageGET_REPLY = ABSMessage +
  gr_status :: cint
  gr_hops :: cint
  gr_ip_hops :: cint
  gr_latency :: clong
  gr_origin_seq_no :: cint
  gr_target_oid :: OverlayID
  gr_host_address :: HostAddress
  gr_device_name :: cstring

text \<open>
  The constructor leaves the hops, the latency and the sequence number of the origin
  uninitialised; \<open>raw\<close> is what the memory held.
\<close>

definition MessageGET_REPLY_new ::
    "cint \<Rightarrow> MessageGET_REPLY \<Rightarrow> cstring \<Rightarrow> cint \<Rightarrow> cstring \<Rightarrow> cint \<Rightarrow> OverlayID \<Rightarrow> OverlayID \<Rightarrow> cint \<Rightarrow>
     OverlayID \<Rightarrow> HostAddress \<Rightarrow> cstring \<Rightarrow> cint \<Rightarrow> cint \<times> MessageGET_REPLY" where
  "MessageGET_REPLY_new network_size raw sh sp dh dp soid doid status target host name gen =
     map_prod id (\<lambda>m. ABSMessage.extend m (MessageGET_REPLY.fields status (gr_hops raw) (gr_ip_hops raw)
         (gr_latency raw) (gr_origin_seq_no raw) target host name))
       (ABSMessage_new network_size MSG_PLEXUS_GET_REPLY sh sp dh dp soid doid gen)"

definition MessageGET_REPLY_getSize :: "MessageGET_REPLY \<Rightarrow> nat" where
  "MessageGET_REPLY_getSize m = getBaseSize m
     + (4 * 10 + length (hostName (gr_host_address m)) + length (gr_device_name m) + 8)"

definition MessageGET_REPLY_serialize :: "bool \<Rightarrow> MessageGET_REPLY \<Rightarrow> buffer option" where
  "MessageGET_REPLY_serialize cow m =
     do { haddr_str \<leftarrow> temp_chars cow (hostName (gr_host_address m));
          serialize_with
            ([int_bytes (gr_status m), int_bytes (gr_hops m), int_bytes (gr_ip_hops m),
              double_bytes (gr_latency m), int_bytes (gr_origin_seq_no m)]
             @ oid_chunks (gr_target_oid m) @ string_chunks haddr_str
             @ [int_bytes (hostPort (gr_host_address m))] @ string_chunks (gr_device_name m))
            (MessageGET_REPLY_getSize m) m }"

text \<open>
  \<^verbatim>\<open>char ch; memcpy(&ch, buffer + offset, sizeof(int))\<close> writes four bytes into one: the loop over
  the host name is undefined as soon as its body runs.
\<close>

definition rd_host_overrun :: "buffer \<Rightarrow> (cstring \<times> buffer) option" where
  "rd_host_overrun b = do { (n, b) \<leftarrow> rd_int b; if sint n \<le> 0 then Some ([], b) else None }"

definition MessageGET_REPLY_deserialize :: "buffer \<Rightarrow> MessageGET_REPLY \<Rightarrow> MessageGET_REPLY option" where
  "MessageGET_REPLY_deserialize b m =
     do { m \<leftarrow> ABSMessage_deserialize b m;
          let b = drop (getBaseSize m) b;
          (st, b) \<leftarrow> rd_int b; (hops, b) \<leftarrow> rd_int b; (ih, b) \<leftarrow> rd_int b;
          (lat, b) \<leftarrow> rd_double b; (seq, b) \<leftarrow> rd_int b;
          (oid, b) \<leftarrow> rd_oid (gr_target_oid m) b;
          (host, b) \<leftarrow> rd_host_overrun b; (port, b) \<leftarrow> rd_int b;
          (name, b) \<leftarrow> rd_string b;
          Some (m\<lparr>gr_status := st, gr_hops := hops, gr_ip_hops := ih, gr_latency := lat,
            gr_origin_seq_no := seq, gr_target_oid := oid,
            gr_host_address := (gr_host_address m)\<lparr>hostName := host, hostPort := port\<rparr>,
            gr_device_name := name\<rparr>) }"

section \<open>\<^verbatim>\<open>MessagePUT_REPLY\<close>\<close>

record MessagePUT_REPLY = ABSMessage +
  pr_status :: cint
  pr_hops :: cint
  pr_ip_hops :: cint
  pr_latency :: clong
  pr_origin_seq_no :: cint
  pr_target_oid :: OverlayID
  pr_device_name :: cstring

definition MessagePUT_REPLY_new ::
    "cint \<Rightarrow> MessagePUT_REPLY \<Rightarrow> cstring \<Rightarrow> cint \<Rightarrow> cstring \<Rightarrow> cint \<Rightarrow> OverlayID \<Rightarrow> OverlayID \<Rightarrow> cint \<Rightarrow>
     OverlayID \<Rightarrow> cstring \<Rightarrow> cint \<Rightarrow> cint \<times> MessagePUT_REPLY" where
  "MessagePUT_REPLY_new network_size raw sh sp dh dp soid doid status target name gen =
     map_prod id (\<lambda>m. ABSMessage.extend m (MessagePUT_REPLY.fields status (pr_hops raw) (pr_ip_hops raw)
         (pr_latency raw) (pr_origin_seq_no raw) target name))
       (ABSMessage_new network_size MSG_PLEXUS_PUT_REPLY sh sp dh dp soid doid gen)"

definition MessagePUT_REPLY_getSize :: "MessagePUT_REPLY \<Rightarrow> nat" where
  "MessagePUT_REPLY_getSize m = getBaseSize m + (4 * 8 + length (pr_device_name m) + 8)"

definition MessagePUT_REPLY_serialize :: "MessagePUT_REPLY \<Rightarrow> buffer option" where
  "MessagePUT_REPLY_serialize m = serialize_with
     ([int_bytes (pr_status m), int_bytes (pr_hops m), int_bytes (pr_ip_hops m),
       double_bytes (pr_latency m), int_bytes (pr_origin_seq_no m)]
      @ oid_chunks (pr_target_oid m) @ string_chunks (pr_device_name m))
     (MessagePUT_REPLY_getSize m) m"

definition MessagePUT_REPLY_deserialize :: "buffer \<Rightarrow> MessagePUT_REPLY \<Rightarrow> MessagePUT_REPLY option" where
  "MessagePUT_REPLY_deserialize b m =
     do { m \<leftarrow> ABSMessage_deserialize b m;
          let b = drop (getBaseSize m) b;
          (st, b) \<leftarrow> rd_int b; (hops, b) \<leftarrow> rd_int b; (ih, b) \<leftarrow> rd_int b;
          (lat, b) \<leftarrow> rd_double b; (seq, b) \<leftarrow> rd_int b;
          (oid, b) \<leftarrow> rd_oid (pr_target_oid m) b;
          (name, b) \<leftarrow> rd_string b;
          Some (m\<lparr>pr_status := st, pr_hops := hops, pr_ip_hops := ih, pr_latency := lat,
            pr_origin_seq_no := seq, pr_target_oid := oid, pr_device_name := name\<rparr>) }"

section \<open>\<^verbatim>\<open>MessageCacheMe\<close>\<close>

type_synonym MessageCacheMe = ABSMessage

definition MessageCacheMe_new ::
    "cint \<Rightarrow> cstring \<Rightarrow> cint \<Rightarrow> cstring \<Rightarrow> cint \<Rightarrow> OverlayID \<Rightarrow> OverlayID \<Rightarrow> cint \<Rightarrow> cint \<times> MessageCacheMe" where
  "MessageCacheMe_new network_size sh sp dh dp soid doid gen =
     ABSMessage_new network_size MSG_CACHE_ME sh sp dh dp soid doid gen"

definition MessageCacheMe_serialize :: "MessageCacheMe \<Rightarrow> buffer option" where
  "MessageCacheMe_serialize m = ABSMessage_serialize m"

definition MessageCacheMe_deserialize :: "buffer \<Rightarrow> MessageCacheMe \<Rightarrow> MessageCacheMe option" where
  "MessageCacheMe_deserialize b m = ABSMessage_deserialize b m"

section \<open>\<^verbatim>\<open>RetrieveMessage\<close>\<close>

record RetrieveMessage = ABSMessage +
  rm_deviceName :: cstring

definition RetrieveMessage_new ::
    "cint \<Rightarrow> cstring \<Rightarrow> cint \<Rightarrow> cstring \<Rightarrow> cint \<Rightarrow> OverlayID \<Rightarrow> OverlayID \<Rightarrow> OverlayID \<Rightarrow>
     cstring \<Rightarrow> cint \<Rightarrow> cint \<times> RetrieveMessage" where
  "RetrieveMessage_new network_size sh sp dh dp soid doid target name gen =
     map_prod id (\<lambda>m. ABSMessage.extend m (RetrieveMessage.fields name))
       (ABSMessage_new network_size MSG_RETRIEVE sh sp dh dp soid doid gen)"

definition RetrieveMessage_getSize :: "RetrieveMessage \<Rightarrow> nat" where
  "RetrieveMessage_getSize m = getBaseSize m + (4 + length (rm_deviceName m))"

definition RetrieveMessage_serialize :: "RetrieveMessage \<Rightarrow> buffer option" where
  "RetrieveMessage_serialize m =
     serialize_with (string_chunks (rm_deviceName m)) (RetrieveMessage_getSize m) m"

definition RetrieveMessage_deserialize :: "buffer \<Rightarrow> RetrieveMessage \<Rightarrow> RetrieveMessage option" where
  "RetrieveMessage_deserialize b m =
     do { m \<leftarrow> ABSMessage_deserialize b m;
          let b = drop (getBaseSize m) b;
          (name, b) \<leftarrow> rd_string b;
          Some (m\<lparr>rm_deviceName := name\<rparr>) }"

section \<open>\<^verbatim>\<open>MessageRetrieveReply\<close>\<close>

record MessageRetrieveReply = ABSMessage +
  rr_status :: cint
  rr_hops :: cint
  rr_ip_hops :: cint
  rr_latency :: clong
  rr_origin_seq_no :: cint
  rr_host_address :: HostAddress
  rr_device_name :: cstring

definition MessageRetrieveReply_new ::
    "cint \<Rightarrow> MessageRetrieveReply \<Rightarrow> cstring \<Rightarrow> cint \<Rightarrow> cstring \<Rightarrow> cint \<Rightarrow> OverlayID \<Rightarrow> OverlayID \<Rightarrow> cint \<Rightarrow>
     HostAddress \<Rightarrow> cstring \<Rightarrow> cint \<Rightarrow> cint \<times> MessageRetrieveReply" where
  "MessageRetrieveReply_new network_size raw sh sp dh dp soid doid status host name gen =
     map_prod id (\<lambda>m. ABSMessage.extend m (MessageRetrieveReply.fields status (rr_hops raw) (rr_ip_hops raw)
         (rr_latency raw) (rr_origin_seq_no raw) host name))
       (ABSMessage_new network_size MSG_RETRIEVE_REPLY sh sp dh dp soid doid gen)"

definition MessageRetrieveReply_getSize :: "MessageRetrieveReply \<Rightarrow> nat" where
  "MessageRetrieveReply_getSize m = getBaseSize m
     + (4 * 7 + length (hostName (rr_host_address m)) + length (rr_device_name m) + 8)"

definition MessageRetrieveReply_serialize :: "bool \<Rightarrow> MessageRetrieveReply \<Rightarrow> buffer option" where
  "MessageRetrieveReply_serialize cow m =
     do { haddr_str \<leftarrow> temp_chars cow (hostName (rr_host_address m));
          serialize_with
            ([int_bytes (rr_status m), int_bytes (rr_hops m), int_bytes (rr_ip_hops m),
              double_bytes (rr_latency m), int_bytes (rr_origin_seq_no m)]
             @ string_chunks haddr_str @ [int_bytes (hostPort (rr_host_address m))]
             @ string_chunks (rr_device_name m))
            (MessageRetrieveReply_getSize m) m }"

definition MessageRetrieveReply_deserialize ::
    "buffer \<Rightarrow> MessageRetrieveReply \<Rightarrow> MessageRetrieveReply option" where
  "MessageRetrieveReply_deserialize b m =
     do { m \<leftarrow> ABSMessage_deserialize b m;
          let b = drop (getBaseSize m) b;
          (st, b) \<leftarrow> rd_int b; (hops, b) \<leftarrow> rd_int b; (ih, b) \<leftarrow> rd_int b;
          (lat, b) \<leftarrow> rd_double b; (seq, b) \<leftarrow> rd_int b;
          (host, b) \<leftarrow> rd_host_overrun b; (port, b) \<leftarrow> rd_int b;
          (name, b) \<leftarrow> rd_string b;
          Some (m\<lparr>rr_status := st, rr_hops := hops, rr_ip_hops := ih, rr_latency := lat,
            rr_origin_seq_no := seq,
            rr_host_address := (rr_host_address m)\<lparr>hostName := host, hostPort := port\<rparr>,
            rr_device_name := name\<rparr>) }"

section \<open>Round trips\<close>

lemma PUT_roundtrip:
  assumes "base_ok m" and "int_key (put_target_oid m)" and "string_ok (put_deviceName m)"
    and "string_ok (hostName (put_hostAddress m))"
  shows "\<exists>b. MessagePUT_serialize m = Some b \<and> length b = MessagePUT_getSize m \<and>
    MessagePUT_deserialize b m0 = Some m"
  using assms
  by (simp add: MessagePUT_serialize_def serialize_with_eq MessagePUT_getSize_def
      MessagePUT_deserialize_def wire_simps base_size Let_def)
     (simp add: copy_base_def HostAddress.equality MessagePUT.equality)

lemma GET_roundtrip:
  assumes "base_ok m" and "int_key (get_target_oid m)" and "string_ok (get_deviceName m)"
    and "MessageGET_size m \<le> rv"
  shows "\<exists>b. MessageGET_serialize rv m = Some b \<and> length b = rv \<and> MessageGET_deserialize b m0 = Some m"
  using assms
  by (simp add: MessageGET_serialize_def serialize_with_eq MessageGET_size_def
      MessageGET_deserialize_def wire_simps base_size Let_def)
     (simp add: copy_base_def MessageGET.equality)

lemma GET_too_small: "rv < MessageGET_size m \<Longrightarrow> MessageGET_serialize rv m = None"
  by (simp add: MessageGET_serialize_def serialize_with_eq MessageGET_size_def)

lemma PUT_REPLY_roundtrip:
  assumes "base_ok m" and "int_key (pr_target_oid m)" and "string_ok (pr_device_name m)"
  shows "\<exists>b. MessagePUT_REPLY_serialize m = Some b \<and> length b = MessagePUT_REPLY_getSize m \<and>
    MessagePUT_REPLY_deserialize b m0 = Some m"
  using assms
  by (simp add: MessagePUT_REPLY_serialize_def serialize_with_eq MessagePUT_REPLY_getSize_def
      MessagePUT_REPLY_deserialize_def wire_simps base_size Let_def)
     (simp add: copy_base_def MessagePUT_REPLY.equality)

lemma CacheMe_roundtrip:
  assumes "base_ok m"
  shows "\<exists>b. MessageCacheMe_serialize m = Some b \<and> length b = getBaseSize m \<and>
    MessageCacheMe_deserialize b m0 = Some m"
  using base_decode[OF assms, of "[]" m0]
  by (simp add: MessageCacheMe_serialize_def MessageCacheMe_deserialize_def ABSMessage_serialize_eq base_size)
     (simp add: copy_base_def ABSMessage.equality)

lemma Retrieve_roundtrip:
  assumes "base_ok m" and "string_ok (rm_deviceName m)"
  shows "\<exists>b. RetrieveMessage_serialize m = Some b \<and> length b = RetrieveMessage_getSize m \<and>
    RetrieveMessage_deserialize b m0 = Some m"
  using assms
  by (simp add: RetrieveMessage_serialize_def serialize_with_eq RetrieveMessage_getSize_def
      RetrieveMessage_deserialize_def wire_simps base_size Let_def)
     (simp add: copy_base_def RetrieveMessage.equality)

text \<open>The reader of the host name in the replies, on a written name.\<close>

lemma rd_host_overrun_written:
  assumes "string_ok s"
  shows "rd_host_overrun (map Some (concat (string_chunks s)) @ rest) = (if s = [] then Some ([], rest) else None)"
  using assms
  by (simp add: rd_host_overrun_def string_chunks_def wire_simps string_ok_def sint_of_nat_small)

lemma GET_REPLY_written:
  assumes "base_ok m" and "int_key (gr_target_oid m)" and "string_ok (gr_device_name m)"
    and "string_ok (hostName (gr_host_address m))"
  shows "\<exists>b. MessageGET_REPLY_serialize True m = Some b \<and> length b = MessageGET_REPLY_getSize m \<and>
    MessageGET_REPLY_deserialize b m0 = (if hostName (gr_host_address m) = [] then Some m else None)"
  using assms
  by (simp add: MessageGET_REPLY_serialize_def serialize_with_eq MessageGET_REPLY_getSize_def temp_chars_def
      MessageGET_REPLY_deserialize_def wire_simps base_size Let_def rd_host_overrun_written)
     (simp add: copy_base_def MessageGET_REPLY.equality HostAddress.equality)

lemma RetrieveReply_written:
  assumes "base_ok m" and "string_ok (rr_device_name m)" and "string_ok (hostName (rr_host_address m))"
  shows "\<exists>b. MessageRetrieveReply_serialize True m = Some b \<and> length b = MessageRetrieveReply_getSize m \<and>
    MessageRetrieveReply_deserialize b m0 = (if hostName (rr_host_address m) = [] then Some m else None)"
  using assms
  by (simp add: MessageRetrieveReply_serialize_def serialize_with_eq MessageRetrieveReply_getSize_def temp_chars_def
      MessageRetrieveReply_deserialize_def wire_simps base_size Let_def rd_host_overrun_written)
     (simp add: copy_base_def MessageRetrieveReply.equality HostAddress.equality)

lemma replies_need_cow:
  "hostName (gr_host_address m) \<noteq> [] \<Longrightarrow> MessageGET_REPLY_serialize False m = None"
  by (simp add: MessageGET_REPLY_serialize_def temp_chars_def)

end
