(* ===== verification/Control_Messages.thy ===== *)
theory Control_Messages
  imports Messages
begin

text \<open>
  The messages of the controller, \<^verbatim>\<open>plnode/message/control\<close>: the INIT message with the routing
  table and the parameters of a peer, the requests to start a GET or a PUT, the configuration and
  the messages that only carry a type or a status.
\<close>

section \<open>\<^verbatim>\<open>PeerInitMessage\<close>\<close>

record PeerInitMessage = ABSMessage +
  pi_routing_table :: "(OverlayID, HostAddress) table"
  pi_n_peers :: cint
  pi_k :: cint
  pi_alpha :: clong
  pi_publish_start :: cint
  pi_publish_end :: cint
  pi_lookup_start :: cint
  pi_lookup_end :: cint
  pi_webserver_port :: cint
  pi_run_sequence_no :: cint
  pi_log_server_name :: cstring
  pi_log_server_user :: cstring
  pi_peer_name :: cstring

definition PeerInitMessage_new :: "cint \<Rightarrow> cint \<Rightarrow> PeerInitMessage \<Rightarrow> cint \<times> PeerInitMessage" where
  "PeerInitMessage_new network_size gen raw =
     map_prod id (\<lambda>m. m\<lparr>messageType := MSG_PEER_INIT, pi_routing_table := table_empty,
         pi_log_server_name := [], pi_log_server_user := [], pi_peer_name := []\<rparr>)
       (ABSMessage_INIT network_size gen raw)"

text \<open>The value of a key, in a variable that keeps \<open>old\<close> when the lookup fails.\<close>

definition lookup_into :: "(OverlayID, HostAddress) table \<Rightarrow> OverlayID \<Rightarrow> HostAddress \<Rightarrow> HostAddress" where
  "lookup_into t key old = (case table_lookup oid_less key t of None \<Rightarrow> old | Some v \<Rightarrow> v)"

definition PeerInitMessage_getSize :: "PeerInitMessage \<Rightarrow> nat" where
  "PeerInitMessage_getSize m =
     getBaseSize m + 4 * 5 + 8 + 4 * 4 + 4 * 3
     + (length (pi_log_server_name m) + length (pi_log_server_user m) + length (pi_peer_name m))
     + sum_list (map (\<lambda>key. 4 * 5 + length (hostName (lookup_into (pi_routing_table m) key HostAddress_default)))
         (reset_iterator (pi_routing_table m)))"

text \<open>The entries as the loop of \<^verbatim>\<open>serialize\<close> sees them.\<close>

fun table_entries ::
    "(OverlayID, HostAddress) table \<Rightarrow> HostAddress \<Rightarrow> OverlayID list \<Rightarrow> (OverlayID \<times> HostAddress) list" where
  "table_entries t value [] = []"
| "table_entries t value (key # it) =
     (let value = lookup_into t key value in (key, value) # table_entries t value it)"

definition entry_chunks :: "OverlayID \<times> HostAddress \<Rightarrow> byte list list" where
  "entry_chunks e = oid_chunks (fst e) @ string_chunks (hostName (snd e)) @ [int_bytes (hostPort (snd e))]"

definition PeerInitMessage_serialize :: "bool \<Rightarrow> PeerInitMessage \<Rightarrow> buffer option" where
  "PeerInitMessage_serialize cow m =
     (let es = table_entries (pi_routing_table m) HostAddress_default (reset_iterator (pi_routing_table m)) in
      if \<exists>e \<in> set es. temp_chars cow (hostName (snd e)) = None then None
      else serialize_with
       ([int_bytes (pi_n_peers m), int_bytes (pi_k m), double_bytes (pi_alpha m),
         int_bytes (pi_publish_start m), int_bytes (pi_publish_end m),
         int_bytes (pi_lookup_start m), int_bytes (pi_lookup_end m),
         int_bytes (pi_webserver_port m), int_bytes (pi_run_sequence_no m),
         int_bytes (of_nat (length (pi_peer_name m))), pi_peer_name m,
         int_bytes (of_nat (length (pi_log_server_name m))), pi_log_server_name m,
         int_bytes (of_nat (length (pi_log_server_user m))), pi_log_server_user m,
         int_bytes (of_nat (table_size (pi_routing_table m)))]
        @ concat (map entry_chunks es))
       (PeerInitMessage_getSize m) m)"

text \<open>
  A string as a length and raw bytes, copied to an array one longer and read back as a C string.
  The last byte of the array is \<open>end_byte\<close>: set to zero for the peer name, left
  indeterminate (None) for the name and the user of the log server.
\<close>

definition rd_raw_string :: "byte option \<Rightarrow> buffer \<Rightarrow> (cstring \<times> buffer) option" where
  "rd_raw_string end_byte b =
     do { (n, b) \<leftarrow> rd_int b;
          (bs, b) \<leftarrow> (if sint n < 0 then None else rd (nat (sint n)) b);
          s \<leftarrow> c_string (map Some bs @ [end_byte]);
          Some (s, b) }"

text \<open>Every field of the new key is set, so what it held does not matter.\<close>

definition rd_entry :: "buffer \<Rightarrow> ((OverlayID \<times> HostAddress) \<times> buffer) option" where
  "rd_entry b =
     do { (key, b) \<leftarrow> rd_oid (OverlayID_new 0 0 0) b;
          (host, b) \<leftarrow> rd_string b;
          (port, b) \<leftarrow> rd_int b;
          Some ((key, HostAddress_default\<lparr>hostName := host, hostPort := port\<rparr>), b) }"

text \<open>
  \<open>fill\<close> is the indeterminate byte behind the two log server strings: None where reading it is
  undefined, Some 0 for memory that happens to be zero.
\<close>

definition PeerInitMessage_deserialize ::
    "byte option \<Rightarrow> buffer \<Rightarrow> PeerInitMessage \<Rightarrow> PeerInitMessage option" where
  "PeerInitMessage_deserialize fill b m =
     do { m \<leftarrow> ABSMessage_deserialize b (m\<lparr>pi_routing_table := table_clear (pi_routing_table m)\<rparr>);
          let b = drop (getBaseSize m) b;
          (np, b) \<leftarrow> rd_int b; (k, b) \<leftarrow> rd_int b; (alpha, b) \<leftarrow> rd_double b;
          (ps, b) \<leftarrow> rd_int b; (pe, b) \<leftarrow> rd_int b; (ls, b) \<leftarrow> rd_int b; (le, b) \<leftarrow> rd_int b;
          (wp, b) \<leftarrow> rd_int b; (rs, b) \<leftarrow> rd_int b;
          (pn, b) \<leftarrow> rd_raw_string (Some 0) b;
          (ln, b) \<leftarrow> rd_raw_string fill b;
          (lu, b) \<leftarrow> rd_raw_string fill b;
          (n, b) \<leftarrow> rd_int b;
          (es, b) \<leftarrow> rd_many rd_entry (nat (sint n)) b;
          Some (m\<lparr>pi_routing_table := foldl (\<lambda>t (key, value). snd (table_add oid_less key value t))
                (pi_routing_table m) es,
            pi_n_peers := np, pi_k := k, pi_alpha := alpha, pi_publish_start := ps, pi_publish_end := pe,
            pi_lookup_start := ls, pi_lookup_end := le, pi_webserver_port := wp, pi_run_sequence_no := rs,
            pi_log_server_name := ln, pi_log_server_user := lu, pi_peer_name := pn\<rparr>) }"

section \<open>Requests to a peer\<close>

record PeerInitiateGET = ABSMessage +
  ig_device_name :: cstring

definition PeerInitiateGET_new ::
    "cint \<Rightarrow> cstring \<Rightarrow> cint \<Rightarrow> cstring \<Rightarrow> cint \<Rightarrow> OverlayID \<Rightarrow> OverlayID \<Rightarrow> cstring \<Rightarrow> cint \<Rightarrow>
     cint \<times> PeerInitiateGET" where
  "PeerInitiateGET_new network_size sh sp dh dp soid doid name gen =
     map_prod id (\<lambda>m. ABSMessage.extend m (PeerInitiateGET.fields name))
       (ABSMessage_new network_size MSG_PEER_INITIATE_GET sh sp dh dp soid doid gen)"

definition PeerInitiateGET_getSize :: "PeerInitiateGET \<Rightarrow> nat" where
  "PeerInitiateGET_getSize m = getBaseSize m + 4 + length (ig_device_name m)"

definition PeerInitiateGET_serialize :: "PeerInitiateGET \<Rightarrow> buffer option" where
  "PeerInitiateGET_serialize m =
     serialize_with (string_chunks (ig_device_name m)) (PeerInitiateGET_getSize m) m"

definition PeerInitiateGET_deserialize :: "buffer \<Rightarrow> PeerInitiateGET \<Rightarrow> PeerInitiateGET option" where
  "PeerInitiateGET_deserialize b m =
     do { m \<leftarrow> ABSMessage_deserialize b m;
          let b = drop (getBaseSize m) b;
          (name, b) \<leftarrow> rd_string b;
          Some (m\<lparr>ig_device_name := name\<rparr>) }"

record PeerInitiatePUT = ABSMessage +
  ip_device_name :: cstring
  ip_hostAddress :: HostAddress

definition PeerInitiatePUT_new ::
    "cint \<Rightarrow> cstring \<Rightarrow> cint \<Rightarrow> cstring \<Rightarrow> cint \<Rightarrow> OverlayID \<Rightarrow> OverlayID \<Rightarrow> cstring \<Rightarrow> HostAddress \<Rightarrow>
     cint \<Rightarrow> cint \<times> PeerInitiatePUT" where
  "PeerInitiatePUT_new network_size sh sp dh dp soid doid name host gen =
     map_prod id (\<lambda>m. ABSMessage.extend m (PeerInitiatePUT.fields name host))
       (ABSMessage_new network_size MSG_PEER_INITIATE_PUT sh sp dh dp soid doid gen)"

definition PeerInitiatePUT_getSize :: "PeerInitiatePUT \<Rightarrow> nat" where
  "PeerInitiatePUT_getSize m = getBaseSize m + (4 + length (ip_device_name m))
     + (4 + length (hostName (ip_hostAddress m))) + 4"

definition PeerInitiatePUT_serialize :: "PeerInitiatePUT \<Rightarrow> buffer option" where
  "PeerInitiatePUT_serialize m = serialize_with
     (string_chunks (ip_device_name m) @ string_chunks (hostName (ip_hostAddress m))
      @ [int_bytes (hostPort (ip_hostAddress m))])
     (PeerInitiatePUT_getSize m) m"

definition PeerInitiatePUT_deserialize :: "buffer \<Rightarrow> PeerInitiatePUT \<Rightarrow> PeerInitiatePUT option" where
  "PeerInitiatePUT_deserialize b m =
     do { m \<leftarrow> ABSMessage_deserialize b m;
          let b = drop (getBaseSize m) b;
          (name, b) \<leftarrow> rd_string b;
          (host, b) \<leftarrow> rd_string b;
          (port, b) \<leftarrow> rd_int b;
          Some (m\<lparr>ip_device_name := name, ip_hostAddress := HostAddress_new host port\<rparr>) }"

section \<open>Configuration and status\<close>

record PeerConfigMessage = ABSMessage +
  parameter_k :: cint
  parameter_alpha :: clong

definition PeerConfigMessage_new :: "cint \<Rightarrow> cint \<Rightarrow> PeerConfigMessage \<Rightarrow> cint \<times> PeerConfigMessage" where
  "PeerConfigMessage_new network_size gen raw = ABSMessage_type network_size MSG_PEER_CONFIG gen raw"

definition PeerConfigMessage_getSize :: "PeerConfigMessage \<Rightarrow> nat" where
  "PeerConfigMessage_getSize m = getBaseSize m + 4 + 8"

definition PeerConfigMessage_serialize :: "PeerConfigMessage \<Rightarrow> buffer option" where
  "PeerConfigMessage_serialize m = serialize_with
     [int_bytes (parameter_k m), double_bytes (parameter_alpha m)] (PeerConfigMessage_getSize m) m"

definition PeerConfigMessage_deserialize :: "buffer \<Rightarrow> PeerConfigMessage \<Rightarrow> PeerConfigMessage option" where
  "PeerConfigMessage_deserialize b m =
     do { m \<leftarrow> ABSMessage_deserialize b m;
          let b = drop (getBaseSize m) b;
          (k, b) \<leftarrow> rd_int b;
          (alpha, b) \<leftarrow> rd_double b;
          Some (m\<lparr>parameter_k := k, parameter_alpha := alpha\<rparr>) }"

text \<open>
  The status messages compute the size of the base class, write one integer more, and return
  the buffer of the base class, which they have deleted.
\<close>

record PeerChangeStatusMessage = ABSMessage +
  cs_peer_status :: cint

definition PeerChangeStatusMessage_new ::
    "cint \<Rightarrow> PeerChangeStatusMessage \<Rightarrow> cstring \<Rightarrow> cint \<Rightarrow> cstring \<Rightarrow> cint \<Rightarrow> OverlayID \<Rightarrow> OverlayID \<Rightarrow>
     cint \<Rightarrow> cint \<times> PeerChangeStatusMessage" where
  "PeerChangeStatusMessage_new network_size raw sh sp dh dp soid doid gen =
     map_prod id (\<lambda>m. ABSMessage.extend m (PeerChangeStatusMessage.fields (cs_peer_status raw)))
       (ABSMessage_new network_size MSG_PEER_CHANGE_STATUS sh sp dh dp soid doid gen)"

definition PeerChangeStatusMessage_getSize :: "PeerChangeStatusMessage \<Rightarrow> nat" where
  "PeerChangeStatusMessage_getSize m = getBaseSize m"

definition PeerChangeStatusMessage_serialize :: "PeerChangeStatusMessage \<Rightarrow> buffer option" where
  "PeerChangeStatusMessage_serialize m =
     do { buffer \<leftarrow> serialize_with [int_bytes (cs_peer_status m)] (PeerChangeStatusMessage_getSize m) m;
          None }"

definition PeerChangeStatusMessage_deserialize ::
    "buffer \<Rightarrow> PeerChangeStatusMessage \<Rightarrow> PeerChangeStatusMessage option" where
  "PeerChangeStatusMessage_deserialize b m =
     do { m \<leftarrow> ABSMessage_deserialize b m;
          (st, b) \<leftarrow> rd_int (drop (getBaseSize m) b);
          Some (m\<lparr>cs_peer_status := st\<rparr>) }"

record PeerDynChangeStatusMessage = ABSMessage +
  dyn_status :: cint

definition PeerDynChangeStatusMessage_new ::
    "cint \<Rightarrow> PeerDynChangeStatusMessage \<Rightarrow> cstring \<Rightarrow> cint \<Rightarrow> cstring \<Rightarrow> cint \<Rightarrow> OverlayID \<Rightarrow> OverlayID \<Rightarrow>
     cint \<Rightarrow> cint \<times> PeerDynChangeStatusMessage" where
  "PeerDynChangeStatusMessage_new network_size raw sh sp dh dp soid doid gen =
     map_prod id (\<lambda>m. ABSMessage.extend m (PeerDynChangeStatusMessage.fields (dyn_status raw)))
       (ABSMessage_new network_size MSG_DYN_CHANGE_STATUS sh sp dh dp soid doid gen)"

definition PeerDynChangeStatusMessage_getSize :: "PeerDynChangeStatusMessage \<Rightarrow> nat" where
  "PeerDynChangeStatusMessage_getSize m = getBaseSize m"

definition PeerDynChangeStatusMessage_serialize :: "PeerDynChangeStatusMessage \<Rightarrow> buffer option" where
  "PeerDynChangeStatusMessage_serialize m =
     do { buffer \<leftarrow> serialize_with [int_bytes (dyn_status m)] (PeerDynChangeStatusMessage_getSize m) m;
          None }"

definition PeerDynChangeStatusMessage_deserialize ::
    "buffer \<Rightarrow> PeerDynChangeStatusMessage \<Rightarrow> PeerDynChangeStatusMessage option" where
  "PeerDynChangeStatusMessage_deserialize b m =
     do { m \<leftarrow> ABSMessage_deserialize b m;
          (st, b) \<leftarrow> rd_int (drop (getBaseSize m) b);
          Some (m\<lparr>dyn_status := st\<rparr>) }"

text \<open>The parameter of \<^verbatim>\<open>setDynStatus\<close> has another name than the field: the field is assigned to itself.\<close>

definition setDynStatus :: "cint \<Rightarrow> PeerDynChangeStatusMessage \<Rightarrow> PeerDynChangeStatusMessage" where
  "setDynStatus peer_status m = m\<lparr>dyn_status := dyn_status m\<rparr>"

section \<open>Messages that only have a type\<close>

text \<open>
  \<^verbatim>\<open>PeerStartMessage\<close>, \<^verbatim>\<open>PeerStartGenNameMessage\<close>, \<^verbatim>\<open>PeerStartLookupNameMessage\<close> and
  \<^verbatim>\<open>LogForceMessage\<close> forward to the base class.
\<close>

definition PeerStartMessage_new ::
    "cint \<Rightarrow> cstring \<Rightarrow> cint \<Rightarrow> cstring \<Rightarrow> cint \<Rightarrow> OverlayID \<Rightarrow> OverlayID \<Rightarrow> cint \<Rightarrow> cint \<times> ABSMessage" where
  "PeerStartMessage_new network_size sh sp dh dp soid doid gen =
     ABSMessage_new network_size MSG_PEER_START sh sp dh dp soid doid gen"

definition PeerStartMessage_serialize :: "ABSMessage \<Rightarrow> buffer option" where
  "PeerStartMessage_serialize m = ABSMessage_serialize m"

definition PeerStartMessage_deserialize :: "buffer \<Rightarrow> ABSMessage \<Rightarrow> ABSMessage option" where
  "PeerStartMessage_deserialize b m = ABSMessage_deserialize b m"

definition PeerStartGenNameMessage_new :: "cint \<Rightarrow> cint \<Rightarrow> ABSMessage \<Rightarrow> cint \<times> ABSMessage" where
  "PeerStartGenNameMessage_new network_size gen raw = ABSMessage_type network_size MSG_START_GENERATE_NAME gen raw"

definition PeerStartGenNameMessage_serialize :: "ABSMessage \<Rightarrow> buffer option" where
  "PeerStartGenNameMessage_serialize m = ABSMessage_serialize m"

definition PeerStartGenNameMessage_deserialize :: "buffer \<Rightarrow> ABSMessage \<Rightarrow> ABSMessage option" where
  "PeerStartGenNameMessage_deserialize b m = ABSMessage_deserialize b m"

definition PeerStartLookupNameMessage_new :: "cint \<Rightarrow> cint \<Rightarrow> ABSMessage \<Rightarrow> cint \<times> ABSMessage" where
  "PeerStartLookupNameMessage_new network_size gen raw = ABSMessage_type network_size MSG_START_LOOKUP_NAME gen raw"

definition PeerStartLookupNameMessage_serialize :: "ABSMessage \<Rightarrow> buffer option" where
  "PeerStartLookupNameMessage_serialize m = ABSMessage_serialize m"

definition PeerStartLookupNameMessage_deserialize :: "buffer \<Rightarrow> ABSMessage \<Rightarrow> ABSMessage option" where
  "PeerStartLookupNameMessage_deserialize b m = ABSMessage_deserialize b m"

definition LogForceMessage_new ::
    "cint \<Rightarrow> cstring \<Rightarrow> cint \<Rightarrow> cstring \<Rightarrow> cint \<Rightarrow> OverlayID \<Rightarrow> OverlayID \<Rightarrow> cint \<Rightarrow> cint \<times> ABSMessage" where
  "LogForceMessage_new network_size sh sp dh dp soid doid gen =
     ABSMessage_new network_size MSG_PEER_FORCE_LOG sh sp dh dp soid doid gen"

definition LogForceMessage_serialize :: "ABSMessage \<Rightarrow> buffer option" where
  "LogForceMessage_serialize m = ABSMessage_serialize m"

definition LogForceMessage_deserialize :: "buffer \<Rightarrow> ABSMessage \<Rightarrow> ABSMessage option" where
  "LogForceMessage_deserialize b m = ABSMessage_deserialize b m"

section \<open>Round trips\<close>

lemma InitiateGET_roundtrip:
  assumes "base_ok m" and "string_ok (ig_device_name m)"
  shows "\<exists>b. PeerInitiateGET_serialize m = Some b \<and> length b = PeerInitiateGET_getSize m \<and>
    PeerInitiateGET_deserialize b m0 = Some m"
  using assms
  by (simp add: PeerInitiateGET_serialize_def serialize_with_eq PeerInitiateGET_getSize_def
      PeerInitiateGET_deserialize_def wire_simps base_size Let_def)
     (simp add: copy_base_def PeerInitiateGET.equality)

lemma InitiatePUT_roundtrip:
  assumes "base_ok m" and "string_ok (ip_device_name m)" and "string_ok (hostName (ip_hostAddress m))"
  shows "\<exists>b. PeerInitiatePUT_serialize m = Some b \<and> length b = PeerInitiatePUT_getSize m \<and>
    PeerInitiatePUT_deserialize b m0 = Some m"
  using assms
  by (simp add: PeerInitiatePUT_serialize_def serialize_with_eq PeerInitiatePUT_getSize_def
      PeerInitiatePUT_deserialize_def wire_simps base_size Let_def)
     (simp add: copy_base_def PeerInitiatePUT.equality HostAddress_new_def HostAddress.equality)

lemma Config_roundtrip:
  assumes "base_ok m"
  shows "\<exists>b. PeerConfigMessage_serialize m = Some b \<and> length b = PeerConfigMessage_getSize m \<and>
    PeerConfigMessage_deserialize b m0 = Some m"
  using assms
  by (simp add: PeerConfigMessage_serialize_def serialize_with_eq PeerConfigMessage_getSize_def
      PeerConfigMessage_deserialize_def wire_simps base_size Let_def)
     (simp add: copy_base_def PeerConfigMessage.equality)

lemma base_roundtrip:
  fixes m m0 :: ABSMessage
  assumes "base_ok m"
  shows "\<exists>b. ABSMessage_serialize m = Some b \<and> length b = getBaseSize m \<and> ABSMessage_deserialize b m0 = Some m"
  using base_decode[OF assms, of "[]" m0]
  by (simp add: ABSMessage_serialize_eq base_size) (simp add: copy_base_def ABSMessage.equality)

lemma ChangeStatus_overflow: "PeerChangeStatusMessage_serialize m = None"
  by (simp add: PeerChangeStatusMessage_serialize_def)

lemma DynChangeStatus_overflow: "PeerDynChangeStatusMessage_serialize m = None"
  by (simp add: PeerDynChangeStatusMessage_serialize_def)

lemma status_write_overflow:
  "serialize_with [int_bytes (cs_peer_status m)] (PeerChangeStatusMessage_getSize m) m = None"
  by (simp add: serialize_with_eq PeerChangeStatusMessage_getSize_def)

section \<open>The INIT message\<close>

definition entry_ok :: "OverlayID \<times> HostAddress \<Rightarrow> bool" where
  "entry_ok e \<longleftrightarrow> int_key (fst e) \<and> string_ok (hostName (snd e))"

lemma rd_entry_written:
  "entry_ok e \<Longrightarrow> rd_entry (map Some (concat (entry_chunks e)) @ rest) = Some (e, rest)"
  by (cases e)
     (simp add: rd_entry_def entry_chunks_def entry_ok_def wire_simps HostAddress_default_def)

interpretation entry_field: wire_field "\<lambda>e. concat (entry_chunks e)" rd_entry entry_ok
  by unfold_locales (rule rd_entry_written)

lemma table_entries_wf:
  assumes "oid.wf_table t"
  shows "set es \<subseteq> set t \<Longrightarrow> table_entries t value (map fst es) = es"
proof (induction es arbitrary: "value")
  case (Cons e es)
  obtain k v where e: "e = (k, v)" by fastforce
  with Cons.prems have "table_lookup oid_less k t = Some v"
    using oid.lookup_of_entry[OF assms] by simp
  with e Cons show ?case by (simp add: lookup_into_def Let_def)
qed simp

lemma sizes_of_entries:
  assumes "oid.wf_table t"
  shows "set es \<subseteq> set t \<Longrightarrow>
    sum_list (map (\<lambda>key. 4 * 5 + length (hostName (lookup_into t key HostAddress_default))) (map fst es))
    = length (concat (concat (map entry_chunks es)))"
proof (induction es)
  case (Cons e es)
  obtain k v where e: "e = (k, v)" by fastforce
  with Cons.prems have "table_lookup oid_less k t = Some v"
    using oid.lookup_of_entry[OF assms] by simp
  with e Cons show ?case by (simp add: lookup_into_def entry_chunks_def del: map_map)
qed simp

lemma rebuild_table:
  "oid.wf_table (t @ es) \<Longrightarrow>
   foldl (\<lambda>t (key, value). snd (table_add oid_less key value t)) t es = t @ es"
proof (induction es arbitrary: t)
  case (Cons e es)
  obtain k v where e: "e = (k, v)" by fastforce
  have all: "\<forall>k' \<in> fst ` set t. oid_less k' k" and wf: "oid.wf_table t"
    using Cons.prems e by (auto simp: oid.wf_table_def sorted_wrt_append)
  have "map_find oid_less k t = None \<and> map_insert oid_less k v t = t @ [(k, v)]"
    using all
  proof (induction t)
    case (Cons f t)
    moreover have "\<not> oid_less k (fst f)"
      using Cons.prems oid.lt_irrefl oid.lt_trans by (meson image_eqI list.set_intros(1))
    ultimately show ?case by (cases f) auto
  qed simp
  then have "snd (table_add oid_less k v t) = t @ [e]" by (simp add: table_add_def e)
  with e Cons.IH[of "t @ [e]"] Cons.prems show ?case by simp
qed simp

lemma rd_raw_written:
  assumes "string_ok s" and "0 \<notin> set s"
  shows "rd_raw_string end_byte (map Some (int_bytes (of_nat (length s))) @ map Some s @ rest) =
    (if end_byte = Some 0 then Some (s, rest) else None)"
proof -
  have "rd (length s) (map Some s @ rest) = Some (s, rest)" by (rule rd_prefix) simp
  moreover have "c_string (map Some s @ [end_byte]) = (if end_byte = Some 0 then Some s else None)"
    using assms(2) by (cases end_byte) (auto simp: c_string_append)
  ultimately show ?thesis
    using assms(1) by (simp add: rd_raw_string_def wire_simps string_ok_def sint_of_nat_small)
qed

definition init_ok :: "PeerInitMessage \<Rightarrow> bool" where
  "init_ok m \<longleftrightarrow> base_ok m \<and> oid.wf_table (pi_routing_table m) \<and> list_all entry_ok (pi_routing_table m)
     \<and> length (pi_routing_table m) < 2 ^ 31
     \<and> (\<forall>s \<in> {pi_peer_name m, pi_log_server_name m, pi_log_server_user m}. string_ok s \<and> 0 \<notin> set s)"

lemma concat_entries: "concat (concat (map entry_chunks es)) = concat (map (\<lambda>e. concat (entry_chunks e)) es)"
  by (induction es) auto

lemma rd_entries:
  "list_all entry_ok es \<Longrightarrow>
   rd_many rd_entry (length es) (map Some (concat (map (\<lambda>e. concat (entry_chunks e)) es))) = Some (es, [])"
  using entry_field.dec_many[of es "[]"] by simp

lemma INIT_written:
  assumes ok: "init_ok m"
  shows "\<exists>b. PeerInitMessage_serialize True m = Some b \<and> length b = PeerInitMessage_getSize m \<and>
    PeerInitMessage_deserialize fill b m0 = (if fill = Some 0 then Some m else None)"
proof -
  let ?t = "pi_routing_table m"
  have wf: "oid.wf_table ?t" using ok by (simp add: init_ok_def)
  have es: "table_entries ?t HostAddress_default (reset_iterator ?t) = ?t"
    using table_entries_wf[OF wf, of ?t] by (simp add: reset_iterator_def)
  have sz: "PeerInitMessage_getSize m = getBaseSize m + 56 + (length (pi_log_server_name m)
      + length (pi_log_server_user m) + length (pi_peer_name m))
      + length (concat (map (\<lambda>e. concat (entry_chunks e)) ?t))"
    using sizes_of_entries[OF wf, of ?t]
    by (simp add: PeerInitMessage_getSize_def reset_iterator_def concat_entries del: map_map length_concat)
  define b where "b = map Some (concat (base_chunks m)) @
     map Some (int_bytes (pi_n_peers m)) @ map Some (int_bytes (pi_k m)) @ map Some (double_bytes (pi_alpha m)) @
     map Some (int_bytes (pi_publish_start m)) @ map Some (int_bytes (pi_publish_end m)) @
     map Some (int_bytes (pi_lookup_start m)) @ map Some (int_bytes (pi_lookup_end m)) @
     map Some (int_bytes (pi_webserver_port m)) @ map Some (int_bytes (pi_run_sequence_no m)) @
     map Some (int_bytes (of_nat (length (pi_peer_name m)))) @ map Some (pi_peer_name m) @
     map Some (int_bytes (of_nat (length (pi_log_server_name m)))) @ map Some (pi_log_server_name m) @
     map Some (int_bytes (of_nat (length (pi_log_server_user m)))) @ map Some (pi_log_server_user m) @
     map Some (int_bytes (of_nat (length ?t))) @ map Some (concat (map (\<lambda>e. concat (entry_chunks e)) ?t))"
  have "PeerInitMessage_serialize True m = Some b"
    unfolding PeerInitMessage_serialize_def es Let_def serialize_with_eq sz b_def
    by (simp add: temp_chars_def table_size_def concat_entries del: length_concat)
  moreover have "length b = PeerInitMessage_getSize m"
    unfolding sz b_def by (simp add: base_size del: length_concat)
  moreover have "PeerInitMessage_deserialize fill b m0 = (if fill = Some 0 then Some m else None)"
  proof -
    have ok': "base_ok m" "list_all entry_ok ?t" "length ?t < 2 ^ 31"
      "string_ok (pi_peer_name m)" "0 \<notin> set (pi_peer_name m)"
      "string_ok (pi_log_server_name m)" "0 \<notin> set (pi_log_server_name m)"
      "string_ok (pi_log_server_user m)" "0 \<notin> set (pi_log_server_user m)"
      using ok by (simp_all add: init_ok_def)
    have n: "nat (sint (of_nat (length ?t) :: cint)) = length ?t" using ok'(3) by (simp add: sint_of_nat_small)
    note decode = rd_raw_written[OF ok'(4,5)] rd_raw_written[OF ok'(6,7)] rd_raw_written[OF ok'(8,9)]
      n rd_entries[OF ok'(2)] base_decode[OF ok'(1)] drop_base
    have t: "foldl (\<lambda>t (key, value). snd (table_add oid_less key value t)) [] ?t = ?t"
      using rebuild_table[of "[]" ?t] wf by simp
    have "PeerInitMessage_deserialize (Some 0) b m0 = Some m"
      unfolding PeerInitMessage_deserialize_def b_def
      by (simp add: decode wire_simps Let_def table_clear_def base_size)
         (simp add: copy_base_def t PeerInitMessage.equality)
    moreover have "PeerInitMessage_deserialize fill b m0 = None" if "fill \<noteq> Some 0"
      unfolding PeerInitMessage_deserialize_def b_def
      using that by (simp add: decode wire_simps Let_def table_clear_def base_size)
    ultimately show ?thesis by auto
  qed
  ultimately show ?thesis by blast
qed

end
