(* ===== verification/Receive.thy ===== *)
theory Receive
  imports Peer_Messages Control_Messages
begin

text \<open>
  A message as the peers handle it: \<^verbatim>\<open>ABSMessage*\<close>, an object of one of the message classes, with the
  virtual \<^verbatim>\<open>serialize\<close>, and the switch with which the listening thread of a peer
  (\<^verbatim>\<open>server_system_test.cc\<close>) builds the object for the bytes it received.
\<close>

section \<open>Message objects\<close>

datatype message =
  Msg_INIT PeerInitMessage
| Msg_GET MessageGET
| Msg_GET_REPLY MessageGET_REPLY
| Msg_PUT MessagePUT
| Msg_PUT_REPLY MessagePUT_REPLY
| Msg_INITIATE_GET PeerInitiateGET
| Msg_INITIATE_PUT PeerInitiatePUT
| Msg_START ABSMessage
| Msg_CHANGE_STATUS PeerChangeStatusMessage
| Msg_GEN_NAME ABSMessage
| Msg_LOOKUP_NAME ABSMessage
| Msg_DYN_STATUS PeerDynChangeStatusMessage
| Msg_FORCE_LOG ABSMessage
| Msg_CACHE_ME MessageCacheMe
| Msg_RETRIEVE RetrieveMessage
| Msg_RETRIEVE_REPLY MessageRetrieveReply
| Msg_CONFIG PeerConfigMessage

fun message_base :: "message \<Rightarrow> ABSMessage" where
  "message_base (Msg_INIT m) = ABSMessage.truncate m"
| "message_base (Msg_GET m) = ABSMessage.truncate m"
| "message_base (Msg_GET_REPLY m) = ABSMessage.truncate m"
| "message_base (Msg_PUT m) = ABSMessage.truncate m"
| "message_base (Msg_PUT_REPLY m) = ABSMessage.truncate m"
| "message_base (Msg_INITIATE_GET m) = ABSMessage.truncate m"
| "message_base (Msg_INITIATE_PUT m) = ABSMessage.truncate m"
| "message_base (Msg_START m) = m"
| "message_base (Msg_CHANGE_STATUS m) = ABSMessage.truncate m"
| "message_base (Msg_GEN_NAME m) = m"
| "message_base (Msg_LOOKUP_NAME m) = m"
| "message_base (Msg_DYN_STATUS m) = ABSMessage.truncate m"
| "message_base (Msg_FORCE_LOG m) = m"
| "message_base (Msg_CACHE_ME m) = m"
| "message_base (Msg_RETRIEVE m) = ABSMessage.truncate m"
| "message_base (Msg_RETRIEVE_REPLY m) = ABSMessage.truncate m"
| "message_base (Msg_CONFIG m) = ABSMessage.truncate m"

text \<open>The type a class announces on the wire.\<close>

fun class_type :: "message \<Rightarrow> byte" where
  "class_type (Msg_INIT _) = MSG_PEER_INIT"
| "class_type (Msg_GET _) = MSG_PLEXUS_GET"
| "class_type (Msg_GET_REPLY _) = MSG_PLEXUS_GET_REPLY"
| "class_type (Msg_PUT _) = MSG_PLEXUS_PUT"
| "class_type (Msg_PUT_REPLY _) = MSG_PLEXUS_PUT_REPLY"
| "class_type (Msg_INITIATE_GET _) = MSG_PEER_INITIATE_GET"
| "class_type (Msg_INITIATE_PUT _) = MSG_PEER_INITIATE_PUT"
| "class_type (Msg_START _) = MSG_PEER_START"
| "class_type (Msg_CHANGE_STATUS _) = MSG_PEER_CHANGE_STATUS"
| "class_type (Msg_GEN_NAME _) = MSG_START_GENERATE_NAME"
| "class_type (Msg_LOOKUP_NAME _) = MSG_START_LOOKUP_NAME"
| "class_type (Msg_DYN_STATUS _) = MSG_DYN_CHANGE_STATUS"
| "class_type (Msg_FORCE_LOG _) = MSG_PEER_FORCE_LOG"
| "class_type (Msg_CACHE_ME _) = MSG_CACHE_ME"
| "class_type (Msg_RETRIEVE _) = MSG_RETRIEVE"
| "class_type (Msg_RETRIEVE_REPLY _) = MSG_RETRIEVE_REPLY"
| "class_type (Msg_CONFIG _) = MSG_PEER_CONFIG"

text \<open>
  \<open>cow\<close>: strings are reference counted; \<open>rv\<close>: what \<^verbatim>\<open>MessageGET::getSize\<close>, which has no
  \<^verbatim>\<open>return\<close>, happens to yield.
\<close>

fun serialize :: "bool \<Rightarrow> nat \<Rightarrow> message \<Rightarrow> buffer option" where
  "serialize cow rv (Msg_INIT m) = PeerInitMessage_serialize cow m"
| "serialize cow rv (Msg_GET m) = MessageGET_serialize rv m"
| "serialize cow rv (Msg_GET_REPLY m) = MessageGET_REPLY_serialize cow m"
| "serialize cow rv (Msg_PUT m) = MessagePUT_serialize m"
| "serialize cow rv (Msg_PUT_REPLY m) = MessagePUT_REPLY_serialize m"
| "serialize cow rv (Msg_INITIATE_GET m) = PeerInitiateGET_serialize m"
| "serialize cow rv (Msg_INITIATE_PUT m) = PeerInitiatePUT_serialize m"
| "serialize cow rv (Msg_START m) = PeerStartMessage_serialize m"
| "serialize cow rv (Msg_CHANGE_STATUS m) = PeerChangeStatusMessage_serialize m"
| "serialize cow rv (Msg_GEN_NAME m) = PeerStartGenNameMessage_serialize m"
| "serialize cow rv (Msg_LOOKUP_NAME m) = PeerStartLookupNameMessage_serialize m"
| "serialize cow rv (Msg_DYN_STATUS m) = PeerDynChangeStatusMessage_serialize m"
| "serialize cow rv (Msg_FORCE_LOG m) = LogForceMessage_serialize m"
| "serialize cow rv (Msg_CACHE_ME m) = MessageCacheMe_serialize m"
| "serialize cow rv (Msg_RETRIEVE m) = RetrieveMessage_serialize m"
| "serialize cow rv (Msg_RETRIEVE_REPLY m) = MessageRetrieveReply_serialize cow m"
| "serialize cow rv (Msg_CONFIG m) = PeerConfigMessage_serialize m"

section \<open>The switch of the listening thread\<close>

text \<open>
  The object is built by the constructor without arguments, which draws a sequence number, and
  then overwritten. The memory of a new object is taken to be zero; every field is overwritten, so
  it does not matter. The result is None where the code is undefined, Some None for a type
  without a case.
\<close>

definition raw_oid :: OverlayID where "raw_oid = OverlayID_new 0 0 0"

definition raw_base :: ABSMessage where
  "raw_base = \<lparr>messageType = 0, sequence_no = 0, dest_host = [], dest_port = 0, source_host = [],
     source_port = 0, overlay_hops = 0, overlay_ttl = 0, ip_hops = 0, latency = 0,
     dst_oid = raw_oid, src_oid = raw_oid\<rparr>"

definition fresh :: "'a \<Rightarrow> cint \<Rightarrow> cint \<Rightarrow> 'a ABSMessage_scheme" where
  "fresh x network_size gen =
     snd (ABSMessage_INIT network_size gen (ABSMessage.extend raw_base x))"

definition receive :: "byte option \<Rightarrow> cint \<Rightarrow> cint \<Rightarrow> buffer \<Rightarrow> (cint \<times> message) option option" where
  "receive fill network_size gen buffer =
     do { (messageType, _) \<leftarrow> rd_char buffer;
          let new = (\<lambda>m. Some (gen + 1, m));
          if messageType = MSG_PEER_INIT then
            map_option (\<lambda>m. new (Msg_INIT m)) (PeerInitMessage_deserialize fill buffer
              (fresh (PeerInitMessage.fields [] 0 0 0 0 0 0 0 0 0 [] [] []) network_size gen))
          else if messageType = MSG_PLEXUS_GET then
            map_option (\<lambda>m. new (Msg_GET m)) (MessageGET_deserialize buffer
              (fresh (MessageGET.fields raw_oid []) network_size gen))
          else if messageType = MSG_PLEXUS_GET_REPLY then
            map_option (\<lambda>m. new (Msg_GET_REPLY m)) (MessageGET_REPLY_deserialize buffer
              (fresh (MessageGET_REPLY.fields 0 0 0 0 0 raw_oid HostAddress_default []) network_size gen))
          else if messageType = MSG_PLEXUS_PUT then
            map_option (\<lambda>m. new (Msg_PUT m)) (MessagePUT_deserialize buffer
              (fresh (MessagePUT.fields raw_oid [] HostAddress_default) network_size gen))
          else if messageType = MSG_PLEXUS_PUT_REPLY then
            map_option (\<lambda>m. new (Msg_PUT_REPLY m)) (MessagePUT_REPLY_deserialize buffer
              (fresh (MessagePUT_REPLY.fields 0 0 0 0 0 raw_oid []) network_size gen))
          else if messageType = MSG_PEER_INITIATE_GET then
            map_option (\<lambda>m. new (Msg_INITIATE_GET m)) (PeerInitiateGET_deserialize buffer
              (fresh (PeerInitiateGET.fields []) network_size gen))
          else if messageType = MSG_PEER_INITIATE_PUT then
            map_option (\<lambda>m. new (Msg_INITIATE_PUT m)) (PeerInitiatePUT_deserialize buffer
              (fresh (PeerInitiatePUT.fields [] HostAddress_default) network_size gen))
          else if messageType = MSG_PEER_START then
            map_option (\<lambda>m. new (Msg_START m)) (PeerStartMessage_deserialize buffer
              (snd (ABSMessage_type network_size MSG_PEER_START gen raw_base)))
          else if messageType = MSG_PEER_CHANGE_STATUS then
            map_option (\<lambda>m. new (Msg_CHANGE_STATUS m)) (PeerChangeStatusMessage_deserialize buffer
              (fresh (PeerChangeStatusMessage.fields 0) network_size gen))
          else if messageType = MSG_START_GENERATE_NAME then
            map_option (\<lambda>m. new (Msg_GEN_NAME m)) (PeerStartGenNameMessage_deserialize buffer
              (snd (PeerStartGenNameMessage_new network_size gen raw_base)))
          else if messageType = MSG_START_LOOKUP_NAME then
            map_option (\<lambda>m. new (Msg_LOOKUP_NAME m)) (PeerStartLookupNameMessage_deserialize buffer
              (snd (PeerStartLookupNameMessage_new network_size gen raw_base)))
          else if messageType = MSG_DYN_CHANGE_STATUS then
            map_option (\<lambda>m. new (Msg_DYN_STATUS m)) (PeerDynChangeStatusMessage_deserialize buffer
              (fresh (PeerDynChangeStatusMessage.fields 0) network_size gen))
          else if messageType = MSG_PEER_FORCE_LOG then
            map_option (\<lambda>m. new (Msg_FORCE_LOG m)) (LogForceMessage_deserialize buffer
              (snd (ABSMessage_type network_size MSG_PEER_FORCE_LOG gen raw_base)))
          else if messageType = MSG_CACHE_ME then
            map_option (\<lambda>m. new (Msg_CACHE_ME m)) (MessageCacheMe_deserialize buffer
              (snd (ABSMessage_INIT network_size gen raw_base)))
          else if messageType = MSG_RETRIEVE then
            map_option (\<lambda>m. new (Msg_RETRIEVE m)) (RetrieveMessage_deserialize buffer
              (fresh (RetrieveMessage.fields []) network_size gen))
          else if messageType = MSG_RETRIEVE_REPLY then
            map_option (\<lambda>m. new (Msg_RETRIEVE_REPLY m)) (MessageRetrieveReply_deserialize buffer
              (fresh (MessageRetrieveReply.fields 0 0 0 0 0 HostAddress_default []) network_size gen))
          else Some None }"

section \<open>Sending and receiving\<close>

text \<open>
  The messages the format can carry: ids in the range of \<^verbatim>\<open>int\<close>, strings shorter than 2^31, the
  type of the class in the type field, a well-formed routing table in INIT, no host name in the
  replies that have one. The status messages are not among them, nor is the configuration message,
  for which the receiver has no case.
\<close>

fun message_ok :: "nat \<Rightarrow> message \<Rightarrow> bool" where
  "message_ok rv (Msg_INIT m) = init_ok m"
| "message_ok rv (Msg_GET m) =
     (base_ok m \<and> int_key (get_target_oid m) \<and> string_ok (get_deviceName m) \<and> MessageGET_size m \<le> rv)"
| "message_ok rv (Msg_GET_REPLY m) =
     (base_ok m \<and> int_key (gr_target_oid m) \<and> string_ok (gr_device_name m) \<and> hostName (gr_host_address m) = [])"
| "message_ok rv (Msg_PUT m) =
     (base_ok m \<and> int_key (put_target_oid m) \<and> string_ok (put_deviceName m) \<and> string_ok (hostName (put_hostAddress m)))"
| "message_ok rv (Msg_PUT_REPLY m) =
     (base_ok m \<and> int_key (pr_target_oid m) \<and> string_ok (pr_device_name m))"
| "message_ok rv (Msg_INITIATE_GET m) = (base_ok m \<and> string_ok (ig_device_name m))"
| "message_ok rv (Msg_INITIATE_PUT m) =
     (base_ok m \<and> string_ok (ip_device_name m) \<and> string_ok (hostName (ip_hostAddress m)))"
| "message_ok rv (Msg_START m) = base_ok m"
| "message_ok rv (Msg_CHANGE_STATUS m) = False"
| "message_ok rv (Msg_GEN_NAME m) = base_ok m"
| "message_ok rv (Msg_LOOKUP_NAME m) = base_ok m"
| "message_ok rv (Msg_DYN_STATUS m) = False"
| "message_ok rv (Msg_FORCE_LOG m) = base_ok m"
| "message_ok rv (Msg_CACHE_ME m) = base_ok m"
| "message_ok rv (Msg_RETRIEVE m) = (base_ok m \<and> string_ok (rm_deviceName m))"
| "message_ok rv (Msg_RETRIEVE_REPLY m) =
     (base_ok m \<and> string_ok (rr_device_name m) \<and> hostName (rr_host_address m) = [])"
| "message_ok rv (Msg_CONFIG m) = False"

text \<open>The first byte of a serialised message is its type.\<close>

lemma rd_char_base:
  "base_ok m \<Longrightarrow> \<exists>r. rd_char (map Some (concat (base_chunks m)) @ rest) = Some (messageType m, r)"
  by (simp add: base_chunks_def wire_simps)

lemma serialize_type:
  assumes "serialize cow rv m = Some b"
  shows "\<exists>r. rd_char b = Some (messageType (message_base m), r)"
proof -
  have w: "\<exists>r. rd_char b = Some (messageType x, r)" if "serialize_with c sz x = Some b"
    for c sz and x :: "'a ABSMessage_scheme"
    using that by (auto simp: serialize_with_eq base_chunks_def wire_simps split: if_splits)
  have p: "\<exists>r. rd_char b = Some (messageType x, r)" if "ABSMessage_serialize x = Some b"
    for x :: ABSMessage
    using that by (auto simp: ABSMessage_serialize_eq base_chunks_def wire_simps)
  show ?thesis using assms
    by (cases m)
       (auto simp: ABSMessage.defs PeerInitMessage_serialize_def MessageGET_serialize_def
          MessageGET_REPLY_serialize_def MessagePUT_serialize_def MessagePUT_REPLY_serialize_def
          PeerInitiateGET_serialize_def PeerInitiatePUT_serialize_def PeerStartMessage_serialize_def
          PeerChangeStatusMessage_serialize_def PeerStartGenNameMessage_serialize_def
          PeerStartLookupNameMessage_serialize_def PeerDynChangeStatusMessage_serialize_def
          LogForceMessage_serialize_def MessageCacheMe_serialize_def RetrieveMessage_serialize_def
          MessageRetrieveReply_serialize_def PeerConfigMessage_serialize_def Let_def bind_eq_Some_conv dest!: w p split: if_splits)
qed

lemma every_object:
  assumes "\<And>m0. \<exists>b. s = Some b \<and> P b \<and> d b m0 = r"
  shows "\<exists>b. s = Some b \<and> (\<forall>m0. d b m0 = r)"
  using assms by (metis option.inject)

lemma base_every_object:
  fixes m :: ABSMessage
  shows "base_ok m \<Longrightarrow> \<exists>b. ABSMessage_serialize m = Some b \<and> (\<forall>m0 :: ABSMessage. ABSMessage_deserialize b m0 = Some m)"
  by (rule every_object, rule base_roundtrip)

lemma receive_dispatch:
  assumes "serialize cow rv m = Some b" and "messageType (message_base m) = class_type m"
  shows "\<exists>r. rd_char b = Some (class_type m, r)"
  using serialize_type[OF assms(1)] assms(2) by auto

lemma message_received:
  assumes "message_ok rv m" and "messageType (message_base m) = class_type m"
  shows "\<exists>b. serialize True rv m = Some b \<and> receive (Some 0) ns gen b = Some (Some (gen + 1, m))"
proof (cases m)
  case (Msg_INIT x)
  have "\<exists>b. PeerInitMessage_serialize True x = Some b \<and> (\<forall>m0. PeerInitMessage_deserialize (Some 0) b m0 = Some x)"
    using INIT_written[of x "Some 0"] assms Msg_INIT by (intro every_object) auto
  with receive_dispatch[OF _ assms(2)] Msg_INIT show ?thesis by (fastforce simp: receive_def)
next
  case (Msg_GET x)
  have "\<exists>b. MessageGET_serialize rv x = Some b \<and> (\<forall>m0. MessageGET_deserialize b m0 = Some x)"
    using assms Msg_GET by (intro every_object[where P = "\<lambda>b. length b = rv"], intro GET_roundtrip) auto
  with receive_dispatch[OF _ assms(2)] Msg_GET show ?thesis by (fastforce simp: receive_def)
next
  case (Msg_GET_REPLY x)
  have "\<exists>b. MessageGET_REPLY_serialize True x = Some b \<and> (\<forall>m0. MessageGET_REPLY_deserialize b m0 = Some x)"
    using GET_REPLY_written[of x] assms Msg_GET_REPLY by (intro every_object) (auto simp: string_ok_def)
  with receive_dispatch[OF _ assms(2)] Msg_GET_REPLY show ?thesis by (fastforce simp: receive_def)
next
  case (Msg_PUT x)
  have "\<exists>b. MessagePUT_serialize x = Some b \<and> (\<forall>m0. MessagePUT_deserialize b m0 = Some x)"
    using assms Msg_PUT by (intro every_object[where P = "\<lambda>b. length b = MessagePUT_getSize x"], intro PUT_roundtrip) auto
  with receive_dispatch[OF _ assms(2)] Msg_PUT show ?thesis by (fastforce simp: receive_def)
next
  case (Msg_PUT_REPLY x)
  have "\<exists>b. MessagePUT_REPLY_serialize x = Some b \<and> (\<forall>m0. MessagePUT_REPLY_deserialize b m0 = Some x)"
    using assms Msg_PUT_REPLY by (intro every_object[where P = "\<lambda>b. length b = MessagePUT_REPLY_getSize x"], intro PUT_REPLY_roundtrip) auto
  with receive_dispatch[OF _ assms(2)] Msg_PUT_REPLY show ?thesis by (fastforce simp: receive_def)
next
  case (Msg_INITIATE_GET x)
  have "\<exists>b. PeerInitiateGET_serialize x = Some b \<and> (\<forall>m0. PeerInitiateGET_deserialize b m0 = Some x)"
    using assms Msg_INITIATE_GET by (intro every_object[where P = "\<lambda>b. length b = PeerInitiateGET_getSize x"], intro InitiateGET_roundtrip) auto
  with receive_dispatch[OF _ assms(2)] Msg_INITIATE_GET show ?thesis by (fastforce simp: receive_def)
next
  case (Msg_INITIATE_PUT x)
  have "\<exists>b. PeerInitiatePUT_serialize x = Some b \<and> (\<forall>m0. PeerInitiatePUT_deserialize b m0 = Some x)"
    using assms Msg_INITIATE_PUT by (intro every_object[where P = "\<lambda>b. length b = PeerInitiatePUT_getSize x"], intro InitiatePUT_roundtrip) auto
  with receive_dispatch[OF _ assms(2)] Msg_INITIATE_PUT show ?thesis by (fastforce simp: receive_def)
next
  case (Msg_RETRIEVE x)
  have "\<exists>b. RetrieveMessage_serialize x = Some b \<and> (\<forall>m0. RetrieveMessage_deserialize b m0 = Some x)"
    using assms Msg_RETRIEVE by (intro every_object[where P = "\<lambda>b. length b = RetrieveMessage_getSize x"], intro Retrieve_roundtrip) auto
  with receive_dispatch[OF _ assms(2)] Msg_RETRIEVE show ?thesis by (fastforce simp: receive_def)
next
  case (Msg_RETRIEVE_REPLY x)
  have "\<exists>b. MessageRetrieveReply_serialize True x = Some b \<and> (\<forall>m0. MessageRetrieveReply_deserialize b m0 = Some x)"
    using RetrieveReply_written[of x] assms Msg_RETRIEVE_REPLY by (intro every_object) (auto simp: string_ok_def)
  with receive_dispatch[OF _ assms(2)] Msg_RETRIEVE_REPLY show ?thesis by (fastforce simp: receive_def)
next
  case (Msg_START x)
  with base_every_object[of x] assms receive_dispatch[OF _ assms(2)] show ?thesis
    by (fastforce simp: receive_def PeerStartMessage_serialize_def PeerStartMessage_deserialize_def)
next
  case (Msg_GEN_NAME x)
  with base_every_object[of x] assms receive_dispatch[OF _ assms(2)] show ?thesis
    by (fastforce simp: receive_def PeerStartGenNameMessage_serialize_def PeerStartGenNameMessage_deserialize_def)
next
  case (Msg_LOOKUP_NAME x)
  with base_every_object[of x] assms receive_dispatch[OF _ assms(2)] show ?thesis
    by (fastforce simp: receive_def PeerStartLookupNameMessage_serialize_def PeerStartLookupNameMessage_deserialize_def)
next
  case (Msg_FORCE_LOG x)
  with base_every_object[of x] assms receive_dispatch[OF _ assms(2)] show ?thesis
    by (fastforce simp: receive_def LogForceMessage_serialize_def LogForceMessage_deserialize_def)
next
  case (Msg_CACHE_ME x)
  with base_every_object[of x] assms receive_dispatch[OF _ assms(2)] show ?thesis
    by (fastforce simp: receive_def MessageCacheMe_serialize_def MessageCacheMe_deserialize_def)
qed (use assms in auto)



lemma retrieve_reply_with_host_undefined:
  assumes "base_ok n" and "messageType n = MSG_RETRIEVE_REPLY" and "string_ok (rr_device_name n)"
    and "string_ok (hostName (rr_host_address n))" and "hostName (rr_host_address n) \<noteq> []"
  shows "(\<exists>b. serialize True rv (Msg_RETRIEVE_REPLY n) = Some b \<and> receive fill ns gen b = None)
    \<and> serialize False rv (Msg_RETRIEVE_REPLY n) = None"
proof -
  have "\<exists>b. MessageRetrieveReply_serialize True n = Some b \<and> (\<forall>m0. MessageRetrieveReply_deserialize b m0 = None)"
    using RetrieveReply_written[of n] assms by (intro every_object) auto
  moreover have "messageType (message_base (Msg_RETRIEVE_REPLY n)) = class_type (Msg_RETRIEVE_REPLY n)"
    using assms(2) by (simp add: ABSMessage.defs)
  ultimately have "\<exists>b. serialize True rv (Msg_RETRIEVE_REPLY n) = Some b \<and> receive fill ns gen b = None"
    using receive_dispatch[of True rv "Msg_RETRIEVE_REPLY n"] by (fastforce simp: receive_def)
  with assms(5) show ?thesis by (simp add: MessageRetrieveReply_serialize_def temp_chars_def)
qed

text \<open>
  The replies lose every host name: a GET reply with a non-empty host name is written
  correctly if strings are reference counted (and reads a destroyed string otherwise), but
  receiving it is undefined, because each character is copied with the size of an \<^verbatim>\<open>int\<close> into a
  \<^verbatim>\<open>char\<close>. (RETRIEVE replies behave in the same way.)
\<close>

theorem reply_with_host_undefined:
  assumes "base_ok m" and "messageType m = MSG_PLEXUS_GET_REPLY" and "int_key (gr_target_oid m)"
    and "string_ok (gr_device_name m)" and "string_ok (hostName (gr_host_address m))"
    and "hostName (gr_host_address m) \<noteq> []"
  shows "(\<exists>b. serialize True rv (Msg_GET_REPLY m) = Some b \<and> receive fill ns gen b = None)
    \<and> serialize False rv (Msg_GET_REPLY m) = None"
proof -
  have "\<exists>b. MessageGET_REPLY_serialize True m = Some b \<and> (\<forall>m0. MessageGET_REPLY_deserialize b m0 = None)"
    using GET_REPLY_written[of m] assms by (intro every_object) auto
  moreover have "messageType (message_base (Msg_GET_REPLY m)) = class_type (Msg_GET_REPLY m)"
    using assms(2) by (simp add: ABSMessage.defs)
  ultimately have "\<exists>b. serialize True rv (Msg_GET_REPLY m) = Some b \<and> receive fill ns gen b = None"
    using receive_dispatch[of True rv "Msg_GET_REPLY m"] by (fastforce simp: receive_def)
  with assms(6) show ?thesis by (simp add: MessageGET_REPLY_serialize_def temp_chars_def)
qed

lemma reply_with_host_undefined_witness:
  "(\<exists>b. serialize True 0 (Msg_GET_REPLY (ABSMessage.extend (raw_base\<lparr>messageType := 43\<rparr>)
      (MessageGET_REPLY.fields 0 0 0 0 0 raw_oid (HostAddress_new [104] 80) [100]))) = Some b \<and>
      receive (Some 0) 0 0 b = None)
   \<and> serialize False 0 (Msg_GET_REPLY (ABSMessage.extend (raw_base\<lparr>messageType := 43\<rparr>)
      (MessageGET_REPLY.fields 0 0 0 0 0 raw_oid (HostAddress_new [104] 80) [100]))) = None"
  by (rule reply_with_host_undefined)
     (simp_all add: base_ok_def raw_base_def ABSMessage.defs MessageGET_REPLY.defs int_key_def string_ok_def
       GetOverlay_id_def raw_oid_def OverlayID_new_def HostAddress_new_def)

text \<open>
  The status messages cannot be sent: writing the status leaves the buffer, whose size is
  that of the base class.
\<close>

theorem status_messages_undefined:
  "serialize cow rv (Msg_CHANGE_STATUS m) = None \<and> serialize cow rv (Msg_DYN_STATUS n) = None \<and>
   serialize_with [int_bytes (cs_peer_status m)] (PeerChangeStatusMessage_getSize m) m = None \<and>
   serialize_with [int_bytes (dyn_status n)] (PeerDynChangeStatusMessage_getSize n) n = None"
  by (simp add: ChangeStatus_overflow DynChangeStatus_overflow serialize_with_eq
      PeerChangeStatusMessage_getSize_def PeerDynChangeStatusMessage_getSize_def)

text \<open>
  INIT relies on memory that is not set: the strings of the log server are read back from
  arrays without a terminating zero. Unless the byte behind them is zero, receiving any
  well-formed INIT message is undefined.
\<close>

theorem init_needs_zero_memory:
  assumes "init_ok m" and "messageType m = MSG_PEER_INIT" and "fill \<noteq> Some 0"
  shows "\<exists>b. serialize True rv (Msg_INIT m) = Some b \<and> receive fill ns gen b = None"
proof -
  have "\<exists>b. PeerInitMessage_serialize True m = Some b \<and> (\<forall>m0. PeerInitMessage_deserialize fill b m0 = None)"
    using INIT_written[of m fill] assms by (intro every_object) auto
  moreover have "messageType (message_base (Msg_INIT m)) = class_type (Msg_INIT m)"
    using assms(2) by (simp add: ABSMessage.defs)
  ultimately show ?thesis
    using receive_dispatch[of True rv "Msg_INIT m"] by (fastforce simp: receive_def)
qed

lemma init_needs_zero_memory_witness:
  "\<exists>b. serialize True 0 (Msg_INIT ((fresh (PeerInitMessage.fields [] 9 3 0 0 9 0 9 80 1 [108] [117] [112]) 0 5)
      \<lparr>messageType := 4\<rparr>)) = Some b \<and> receive None 0 0 b = None"
  by (rule init_needs_zero_memory)
     (simp_all add: init_ok_def base_ok_def fresh_def ABSMessage_INIT_def calculateOverlayTTL_def raw_base_def
       ABSMessage.defs PeerInitMessage.defs int_key_def string_ok_def GetOverlay_id_def raw_oid_def OverlayID_new_def)

end
