(* ===== verification/Double_Linked_List.thy ===== *)
theory Double_Linked_List
  imports Overlay_ID
begin

text \<open>
  \<^verbatim>\<open>plnode/ds/double_linked_list.h\<close>: the doubly linked list of a cache, over an explicit heap of
  nodes. A pointer is an optional address (None for \<^verbatim>\<open>NULL\<close>); following a null or a freed pointer
  is undefined, so every operation returns an option. \<open>dll_wf d as\<close> says that the list
  \<open>d\<close> links exactly the nodes \<open>as\<close>, and every operation is proved to act on \<open>as\<close> as a
  list operation.
\<close>

section \<open>Nodes and the heap\<close>

record DLLNode =
  node_key :: OverlayID
  node_value :: HostAddress
  node_prev :: "nat option"
  node_next :: "nat option"

text \<open>The list object with its heap; addresses from \<open>brk\<close> up have never been allocated.\<close>

record DoublyLinkedList =
  heap :: "nat \<Rightarrow> DLLNode option"
  brk :: nat
  head :: "nat option"
  tail :: "nat option"

definition DoublyLinkedList_new :: DoublyLinkedList where
  "DoublyLinkedList_new = \<lparr>heap = \<lambda>_. None, brk = 0, head = None, tail = None\<rparr>"

definition node_at :: "DoublyLinkedList \<Rightarrow> nat option \<Rightarrow> DLLNode option" where
  "node_at d p = Option.bind p (heap d)"

definition upd_node :: "(DLLNode \<Rightarrow> DLLNode) \<Rightarrow> nat option \<Rightarrow> DoublyLinkedList \<Rightarrow> DoublyLinkedList option" where
  "upd_node f p d = (case p of None \<Rightarrow> None | Some a \<Rightarrow>
     (case heap d a of None \<Rightarrow> None | Some n \<Rightarrow> Some (d\<lparr>heap := (heap d)(a \<mapsto> f n)\<rparr>)))"

definition set_next :: "nat option \<Rightarrow> nat option \<Rightarrow> DoublyLinkedList \<Rightarrow> DoublyLinkedList option" where
  "set_next p v = upd_node (\<lambda>n. n\<lparr>node_next := v\<rparr>) p"

definition set_prev :: "nat option \<Rightarrow> nat option \<Rightarrow> DoublyLinkedList \<Rightarrow> DoublyLinkedList option" where
  "set_prev p v = upd_node (\<lambda>n. n\<lparr>node_prev := v\<rparr>) p"

text \<open>\<^verbatim>\<open>new DLLNode(key, value)\<close> and \<^verbatim>\<open>delete node\<close>.\<close>

definition new_node :: "OverlayID \<Rightarrow> HostAddress \<Rightarrow> DoublyLinkedList \<Rightarrow> nat \<times> DoublyLinkedList" where
  "new_node k v d =
     (brk d, d\<lparr>heap := (heap d)(brk d \<mapsto> \<lparr>node_key = k, node_value = v, node_prev = None, node_next = None\<rparr>),
               brk := Suc (brk d)\<rparr>)"

definition delete_node :: "nat option \<Rightarrow> DoublyLinkedList \<Rightarrow> DoublyLinkedList option" where
  "delete_node p d = (case p of None \<Rightarrow> Some d | Some a \<Rightarrow>
     (case heap d a of None \<Rightarrow> None | Some n \<Rightarrow> Some (d\<lparr>heap := (heap d)(a := None)\<rparr>)))"

section \<open>The operations\<close>

text \<open>\<^verbatim>\<open>contains\<close>: the loop walks \<^verbatim>\<open>temp\<close> back from the tail, but compares the key of the tail.\<close>

partial_function (option) contains_loop ::
    "OverlayID \<Rightarrow> DoublyLinkedList \<Rightarrow> nat option \<Rightarrow> bool option" where
  "contains_loop key d temp = (case temp of None \<Rightarrow> Some False | Some a \<Rightarrow>
     Option.bind (node_at d (tail d)) (\<lambda>t.
       if oid_eq (node_key t) key then Some True
       else Option.bind (heap d a) (\<lambda>n. contains_loop key d (node_prev n))))"

definition contains :: "OverlayID \<Rightarrow> DoublyLinkedList \<Rightarrow> bool option" where
  "contains key d = contains_loop key d (tail d)"

definition append2Head :: "nat \<Rightarrow> DoublyLinkedList \<Rightarrow> DoublyLinkedList option" where
  "append2Head node d =
     (if head d = None then
        (let d = d\<lparr>head := Some node, tail := Some node\<rparr> in
         Option.bind (set_prev (head d) None d) (\<lambda>d. set_next (tail d) None d))
      else
        Option.bind (set_next (Some node) (head d) d) (\<lambda>d.
        Option.bind (set_prev (head d) (Some node) d) (\<lambda>d.
        let d = d\<lparr>head := Some node\<rparr> in set_prev (head d) None d)))"

definition append2Head_new :: "OverlayID \<Rightarrow> HostAddress \<Rightarrow> DoublyLinkedList \<Rightarrow> DoublyLinkedList option" where
  "append2Head_new k v d = (let (node, d) = new_node k v d in append2Head node d)"

definition append2Tail :: "nat \<Rightarrow> DoublyLinkedList \<Rightarrow> DoublyLinkedList option" where
  "append2Tail node d =
     (if tail d = None then
        (let d = d\<lparr>head := Some node, tail := Some node\<rparr> in
         Option.bind (set_prev (head d) None d) (\<lambda>d. set_next (tail d) None d))
      else
        Option.bind (set_prev (Some node) (tail d) d) (\<lambda>d.
        Option.bind (set_next (tail d) (Some node) d) (\<lambda>d.
        let d = d\<lparr>tail := Some node\<rparr> in set_next (tail d) None d)))"

definition append2Tail_new :: "OverlayID \<Rightarrow> HostAddress \<Rightarrow> DoublyLinkedList \<Rightarrow> DoublyLinkedList option" where
  "append2Tail_new k v d = (let (node, d) = new_node k v d in append2Tail node d)"

text \<open>\<^verbatim>\<open>removeTail\<close> frees the node only when it is the single one; the other nodes it unlinks leak.\<close>

definition removeTail :: "DoublyLinkedList \<Rightarrow> DoublyLinkedList option" where
  "removeTail d =
     (if tail d = head d then
        map_option (\<lambda>d. d\<lparr>head := None, tail := None\<rparr>) (delete_node (tail d) d)
      else
        (let temp = tail d in
         Option.bind (node_at d (tail d)) (\<lambda>n.
         let d = d\<lparr>tail := node_prev n\<rparr> in
         Option.bind (set_next (tail d) None d) (\<lambda>d. set_prev temp None d))))"

definition extract_node :: "nat \<Rightarrow> DoublyLinkedList \<Rightarrow> (nat option \<times> DoublyLinkedList) option" where
  "extract_node node d =
     (if head d = None \<or> tail d = None then Some (None, d)
      else Option.bind
        (if head d = Some node \<and> tail d = Some node then Some (d\<lparr>head := None, tail := None\<rparr>)
         else if head d = Some node then
           Option.bind (heap d node) (\<lambda>n.
           let d = d\<lparr>head := node_next n\<rparr> in set_prev (head d) None d)
         else if tail d = Some node then
           Option.bind (heap d node) (\<lambda>n.
           let d = d\<lparr>tail := node_prev n\<rparr> in set_next (tail d) None d)
         else
           Option.bind (heap d node) (\<lambda>n.
           Option.bind (set_next (node_prev n) (node_next n) d) (\<lambda>d.
           Option.bind (heap d node) (\<lambda>n. set_prev (node_next n) (node_prev n) d))))
        (\<lambda>d. Option.bind (set_prev (Some node) None d) (\<lambda>d.
             Option.bind (set_next (Some node) None d) (\<lambda>d. Some (Some node, d)))))"

definition remove :: "nat \<Rightarrow> DoublyLinkedList \<Rightarrow> DoublyLinkedList option" where
  "remove node d = Option.bind (extract_node node d) (\<lambda>(p, d). delete_node p d)"

definition move2Head :: "nat \<Rightarrow> DoublyLinkedList \<Rightarrow> DoublyLinkedList option" where
  "move2Head node d =
     (if head d = None \<or> tail d = None then Some d
      else if head d \<noteq> Some node then
        Option.bind
          (if tail d = Some node then
             Option.bind (node_at d (tail d)) (\<lambda>n.
             let d = d\<lparr>tail := node_prev n\<rparr> in set_next (tail d) None d)
           else
             Option.bind (heap d node) (\<lambda>n.
             Option.bind (set_next (node_prev n) (node_next n) d) (\<lambda>d.
             Option.bind (heap d node) (\<lambda>n. set_prev (node_next n) (node_prev n) d))))
          (\<lambda>d. Option.bind (set_next (Some node) (head d) d) (\<lambda>d.
               Option.bind (set_prev (head d) (Some node) d) (\<lambda>d.
               let d = d\<lparr>head := Some node\<rparr> in set_prev (head d) None d)))
      else Some d)"

text \<open>The destructor, from the tail back.\<close>

partial_function (option) destroy_loop :: "nat option \<Rightarrow> DoublyLinkedList \<Rightarrow> DoublyLinkedList option" where
  "destroy_loop temp1 d = (case temp1 of None \<Rightarrow> Some d | Some a \<Rightarrow>
     Option.bind (heap d a) (\<lambda>n. Option.bind (delete_node (Some a) d) (destroy_loop (node_prev n))))"

definition destroy :: "DoublyLinkedList \<Rightarrow> DoublyLinkedList option" where
  "destroy d = map_option (\<lambda>d. d\<lparr>head := None, tail := None\<rparr>) (destroy_loop (tail d) d)"

text \<open>Printing: one pass for the size, one for the text.\<close>

definition entry_size :: "DLLNode \<Rightarrow> nat" where
  "entry_size n = oid_getStringSize (node_key n) + 5 + host_getStringSize (node_value n) + 5"

partial_function (option) size_loop :: "DoublyLinkedList \<Rightarrow> nat option \<Rightarrow> nat \<Rightarrow> nat option" where
  "size_loop d temp sz = (case temp of None \<Rightarrow> Some sz | Some a \<Rightarrow>
     Option.bind (heap d a) (\<lambda>n. size_loop d (node_next n) (sz + entry_size n)))"

definition dll_getStringSize :: "DoublyLinkedList \<Rightarrow> nat option" where
  "dll_getStringSize d = size_loop d (head d) 0"

definition entry_text :: "DLLNode \<Rightarrow> cstring option" where
  "entry_text n =
     Option.bind (oid_toString (node_key n)) (\<lambda>k. Option.bind (c_string k) (\<lambda>k.
     Option.bind (host_toString (node_value n)) (\<lambda>v. Option.bind (c_string v) (\<lambda>v.
     Some (k @ str '' --> '' @ v @ str ''<br/>'')))))"

partial_function (option) print_loop ::
    "DoublyLinkedList \<Rightarrow> nat option \<Rightarrow> nat \<Rightarrow> buffer \<Rightarrow> buffer option" where
  "print_loop d temp index result = (case temp of None \<Rightarrow> Some result | Some a \<Rightarrow>
     Option.bind (heap d a) (\<lambda>n. Option.bind (entry_text n) (\<lambda>s.
     Option.bind (write_at index (s @ [0]) result) (\<lambda>result.
     print_loop d (node_next n) (index + entry_size n) result))))"

definition dll_toString :: "DoublyLinkedList \<Rightarrow> buffer option" where
  "dll_toString d =
     Option.bind (dll_getStringSize d) (\<lambda>sz.
     Option.bind (print_loop d (head d) 0 (alloc (sz + 1))) (\<lambda>result. write_at sz [0] result))"

section \<open>Chains of nodes\<close>

text \<open>\<open>links h p as n\<close>: the nodes \<open>as\<close> are chained, between the node \<open>p\<close> before and \<open>n\<close> after.\<close>

definition first_or :: "nat list \<Rightarrow> nat option \<Rightarrow> nat option" where
  "first_or as n = (case as of [] \<Rightarrow> n | a # _ \<Rightarrow> Some a)"

definition last_or :: "nat list \<Rightarrow> nat option \<Rightarrow> nat option" where
  "last_or as p = (if as = [] then p else Some (last as))"

fun links :: "(nat \<Rightarrow> DLLNode option) \<Rightarrow> nat option \<Rightarrow> nat list \<Rightarrow> nat option \<Rightarrow> bool" where
  "links h p [] n = True"
| "links h p (a # as) n =
     ((\<exists>x. h a = Some x \<and> node_prev x = p \<and> node_next x = first_or as n) \<and> links h (Some a) as n)"

definition dll_wf :: "DoublyLinkedList \<Rightarrow> nat list \<Rightarrow> bool" where
  "dll_wf d as \<longleftrightarrow> links (heap d) None as None \<and> distinct as \<and> head d = first_or as None
     \<and> tail d = last_or as None \<and> (\<forall>a \<in> set as. a < brk d)"

lemma first_or_simps [simp]: "first_or [] n = n" "first_or (a # as) n = Some a"
  "first_or (xs @ ys) n = first_or xs (first_or ys n)"
  by (auto simp: first_or_def split: list.split)

lemma last_or_simps [simp]: "last_or [] p = p" "last_or (a # as) p = last_or as (Some a)"
  "last_or (xs @ ys) p = last_or ys (last_or xs p)"
  by (auto simp: last_or_def)

lemma first_or_nonempty: "as \<noteq> [] \<Longrightarrow> first_or as n = Some (hd as)"
  by (cases as) auto

lemma last_or_nonempty: "as \<noteq> [] \<Longrightarrow> last_or as p = Some (last as)"
  by (simp add: last_or_def)

lemma links_append [simp]:
  "links h p (xs @ ys) n \<longleftrightarrow> links h p xs (first_or ys n) \<and> links h (last_or xs p) ys n"
  by (induction xs arbitrary: p) auto

lemma links_heap: "links h p as n \<Longrightarrow> a \<in> set as \<Longrightarrow> \<exists>x. h a = Some x"
  by (induction as arbitrary: p) auto

text \<open>
  An operation that touches one node: everything else, and the data of every node, is as
  before.
\<close>

definition node_data :: "DoublyLinkedList \<Rightarrow> nat \<Rightarrow> (OverlayID \<times> HostAddress) option" where
  "node_data d a = map_option (\<lambda>n. (node_key n, node_value n)) (heap d a)"

definition touches :: "nat \<Rightarrow> DoublyLinkedList \<Rightarrow> DoublyLinkedList \<Rightarrow> bool" where
  "touches a d d' \<longleftrightarrow> head d' = head d \<and> tail d' = tail d \<and> brk d' = brk d
     \<and> (\<forall>b. b \<noteq> a \<longrightarrow> heap d' b = heap d b) \<and> node_data d' = node_data d"

lemma touches_simps:
  "touches a d d' \<Longrightarrow> head d' = head d" "touches a d d' \<Longrightarrow> tail d' = tail d"
  "touches a d d' \<Longrightarrow> brk d' = brk d" "touches a d d' \<Longrightarrow> node_data d' = node_data d"
  by (auto simp: touches_def)

lemma links_other: "(\<And>a. a \<in> set as \<Longrightarrow> h' a = h a) \<Longrightarrow> links h' p as n = links h p as n"
  by (induction as arbitrary: p) auto

lemma links_touch: "touches a d d' \<Longrightarrow> a \<notin> set as \<Longrightarrow> links (heap d') p as n = links (heap d) p as n"
  by (rule links_other) (auto simp: touches_def)

lemma upd_node_touches:
  assumes "heap d a = Some x" and "\<And>n. node_key (f n) = node_key n" "\<And>n. node_value (f n) = node_value n"
  shows "\<exists>d'. upd_node f (Some a) d = Some d' \<and> heap d' a = Some (f x) \<and> touches a d d'"
  using assms by (auto simp: upd_node_def touches_def node_data_def fun_eq_iff)

text \<open>Redirecting the end of a chain, and its start.\<close>

lemma set_next_last:
  assumes "links (heap d) p (xs @ [a]) n" and "a \<notin> set xs"
  shows "\<exists>d'. set_next (Some a) n' d = Some d' \<and> links (heap d') p (xs @ [a]) n' \<and> touches a d d'"
proof -
  from assms(1) obtain x where x: "heap d a = Some x" by auto
  from upd_node_touches[OF this, of "\<lambda>n. n\<lparr>node_next := n'\<rparr>"] obtain d' where
    d': "set_next (Some a) n' d = Some d'" "heap d' a = Some (x\<lparr>node_next := n'\<rparr>)" "touches a d d'"
    by (auto simp: set_next_def)
  with assms x show ?thesis by (auto simp: links_touch)
qed

lemma set_prev_first:
  assumes "links (heap d) p (a # ys) n" and "a \<notin> set ys"
  shows "\<exists>d'. set_prev (Some a) p' d = Some d' \<and> links (heap d') p' (a # ys) n \<and> touches a d d'"
proof -
  from assms(1) obtain x where x: "heap d a = Some x" by auto
  from upd_node_touches[OF this, of "\<lambda>n. n\<lparr>node_prev := p'\<rparr>"] obtain d' where
    d': "set_prev (Some a) p' d = Some d'" "heap d' a = Some (x\<lparr>node_prev := p'\<rparr>)" "touches a d d'"
    by (auto simp: set_prev_def)
  with assms x show ?thesis by (auto simp: links_touch)
qed

section \<open>What the operations do\<close>

lemma dll_wf_new: "dll_wf DoublyLinkedList_new []"
  by (simp add: dll_wf_def DoublyLinkedList_new_def)

lemma new_node_links:
  assumes "new_node k v d = (a, d')" and "\<forall>b \<in> set as. b < brk d"
  shows "links (heap d') p as n = links (heap d) p as n" and "links (heap d') None [a] None"
    and "a \<notin> set as" and "head d' = head d" and "tail d' = tail d" and "brk d' = Suc a"
    and "brk d = a" and "node_data d' = (node_data d)(a \<mapsto> (k, v))"
  using assms by (auto simp: new_node_def node_data_def fun_eq_iff intro!: links_other)

text \<open>Prepending an isolated node.\<close>

lemma append2Head_wf:
  assumes wf: "links (heap d) None as None" "distinct as" "head d = first_or as None"
      "tail d = last_or as None"
    and a: "links (heap d) p' [a] n'" "a \<notin> set as" and brk: "\<forall>b \<in> set (a # as). b < brk d"
  shows "\<exists>d'. append2Head a d = Some d' \<and> dll_wf d' (a # as) \<and> brk d' = brk d \<and> node_data d' = node_data d"
proof (cases as)
  case Nil
  let ?d = "d\<lparr>head := Some a, tail := Some a\<rparr>"
  obtain d1 where 1: "set_prev (Some a) None ?d = Some d1" "links (heap d1) None [a] n'" "touches a ?d d1"
    using set_prev_first[of ?d p' a "[]" n' None] a by auto
  obtain d2 where 2: "set_next (Some a) None d1 = Some d2" "links (heap d2) None [a] None" "touches a d1 d2"
    using set_next_last[of d1 None "[]" a n' None] 1 by auto
  have "node_data ?d = node_data d" by (simp add: node_data_def fun_eq_iff)
  with 1 2 Nil wf brk touches_simps[OF 1(3)] touches_simps[OF 2(3)] show ?thesis
    by (auto simp: append2Head_def dll_wf_def Let_def)
next
  case (Cons b bs)
  obtain d1 where 1: "set_next (Some a) (Some b) d = Some d1" "links (heap d1) p' [a] (Some b)" "touches a d d1"
    using set_next_last[of d p' "[]" a n' "Some b"] a by auto
  have "links (heap d1) None as None" using wf a links_touch[OF 1(3)] by simp
  then obtain d2 where 2: "set_prev (Some b) (Some a) d1 = Some d2" "links (heap d2) (Some a) as None" "touches b d1 d2"
    using set_prev_first[of d1 None b bs None "Some a"] wf Cons by auto
  let ?d = "d2\<lparr>head := Some a\<rparr>"
  have "links (heap d2) p' [a] (Some b)" using 1 links_touch[OF 2(3), of "[a]"] a Cons by (simp del: links.simps)
  then obtain d3 where 3: "set_prev (Some a) None ?d = Some d3" "links (heap d3) None [a] (Some b)" "touches a ?d d3"
    using set_prev_first[of ?d p' a "[]" "Some b" None] by auto
  have "links (heap d3) (Some a) as None" using 2 links_touch[OF 3(3)] a by simp
  moreover have "node_data ?d = node_data d2" by (simp add: node_data_def fun_eq_iff)
  ultimately show ?thesis
    using 1 2 3 Cons wf a brk touches_simps[OF 1(3)] touches_simps[OF 2(3)] touches_simps[OF 3(3)]
    by (auto simp: append2Head_def dll_wf_def Let_def)
qed

text \<open>Appending an isolated node.\<close>

lemma append2Tail_wf:
  assumes wf: "links (heap d) None as None" "distinct as" "head d = first_or as None"
      "tail d = last_or as None"
    and a: "links (heap d) p' [a] n'" "a \<notin> set as" and brk: "\<forall>b \<in> set (a # as). b < brk d"
  shows "\<exists>d'. append2Tail a d = Some d' \<and> dll_wf d' (as @ [a]) \<and> brk d' = brk d \<and> node_data d' = node_data d"
proof (cases as rule: rev_cases)
  case Nil
  have "append2Tail a d = append2Head a d"
    using wf Nil by (simp add: append2Tail_def append2Head_def)
  with append2Head_wf[OF wf a brk] Nil show ?thesis by auto
next
  case (snoc bs b)
  obtain d1 where 1: "set_prev (Some a) (Some b) d = Some d1" "links (heap d1) (Some b) [a] n'" "touches a d d1"
    using set_prev_first[of d p' a "[]" n' "Some b"] a by auto
  have "links (heap d1) None as None" using wf a links_touch[OF 1(3), of as] by simp
  then obtain d2 where 2: "set_next (Some b) (Some a) d1 = Some d2" "links (heap d2) None as (Some a)" "touches b d1 d2"
    using set_next_last[of d1 None bs b None "Some a"] wf snoc by auto
  let ?d = "d2\<lparr>tail := Some a\<rparr>"
  have "links (heap d2) (Some b) [a] n'" using 1(2) links_touch[OF 2(3), of "[a]"] a snoc
    by (simp del: links.simps)
  then obtain d3 where 3: "set_next (Some a) None ?d = Some d3" "links (heap d3) (Some b) [a] None" "touches a ?d d3"
    using set_next_last[of ?d "Some b" "[]" a n' None] by auto
  have "links (heap d3) None as (Some a)" using 2 links_touch[OF 3(3), of as] a by simp
  moreover have "node_data ?d = node_data d2" by (simp add: node_data_def fun_eq_iff)
  ultimately show ?thesis
    using 1 2 3 snoc wf a brk touches_simps[OF 1(3)] touches_simps[OF 2(3)] touches_simps[OF 3(3)]
    by (auto simp: append2Tail_def dll_wf_def Let_def)
qed

text \<open>Closing the gap a node leaves: in the middle, at the tail, at the head.\<close>

lemma unlink_middle:
  assumes "links (heap d) None (xs @ a # ys) None" and "distinct (xs @ a # ys)" and "xs \<noteq> []" and "ys \<noteq> []"
  shows "\<exists>d'. Option.bind (heap d a) (\<lambda>n. Option.bind (set_next (node_prev n) (node_next n) d) (\<lambda>d.
      Option.bind (heap d a) (\<lambda>n. set_prev (node_next n) (node_prev n) d))) = Some d'
    \<and> links (heap d') None (xs @ ys) None \<and> heap d' a = heap d a \<and> head d' = head d \<and> tail d' = tail d
    \<and> brk d' = brk d \<and> node_data d' = node_data d"
proof -
  obtain us u where xs: "xs = us @ [u]" using assms(3) by (cases xs rule: rev_cases) auto
  obtain w ws where ys: "ys = w # ws" using assms(4) by (cases ys) auto
  from assms xs ys obtain x where x: "heap d a = Some x" "node_prev x = Some u" "node_next x = Some w" by auto
  obtain d1 where 1: "set_next (Some u) (Some w) d = Some d1" "links (heap d1) None xs (Some w)" "touches u d d1"
    using set_next_last[of d None us u "Some a" "Some w"] assms xs by auto
  have "links (heap d1) (Some a) ys None" using assms xs links_touch[OF 1(3), of ys] by auto
  then obtain d2 where 2: "set_prev (Some w) (Some u) d1 = Some d2" "links (heap d2) (Some u) ys None" "touches w d1 d2"
    using set_prev_first[of d1 "Some a" w ws None "Some u"] assms ys by auto
  have h: "heap d1 a = Some x" "heap d2 a = Some x" using 1(3) 2(3) x assms xs ys by (auto simp: touches_def)
  have "links (heap d2) None xs (Some w)" using 1(2) links_touch[OF 2(3), of xs] assms xs ys by auto
  with 1 2 x h xs ys touches_simps[OF 1(3)] touches_simps[OF 2(3)] show ?thesis by simp
qed

lemma unlink_tail:
  assumes "links (heap d) None (xs @ [a]) None" and "distinct (xs @ [a])" and "xs \<noteq> []"
  shows "\<exists>d'. Option.bind (heap d a) (\<lambda>n. let d = d\<lparr>tail := node_prev n\<rparr> in set_next (tail d) None d) = Some d'
    \<and> links (heap d') None xs None \<and> heap d' a = heap d a \<and> head d' = head d \<and> tail d' = Some (last xs)
    \<and> brk d' = brk d \<and> node_data d' = node_data d"
proof -
  obtain us u where xs: "xs = us @ [u]" using assms(3) by (cases xs rule: rev_cases) auto
  from assms xs obtain x where x: "heap d a = Some x" "node_prev x = Some u" by auto
  let ?d = "d\<lparr>tail := Some u\<rparr>"
  obtain d1 where 1: "set_next (Some u) None ?d = Some d1" "links (heap d1) None xs None" "touches u ?d d1"
    using set_next_last[of ?d None us u "Some a" None] assms xs by auto
  have "node_data ?d = node_data d" by (simp add: node_data_def fun_eq_iff)
  moreover have "heap d1 a = Some x" using 1(3) x assms xs by (auto simp: touches_def)
  ultimately show ?thesis using 1 x xs touches_simps[OF 1(3)] by (simp add: Let_def)
qed

lemma unlink_head:
  assumes "links (heap d) None (a # ys) None" and "distinct (a # ys)" and "ys \<noteq> []"
  shows "\<exists>d'. Option.bind (heap d a) (\<lambda>n. let d = d\<lparr>head := node_next n\<rparr> in set_prev (head d) None d) = Some d'
    \<and> links (heap d') None ys None \<and> heap d' a = heap d a \<and> head d' = Some (hd ys) \<and> tail d' = tail d
    \<and> brk d' = brk d \<and> node_data d' = node_data d"
proof -
  obtain w ws where ys: "ys = w # ws" using assms(3) by (cases ys) auto
  from assms ys obtain x where x: "heap d a = Some x" "node_next x = Some w" by auto
  let ?d = "d\<lparr>head := Some w\<rparr>"
  obtain d1 where 1: "set_prev (Some w) None ?d = Some d1" "links (heap d1) None ys None" "touches w ?d d1"
    using set_prev_first[of ?d "Some a" w ws None None] assms ys by auto
  have "node_data ?d = node_data d" by (simp add: node_data_def fun_eq_iff)
  moreover have "heap d1 a = Some x" using 1(3) x assms ys by (auto simp: touches_def)
  ultimately show ?thesis using 1 x ys touches_simps[OF 1(3)] by (simp add: Let_def)
qed

text \<open>Moving a node to the head.\<close>

lemma move2Head_append:
  assumes "head d = Some h" and "tail d = Some t" and "head d \<noteq> Some a"
    and "(if tail d = Some a then
             Option.bind (node_at d (tail d)) (\<lambda>n. let d = d\<lparr>tail := node_prev n\<rparr> in set_next (tail d) None d)
           else Option.bind (heap d a) (\<lambda>n. Option.bind (set_next (node_prev n) (node_next n) d) (\<lambda>d.
             Option.bind (heap d a) (\<lambda>n. set_prev (node_next n) (node_prev n) d)))) = Some d'"
    and "head d' = head d"
  shows "move2Head a d = append2Head a d'"
  unfolding move2Head_def assms(4) using assms(1,2,3,5) by (simp add: append2Head_def)

lemma first_or_last_or_hd: "xs \<noteq> [] \<Longrightarrow> first_or (xs @ ys) n = first_or xs None"
  by (cases xs) auto

lemma move2Head_wf:
  assumes "dll_wf d (xs @ a # ys)"
  shows "\<exists>d'. move2Head a d = Some d' \<and> dll_wf d' (a # xs @ ys) \<and> brk d' = brk d \<and> node_data d' = node_data d"
proof (cases "xs = []")
  case True
  with assms have "move2Head a d = Some d" by (auto simp: move2Head_def dll_wf_def)
  with assms True show ?thesis by simp
next
  case False
  from assms have wf: "links (heap d) None (xs @ a # ys) None" "distinct (xs @ a # ys)"
    "head d = first_or xs None" "tail d = last_or ys (Some a)" "\<forall>b \<in> set (xs @ a # ys). b < brk d"
    using first_or_last_or_hd[OF False, of "a # ys" None] by (auto simp: dll_wf_def)
  from wf False have "hd xs \<noteq> a" using hd_in_set by auto
  then have ne: "head d = Some (hd xs)" "tail d = Some (last (a # ys))" "head d \<noteq> Some a"
    using wf(3,4) False by (auto simp: first_or_nonempty last_or_def)
  have hd: "first_or (xs @ ys) None = first_or xs None" using first_or_last_or_hd[OF False] .
  obtain p' n' where a: "links (heap d) p' [a] n'" using wf(1) by auto
  have "\<exists>d'. (if tail d = Some a then
             Option.bind (node_at d (tail d)) (\<lambda>n. let d = d\<lparr>tail := node_prev n\<rparr> in set_next (tail d) None d)
           else Option.bind (heap d a) (\<lambda>n. Option.bind (set_next (node_prev n) (node_next n) d) (\<lambda>d.
             Option.bind (heap d a) (\<lambda>n. set_prev (node_next n) (node_prev n) d)))) = Some d'
      \<and> links (heap d') None (xs @ ys) None \<and> heap d' a = heap d a \<and> head d' = head d
      \<and> tail d' = last_or (xs @ ys) None \<and> brk d' = brk d \<and> node_data d' = node_data d"
  proof (cases "ys = []")
    case True
    with wf unlink_tail[of d xs a] False show ?thesis by (simp add: node_at_def last_or_nonempty)
  next
    case ys: False
    with wf have "tail d \<noteq> Some a" by (auto simp: last_or_def)
    with wf unlink_middle[of d xs a ys] False ys show ?thesis by (simp add: last_or_nonempty)
  qed
  then obtain d' where d': "move2Head a d = append2Head a d'"
    "links (heap d') None (xs @ ys) None" "heap d' a = heap d a" "head d' = head d"
    "tail d' = last_or (xs @ ys) None" "brk d' = brk d" "node_data d' = node_data d"
    using move2Head_append[OF ne] by blast
  have "\<exists>d''. append2Head a d' = Some d'' \<and> dll_wf d'' (a # xs @ ys) \<and> brk d'' = brk d' \<and> node_data d'' = node_data d'"
    using d' wf hd a by (intro append2Head_wf[where p' = p' and n' = n']) auto
  with d' show ?thesis by simp
qed

text \<open>Dropping the tail of a list of at least two nodes, and of a single node.\<close>

lemma removeTail_wf:
  assumes "dll_wf d (xs @ [a])" and "xs \<noteq> []"
  shows "\<exists>d'. removeTail d = Some d' \<and> dll_wf d' xs \<and> brk d' = brk d \<and> node_data d' = node_data d"
proof -
  from assms have wf: "links (heap d) None (xs @ [a]) None" "distinct (xs @ [a])" "tail d = Some a"
    "head d = Some (hd xs)" "\<forall>b \<in> set (xs @ [a]). b < brk d"
    by (auto simp: dll_wf_def first_or_nonempty)
  with assms(2) have ne: "tail d \<noteq> head d" by auto
  obtain n where n: "heap d a = Some n" using wf(1) by auto
  with unlink_tail[OF wf(1,2) assms(2)] obtain d1 where d1:
    "set_next (node_prev n) None (d\<lparr>tail := node_prev n\<rparr>) = Some d1"
    "links (heap d1) None xs None" "heap d1 a = heap d a" "head d1 = head d" "tail d1 = Some (last xs)"
    "brk d1 = brk d" "node_data d1 = node_data d"
    by (auto simp: Let_def)
  from n d1 obtain d2 where d2: "set_prev (Some a) None d1 = Some d2" "touches a d1 d2"
    using set_prev_first[of d1 "node_prev n" a "[]" "node_next n" None] by auto
  have "links (heap d2) None xs None" using links_touch[OF d2(2), of xs] d1 wf(2) by simp
  with ne wf assms(2) n d1 d2 touches_simps[OF d2(2)] show ?thesis
    by (simp add: removeTail_def node_at_def dll_wf_def first_or_nonempty last_or_nonempty Let_def)
qed

lemma removeTail_single:
  assumes "dll_wf d [a]"
  shows "\<exists>d'. removeTail d = Some d' \<and> dll_wf d' [] \<and> heap d' a = None"
  using assms by (auto simp: removeTail_def dll_wf_def delete_node_def)

text \<open>Taking a node out, and freeing it.\<close>

lemma extract_node_wf:
  assumes "dll_wf d (xs @ a # ys)"
  shows "\<exists>d'. extract_node a d = Some (Some a, d') \<and> dll_wf d' (xs @ ys) \<and> links (heap d') None [a] None
    \<and> brk d' = brk d \<and> node_data d' = node_data d"
proof -
  from assms have wf: "links (heap d) None (xs @ a # ys) None" "distinct (xs @ a # ys)"
    "head d = first_or xs (Some a)" "tail d = last_or ys (Some a)" "\<forall>b \<in> set (xs @ a # ys). b < brk d"
    by (auto simp: dll_wf_def)
  have iff: "head d = Some a \<longleftrightarrow> xs = []" "tail d = Some a \<longleftrightarrow> ys = []"
    using wf(2,3,4) by (auto simp: first_or_def last_or_def split: list.splits)
  have "\<exists>d'. (if head d = Some a \<and> tail d = Some a then Some (d\<lparr>head := None, tail := None\<rparr>)
         else if head d = Some a then
           Option.bind (heap d a) (\<lambda>n. let d = d\<lparr>head := node_next n\<rparr> in set_prev (head d) None d)
         else if tail d = Some a then
           Option.bind (heap d a) (\<lambda>n. let d = d\<lparr>tail := node_prev n\<rparr> in set_next (tail d) None d)
         else
           Option.bind (heap d a) (\<lambda>n. Option.bind (set_next (node_prev n) (node_next n) d) (\<lambda>d.
           Option.bind (heap d a) (\<lambda>n. set_prev (node_next n) (node_prev n) d)))) = Some d'
    \<and> links (heap d') None (xs @ ys) None \<and> heap d' a = heap d a \<and> head d' = first_or (xs @ ys) None
    \<and> tail d' = last_or (xs @ ys) None \<and> brk d' = brk d \<and> node_data d' = node_data d"
    (is "\<exists>d'. ?unlink = Some d' \<and> _")
  proof (cases "xs = []"; cases "ys = []")
    assume "xs = []" "ys = []"
    with iff show ?thesis by (simp add: node_data_def fun_eq_iff)
  next
    assume "xs = []" "ys \<noteq> []"
    with iff wf unlink_head[of d a ys] show ?thesis by (simp add: first_or_nonempty last_or_nonempty)
  next
    assume "xs \<noteq> []" "ys = []"
    with iff wf unlink_tail[of d xs a] show ?thesis by (simp add: first_or_nonempty last_or_nonempty)
  next
    assume "xs \<noteq> []" "ys \<noteq> []"
    with iff wf unlink_middle[of d xs a ys] show ?thesis by (simp add: first_or_nonempty last_or_nonempty)
  qed
  then obtain d1 where d1: "?unlink = Some d1" "links (heap d1) None (xs @ ys) None" "heap d1 a = heap d a"
    "head d1 = first_or (xs @ ys) None" "tail d1 = last_or (xs @ ys) None" "brk d1 = brk d"
    "node_data d1 = node_data d" by blast
  from wf(1) obtain p n where "links (heap d) p [a] n" by auto
  with d1 obtain d2 where d2: "set_prev (Some a) None d1 = Some d2" "links (heap d2) None [a] n" "touches a d1 d2"
    using set_prev_first[of d1 p a "[]" n None] by auto
  then obtain d3 where d3: "set_next (Some a) None d2 = Some d3" "links (heap d3) None [a] None" "touches a d2 d3"
    using set_next_last[of d2 None "[]" a n None] by auto
  have "head d \<noteq> None" "tail d \<noteq> None" using wf by (auto simp: first_or_def last_or_def split: list.splits)
  then have e: "extract_node a d = Some (Some a, d3)"
    unfolding extract_node_def d1(1) using d2(1) d3(1) by simp
  have l: "links (heap d3) None (xs @ ys) None"
    using links_touch[OF d2(3), of "xs @ ys"] links_touch[OF d3(3), of "xs @ ys"] d1(2) wf(2) by auto
  have "dll_wf d3 (xs @ ys)"
    using l d1 touches_simps[OF d2(3)] touches_simps[OF d3(3)] wf(2,5) by (auto simp: dll_wf_def)
  with e d1 d3(2) touches_simps[OF d2(3)] touches_simps[OF d3(3)] show ?thesis by auto
qed

lemma remove_wf:
  assumes "dll_wf d (xs @ a # ys)"
  shows "\<exists>d'. remove a d = Some d' \<and> dll_wf d' (xs @ ys) \<and> heap d' a = None"
proof -
  obtain d1 where d1: "extract_node a d = Some (Some a, d1)" "dll_wf d1 (xs @ ys)" "links (heap d1) None [a] None"
    using extract_node_wf[OF assms] by blast
  have "a \<notin> set (xs @ ys)" using assms by (auto simp: dll_wf_def)
  then have "links ((heap d1)(a := None)) None (xs @ ys) None = links (heap d1) None (xs @ ys) None"
    by (intro links_other) auto
  with d1 show ?thesis by (auto simp: remove_def delete_node_def dll_wf_def)
qed

text \<open>\<^verbatim>\<open>contains\<close> only finds the key of the tail.\<close>

lemma contains_loop_eq:
  assumes "dll_wf d bs" and "node_at d (tail d) = Some t"
  shows "links (heap d) None as n \<Longrightarrow> as \<noteq> [] \<Longrightarrow> contains_loop key d (last_or as None) = Some (oid_eq (node_key t) key)"
proof (induction as arbitrary: n rule: rev_induct)
  case (snoc a as)
  from snoc.prems obtain x where x: "heap d a = Some x" "node_prev x = last_or as None" by auto
  show ?case
  proof (cases "as = []")
    case True
    with x assms(2) show ?thesis
      by (simp add: contains_loop.simps[of key d "Some a"] contains_loop.simps[of key d None])
  next
    case False
    with x assms(2) snoc show ?thesis
      by (auto simp: contains_loop.simps[of key d "Some a"])
  qed
qed simp

lemma contains_tail_only:
  assumes "dll_wf d (as @ [a])"
  shows "\<exists>n. heap d a = Some n \<and> contains key d = Some (oid_eq (node_key n) key)"
proof -
  from assms obtain n where n: "heap d a = Some n" "tail d = Some a" by (auto simp: dll_wf_def)
  then have "node_at d (tail d) = Some n" by (simp add: node_at_def)
  from contains_loop_eq[OF assms this, of "as @ [a]" None key] assms n show ?thesis
    by (auto simp: contains_def dll_wf_def)
qed

lemma contains_empty: "dll_wf d [] \<Longrightarrow> contains key d = Some False"
  by (simp add: contains_def dll_wf_def contains_loop.simps[of key d None])

text \<open>The destructor frees every node of the list.\<close>

lemma destroy_loop_frees:
  "links (heap d) None as n \<Longrightarrow> distinct as \<Longrightarrow>
   \<exists>d'. destroy_loop (last_or as None) d = Some d' \<and> (\<forall>a \<in> set as. heap d' a = None)
     \<and> (\<forall>a. a \<notin> set as \<longrightarrow> heap d' a = heap d a)"
proof (induction as arbitrary: d n rule: rev_induct)
  case Nil
  then show ?case by (simp add: destroy_loop.simps[of None])
next
  case (snoc a as)
  from snoc.prems obtain x where x: "heap d a = Some x" "node_prev x = last_or as None" by auto
  let ?d = "d\<lparr>heap := (heap d)(a := None)\<rparr>"
  have "links (heap ?d) None as (Some a) = links (heap d) None as (Some a)"
    using snoc.prems by (intro links_other) auto
  then have "links (heap ?d) None as (Some a)" "distinct as" using snoc.prems by auto
  from snoc.IH[OF this] obtain d' where
    "destroy_loop (last_or as None) ?d = Some d'" "\<forall>a \<in> set as. heap d' a = None"
    "\<forall>b. b \<notin> set as \<longrightarrow> heap d' b = heap ?d b" by blast
  with x snoc.prems show ?case
    by (auto simp: destroy_loop.simps[of "Some a"] delete_node_def)
qed

lemma destroy_wf:
  "dll_wf d as \<Longrightarrow> \<exists>d'. destroy d = Some d' \<and> (\<forall>a \<in> set as. heap d' a = None) \<and> head d' = None \<and> tail d' = None"
  using destroy_loop_frees[of d as None] by (auto simp: destroy_def dll_wf_def)

section \<open>Printing the list\<close>

text \<open>
  An entry whose key prints (at most 32 bits, positive prefix length), and whose address prints
  (no zero byte in the name, non-negative port).
\<close>

definition entry_prints :: "OverlayID \<times> HostAddress \<Rightarrow> bool" where
  "entry_prints e \<longleftrightarrow> 0 \<le> sint (MAX_LENGTH (fst e)) \<and> sint (MAX_LENGTH (fst e)) \<le> 32
     \<and> 0 < sint (prefix_length (fst e)) \<and> 0 \<notin> set (hostName (snd e)) \<and> 0 \<le> sint (hostPort (snd e))"

definition entry_line :: "OverlayID \<times> HostAddress \<Rightarrow> cstring" where
  "entry_line e = bit_chars (fst e) (nat (sint (MAX_LENGTH (fst e)))) @ 58 # print_nat (unat (prefix_length (fst e)))
     @ str '' --> '' @ hostName (snd e) @ 58 # print_nat (unat (hostPort (snd e))) @ str ''<br/>''"

lemma bit_chars_no_zero: "0 \<notin> set (bit_chars oid n)"
  by (auto simp: bit_chars_def)

lemma host_numDigits_print: "host_numDigits p = length (print_nat (unat p))"
  using digit_loop_print[of "unat p"]
  by (auto simp: host_numDigits_def print_nat.simps[of 0] unat_gt_0)

lemma entry_text_line:
  assumes "heap d a = Some x" and "node_data d a = Some e" and "entry_prints e"
  shows "entry_text x = Some (entry_line e) \<and> entry_size x = length (entry_line e)"
proof -
  obtain k v where e: "e = (k, v)" "node_key x = k" "node_value x = v"
    using assms(1,2) by (auto simp: node_data_def)
  from assms(3) e have p: "sint (MAX_LENGTH k) = int (nat (sint (MAX_LENGTH k)))" "nat (sint (MAX_LENGTH k)) \<le> 32"
    "0 < sint (prefix_length k)" "prefix_length k \<noteq> 0" "0 \<notin> set (hostName v)" "0 \<le> sint (hostPort v)"
    by (auto simp: entry_prints_def)
  have "c_string (map Some (bit_chars k n @ 58 # print_nat m @ [0])) = Some (bit_chars k n @ 58 # print_nat m)" for n m
    using c_string_terminated[of "bit_chars k n @ 58 # print_nat m" "[]" "[]"]
    by (simp add: bit_chars_no_zero print_nat_no_zero)
  moreover have "c_string (map Some (hostName v @ 58 # print_nat m @ [0])) = Some (hostName v @ 58 # print_nat m)" for m
    using c_string_terminated[of "hostName v @ 58 # print_nat m" "[]" "[]"] p
    by (simp add: print_nat_no_zero)
  ultimately have "entry_text x = Some (entry_line e)"
    using oid_toString_ok[OF p(1,2)] host_toString_ok[OF p(5,6)] p e
    by (simp only: entry_text_def entry_line_def) (simp del: list.map map_append)
  moreover have "oid_numDigits (prefix_length k) = length (print_nat (unat (prefix_length k)))"
    using digit_loop_print[of "unat (prefix_length k)"] p(4) by (simp add: oid_numDigits_def unat_gt_0)
  ultimately show ?thesis
    using e by (simp add: entry_size_def entry_line_def oid_getStringSize_def host_getStringSize_def
        host_numDigits_print bit_chars_def str_def)
qed

lemma size_loop_links:
  "links (heap d) p as None \<Longrightarrow> map (node_data d) as = map Some es \<Longrightarrow> list_all entry_prints es \<Longrightarrow>
   size_loop d (first_or as None) sz = Some (sz + length (concat (map entry_line es)))"
proof (induction as arbitrary: p es sz)
  case Nil
  then show ?case by (simp add: size_loop.simps[of d None])
next
  case (Cons a as)
  then obtain e es' x where e: "es = e # es'" "heap d a = Some x" "node_next x = first_or as None"
    "node_data d a = Some e" "entry_prints e" by auto
  with Cons.prems have "links (heap d) (Some a) as None" "map (node_data d) as = map Some es'"
    "list_all entry_prints es'" by auto
  from Cons.IH[OF this] e entry_text_line[OF e(2,4,5)] show ?case
    by (simp add: size_loop.simps[of d "Some a"] add.assoc)
qed

lemma print_loop_links:
  "links (heap d) p as None \<Longrightarrow> map (node_data d) as = map Some es \<Longrightarrow> list_all entry_prints es \<Longrightarrow>
   take (length pre) buf = map Some pre \<Longrightarrow> length pre + length (concat (map entry_line es)) < length buf \<Longrightarrow>
   \<exists>r. print_loop d (first_or as None) (length pre) buf = Some r \<and> length r = length buf \<and>
     take (length pre + length (concat (map entry_line es))) r = map Some (pre @ concat (map entry_line es))"
proof (induction as arbitrary: p es pre buf)
  case Nil
  then show ?case by (simp add: print_loop.simps[of d None])
next
  case (Cons a as)
  then obtain e es' x where e: "es = e # es'" "heap d a = Some x" "node_next x = first_or as None"
    "node_data d a = Some e" "entry_prints e" by auto
  let ?l = "entry_line e"
  let ?buf = "take (length pre) buf @ map Some (?l @ [0]) @ drop (length pre + length (?l @ [0])) buf"
  have w: "write_at (length pre) (?l @ [0]) buf = Some ?buf"
    using Cons.prems(5) e(1) by (simp add: write_at_def)
  have "take (length (pre @ ?l)) ?buf = map Some (pre @ ?l)"
    using Cons.prems(4,5) e(1) by simp
  moreover have "length ?buf = length buf" using Cons.prems(5) e(1) by simp
  moreover have "links (heap d) (Some a) as None" "map (node_data d) as = map Some es'"
    "list_all entry_prints es'" using Cons.prems e(1) by auto
  ultimately have "\<exists>r. print_loop d (first_or as None) (length (pre @ ?l)) ?buf = Some r \<and> length r = length buf \<and>
     take (length (pre @ ?l) + length (concat (map entry_line es'))) r = map Some ((pre @ ?l) @ concat (map entry_line es'))"
    using Cons.IH[of "Some a" es' "pre @ ?l" ?buf] Cons.prems(5) e(1) by (simp only: length_append) simp
  with e w entry_text_line[OF e(2,4,5)] show ?case
    by (simp add: print_loop.simps[of d "Some a"] add.assoc)
qed

text \<open>
  Printing a list whose entries print stays inside the buffer that the size pass
  computed and fills it exactly: one line per entry from head to tail, ended by a zero byte.
\<close>

theorem dll_toString_ok:
  assumes "dll_wf d as" and "map (node_data d) as = map Some es" and "list_all entry_prints es"
  shows "dll_toString d = Some (map Some (concat (map entry_line es) @ [0]))"
proof -
  let ?n = "length (concat (map entry_line es))"
  from assms(1) have l: "links (heap d) None as None" "head d = first_or as None" by (auto simp: dll_wf_def)
  have s: "dll_getStringSize d = Some ?n"
    using size_loop_links[OF l(1) assms(2,3), of 0] l(2) by (simp add: dll_getStringSize_def)
  obtain r where r: "print_loop d (head d) 0 (alloc (?n + 1)) = Some r" "length r = ?n + 1"
    "take ?n r = map Some (concat (map entry_line es))"
    using print_loop_links[OF l(1) assms(2,3), of "[]" "alloc (?n + 1)"] l(2) by auto
  then have "write_at ?n [0] r = Some (map Some (concat (map entry_line es) @ [0]))"
    by (simp add: write_at_def)
  with s r(1) show ?thesis by (simp add: dll_toString_def)
qed

lemma dll_toString_ok_witness:
  "\<exists>d. append2Head_new (OverlayID_new 5 3 3) (HostAddress_new [104] 80) DoublyLinkedList_new = Some d \<and>
    dll_toString d = Some (map Some (entry_line (OverlayID_new 5 3 3, HostAddress_new [104] 80) @ [0]))"
proof -
  let ?k = "OverlayID_new 5 3 3" and ?v = "HostAddress_new [104] 80"
  obtain a d where n: "new_node ?k ?v DoublyLinkedList_new = (a, d)" by fastforce
  note nl = new_node_links[OF n, of "[]"]
  have "links (heap d) None [a] None" "head d = None" "tail d = None" "brk d = Suc a"
    using nl by (simp_all add: DoublyLinkedList_new_def)
  then obtain d' where d': "append2Head a d = Some d'" "dll_wf d' [a]" "node_data d' = node_data d"
    using append2Head_wf[of d "[]" None a None] by auto
  have "map (node_data d') [a] = map Some [(?k, ?v)]" using nl d'(3) by simp
  then have "dll_toString d' = Some (map Some (concat (map entry_line [(?k, ?v)]) @ [0]))"
    by (rule dll_toString_ok[OF d'(2)]) (simp add: entry_prints_def OverlayID_new_def HostAddress_new_def)
  with n d'(1) show ?thesis by (simp add: append2Head_new_def)
qed

end
