(* ===== verification/Cache.thy ===== *)
theory Cache
  imports Double_Linked_List
begin

text \<open>
  The location cache of a peer: \<^verbatim>\<open>plnode/ds/cache.h\<close> with its policies
  \<^verbatim>\<open>cache_insert_policy.h\<close>, \<^verbatim>\<open>cache_insert_endpoint.h\<close>, \<^verbatim>\<open>cache_replace_policy.h\<close> and
  \<^verbatim>\<open>cache_replace_LRU.h\<close>, and \<^verbatim>\<open>cache_iterator.h\<close>. The cache is the linked list of its entries,
  most recent first, and the table \<open>hm\<close> from overlay ids to nodes. \<open>cache_rel\<close> relates it to
  the abstract list of entries, on which \<open>lru_add\<close> and \<open>lru_lookup\<close> are the intended
  behaviour. The debug output of the operations is left out; the text \<^verbatim>\<open>add\<close> prints is
  \<open>dll_toString\<close>.
\<close>

section \<open>State and policies\<close>

text \<open>
  The list, table and size the policies reach through pointers are those of the cache. The
  routing table and the proactive cache belong to the protocol and are arguments.
\<close>

record Cache =
  dll :: DoublyLinkedList
  hm :: "(OverlayID, nat) table"
  myOID :: OverlayID
  capacity :: int
  cache_size :: int

definition Cache_new :: "OverlayID \<Rightarrow> int \<Rightarrow> Cache" where
  "Cache_new oid cap = \<lparr>dll = DoublyLinkedList_new, hm = table_empty, myOID = oid,
     capacity = cap, cache_size = 0\<rparr>"

text \<open>\<^verbatim>\<open>CacheInsertEndpoint::insert\<close>: the stored key has its id cut to \<^verbatim>\<open>int\<close>.\<close>

definition stored_key :: "OverlayID \<Rightarrow> OverlayID" where
  "stored_key key = OverlayID_new (scast (GetOverlay_id key)) (prefix_length key) (MAX_LENGTH key)"

definition stored_value :: "HostAddress \<Rightarrow> HostAddress" where
  "stored_value v = HostAddress_new (takeWhile (\<lambda>c. c \<noteq> 0) (hostName v)) (hostPort v)"

definition cin_insert ::
    "(OverlayID, HostAddress) table \<Rightarrow> (OverlayID, HostAddress) table \<Rightarrow>
     OverlayID \<Rightarrow> HostAddress \<Rightarrow> Cache \<Rightarrow> Cache option" where
  "cin_insert rt pc key v c =
     (if table_lookup oid_less key pc \<noteq> None \<or> table_lookup oid_less key (hm c) \<noteq> None
         \<or> table_lookup oid_less key rt \<noteq> None \<or> GetOverlay_id key = GetOverlay_id (myOID c)
      then Some c
      else
        (let oid = stored_key key; host_address = stored_value v;
             (node, d) = new_node oid host_address (dll c) in
         Option.bind (append2Head node d) (\<lambda>d.
         Some (c\<lparr>dll := d, hm := snd (table_add oid_less oid node (hm c)), cache_size := cache_size c + 1\<rparr>))))"

text \<open>
  \<^verbatim>\<open>CacheReplaceLRU\<close>. \<^verbatim>\<open>evict\<close> keeps a reference to the key of the tail node and reads it after
  \<^verbatim>\<open>removeTail\<close>; when that was the only node it has been freed.
\<close>

definition cr_evict :: "Cache \<Rightarrow> Cache option" where
  "cr_evict c = (case tail (dll c) of None \<Rightarrow> Some c | Some t \<Rightarrow>
     Option.bind (removeTail (dll c)) (\<lambda>d.
     Option.bind (node_at d (Some t)) (\<lambda>n.
     Some (c\<lparr>dll := d, hm := snd (table_remove oid_less (node_key n) (hm c))\<rparr>))))"

definition cr_processHit :: "OverlayID \<Rightarrow> Cache \<Rightarrow> (bool \<times> Cache) option" where
  "cr_processHit key c = (case table_lookup oid_less key (hm c) of None \<Rightarrow> Some (False, c)
     | Some node \<Rightarrow> map_option (\<lambda>d. (True, c\<lparr>dll := d\<rparr>)) (move2Head node (dll c)))"

section \<open>The operations\<close>

definition cache_add ::
    "(OverlayID, HostAddress) table \<Rightarrow> (OverlayID, HostAddress) table \<Rightarrow>
     OverlayID \<Rightarrow> HostAddress \<Rightarrow> Cache \<Rightarrow> Cache option" where
  "cache_add rt pc key v c =
     Option.bind
       (if cache_size c = capacity c then
          Option.bind (cr_processHit key c) (\<lambda>(hit, c).
          if \<not> hit then map_option (\<lambda>c. c\<lparr>cache_size := cache_size c - 1\<rparr>) (cr_evict c) else Some c)
        else Some c)
       (cin_insert rt pc key v)"

definition cache_lookup :: "OverlayID \<Rightarrow> Cache \<Rightarrow> (HostAddress option \<times> Cache) option" where
  "cache_lookup key c = (case table_lookup oid_less key (hm c) of None \<Rightarrow> Some (None, c)
     | Some node \<Rightarrow>
         Option.bind (cr_processHit key c) (\<lambda>(hit, c).
         Option.bind (node_at (dll c) (Some node)) (\<lambda>n. Some (Some (node_value n), c))))"

definition cache_getStringSize :: "Cache \<Rightarrow> nat option" where
  "cache_getStringSize c = dll_getStringSize (dll c)"

definition cache_toString :: "Cache \<Rightarrow> buffer option" where
  "cache_toString c = dll_toString (dll c)"

definition cache_setSize :: "int \<Rightarrow> Cache \<Rightarrow> Cache" where
  "cache_setSize sz c = c\<lparr>cache_size := sz\<rparr>"

definition cache_getSize :: "Cache \<Rightarrow> int" where
  "cache_getSize c = cache_size c"

text \<open>\<^verbatim>\<open>CacheIterator\<close>: the node to visit next; \<^verbatim>\<open>getNext\<close> returns the visited node and moves on.\<close>

definition iter_reset :: "Cache \<Rightarrow> nat option" where
  "iter_reset c = head (dll c)"

definition iter_hasMore :: "nat option \<Rightarrow> bool" where
  "iter_hasMore current \<longleftrightarrow> current \<noteq> None"

definition iter_getNext :: "Cache \<Rightarrow> nat option \<Rightarrow> (nat option \<times> nat option) option" where
  "iter_getNext c current = (case current of None \<Rightarrow> Some (None, None)
     | Some a \<Rightarrow> Option.bind (heap (dll c) a) (\<lambda>n. Some (Some a, node_next n)))"

section \<open>The intended behaviour, on the list of entries\<close>

type_synonym lru = "(OverlayID \<times> HostAddress) list"

definition lru_has :: "OverlayID \<Rightarrow> lru \<Rightarrow> bool" where
  "lru_has key L \<longleftrightarrow> overlay_id key \<in> (\<lambda>e. overlay_id (fst e)) ` set L"

text \<open>The entry of a key moves to the front.\<close>

definition lru_touch :: "OverlayID \<Rightarrow> lru \<Rightarrow> lru" where
  "lru_touch key L =
     filter (\<lambda>e. overlay_id (fst e) = overlay_id key) L @ filter (\<lambda>e. overlay_id (fst e) \<noteq> overlay_id key) L"

definition lru_lookup :: "OverlayID \<Rightarrow> lru \<Rightarrow> HostAddress option \<times> lru" where
  "lru_lookup key L =
     (map_option snd (find (\<lambda>e. overlay_id (fst e) = overlay_id key) L), lru_touch key L)"

text \<open>
  A full cache first makes room, unless it has the key; then the entry goes in front unless
  the key is already known: cached, in the proactive cache, in the routing table, or the
  peer's own.
\<close>

definition lru_add ::
    "(OverlayID, HostAddress) table \<Rightarrow> (OverlayID, HostAddress) table \<Rightarrow> OverlayID \<Rightarrow> nat \<Rightarrow>
     OverlayID \<Rightarrow> HostAddress \<Rightarrow> lru \<Rightarrow> lru" where
  "lru_add rt pc me cap key v L =
     (let L = (if length L < cap then L else if lru_has key L then lru_touch key L else butlast L) in
      if table_lookup oid_less key pc \<noteq> None \<or> lru_has key L \<or> table_lookup oid_less key rt \<noteq> None
         \<or> GetOverlay_id key = GetOverlay_id me then L
      else (stored_key key, stored_value v) # L)"

section \<open>The cache implements it\<close>

definition cache_rel :: "Cache \<Rightarrow> (nat \<times> OverlayID \<times> HostAddress) list \<Rightarrow> bool" where
  "cache_rel c ps \<longleftrightarrow> dll_wf (dll c) (map fst ps)
     \<and> (\<forall>(a, e) \<in> set ps. node_data (dll c) a = Some e)
     \<and> distinct (map (\<lambda>(a, e). overlay_id (fst e)) ps)
     \<and> oid.wf_table (hm c)
     \<and> (\<forall>i a. oid.abs_map (hm c) i = Some a \<longleftrightarrow> (\<exists>e. (a, e) \<in> set ps \<and> overlay_id (fst e) = i))
     \<and> cache_size c = int (length ps)"

lemma cache_rel_new: "cache_rel (Cache_new oid cap) []"
  by (simp add: cache_rel_def Cache_new_def dll_wf_new table_empty_def)

lemma table_lookup_abs: "table_lookup oid_less key t = oid.abs_map t (overlay_id key)"
  by (simp add: table_lookup_def oid.map_find_abs)

lemma lookup_miss:
  assumes "cache_rel c ps"
  shows "table_lookup oid_less key (hm c) = None \<longleftrightarrow> \<not> lru_has key (map snd ps)"
proof -
  have "table_lookup oid_less key (hm c) = None
      \<longleftrightarrow> (\<nexists>a. oid.abs_map (hm c) (overlay_id key) = Some a)"
    by (simp add: table_lookup_abs)
  also have "\<dots> \<longleftrightarrow> (\<nexists>a e. (a, e) \<in> set ps \<and> overlay_id (fst e) = overlay_id key)"
    using assms unfolding cache_rel_def by simp
  also have "\<dots> \<longleftrightarrow> \<not> lru_has key (map snd ps)" by (force simp: lru_has_def)
  finally show ?thesis .
qed

lemma lookup_hit:
  assumes "cache_rel c ps" and "table_lookup oid_less key (hm c) = Some a"
  shows "\<exists>xs e ys. ps = xs @ (a, e) # ys \<and> overlay_id (fst e) = overlay_id key"
proof -
  from assms obtain e where "(a, e) \<in> set ps" "overlay_id (fst e) = overlay_id key"
    unfolding cache_rel_def table_lookup_abs by blast
  then show ?thesis by (metis split_list)
qed

lemma cache_rel_touch:
  assumes "cache_rel c (xs @ (a, e) # ys)"
  shows "\<exists>d. move2Head a (dll c) = Some d \<and> cache_rel (c\<lparr>dll := d\<rparr>) ((a, e) # xs @ ys)"
proof -
  from assms obtain d where "move2Head a (dll c) = Some d" "dll_wf d (a # map fst xs @ map fst ys)"
    "node_data d = node_data (dll c)"
    using move2Head_wf[of "dll c" "map fst xs" a "map fst ys"] by (auto simp: cache_rel_def)
  with assms show ?thesis by (auto simp: cache_rel_def)
qed

lemma processHit_rel:
  assumes "cache_rel c ps" and "table_lookup oid_less key (hm c) = Some a"
  shows "\<exists>xs e ys d. ps = xs @ (a, e) # ys \<and> overlay_id (fst e) = overlay_id key
    \<and> cr_processHit key c = Some (True, c\<lparr>dll := d\<rparr>) \<and> cache_rel (c\<lparr>dll := d\<rparr>) ((a, e) # xs @ ys)"
proof -
  obtain xs e ys where ps: "ps = xs @ (a, e) # ys" "overlay_id (fst e) = overlay_id key"
    using lookup_hit[OF assms] by blast
  with assms cache_rel_touch[of c xs a e ys] show ?thesis by (fastforce simp: cr_processHit_def)
qed

lemma processHit_miss: "table_lookup oid_less key (hm c) = None \<Longrightarrow> cr_processHit key c = Some (False, c)"
  by (simp add: cr_processHit_def)

lemma insert_known:
  "table_lookup oid_less key (hm c) \<noteq> None \<Longrightarrow> cin_insert rt pc key v c = Some c"
  by (simp add: cin_insert_def)

lemma cin_insert_rel:
  assumes r: "cache_rel c ps" and k: "int_key key"
  shows "\<exists>c' ps'. cin_insert rt pc key v c = Some c' \<and> cache_rel c' ps' \<and> capacity c' = capacity c \<and>
    myOID c' = myOID c \<and>
    map snd ps' = (if table_lookup oid_less key pc \<noteq> None \<or> lru_has key (map snd ps)
        \<or> table_lookup oid_less key rt \<noteq> None \<or> GetOverlay_id key = GetOverlay_id (myOID c)
      then map snd ps else (stored_key key, stored_value v) # map snd ps)"
proof (cases "table_lookup oid_less key pc \<noteq> None \<or> table_lookup oid_less key (hm c) \<noteq> None
        \<or> table_lookup oid_less key rt \<noteq> None \<or> GetOverlay_id key = GetOverlay_id (myOID c)")
  case True
  then have "cin_insert rt pc key v c = Some c" by (simp add: cin_insert_def)
  moreover have "table_lookup oid_less key pc \<noteq> None \<or> lru_has key (map snd ps)
        \<or> table_lookup oid_less key rt \<noteq> None \<or> GetOverlay_id key = GetOverlay_id (myOID c)"
    using True lookup_miss[OF r, of key] by argo
  ultimately show ?thesis using r by (intro exI[of _ c] exI[of _ ps]) simp
next
  case False
  let ?k = "stored_key key" and ?v = "stored_value v"
  have id: "overlay_id ?k = overlay_id key"
    using k by (simp add: stored_key_def OverlayID_new_def int_key_def)
  have miss: "table_lookup oid_less key (hm c) = None" "\<not> lru_has key (map snd ps)"
    using False lookup_miss[OF r, of key] by auto
  obtain a d where n: "new_node ?k ?v (dll c) = (a, d)" by fastforce
  have wf: "dll_wf (dll c) (map fst ps)" using r by (simp add: cache_rel_def)
  then have brk: "\<forall>b \<in> set (map fst ps). b < brk (dll c)" by (simp add: dll_wf_def)
  note nl = new_node_links[OF n brk]
  from wf nl have "links (heap d) None (map fst ps) None" "distinct (map fst ps)"
    "head d = first_or (map fst ps) None" "tail d = last_or (map fst ps) None"
    "\<forall>b \<in> set (a # map fst ps). b < brk d" by (auto simp: dll_wf_def less_Suc_eq)
  with nl(2,3) obtain d' where d': "append2Head a d = Some d'" "dll_wf d' (a # map fst ps)"
    "node_data d' = node_data d"
    using append2Head_wf[of d "map fst ps" None a None] by blast
  have fresh: "oid.abs_map (hm c) (overlay_id key) = None"
    using miss(1) by (simp add: table_lookup_abs)
  have t: "oid.wf_table (snd (table_add oid_less ?k a (hm c)))"
    "oid.abs_map (snd (table_add oid_less ?k a (hm c))) = (oid.abs_map (hm c))(overlay_id key \<mapsto> a)"
    using oid.table_add_refines[of "hm c" ?k a "fst (table_add oid_less ?k a (hm c))"
        "snd (table_add oid_less ?k a (hm c))"] r id fresh
    by (auto simp: cache_rel_def)
  have nokey: "overlay_id key \<notin> (\<lambda>(a, e). overlay_id (fst e)) ` set ps"
    using miss(2) by (force simp: lru_has_def)
  let ?c = "c\<lparr>dll := d', hm := snd (table_add oid_less ?k a (hm c)), cache_size := cache_size c + 1\<rparr>"
  have "cin_insert rt pc key v c = Some ?c"
    using False n d' by (simp add: cin_insert_def)
  moreover have "cache_rel ?c ((a, ?k, ?v) # ps)"
    unfolding cache_rel_def
  proof (intro conjI)
    have old: "node_data (dll c) b = Some e" "b \<noteq> a" if "(b, e) \<in> set ps" for b e
      using that r nl(3) by (force simp: cache_rel_def)+
    show "\<forall>(b, e) \<in> set ((a, ?k, ?v) # ps). node_data (dll ?c) b = Some e"
      using d'(3) nl(8) by (auto simp: old)
    show "distinct (map (\<lambda>(a, e). overlay_id (fst e)) ((a, ?k, ?v) # ps))"
      using r nokey id by (simp add: cache_rel_def)
    show "\<forall>i b. oid.abs_map (hm ?c) i = Some b \<longleftrightarrow>
        (\<exists>e. (b, e) \<in> set ((a, ?k, ?v) # ps) \<and> overlay_id (fst e) = i)"
    proof (intro allI)
      fix i b
      have old: "oid.abs_map (hm c) i = Some b \<longleftrightarrow> (\<exists>e. (b, e) \<in> set ps \<and> overlay_id (fst e) = i)"
        using r by (simp add: cache_rel_def)
      have "\<not> (\<exists>e. (b, e) \<in> set ps \<and> overlay_id (fst e) = overlay_id key)"
        using nokey by force
      then show "oid.abs_map (hm ?c) i = Some b \<longleftrightarrow>
          (\<exists>e. (b, e) \<in> set ((a, ?k, ?v) # ps) \<and> overlay_id (fst e) = i)"
        using old id t(2) by (cases "i = overlay_id key") auto
    qed
  qed (use d' t r in \<open>auto simp: cache_rel_def\<close>)
  ultimately show ?thesis using False miss
    by (intro exI[of _ ?c] exI[of _ "(a, ?k, ?v) # ps"]) auto
qed

lemma cr_evict_rel:
  assumes "cache_rel c (xs @ [(a, e)])" and "xs \<noteq> []"
  shows "\<exists>c'. cr_evict c = Some c' \<and> cache_rel (c'\<lparr>cache_size := cache_size c' - 1\<rparr>) xs
    \<and> capacity c' = capacity c \<and> myOID c' = myOID c"
proof -
  from assms have r: "dll_wf (dll c) (map fst xs @ [a])" "oid.wf_table (hm c)"
    "node_data (dll c) a = Some e" by (auto simp: cache_rel_def)
  have t: "tail (dll c) = Some a" using r(1) by (simp add: dll_wf_def)
  obtain d where d: "removeTail (dll c) = Some d" "dll_wf d (map fst xs)" "node_data d = node_data (dll c)"
    using removeTail_wf[OF r(1)] assms(2) by auto
  have "node_data d a = Some e" using d(3) r(3) by simp
  then obtain n where n: "heap d a = Some n" "node_key n = fst e" by (auto simp: node_data_def)
  let ?c = "c\<lparr>dll := d, hm := snd (table_remove oid_less (fst e) (hm c))\<rparr>"
  have tr: "oid.wf_table (hm ?c)" "oid.abs_map (hm ?c) = (oid.abs_map (hm c))(overlay_id (fst e) := None)"
    using oid.table_remove_refines[of "hm c" "fst e" "fst (table_remove oid_less (fst e) (hm c))" "hm ?c"] r(2)
    by auto
  have "cr_evict c = Some ?c" using t d n by (simp add: cr_evict_def node_at_def)
  moreover have "oid.abs_map (hm ?c) i = Some b \<longleftrightarrow> (\<exists>e. (b, e) \<in> set xs \<and> overlay_id (fst e) = i)" for i b
  proof -
    have old: "oid.abs_map (hm c) i = Some b \<longleftrightarrow>
        (\<exists>e'. (b, e') \<in> set (xs @ [(a, e)]) \<and> overlay_id (fst e') = i)"
      using assms(1) unfolding cache_rel_def by blast
    have "\<not> (\<exists>e'. (b, e') \<in> set xs \<and> overlay_id (fst e') = overlay_id (fst e))"
      using assms(1) unfolding cache_rel_def by force
    then show ?thesis using old tr(2) by (cases "i = overlay_id (fst e)") auto
  qed
  ultimately show ?thesis using assms(1) d tr(1)
    by (intro exI[of _ ?c]) (auto simp: cache_rel_def)
qed

lemma lru_absent:
  "\<not> lru_has key L \<Longrightarrow> filter (\<lambda>e. overlay_id (fst e) = overlay_id key) L = [] \<and>
    filter (\<lambda>e. overlay_id (fst e) \<noteq> overlay_id key) L = L \<and>
    find (\<lambda>e. overlay_id (fst e) = overlay_id key) L = None"
  by (induction L) (auto simp: lru_has_def)

lemma find_after: "find P xs = None \<Longrightarrow> find P (xs @ ys) = find P ys"
  by (induction xs) (auto split: if_splits)

lemma lru_touch_split:
  assumes "distinct (map (\<lambda>(a, e). overlay_id (fst e)) (xs @ (a, e) # ys))"
    and "overlay_id (fst e) = overlay_id key"
  shows "lru_touch key (map snd (xs @ (a, e) # ys)) = map snd ((a, e) # xs @ ys)"
    and "find (\<lambda>e. overlay_id (fst e) = overlay_id key) (map snd (xs @ (a, e) # ys)) = Some e"
    and "lru_has key (map snd (xs @ (a, e) # ys))"
proof -
  have "\<not> lru_has key (map snd xs)" "\<not> lru_has key (map snd ys)"
    using assms by (force simp: lru_has_def)+
  note ab = lru_absent[OF this(1)] lru_absent[OF this(2)]
  show "lru_touch key (map snd (xs @ (a, e) # ys)) = map snd ((a, e) # xs @ ys)"
    unfolding lru_touch_def using assms(2) ab by (simp del: filter_map)
  show "find (\<lambda>e. overlay_id (fst e) = overlay_id key) (map snd (xs @ (a, e) # ys)) = Some e"
    using assms(2) ab by (simp add: find_after)
  show "lru_has key (map snd (xs @ (a, e) # ys))" using assms(2) by (force simp: lru_has_def)
qed

lemma lru_touch_miss: "\<not> lru_has key L \<Longrightarrow> lru_touch key L = L \<and>
    find (\<lambda>e. overlay_id (fst e) = overlay_id key) L = None"
  by (simp add: lru_touch_def lru_absent)

text \<open>A cache \<open>c\<close> that stores the entries \<open>L\<close>, most recent first.\<close>

definition cache_entries :: "Cache \<Rightarrow> lru \<Rightarrow> bool" where
  "cache_entries c L \<longleftrightarrow> (\<exists>ps. cache_rel c ps \<and> L = map snd ps)"

lemma cache_entries_size: "cache_entries c L \<Longrightarrow> cache_size c = int (length L)"
  by (auto simp: cache_entries_def cache_rel_def)

lemma cache_lookup_entries:
  assumes "cache_entries c L"
  shows "\<exists>c'. cache_lookup key c = Some (fst (lru_lookup key L), c') \<and>
    cache_entries c' (snd (lru_lookup key L)) \<and> capacity c' = capacity c \<and> myOID c' = myOID c"
proof -
  obtain ps where ps: "cache_rel c ps" "L = map snd ps" using assms by (auto simp: cache_entries_def)
  show ?thesis
  proof (cases "table_lookup oid_less key (hm c)")
    case None
    with lookup_miss[OF ps(1), of key] lru_touch_miss[of key L] ps assms show ?thesis
      by (auto simp: cache_lookup_def lru_lookup_def)
  next
    case (Some a)
    from processHit_rel[OF ps(1) this] obtain xs e ys d where
      h: "ps = xs @ (a, e) # ys" "overlay_id (fst e) = overlay_id key"
      "cr_processHit key c = Some (True, c\<lparr>dll := d\<rparr>)" "cache_rel (c\<lparr>dll := d\<rparr>) ((a, e) # xs @ ys)"
      by blast
    from ps(1) h(1) have "distinct (map (\<lambda>(a, e). overlay_id (fst e)) (xs @ (a, e) # ys))"
      by (simp add: cache_rel_def)
    note s = lru_touch_split[OF this h(2)]
    have "node_data d a = Some e" using h(4) by (simp add: cache_rel_def)
    then obtain n where "heap d a = Some n" "node_value n = snd e" by (auto simp: node_data_def)
    with Some h(3) have "cache_lookup key c = Some (Some (snd e), c\<lparr>dll := d\<rparr>)"
      by (simp add: cache_lookup_def node_at_def)
    moreover have "lru_lookup key L = (Some (snd e), map snd ((a, e) # xs @ ys))"
      using s ps(2) h(1) by (simp add: lru_lookup_def)
    ultimately show ?thesis using h(4) by (auto simp: cache_entries_def)
  qed
qed

lemma cache_add_entries:
  assumes "cache_entries c L" and "int_key key" and "capacity c = int cap" and "2 \<le> cap" and "length L \<le> cap"
  shows "\<exists>c'. cache_add rt pc key v c = Some c' \<and> cache_entries c' (lru_add rt pc (myOID c) cap key v L) \<and>
    capacity c' = capacity c \<and> myOID c' = myOID c"
proof -
  obtain ps where ps: "cache_rel c ps" "L = map snd ps" using assms by (auto simp: cache_entries_def)
  let ?L = "if length L < cap then L else if lru_has key L then lru_touch key L else butlast L"
  have full: "cache_size c = capacity c \<longleftrightarrow> \<not> length L < cap"
    using cache_entries_size[OF assms(1)] assms(3,5) by auto
  have "\<exists>c1 ps1. (if cache_size c = capacity c then
          Option.bind (cr_processHit key c) (\<lambda>(hit, c).
          if \<not> hit then map_option (\<lambda>c. c\<lparr>cache_size := cache_size c - 1\<rparr>) (cr_evict c) else Some c)
        else Some c) = Some c1 \<and> cache_rel c1 ps1 \<and> ?L = map snd ps1 \<and> capacity c1 = capacity c \<and> myOID c1 = myOID c"
  proof (cases "length L < cap")
    case True
    with ps full show ?thesis by auto
  next
    case notfull: False
    show ?thesis
    proof (cases "table_lookup oid_less key (hm c)")
      case None
      then have miss: "\<not> lru_has key L" using lookup_miss[OF ps(1), of key] ps(2) by simp
      have "ps \<noteq> []" using notfull assms(4) ps(2) by auto
      then obtain xs a e where p: "ps = xs @ [(a, e)]" by (cases ps rule: rev_cases) auto
      then have "xs \<noteq> []" using notfull assms(4) ps(2) by auto
      from cr_evict_rel[of c xs a e] this ps(1) p obtain c1 where
        "cr_evict c = Some c1" "cache_rel (c1\<lparr>cache_size := cache_size c1 - 1\<rparr>) xs"
        "capacity c1 = capacity c" "myOID c1 = myOID c" by auto
      with full notfull miss p ps(2) processHit_miss[OF None] show ?thesis by auto
    next
      case (Some a)
      from processHit_rel[OF ps(1) this] obtain xs e ys d where
        h: "ps = xs @ (a, e) # ys" "overlay_id (fst e) = overlay_id key"
        "cr_processHit key c = Some (True, c\<lparr>dll := d\<rparr>)" "cache_rel (c\<lparr>dll := d\<rparr>) ((a, e) # xs @ ys)"
        by blast
      from ps(1) h(1) have "distinct (map (\<lambda>(a, e). overlay_id (fst e)) (xs @ (a, e) # ys))"
        by (simp add: cache_rel_def)
      note s = lru_touch_split[OF this h(2)]
      have "?L = map snd ((a, e) # xs @ ys)" using notfull s(1,3) ps(2) h(1) by simp
      with full notfull h(3,4) show ?thesis
        by (intro exI[of _ "c\<lparr>dll := d\<rparr>"] exI[of _ "(a, e) # xs @ ys"]) simp
    qed
  qed
  then obtain c1 ps1 where c1: "cache_add rt pc key v c = cin_insert rt pc key v c1" "cache_rel c1 ps1"
    "?L = map snd ps1" "capacity c1 = capacity c" "myOID c1 = myOID c"
    unfolding cache_add_def by fastforce
  from cin_insert_rel[OF c1(2) assms(2), of rt pc v] obtain c2 ps2 where
    c2: "cin_insert rt pc key v c1 = Some c2" "cache_rel c2 ps2" "capacity c2 = capacity c1" "myOID c2 = myOID c1"
    "map snd ps2 = (if table_lookup oid_less key pc \<noteq> None \<or> lru_has key (map snd ps1)
        \<or> table_lookup oid_less key rt \<noteq> None \<or> GetOverlay_id key = GetOverlay_id (myOID c1)
      then map snd ps1 else (stored_key key, stored_value v) # map snd ps1)" by blast
  have "map snd ps2 = lru_add rt pc (myOID c) cap key v L"
    unfolding c2(5) lru_add_def Let_def c1(3) c1(5) by (rule refl)
  with c1 c2 show ?thesis by (auto simp: cache_entries_def)
qed

section \<open>Sequences of calls\<close>

datatype cache_call =
  Cache_Add "(OverlayID, HostAddress) table" "(OverlayID, HostAddress) table" OverlayID HostAddress
| Cache_Lookup OverlayID

fun call_key :: "cache_call \<Rightarrow> OverlayID" where
  "call_key (Cache_Add rt pc key v) = key"
| "call_key (Cache_Lookup key) = key"

fun cache_step :: "cache_call \<Rightarrow> Cache \<Rightarrow> (HostAddress option \<times> Cache) option" where
  "cache_step (Cache_Add rt pc key v) c = map_option (\<lambda>c. (None, c)) (cache_add rt pc key v c)"
| "cache_step (Cache_Lookup key) c = cache_lookup key c"

fun cache_run :: "cache_call list \<Rightarrow> Cache \<Rightarrow> (HostAddress option list \<times> Cache) option" where
  "cache_run [] c = Some ([], c)"
| "cache_run (x # xs) c = Option.bind (cache_step x c) (\<lambda>(r, c).
     map_option (\<lambda>(rs, c). (r # rs, c)) (cache_run xs c))"

fun lru_step :: "OverlayID \<Rightarrow> nat \<Rightarrow> cache_call \<Rightarrow> lru \<Rightarrow> HostAddress option \<times> lru" where
  "lru_step me cap (Cache_Add rt pc key v) L = (None, lru_add rt pc me cap key v L)"
| "lru_step me cap (Cache_Lookup key) L = lru_lookup key L"

fun lru_run :: "OverlayID \<Rightarrow> nat \<Rightarrow> cache_call list \<Rightarrow> lru \<Rightarrow> HostAddress option list \<times> lru" where
  "lru_run me cap [] L = ([], L)"
| "lru_run me cap (x # xs) L =
     (let (r, L) = lru_step me cap x L; (rs, L) = lru_run me cap xs L in (r # rs, L))"

lemma length_lru_touch [simp]: "length (lru_touch key L) = length L"
  by (simp add: lru_touch_def sum_length_filter_compl)

lemma length_lru_add: "length L \<le> cap \<Longrightarrow> 0 < cap \<Longrightarrow> length (lru_add rt pc me cap key v L) \<le> cap"
proof -
  assume h: "length L \<le> cap" "0 < cap"
  have "lru_has key (lru_touch key L)" if "lru_has key L"
    using that by (force simp: lru_has_def lru_touch_def)
  with h show ?thesis by (auto simp: lru_add_def Let_def)
qed

lemma cache_run_entries:
  assumes "cache_entries c L" and "\<forall>x \<in> set xs. int_key (call_key x)" and "capacity c = int cap"
    and "2 \<le> cap" and "length L \<le> cap"
  shows "\<exists>c'. cache_run xs c = Some (fst (lru_run (myOID c) cap xs L), c') \<and>
    cache_entries c' (snd (lru_run (myOID c) cap xs L)) \<and> length (snd (lru_run (myOID c) cap xs L)) \<le> cap"
  using assms
proof (induction xs arbitrary: c L)
  case (Cons x xs)
  let ?s = "lru_step (myOID c) cap x L"
  have "\<exists>c1. cache_step x c = Some (fst ?s, c1) \<and> cache_entries c1 (snd ?s) \<and> capacity c1 = capacity c
      \<and> myOID c1 = myOID c \<and> length (snd ?s) \<le> cap"
  proof (cases x)
    case (Cache_Add rt pc key v)
    with Cons.prems cache_add_entries[OF Cons.prems(1) _ Cons.prems(3,4,5), of key rt pc v]
    show ?thesis by (auto simp: length_lru_add)
  next
    case (Cache_Lookup key)
    with Cons.prems cache_lookup_entries[OF Cons.prems(1), of key]
    show ?thesis by (auto simp: lru_lookup_def)
  qed
  then obtain c1 where c1: "cache_step x c = Some (fst ?s, c1)" "cache_entries c1 (snd ?s)"
    "capacity c1 = int cap" "myOID c1 = myOID c" "length (snd ?s) \<le> cap" using Cons.prems(3) by auto
  from Cons.IH[OF c1(2) _ c1(3) Cons.prems(4) c1(5)] Cons.prems(2) c1(4) obtain c2 where
    "cache_run xs c1 = Some (fst (lru_run (myOID c) cap xs (snd ?s)), c2)"
    "cache_entries c2 (snd (lru_run (myOID c) cap xs (snd ?s)))"
    "length (snd (lru_run (myOID c) cap xs (snd ?s))) \<le> cap" by auto
  with c1 show ?case by (simp add: case_prod_beta Let_def)
qed simp



text \<open>
  A full cache that holds a single entry cannot take another one: adding a new key evicts
  the entry, and \<^verbatim>\<open>evict\<close> then reads the key of the node it has just freed.
\<close>

theorem single_entry_evict_use_after_free:
  assumes "cache_entries c [e]" and "capacity c = 1" and "overlay_id (fst e) \<noteq> overlay_id key"
  shows "cache_add rt pc key v c = None"
proof -
  obtain a where r: "cache_rel c [(a, e)]" using assms(1) by (auto simp: cache_entries_def)
  then have miss: "table_lookup oid_less key (hm c) = None"
    using lookup_miss[OF r, of key] assms(3) by (simp add: lru_has_def)
  from r obtain d where d: "removeTail (dll c) = Some d" "heap d a = None"
    using removeTail_single[of "dll c" a] by (auto simp: cache_rel_def)
  have "tail (dll c) = Some a" using r by (simp add: cache_rel_def dll_wf_def)
  with d have "cr_evict c = None" by (simp add: cr_evict_def node_at_def)
  then show ?thesis using r assms(2) miss
    by (simp add: cache_add_def cr_processHit_def cache_rel_def)
qed

lemma single_entry_evict_use_after_free_witness:
  "\<exists>c. cache_add [] [] (OverlayID_new 1 3 3) (HostAddress_new [97] 1) (Cache_new (OverlayID_new 7 3 3) 1) = Some c
    \<and> cache_add [] [] (OverlayID_new 2 3 3) (HostAddress_new [98] 2) c = None"
proof -
  have "int_key (OverlayID_new 1 3 3)" by (simp add: int_key_def GetOverlay_id_def OverlayID_new_def)
  from cin_insert_rel[OF cache_rel_new[of "OverlayID_new 7 3 3" 1] this, of "[]" "[]" "HostAddress_new [97] 1"]
  obtain c ps where c: "cin_insert [] [] (OverlayID_new 1 3 3) (HostAddress_new [97] 1) (Cache_new (OverlayID_new 7 3 3) 1) = Some c"
    "cache_rel c ps" "capacity c = 1" "map snd ps = [(OverlayID_new 1 3 3, HostAddress_new [97] 1)]"
    by (auto simp: Cache_new_def table_lookup_def lru_has_def stored_key_def stored_value_def
        GetOverlay_id_def OverlayID_new_def HostAddress_new_def)
  then have "cache_entries c [(OverlayID_new 1 3 3, HostAddress_new [97] 1)]"
    by (auto simp: cache_entries_def)
  from single_entry_evict_use_after_free[OF this c(3), of "OverlayID_new 2 3 3"] c(1) show ?thesis
    by (auto simp: cache_add_def Cache_new_def OverlayID_new_def)
qed

text \<open>The iterator visits the entries from head to tail, once each.\<close>

fun iter_collect :: "Cache \<Rightarrow> nat \<Rightarrow> nat option \<Rightarrow> nat list option" where
  "iter_collect c 0 current = (if iter_hasMore current then None else Some [])"
| "iter_collect c (Suc fuel) current =
     (if iter_hasMore current
      then Option.bind (iter_getNext c current) (\<lambda>(r, current).
        map_option ((#) (the r)) (iter_collect c fuel current))
      else Some [])"

lemma iter_collect_links:
  "links (heap (dll c)) p as None \<Longrightarrow> length as \<le> fuel \<Longrightarrow>
   iter_collect c fuel (first_or as None) = Some as"
proof (induction as arbitrary: p fuel)
  case Nil
  then show ?case by (cases fuel) (auto simp: iter_hasMore_def)
next
  case (Cons a as)
  then show ?case by (cases fuel) (auto simp: iter_hasMore_def iter_getNext_def)
qed

end
