(* ===== verification/Peer.thy ===== *)
theory Peer
  imports Overlay_ID
begin

text \<open>
  \<^verbatim>\<open>plnode/peer/peer.h\<close>: the state of a peer, its statistics counters and its name database.
  Each counter has a lock of its own, so an increment is one step. The host file, the address
  database (filled from it with DNS and \<^verbatim>\<open>ping\<close>, read when a message is sent) and the
  sockets are not modelled.
\<close>

record Peer =
  run_sequence_no :: cint
  n_peers :: cint
  peer_name :: cstring
  peer_overlay_id :: OverlayID
  peer_status :: cint
  host_name :: cstring
  listen_port_number :: cint
  publish_name_range_start :: cint
  publish_name_range_end :: cint
  lookup_name_range_start :: cint
  lookup_name_range_end :: cint
  webserver_port :: cint
  put_generated :: cint
  put_received :: cint
  put_processed :: cint
  put_forwarded :: cint
  put_dropped :: cint
  get_generated :: cint
  get_received :: cint
  get_processed :: cint
  get_forwarded :: cint
  get_dropped :: cint
  peer_alpha :: clong
  peer_k :: cint
  timeout_sec :: cint
  timeout_micro_sec :: cint
  n_retry :: cint
  init_rcvd :: bool
  start_gen_name_rcvd :: bool
  start_lookup_name_rcvd :: bool
  start_gen_name :: bool
  peer_dyn_status :: cint
  log_server_name :: cstring
  log_server_user :: cstring
  cache_storage :: cstring
  cache_type :: cstring
  name_db :: "(cstring, HostAddress \<times> clong) table"

text \<open>
  \<^verbatim>\<open>INIT\<close> on the raw object. \<^verbatim>\<open>put_generated, put_received, ..., put_dropped = 0;\<close> is a comma
  expression: it assigns the last counter only.
\<close>

definition Peer_INIT :: "cstring \<Rightarrow> Peer \<Rightarrow> Peer" where
  "Peer_INIT hostname p =
     p\<lparr>host_name := hostname, init_rcvd := False, start_gen_name := False,
       put_dropped := 0, get_dropped := 0\<rparr>"

definition Peer_default :: "cstring \<Rightarrow> Peer \<Rightarrow> Peer" where
  "Peer_default hostname p = (Peer_INIT hostname p)\<lparr>listen_port_number := 0\<rparr>"

definition Peer_port :: "cstring \<Rightarrow> cint \<Rightarrow> Peer \<Rightarrow> Peer" where
  "Peer_port hostname port p = (Peer_INIT hostname p)\<lparr>listen_port_number := port\<rparr>"

text \<open>
  The values of the configuration a peer copies. The conversion of the timeout, a \<^verbatim>\<open>double\<close>, to
  seconds and microseconds is a pair of parameters.
\<close>

record peer_config =
  cfg_alpha :: clong
  cfg_K :: cint
  cfg_n_retry :: cint
  cfg_timeout :: clong
  cfg_cache_storage :: cstring
  cfg_cache_type :: cstring

definition Peer_reconfigure :: "(clong \<Rightarrow> cint) \<Rightarrow> (clong \<Rightarrow> cint) \<Rightarrow> peer_config \<Rightarrow> Peer \<Rightarrow> Peer" where
  "Peer_reconfigure to_sec to_usec c p =
     p\<lparr>peer_alpha := cfg_alpha c, peer_k := cfg_K c, n_retry := cfg_n_retry c, timeout_sec := to_sec (cfg_timeout c),
       timeout_micro_sec := to_usec (cfg_timeout c), cache_storage := cfg_cache_storage c,
       cache_type := cfg_cache_type c\<rparr>"

definition Peer_config :: "(clong \<Rightarrow> cint) \<Rightarrow> (clong \<Rightarrow> cint) \<Rightarrow> cstring \<Rightarrow> peer_config \<Rightarrow> Peer \<Rightarrow> Peer" where
  "Peer_config to_sec to_usec hostname c p = Peer_reconfigure to_sec to_usec c (Peer_INIT hostname p)"

section \<open>Counters\<close>

definition incrementPut_generated :: "Peer \<Rightarrow> Peer" where
  "incrementPut_generated p = p\<lparr>put_generated := put_generated p + 1\<rparr>"
definition incrementPut_received :: "Peer \<Rightarrow> Peer" where
  "incrementPut_received p = p\<lparr>put_received := put_received p + 1\<rparr>"
definition incrementPut_processed :: "Peer \<Rightarrow> Peer" where
  "incrementPut_processed p = p\<lparr>put_processed := put_processed p + 1\<rparr>"
definition incrementPut_forwarded :: "Peer \<Rightarrow> Peer" where
  "incrementPut_forwarded p = p\<lparr>put_forwarded := put_forwarded p + 1\<rparr>"
definition incrementPut_Dropped :: "Peer \<Rightarrow> Peer" where
  "incrementPut_Dropped p = p\<lparr>put_dropped := put_dropped p + 1\<rparr>"
definition incrementGet_generated :: "Peer \<Rightarrow> Peer" where
  "incrementGet_generated p = p\<lparr>get_generated := get_generated p + 1\<rparr>"
definition incrementGet_received :: "Peer \<Rightarrow> Peer" where
  "incrementGet_received p = p\<lparr>get_received := get_received p + 1\<rparr>"
definition incrementGet_processed :: "Peer \<Rightarrow> Peer" where
  "incrementGet_processed p = p\<lparr>get_processed := get_processed p + 1\<rparr>"
definition incrementGet_forwarded :: "Peer \<Rightarrow> Peer" where
  "incrementGet_forwarded p = p\<lparr>get_forwarded := get_forwarded p + 1\<rparr>"
definition incrementGet_Dropped :: "Peer \<Rightarrow> Peer" where
  "incrementGet_Dropped p = p\<lparr>get_dropped := get_dropped p + 1\<rparr>"

section \<open>The name database\<close>

text \<open>\<open>now\<close> is \<^verbatim>\<open>time(NULL)\<close>.\<close>

definition addToNameDB :: "clong \<Rightarrow> cstring \<Rightarrow> HostAddress \<Rightarrow> Peer \<Rightarrow> Peer" where
  "addToNameDB now name ha p = p\<lparr>name_db := snd (table_add str_less name (ha, now) (name_db p))\<rparr>"

definition updateNameDB :: "clong \<Rightarrow> cstring \<Rightarrow> HostAddress \<Rightarrow> Peer \<Rightarrow> bool \<times> Peer" where
  "updateNameDB now name ha p =
     (let (b, t) = table_update str_less name (ha, now) (name_db p) in (b, p\<lparr>name_db := t\<rparr>))"

definition searchNameDb :: "cstring \<Rightarrow> Peer \<Rightarrow> HostAddress option" where
  "searchNameDb name p = map_option fst (table_lookup str_less name (name_db p))"

text \<open>The names registered after a time, by the iterator of the table.\<close>

fun newer_loop ::
    "(cstring, HostAddress \<times> clong) table \<Rightarrow> clong \<Rightarrow> cstring list \<Rightarrow> (HostAddress \<times> clong) \<Rightarrow>
     (cstring \<times> clong) list \<Rightarrow> (cstring \<times> clong) list" where
  "newer_loop t timestamp [] raw ret = ret"
| "newer_loop t timestamp (key # it) raw ret =
     (let value = (case table_lookup str_less key t of None \<Rightarrow> raw | Some v \<Rightarrow> v) in
      newer_loop t timestamp it raw (if timestamp <s snd value then ret @ [(key, snd value)] else ret))"

definition searchNameDb_since :: "(HostAddress \<times> clong) \<Rightarrow> clong \<Rightarrow> Peer \<Rightarrow> (cstring \<times> clong) list" where
  "searchNameDb_since raw timestamp p =
     newer_loop (name_db p) timestamp (reset_iterator (name_db p)) raw []"

section \<open>The database serves the names\<close>

definition name_db_ok :: "Peer \<Rightarrow> bool" where
  "name_db_ok p \<longleftrightarrow> name.wf_table (name_db p)"

lemma newer_loop_eq:
  "name.wf_table t \<Longrightarrow> set es \<subseteq> set t \<Longrightarrow>
   newer_loop t ts (map fst es) raw ret =
     ret @ map (\<lambda>(n, ha, s). (n, s)) (filter (\<lambda>(n, ha, s). ts <s s) es)"
proof (induction es arbitrary: ret)
  case (Cons e es)
  obtain n ha s where e: "e = (n, ha, s)" by (cases e)
  with Cons.prems have "table_lookup str_less n t = Some (ha, s)"
    using name.lookup_of_entry[OF Cons.prems(1), of n "(ha, s)"] by simp
  with e Cons show ?case by (simp add: Let_def)
qed simp

lemma name_db_ops:
  assumes "name_db_ok p"
  shows "name_db_ok (addToNameDB now n ha p) \<and> name_db_ok (snd (updateNameDB now n ha p))
    \<and> searchNameDb m (addToNameDB now n ha p) =
        (if m = n \<and> searchNameDb n p = None then Some ha else searchNameDb m p)
    \<and> searchNameDb m (snd (updateNameDB now n ha p)) = (if m = n then Some ha else searchNameDb m p)
    \<and> fst (updateNameDB now n ha p) = (searchNameDb n p \<noteq> None)
    \<and> searchNameDb_since raw ts p =
        map (\<lambda>(n, ha, s). (n, s)) (filter (\<lambda>(n, ha, s). ts <s s) (name_db p))"
proof -
  obtain b t where a: "table_add str_less n (ha, now) (name_db p) = (b, t)" by fastforce
  obtain b' t' where u: "table_update str_less n (ha, now) (name_db p) = (b', t')" by fastforce
  have wf: "name.wf_table (name_db p)" using assms by (simp add: name_db_ok_def)
  note ra = name.table_add_refines[OF wf a] and ru = name.table_update_refines[OF wf u]
  have l: "table_lookup str_less m x = name.abs_map x m" for m and x :: "(cstring, HostAddress \<times> clong) table"
    by (simp add: table_lookup_def name.map_find_abs)
  have s: "searchNameDb_since raw ts p = map (\<lambda>(n, ha, s). (n, s)) (filter (\<lambda>(n, ha, s). ts <s s) (name_db p))"
    using newer_loop_eq[OF wf, of "name_db p" ts raw "[]"]
    by (simp add: searchNameDb_since_def reset_iterator_def)
  show ?thesis
    using ra ru s a u by (auto simp: name_db_ok_def addToNameDB_def updateNameDB_def searchNameDb_def l)
qed

text \<open>
  The name database: after registering or updating a name the search returns the address
  given last (registering an existing name keeps its address), other names are unaffected, and
  the search by time returns exactly the registered names whose time is later, in the order of
  the names.
\<close>

theorem name_db_serves:
  assumes "name_db_ok p"
  shows "name_db_ok (addToNameDB now n ha p) \<and> name_db_ok (snd (updateNameDB now n ha p))
    \<and> searchNameDb m (addToNameDB now n ha p) =
        (if m = n \<and> searchNameDb n p = None then Some ha else searchNameDb m p)
    \<and> searchNameDb m (snd (updateNameDB now n ha p)) = (if m = n then Some ha else searchNameDb m p)
    \<and> fst (updateNameDB now n ha p) = (searchNameDb n p \<noteq> None)
    \<and> searchNameDb_since raw ts p =
        map (\<lambda>(n, ha, s). (n, s)) (filter (\<lambda>(n, ha, s). ts <s s) (name_db p))"
  using name_db_ops[OF assms] .

lemma name_db_serves_witness:
  "\<exists>p. name_db_ok p \<and> searchNameDb [97] (addToNameDB 5 [97] (HostAddress_new [104] 80) p) = Some (HostAddress_new [104] 80)"
proof -
  let ?p = "\<lparr>run_sequence_no = 0, n_peers = 0, peer_name = [], peer_overlay_id = OverlayID_new 0 0 0,
    peer_status = 0, host_name = [], listen_port_number = 0, publish_name_range_start = 0,
    publish_name_range_end = 0, lookup_name_range_start = 0, lookup_name_range_end = 0, webserver_port = 0,
    put_generated = 0, put_received = 0, put_processed = 0, put_forwarded = 0, put_dropped = 0,
    get_generated = 0, get_received = 0, get_processed = 0, get_forwarded = 0, get_dropped = 0,
    peer_alpha = 0, peer_k = 0, timeout_sec = 0, timeout_micro_sec = 0, n_retry = 0, init_rcvd = False,
    start_gen_name_rcvd = False, start_lookup_name_rcvd = False, start_gen_name = False, peer_dyn_status = 0,
    log_server_name = [], log_server_user = [], cache_storage = [], cache_type = [],
    name_db = ([] :: (cstring, HostAddress \<times> clong) table)\<rparr>"
  have ok: "name_db_ok ?p" by (simp add: name_db_ok_def)
  have "searchNameDb [97] ?p = None" by (simp add: searchNameDb_def table_lookup_def)
  with name_db_serves[OF ok, of 5 "[97]" "HostAddress_new [104] 80" "[97]"] ok show ?thesis by auto
qed

text \<open>
  C2. The counters of a new peer: only the dropped counters start at zero. The eight others
  keep what the memory of the object held, so the number of generated GETs after \<open>n\<close> increments
  is that content plus \<open>n\<close> (modulo \<open>2 ^ 32\<close>).
\<close>

theorem counters_not_reset:
  "get_dropped (Peer_INIT h raw) = 0 \<and> put_dropped (Peer_INIT h raw) = 0 \<and>
   get_generated ((incrementGet_generated ^^ n) (Peer_INIT h raw)) = get_generated raw + of_nat n \<and>
   put_processed ((incrementPut_processed ^^ n) (Peer_INIT h raw)) = put_processed raw + of_nat n"
proof -
  have "get_generated ((incrementGet_generated ^^ n) p) = get_generated p + of_nat n" for p
    by (induction n) (simp_all add: incrementGet_generated_def)
  moreover have "put_processed ((incrementPut_processed ^^ n) p) = put_processed p + of_nat n" for p
    by (induction n) (simp_all add: incrementPut_processed_def)
  ultimately show ?thesis by (simp add: Peer_INIT_def)
qed

end
