(* ===== verification/Log_Entry.thy ===== *)
theory Log_Entry
  imports Memory
begin

text \<open>
  \<^verbatim>\<open>plnode/logging/log_entry.h\<close>: an entry of the log queue, whose constructor prints a variable
  number of arguments under the control of a format. Each argument is printed into an array of 20
  characters; a longer text leaves it. How \<^verbatim>\<open>printf\<close> writes a \<^verbatim>\<open>double\<close> is a parameter.
\<close>

record LogEntry =
  key_str :: cstring
  value_str :: cstring
  log_type :: cint

datatype log_arg = Arg_int cint | Arg_double clong | Arg_str cstring

definition LogEntry_default :: LogEntry where
  "LogEntry_default = \<lparr>key_str = [], value_str = [], log_type = - 1\<rparr>"

text \<open>The text of an argument; \<^verbatim>\<open>sprintf("%s")\<close> stops at a zero byte. None if it does not fit.\<close>

definition fits_str :: "cstring \<Rightarrow> cstring option" where
  "fits_str s = (if length s < 20 then Some s else None)"

fun log_text :: "(clong \<Rightarrow> cstring) \<Rightarrow> char \<Rightarrow> log_arg \<Rightarrow> cstring option" where
  "log_text lf c (Arg_int w) = (if c = CHR ''i'' then fits_str (print_int w) else None)"
| "log_text lf c (Arg_double d) = (if c = CHR ''d'' then fits_str (lf d) else None)"
| "log_text lf c (Arg_str s) = (if c = CHR ''s'' then fits_str (takeWhile (\<lambda>c. c \<noteq> 0) s) else None)"

text \<open>
  The loop over the format: a tab before every position but the first, and for \<^verbatim>\<open>i\<close>, \<^verbatim>\<open>d\<close>
  and \<^verbatim>\<open>s\<close> the next argument; an argument that is missing or of another type is undefined.
\<close>

fun log_values :: "(clong \<Rightarrow> cstring) \<Rightarrow> nat \<Rightarrow> string \<Rightarrow> log_arg list \<Rightarrow> cstring \<Rightarrow> cstring option" where
  "log_values lf i [] args value = Some value"
| "log_values lf i (c # cs) args value =
     (let value = (if i \<noteq> 0 then value @ [9] else value) in
      if c \<in> {CHR ''i'', CHR ''d'', CHR ''s''} then
        (case args of [] \<Rightarrow> None
         | a # args \<Rightarrow> Option.bind (log_text lf c a) (\<lambda>s. log_values lf (Suc i) cs args (value @ s)))
      else log_values lf (Suc i) cs args value)"

definition LogEntry_new ::
    "(clong \<Rightarrow> cstring) \<Rightarrow> cint \<Rightarrow> cstring \<Rightarrow> string \<Rightarrow> log_arg list \<Rightarrow> LogEntry option" where
  "LogEntry_new lf ty key format args =
     map_option (\<lambda>v. \<lparr>key_str = takeWhile (\<lambda>c. c \<noteq> 0) key, value_str = v, log_type = ty\<rparr>)
       (log_values lf 0 format args [])"

section \<open>What an entry holds\<close>

text \<open>The arguments that match a format and fit the array.\<close>

fun args_match :: "(clong \<Rightarrow> cstring) \<Rightarrow> string \<Rightarrow> log_arg list \<Rightarrow> bool" where
  "args_match lf [] [] = True"
| "args_match lf (c # cs) (a # args) = (log_text lf c a \<noteq> None \<and> args_match lf cs args)"
| "args_match lf _ _ = False"

text \<open>The texts with a tab between them.\<close>

fun tab_join :: "cstring list \<Rightarrow> cstring" where
  "tab_join [] = []"
| "tab_join [s] = s"
| "tab_join (s # t # ss) = s @ 9 # tab_join (t # ss)"

definition log_texts :: "(clong \<Rightarrow> cstring) \<Rightarrow> string \<Rightarrow> log_arg list \<Rightarrow> cstring list" where
  "log_texts lf format args = map (\<lambda>(c, a). the (log_text lf c a)) (zip format args)"

lemma log_text_conv: "log_text lf c a \<noteq> None \<Longrightarrow> c \<in> {CHR ''i'', CHR ''d'', CHR ''s''}"
  by (cases a) (auto split: if_splits)

lemma log_values_join:
  "args_match lf format args \<Longrightarrow>
   log_values lf i format args v =
     Some (v @ (if i \<noteq> 0 \<and> format \<noteq> [] then [9] else []) @ tab_join (log_texts lf format args))"
proof (induction lf format args arbitrary: i v rule: args_match.induct)
  case (2 lf c cs a args)
  then obtain s where s: "log_text lf c a = Some s" "args_match lf cs args" by auto
  moreover have "c \<in> {CHR ''i'', CHR ''d'', CHR ''s''}" using log_text_conv[of lf c a] s(1) by simp
  moreover have "tab_join (log_texts lf (c # cs) (a # args)) =
      s @ (if cs \<noteq> [] then [9] else []) @ tab_join (log_texts lf cs args)"
    using s by (cases cs; cases args) (auto simp: log_texts_def)
  ultimately show ?case using 2(1)[OF s(2)] by (simp add: Let_def)
qed (auto simp: log_texts_def)

text \<open>
  A log entry whose arguments match the format and fit holds their texts separated by tabs;
  a text argument of 20 characters or more leaves the array.
\<close>

theorem log_entry_values:
  assumes "args_match lf format args"
  shows "LogEntry_new lf ty key format args =
      Some \<lparr>key_str = takeWhile (\<lambda>c. c \<noteq> 0) key, value_str = tab_join (log_texts lf format args), log_type = ty\<rparr>
    \<and> LogEntry_new lf ty key (format @ ''s'') (args @ [Arg_str (replicate 20 c)]) =
      (if c = 0 then LogEntry_new lf ty key (format @ ''s'') (args @ [Arg_str []]) else None)"
proof
  show "LogEntry_new lf ty key format args =
      Some \<lparr>key_str = takeWhile (\<lambda>c. c \<noteq> 0) key, value_str = tab_join (log_texts lf format args), log_type = ty\<rparr>"
    using log_values_join[OF assms, of 0 "[]"] by (simp add: LogEntry_new_def)
  have split: "log_values lf i (format @ rest) (args @ as) v =
      Option.bind (log_values lf i format args v) (log_values lf (i + length format) rest as)" for i v rest as
    using assms
  proof (induction lf format args arbitrary: i v rule: args_match.induct)
    case (2 lf c cs a args)
    then show ?case using log_text_conv[of lf c a] by (auto simp: Let_def split: bind_splits)
  qed auto
  show "LogEntry_new lf ty key (format @ ''s'') (args @ [Arg_str (replicate 20 c)]) =
      (if c = 0 then LogEntry_new lf ty key (format @ ''s'') (args @ [Arg_str []]) else None)"
    by (auto simp: LogEntry_new_def split fits_str_def takeWhile_replicate Let_def split: bind_splits)
qed

lemma log_entry_values_witness:
  "LogEntry_new (\<lambda>_. []) 1 [107] ''is'' [Arg_int 7, Arg_str [83]] =
    Some \<lparr>key_str = [107], value_str = [55, 9, 83], log_type = 1\<rparr>"
  using log_entry_values[of "\<lambda>_. []" "''is''" "[Arg_int 7, Arg_str [83]]" 1 "[107]"]
  by (simp add: fits_str_def log_texts_def print_int_def print_nat.simps[of 7])

end
