(* ===== verification/Util.thy ===== *)
theory Util
  imports Double_Linked_List
begin

text \<open>
  \<^verbatim>\<open>common/util.h\<close>: the hash of a name, the texts of the tables for the status page, and the
  difference of two times. \<^verbatim>\<open>getCost\<close>, which runs \<^verbatim>\<open>ping\<close>, is not modelled.
\<close>

section \<open>Bits and digits\<close>

text \<open>\<^verbatim>\<open>printBits2String\<close> returns \<^verbatim>\<open>length\<close> characters without a terminating zero, lowest bit first.\<close>

definition printBits2String :: "cint \<Rightarrow> nat \<Rightarrow> buffer option" where
  "printBits2String value n =
     map_option (map Some)
       (those (map (\<lambda>i. map_option (\<lambda>b. 48 + ucast b) (getBitAtPosition value (of_nat i))) [0..<n]))"

definition GetNumberOfDigits :: "cint \<Rightarrow> nat" where
  "GetNumberOfDigits number = digit_loop (unat number)"

definition stringHash :: "cstring \<Rightarrow> cint" where
  "stringHash s = atoi s"

text \<open>\<^verbatim>\<open>urlHash\<close>; \<^verbatim>\<open>range\<close> is \<^verbatim>\<open>LONG_MAX\<close> cut to \<^verbatim>\<open>unsigned int\<close>.\<close>

definition url_step :: "clong \<Rightarrow> byte \<Rightarrow> clong" where
  "url_step seed c = seed XOR (push_bit 4 seed + drop_bit 2 seed + ucast c)"

definition url_range :: cint where
  "url_range = ucast (0x7FFFFFFFFFFFFFFF :: clong)"

definition urlHash :: "cstring \<Rightarrow> clong" where
  "urlHash url = foldl url_step 99099 url mod ucast url_range"

section \<open>Texts of the tables\<close>

text \<open>
  Two passes over a table: the sizes, then the lines, each at the index of the sizes
  before it. The final zero goes to \<^verbatim>\<open>result[size]\<close>, with \<^verbatim>\<open>size\<close> the number of bytes allocated.
\<close>

definition routing_entry_size :: "OverlayID \<times> HostAddress \<Rightarrow> nat" where
  "routing_entry_size e = oid_getStringSize (fst e) + 5 + host_getStringSize (snd e) + 5"

definition lookup_entries ::
    "('k \<Rightarrow> 'k \<Rightarrow> bool) \<Rightarrow> ('k, HostAddress) table \<Rightarrow> ('k \<times> HostAddress) list" where
  "lookup_entries lt t =
     map (\<lambda>key. (key, case table_lookup lt key t of None \<Rightarrow> HostAddress_default | Some ha \<Rightarrow> ha)) (reset_iterator t)"

primrec print_entries ::
    "('e \<Rightarrow> cstring option) \<Rightarrow> ('e \<Rightarrow> nat) \<Rightarrow> 'e list \<Rightarrow> nat \<Rightarrow> buffer \<Rightarrow> buffer option" where
  "print_entries line sz [] index result = Some result"
| "print_entries line sz (e # es) index result =
     Option.bind (line e) (\<lambda>s. Option.bind (write_at index (s @ [0]) result) (\<lambda>result.
     print_entries line sz es (index + sz e) result))"

definition routing_line :: "OverlayID \<times> HostAddress \<Rightarrow> cstring option" where
  "routing_line e =
     Option.bind (oid_toString (fst e)) (\<lambda>k. Option.bind (c_string k) (\<lambda>k.
     Option.bind (host_toString (snd e)) (\<lambda>v. Option.bind (c_string v) (\<lambda>v.
     Some (k @ str '' --> '' @ v @ str ''<br/>'')))))"

definition printRoutingTable2String :: "(OverlayID, HostAddress) table \<Rightarrow> buffer option" where
  "printRoutingTable2String rtable =
     (let es = lookup_entries oid_less rtable;
          sz = sum_list (map routing_entry_size es) + 1 in
      Option.bind (print_entries routing_line routing_entry_size es 0 (alloc sz)) (\<lambda>result.
      write_at sz [0] result))"

definition index_entry_size :: "cstring \<times> HostAddress \<Rightarrow> nat" where
  "index_entry_size e = length (fst e) + 1 + host_getStringSize (snd e) + 5"

definition index_line :: "cstring \<times> HostAddress \<Rightarrow> cstring option" where
  "index_line e =
     Option.bind (host_toString (snd e)) (\<lambda>v. Option.bind (c_string v) (\<lambda>v.
     Some (takeWhile (\<lambda>c. c \<noteq> 0) (fst e) @ str '','' @ v @ str ''<br/>'')))"

definition printIndexTable2String :: "(cstring, HostAddress) table \<Rightarrow> buffer option" where
  "printIndexTable2String itable =
     (let es = lookup_entries str_less itable;
          sz = sum_list (map index_entry_size es) + 1 in
      Option.bind (print_entries index_line index_entry_size es 0 (alloc sz)) (\<lambda>result.
      Option.bind (write_at sz [0] result) (\<lambda>result.
      if sz = 1 then Some [Some 0] else Some result)))"

text \<open>\<^verbatim>\<open>routingTable2String\<close>: the number of hosts, then the hosts, each followed by a bar.\<close>

definition routingTable2String :: "(OverlayID, HostAddress) table \<Rightarrow> cstring \<Rightarrow> cstring" where
  "routingTable2String rtable result =
     (let (count, result) = foldl (\<lambda>(count, result) e. (count + 1, result @ hostName (snd e) @ str ''|''))
            (0, result) (lookup_entries oid_less rtable)
      in print_nat count @ str ''|'' @ result)"

definition nameDbToString :: "(cstring \<times> nat) list \<Rightarrow> cstring" where
  "nameDbToString names =
     (let ret = foldl (\<lambda>ret (i, name, ts). (if i > 0 then ret @ str '','' else ret) @ name @ str ''|'' @ print_nat ts)
            [] (zip [0..<length names] names)
      in print_nat (length names) @ str ''|'' @ ret)"

section \<open>Differences of times\<close>

text \<open>Seconds and microseconds; the conversion of the result to \<^verbatim>\<open>double\<close> is left to the caller.\<close>

definition timeval_subtract :: "int \<times> int \<Rightarrow> int \<times> int \<Rightarrow> int \<times> int" where
  "timeval_subtract x y =
     (let y = (if snd x < snd y then
                 (let nsec = (snd y - snd x) div 1000000 + 1 in (fst y + nsec, snd y - 1000000 * nsec))
               else y);
          y = (if snd x - snd y > 1000000 then
                 (let nsec = (snd x - snd y) div 1000000 in (fst y - nsec, snd y + 1000000 * nsec))
               else y)
      in (fst x - fst y, snd x - snd y))"

section \<open>What they compute\<close>

lemma url_range_eq: "url_range = 0xFFFFFFFF"
  unfolding url_range_def by simp

text \<open>
  The hash of any name is below \<open>2 ^ 32 - 1\<close>, so it is a non-negative \<^verbatim>\<open>long\<close>, and
  masked to 22 bits it is a pattern below \<open>2 ^ 22\<close>.
\<close>

theorem urlHash_bounds:
  "unat (urlHash url) < 2 ^ 32 - 1 \<and> 0 \<le> sint (urlHash url) \<and>
   unat ((ucast (urlHash url) :: cint) AND 0x003FFFFF) < 2 ^ 22"
proof -
  have r: "unat (ucast url_range :: clong) = 2 ^ 32 - 1"
    unfolding url_range_eq by simp
  have b: "unat (urlHash url) < 2 ^ 32 - 1"
    unfolding urlHash_def unat_mod_distrib r by (rule mod_less_divisor) simp
  then have "unat (urlHash url) < 2 ^ 63" by simp
  then have "fits 63 (urlHash url)" by (simp only: fits_iff_unat)
  then have "0 \<le> sint (urlHash url)" by (simp add: sint_nonneg_fits)
  moreover have "unat ((ucast (urlHash url) :: cint) AND 0x003FFFFF) < 2 ^ 22"
  proof -
    have "(0x003FFFFF :: cint) = mask 22" by (simp add: mask_eq_exp_minus_1)
    then have "(ucast (urlHash url) :: cint) AND 0x003FFFFF = take_bit 22 (ucast (urlHash url))"
      by (simp add: take_bit_eq_mask)
    then show ?thesis by (simp only: fits_iff_unat[symmetric]) (simp add: fits_def bit_take_bit_iff)
  qed
  ultimately show ?thesis using b by blast
qed

lemma print_entries_length: "print_entries line sz es i b = Some r \<Longrightarrow> length r = length b"
proof (induction es arbitrary: i b)
  case (Cons e es)
  then show ?case by (auto simp: write_at_def bind_eq_Some_conv split: if_splits dest!: Cons.IH)
qed simp

lemma terminator_overflow:
  "print_entries line sz es i (alloc n) = Some r \<Longrightarrow> write_at n [0] r = None"
  using print_entries_length[of line sz es i "alloc n" r] by (intro write_at_overflow) simp

text \<open>
  The texts for the status page always write behind their buffer: the terminating zero
  goes to the index that is the size of the allocation, for every routing table and every index
  table.
\<close>

theorem table_text_overflow:
  "printRoutingTable2String rtable = None \<and> printIndexTable2String itable = None"
proof -
  have none: "Option.bind x f = None" if "\<And>r. x = Some r \<Longrightarrow> f r = None"
    for x :: "buffer option" and f :: "buffer \<Rightarrow> buffer option"
    using that by (cases x) auto
  show ?thesis
    unfolding printRoutingTable2String_def printIndexTable2String_def Let_def
    by (intro conjI none) (simp_all add: terminator_overflow)
qed

text \<open>
  The difference of two times keeps the value in microseconds, and its microseconds are
  between 0 and 1000000 (inclusive, because an exact second is not carried).
\<close>

theorem timeval_subtract_ok:
  assumes "timeval_subtract x y = (sec, usec)"
  shows "sec * 1000000 + usec = (fst x * 1000000 + snd x) - (fst y * 1000000 + snd y) \<and>
    0 \<le> usec \<and> usec \<le> 1000000"
  using assms by (auto simp: timeval_subtract_def Let_def split: if_splits)

lemma timeval_subtract_ok_witness:
  "(1::int) * 1000000 + 600000 = (5 * 1000000 + 100000) - (3 * 1000000 + 500000) \<and> (0::int) \<le> 600000 \<and> (600000::int) \<le> 1000000"
  using timeval_subtract_ok[of "(5, 100000)" "(3, 500000)" 1 600000]
  by (simp add: timeval_subtract_def)

end
