(* ===== verification/Plexus_State.thy ===== *)
theory Plexus_State
  imports Receive Cache Peer Log_Entry Util
begin

text \<open>
  The state of a Plexus peer: \<^verbatim>\<open>plnode/protocol/protocol.h\<close> and the members of
  \<^verbatim>\<open>plnode/protocol/plexus/plexus_protocol.h\<close>, with the three queues between its threads. A
  queue operation holds the lock of its queue, so it is one step; waiting on an empty queue is
  None. The locale \<open>message_queue\<close> is the contract of a queue and its two counters.
\<close>

section \<open>State\<close>

text \<open>
  The protocol object and its peer. \<open>px_cache\<close> is None before the INIT message installs a cache.
  \<open>sequence_no_generator\<close> and \<open>network_size\<close> are the static members of \<^verbatim>\<open>ABSMessage\<close> and
  \<^verbatim>\<open>GlobalData\<close>; \<open>code_state\<close> is the state of the code object (the Golay tables). \<open>logs\<close>
  holds the arguments of the last \<^verbatim>\<open>initLogs\<close>.
\<close>

record 's Plexus =
  px_peer :: Peer
  routing_table :: "(OverlayID, HostAddress) table"
  index_table :: "(cstring, HostAddress) table"
  px_cache :: "Cache option"
  proactive_cache :: "(OverlayID, HostAddress) table"
  unresolved_put :: "(MessageStateIndex, clong) table"
  unresolved_get :: "(MessageStateIndex, HostAddress \<times> cstring) table"
  incoming_message_queue :: "message list"
  outgoing_message_queue :: "message list"
  logging_queue :: "LogEntry list"
  incoming_queue_pushed :: cint
  incoming_queue_popped :: cint
  outgoing_queue_pushed :: cint
  outgoing_queue_popped :: cint
  logging_queue_pushed :: cint
  logging_queue_popped :: cint
  get_cache_hit_count :: cint
  put_cache_hit_count :: cint
  sequence_no_generator :: cint
  network_size :: cint
  code_state :: 's
  logs :: "(cint \<times> cstring \<times> cstring) option"

definition setRoutingTable :: "(OverlayID, HostAddress) table \<Rightarrow> 's Plexus \<Rightarrow> 's Plexus" where
  "setRoutingTable t s = s\<lparr>routing_table := t\<rparr>"

definition setIndexTable :: "(cstring, HostAddress) table \<Rightarrow> 's Plexus \<Rightarrow> 's Plexus" where
  "setIndexTable t s = s\<lparr>index_table := t\<rparr>"

definition setCache :: "Cache \<Rightarrow> 's Plexus \<Rightarrow> 's Plexus" where
  "setCache c s = s\<lparr>px_cache := Some c\<rparr>"

definition reset_counters :: "'s Plexus \<Rightarrow> 's Plexus" where
  "reset_counters s = s\<lparr>incoming_queue_pushed := 0, incoming_queue_popped := 0,
     outgoing_queue_pushed := 0, outgoing_queue_popped := 0,
     logging_queue_pushed := 0, logging_queue_popped := 0,
     get_cache_hit_count := 0, put_cache_hit_count := 0\<rparr>"

text \<open>The constructor for a peer; \<^verbatim>\<open>cache\<close> is not set.\<close>

definition Plexus_new :: "Peer \<Rightarrow> cint \<Rightarrow> cint \<Rightarrow> 's \<Rightarrow> 's Plexus" where
  "Plexus_new p gen ns code =
     \<lparr>px_peer = p, routing_table = table_empty, index_table = table_empty, px_cache = None,
      proactive_cache = table_empty, unresolved_put = table_empty, unresolved_get = table_empty,
      incoming_message_queue = [], outgoing_message_queue = [], logging_queue = [],
      incoming_queue_pushed = 0, incoming_queue_popped = 0, outgoing_queue_pushed = 0,
      outgoing_queue_popped = 0, logging_queue_pushed = 0, logging_queue_popped = 0,
      get_cache_hit_count = 0, put_cache_hit_count = 0, sequence_no_generator = gen,
      network_size = ns, code_state = code, logs = None\<rparr>"

definition incrementGetCacheHitCounter :: "'s Plexus \<Rightarrow> 's Plexus" where
  "incrementGetCacheHitCounter s = s\<lparr>get_cache_hit_count := get_cache_hit_count s + 1\<rparr>"

definition incrementPutCacheHitCounter :: "'s Plexus \<Rightarrow> 's Plexus" where
  "incrementPutCacheHitCounter s = s\<lparr>put_cache_hit_count := put_cache_hit_count s + 1\<rparr>"

definition getGetCacheHitCounter :: "'s Plexus \<Rightarrow> cint" where
  "getGetCacheHitCounter s = get_cache_hit_count s"

definition getPutCacheHitCounter :: "'s Plexus \<Rightarrow> cint" where
  "getPutCacheHitCounter s = put_cache_hit_count s"

text \<open>An update of the peer.\<close>

definition on_peer :: "(Peer \<Rightarrow> Peer) \<Rightarrow> 's Plexus \<Rightarrow> 's Plexus" where
  "on_peer f s = s\<lparr>px_peer := f (px_peer s)\<rparr>"

section \<open>Queues\<close>

definition addToIncomingQueue :: "message \<Rightarrow> 's Plexus \<Rightarrow> 's Plexus" where
  "addToIncomingQueue m s = s\<lparr>incoming_message_queue := incoming_message_queue s @ [m],
     incoming_queue_pushed := incoming_queue_pushed s + 1\<rparr>"

definition isIncomingQueueEmpty :: "'s Plexus \<Rightarrow> bool" where
  "isIncomingQueueEmpty s \<longleftrightarrow> incoming_message_queue s = []"

definition getIncomingQueueFront :: "'s Plexus \<Rightarrow> (message \<times> 's Plexus) option" where
  "getIncomingQueueFront s = (case incoming_message_queue s of [] \<Rightarrow> None
     | m # q \<Rightarrow> Some (m, s\<lparr>incoming_message_queue := q, incoming_queue_popped := incoming_queue_popped s + 1\<rparr>))"

definition addToOutgoingQueue :: "message \<Rightarrow> 's Plexus \<Rightarrow> 's Plexus" where
  "addToOutgoingQueue m s = s\<lparr>outgoing_message_queue := outgoing_message_queue s @ [m],
     outgoing_queue_pushed := outgoing_queue_pushed s + 1\<rparr>"

definition isOutgoingQueueEmpty :: "'s Plexus \<Rightarrow> bool" where
  "isOutgoingQueueEmpty s \<longleftrightarrow> outgoing_message_queue s = []"

definition getOutgoingQueueFront :: "'s Plexus \<Rightarrow> (message \<times> 's Plexus) option" where
  "getOutgoingQueueFront s = (case outgoing_message_queue s of [] \<Rightarrow> None
     | m # q \<Rightarrow> Some (m, s\<lparr>outgoing_message_queue := q, outgoing_queue_popped := outgoing_queue_popped s + 1\<rparr>))"

definition addToLogQueue :: "LogEntry \<Rightarrow> 's Plexus \<Rightarrow> 's Plexus" where
  "addToLogQueue e s = s\<lparr>logging_queue := logging_queue s @ [e],
     logging_queue_pushed := logging_queue_pushed s + 1\<rparr>"

definition isLogQueueEmpty :: "'s Plexus \<Rightarrow> bool" where
  "isLogQueueEmpty s \<longleftrightarrow> logging_queue s = []"

definition getLoggingQueueFront :: "'s Plexus \<Rightarrow> (LogEntry \<times> 's Plexus) option" where
  "getLoggingQueueFront s = (case logging_queue s of [] \<Rightarrow> None
     | e # q \<Rightarrow> Some (e, s\<lparr>logging_queue := q, logging_queue_popped := logging_queue_popped s + 1\<rparr>))"

section \<open>The contract of a queue\<close>

locale message_queue =
  fixes add :: "'m \<Rightarrow> 's \<Rightarrow> 's"
    and front :: "'s \<Rightarrow> ('m \<times> 's) option"
    and is_empty :: "'s \<Rightarrow> bool"
    and content :: "'s \<Rightarrow> 'm list"
    and pushed :: "'s \<Rightarrow> cint"
    and popped :: "'s \<Rightarrow> cint"
  assumes add: "content (add m s) = content s @ [m] \<and> pushed (add m s) = pushed s + 1 \<and> popped (add m s) = popped s"
    and front_Nil: "content s = [] \<Longrightarrow> front s = None"
    and front_Cons: "content s = m # q \<Longrightarrow>
      \<exists>s'. front s = Some (m, s') \<and> content s' = q \<and> pushed s' = pushed s \<and> popped s' = popped s + 1"
    and is_empty: "is_empty s \<longleftrightarrow> content s = []"
begin

text \<open>A run of pushes and pops (None for a pop), with the messages popped.\<close>

fun queue_run :: "'m option list \<Rightarrow> 's \<Rightarrow> ('m list \<times> 's) option" where
  "queue_run [] s = Some ([], s)"
| "queue_run (Some m # cs) s = queue_run cs (add m s)"
| "queue_run (None # cs) s =
     Option.bind (front s) (\<lambda>(m, s). map_option (map_prod ((#) m) id) (queue_run cs s))"

text \<open>Messages leave in the order they came in, none is lost, and the counters count them.\<close>

lemma queue_run_fifo:
  assumes "queue_run cs s = Some (out, s')"
  shows "content s @ map the (filter (\<lambda>c. c \<noteq> None) cs) = out @ content s' \<and>
    pushed s' = pushed s + of_nat (length (filter (\<lambda>c. c \<noteq> None) cs)) \<and>
    popped s' = popped s + of_nat (length out)"
  using assms
proof (induction cs s arbitrary: out rule: queue_run.induct)
  case (2 m cs s)
  from 2(1)[of out] 2(2) add[of m s] show ?case by auto
next
  case (3 cs s)
  then obtain m s1 out1 where f: "front s = Some (m, s1)" "queue_run cs s1 = Some (out1, s')" "out = m # out1"
    by (auto simp: bind_eq_Some_conv)
  from f(1) obtain q where q: "content s = m # q" "content s1 = q" "pushed s1 = pushed s" "popped s1 = popped s + 1"
    using front_Nil front_Cons by (cases "content s") fastforce+
  from 3(1)[OF f(1) refl f(2)] q f show ?case by simp
qed simp

text \<open>The counters differ by the length of the queue.\<close>

definition counted :: "'s \<Rightarrow> bool" where
  "counted s \<longleftrightarrow> pushed s - popped s = of_nat (length (content s))"

lemma counted_add: "counted s \<Longrightarrow> counted (add m s)"
  using add[of m s] by (simp add: counted_def algebra_simps)

lemma counted_front: "counted s \<Longrightarrow> front s = Some (m, s') \<Longrightarrow> counted s'"
  using front_Nil[of s] front_Cons[of s] by (cases "content s") (fastforce simp: counted_def algebra_simps)+

end

interpretation incoming: message_queue addToIncomingQueue getIncomingQueueFront isIncomingQueueEmpty
  incoming_message_queue incoming_queue_pushed incoming_queue_popped
  by unfold_locales (simp_all add: addToIncomingQueue_def getIncomingQueueFront_def isIncomingQueueEmpty_def)

interpretation outgoing: message_queue addToOutgoingQueue getOutgoingQueueFront isOutgoingQueueEmpty
  outgoing_message_queue outgoing_queue_pushed outgoing_queue_popped
  by unfold_locales (simp_all add: addToOutgoingQueue_def getOutgoingQueueFront_def isOutgoingQueueEmpty_def)

interpretation log_queue: message_queue addToLogQueue getLoggingQueueFront isLogQueueEmpty
  logging_queue logging_queue_pushed logging_queue_popped
  by unfold_locales (simp_all add: addToLogQueue_def getLoggingQueueFront_def isLogQueueEmpty_def)

end
