(* ===== verification/Routing.thy ===== *)
theory Routing
  imports Plexus_State "HOL-Library.Multiset"
begin

text \<open>
  \<^verbatim>\<open>PlexusProtocol::setNextHop\<close>: where a message goes next. The routing table, the proactive
  cache and the cache are searched, in this order, for the id that shares the longest prefix with
  the target of the message. The search of the cache looks up every better entry while it iterates,
  so it reorders the list it walks; \<open>cache_scan_best\<close> shows that it still visits every entry.
\<close>

section \<open>Messages as the handlers see them\<close>

text \<open>Replacing the base part of a message object.\<close>

fun set_base :: "ABSMessage \<Rightarrow> message \<Rightarrow> message" where
  "set_base b (Msg_INIT m) = Msg_INIT (ABSMessage.extend b (ABSMessage.more m))"
| "set_base b (Msg_GET m) = Msg_GET (ABSMessage.extend b (ABSMessage.more m))"
| "set_base b (Msg_GET_REPLY m) = Msg_GET_REPLY (ABSMessage.extend b (ABSMessage.more m))"
| "set_base b (Msg_PUT m) = Msg_PUT (ABSMessage.extend b (ABSMessage.more m))"
| "set_base b (Msg_PUT_REPLY m) = Msg_PUT_REPLY (ABSMessage.extend b (ABSMessage.more m))"
| "set_base b (Msg_INITIATE_GET m) = Msg_INITIATE_GET (ABSMessage.extend b (ABSMessage.more m))"
| "set_base b (Msg_INITIATE_PUT m) = Msg_INITIATE_PUT (ABSMessage.extend b (ABSMessage.more m))"
| "set_base b (Msg_START m) = Msg_START b"
| "set_base b (Msg_CHANGE_STATUS m) = Msg_CHANGE_STATUS (ABSMessage.extend b (ABSMessage.more m))"
| "set_base b (Msg_GEN_NAME m) = Msg_GEN_NAME b"
| "set_base b (Msg_LOOKUP_NAME m) = Msg_LOOKUP_NAME b"
| "set_base b (Msg_DYN_STATUS m) = Msg_DYN_STATUS (ABSMessage.extend b (ABSMessage.more m))"
| "set_base b (Msg_FORCE_LOG m) = Msg_FORCE_LOG b"
| "set_base b (Msg_CACHE_ME m) = Msg_CACHE_ME b"
| "set_base b (Msg_RETRIEVE m) = Msg_RETRIEVE (ABSMessage.extend b (ABSMessage.more m))"
| "set_base b (Msg_RETRIEVE_REPLY m) = Msg_RETRIEVE_REPLY (ABSMessage.extend b (ABSMessage.more m))"
| "set_base b (Msg_CONFIG m) = Msg_CONFIG (ABSMessage.extend b (ABSMessage.more m))"

definition on_base :: "(ABSMessage \<Rightarrow> ABSMessage) \<Rightarrow> message \<Rightarrow> message" where
  "on_base f m = set_base (f (message_base m)) m"

text \<open>The messages that are routed, and the id each is routed to; all others stay at the peer.\<close>

fun target_oid :: "message \<Rightarrow> OverlayID option" where
  "target_oid (Msg_GET m) = Some (get_target_oid m)"
| "target_oid (Msg_GET_REPLY m) = Some (gr_target_oid m)"
| "target_oid (Msg_PUT m) = Some (put_target_oid m)"
| "target_oid (Msg_PUT_REPLY m) = Some (pr_target_oid m)"
| "target_oid _ = None"

fun is_reply :: "message \<Rightarrow> bool" where
  "is_reply (Msg_GET_REPLY m) = True"
| "is_reply (Msg_PUT_REPLY m) = True"
| "is_reply _ = False"

section \<open>The environment of a call\<close>

text \<open>
  What a handler reads besides its state: how \<^verbatim>\<open>printf\<close> writes a \<^verbatim>\<open>double\<close>, the time, the code of
  the peer (decoding and length), and what the memory of objects held that the code does not
  initialise: the \<^verbatim>\<open>OverlayID()\<close>s and the fields of replies without an initialiser.
\<close>

record 's env =
  print_double :: "clong \<Rightarrow> cstring"
  now_ms :: clong
  iCode_decode :: "clong \<Rightarrow> 's \<Rightarrow> (clong \<times> 's) option"
  iCode_K :: nat
  junk_max :: OverlayID
  junk_dst :: OverlayID
  junk_reply_dst :: OverlayID
  junk_reply_target :: OverlayID
  raw_put_reply :: MessagePUT_REPLY
  raw_get_reply :: MessageGET_REPLY
  raw_retrieve_reply :: MessageRetrieveReply

section \<open>The search for the next hop\<close>

text \<open>The best match of a table, from a match \<open>mx\<close> on: strictly better keys replace it.\<close>

fun best_match :: "OverlayID \<Rightarrow> OverlayID list \<Rightarrow> int \<times> OverlayID \<times> bool \<Rightarrow> (int \<times> OverlayID \<times> bool) option" where
  "best_match target [] best = Some best"
| "best_match target (oid # it) (mx, b, hit) =
     Option.bind (GetMatchedPrefixLength target oid) (\<lambda>current.
       best_match target it (if current > mx then (current, oid, True) else (mx, b, hit)))"

text \<open>The loop over the cache; its lookups move the entries they find to the head.\<close>

partial_function (option) cache_scan ::
    "OverlayID \<Rightarrow> nat option \<Rightarrow> int \<times> OverlayID \<times> HostAddress \<times> bool \<Rightarrow> Cache \<Rightarrow>
     ((int \<times> OverlayID \<times> HostAddress \<times> bool) \<times> Cache) option" where
  "cache_scan target it best c =
     (if \<not> iter_hasMore it then Some (best, c) else
      Option.bind (iter_getNext c it) (\<lambda>(node, it).
      Option.bind (node_at (dll c) node) (\<lambda>n.
      Option.bind (GetMatchedPrefixLength target (node_key n)) (\<lambda>current.
      case best of (mx, next_oid, next_hop, hit) \<Rightarrow>
      if current > mx then
        Option.bind (cache_lookup (node_key n) c) (\<lambda>(found, c).
          case found of Some h \<Rightarrow> cache_scan target it (current, node_key n, h, True) c
          | None \<Rightarrow> cache_scan target it (current, node_key n, next_hop, hit) c)
      else cache_scan target it best c))))"

definition search_next_hop ::
    "'s env \<Rightarrow> OverlayID \<Rightarrow> 's Plexus \<Rightarrow> ((int \<times> OverlayID \<times> HostAddress \<times> bool) \<times> 's Plexus) option" where
  "search_next_hop env target s =
     Option.bind (best_match target (reset_iterator (routing_table s)) (0, junk_max env, False)) (\<lambda>(mx, oid, _).
     let next_hop = (case table_lookup oid_less oid (routing_table s) of Some h \<Rightarrow> h
                     | None \<Rightarrow> HostAddress_new [] (- 1)) in
     Option.bind (best_match target (reset_iterator (proactive_cache s)) (mx, oid, False)) (\<lambda>(mx, oid, cache_hit).
     let next_hop = (if cache_hit then
                       (case table_lookup oid_less oid (proactive_cache s) of Some h \<Rightarrow> h | None \<Rightarrow> next_hop)
                     else next_hop) in
     Option.bind (px_cache s) (\<lambda>cache.
     Option.bind (cache_scan target (iter_reset cache) (mx, oid, next_hop, cache_hit) cache) (\<lambda>(best, cache).
     Some (best, s\<lparr>px_cache := Some cache\<rparr>)))))"

definition count_cache_hit :: "message \<Rightarrow> 's Plexus \<Rightarrow> 's Plexus" where
  "count_cache_hit m s = (case m of Msg_GET _ \<Rightarrow> incrementGetCacheHitCounter s
     | Msg_PUT _ \<Rightarrow> incrementPutCacheHitCounter s | _ \<Rightarrow> s)"

text \<open>\<^verbatim>\<open>setDestHost\<close> takes a C string.\<close>

definition set_hop :: "HostAddress \<Rightarrow> OverlayID \<Rightarrow> ABSMessage \<Rightarrow> ABSMessage" where
  "set_hop h oid b = b\<lparr>dest_host := takeWhile (\<lambda>c. c \<noteq> 0) (hostName h), dest_port := hostPort h, dst_oid := oid\<rparr>"

text \<open>A GET that the index table of the peer answers is not forwarded.\<close>

fun answered_here :: "message \<Rightarrow> 's Plexus \<Rightarrow> bool" where
  "answered_here (Msg_GET m) s \<longleftrightarrow> table_lookup str_less (get_deviceName m) (index_table s) \<noteq> None"
| "answered_here _ s \<longleftrightarrow> False"

definition setNextHop :: "'s env \<Rightarrow> message \<Rightarrow> 's Plexus \<Rightarrow> (bool \<times> message \<times> 's Plexus) option" where
  "setNextHop env m s =
     (case target_oid m of None \<Rightarrow> Some (False, m, s) | Some target \<Rightarrow>
      if cache_storage (px_peer s) = str ''end_point'' \<and> is_reply m then Some (False, m, s)
      else if overlay_ttl (message_base m) = 0 then Some (False, m, s)
      else if answered_here m s then Some (False, m, s)
      else
        Option.bind (GetMatchedPrefixLength (peer_overlay_id (px_peer s)) (dst_oid (message_base m))) (\<lambda>own.
        Option.bind (search_next_hop env target s) (\<lambda>((mx, next_oid, next_hop, cache_hit), s).
        let s = (if cache_hit then count_cache_hit m s else s) in
        if mx = 0 \<or> mx < own then Some (False, m, s)
        else Some (True, on_base (set_hop next_hop next_oid) m, s))))"

section \<open>Which entry is found\<close>

text \<open>How many bits of the target an id matches, as the loops count them.\<close>

definition matched :: "OverlayID \<Rightarrow> OverlayID \<Rightarrow> int" where
  "matched target oid = int (common_prefix (nat (sint (MAX_LENGTH target))) target oid)"

definition id_length_ok :: "OverlayID \<Rightarrow> bool" where
  "id_length_ok oid \<longleftrightarrow> 0 < sint (MAX_LENGTH oid) \<and> sint (MAX_LENGTH oid) \<le> 32"

lemma matched_eq: "id_length_ok target \<Longrightarrow> GetMatchedPrefixLength target oid = Some (matched target oid)"
  using GetMatchedPrefixLength_eq[of target "nat (sint (MAX_LENGTH target))" oid]
  by (simp add: matched_def id_length_ok_def nat_le_iff)

lemma matched_nonneg [simp]: "0 \<le> matched target oid"
  by (simp add: matched_def)

text \<open>The three loops are one loop over the list of all entries.\<close>

type_synonym best = "int \<times> OverlayID \<times> HostAddress \<times> bool"

fun scan_best :: "OverlayID \<Rightarrow> (OverlayID \<times> HostAddress) list \<Rightarrow> best \<Rightarrow> best" where
  "scan_best target [] best = best"
| "scan_best target ((oid, h) # es) (mx, b) =
     scan_best target es (if matched target oid > mx then (matched target oid, oid, h, True) else (mx, b))"

lemma best_match_scan:
  assumes "id_length_ok target" and "\<And>oid h. (oid, h) \<in> set es \<Longrightarrow> table_lookup oid_less oid t = Some h"
  shows "\<exists>mx' b' hit'. best_match target (map fst es) (mx, b, hit) = Some (mx', b', hit') \<and>
    scan_best target es (mx, b, h, hit) =
      (mx', b', if mx' > mx then the (table_lookup oid_less b' t) else h, hit') \<and>
    (mx' > mx \<and> hit' \<and> b' \<in> fst ` set es \<or> mx' = mx \<and> b' = b \<and> hit' = hit)"
  using assms(2)
proof (induction es arbitrary: mx b h hit)
  case (Cons e es)
  obtain oid v where e: "e = (oid, v)" by fastforce
  have v: "table_lookup oid_less oid t = Some v" using Cons.prems[of oid v] e by simp
  have IH: "\<exists>mx' b' hit'. best_match target (map fst es) (mx, b, hit) = Some (mx', b', hit') \<and>
    scan_best target es (mx, b, h, hit) = (mx', b', if mx' > mx then the (table_lookup oid_less b' t) else h, hit') \<and>
    (mx' > mx \<and> hit' \<and> b' \<in> fst ` set es \<or> mx' = mx \<and> b' = b \<and> hit' = hit)" for mx b h hit
    by (rule Cons.IH) (simp add: Cons.prems)
  show ?case
  proof (cases "matched target oid > mx")
    case True
    from IH[of "matched target oid" oid True v] obtain mx' b' hit' where
      "best_match target (map fst es) (matched target oid, oid, True) = Some (mx', b', hit')"
      "scan_best target es (matched target oid, oid, v, True) =
         (mx', b', if mx' > matched target oid then the (table_lookup oid_less b' t) else v, hit')"
      "mx' > matched target oid \<and> hit' \<and> b' \<in> fst ` set es \<or> mx' = matched target oid \<and> b' = oid \<and> hit'"
      by auto
    with True e v show ?thesis by (auto simp: matched_eq[OF assms(1)])
  next
    case False
    obtain mx' b' hit' where
      "best_match target (map fst es) (mx, b, hit) = Some (mx', b', hit')"
      "scan_best target es (mx, b, h, hit) =
         (mx', b', if mx' > mx then the (table_lookup oid_less b' t) else h, hit')"
      "mx' > mx \<and> hit' \<and> b' \<in> fst ` set es \<or> mx' = mx \<and> b' = b \<and> hit' = hit"
      using IH[of mx b hit h] by blast
    with False e show ?thesis
      by (intro exI[of _ mx'] exI[of _ b'] exI[of _ hit']) (simp add: matched_eq[OF assms(1)], blast)
  qed
qed simp

lemma scan_best_append: "scan_best target (xs @ ys) b = scan_best target ys (scan_best target xs b)"
  by (induction target xs b rule: scan_best.induct) auto

lemma scan_best_ge: "mx \<le> fst (scan_best target es (mx, b))"
proof (induction es arbitrary: mx b)
  case (Cons e es)
  obtain oid h where e: "e = (oid, h)" by fastforce
  show ?case
  proof (cases "matched target oid > mx")
    case True
    with Cons.IH[of "matched target oid" "(oid, h, True)"] e show ?thesis by simp
  next
    case False
    with Cons.IH[of mx b] e show ?thesis by simp
  qed
qed simp

text \<open>It finds the first of the entries that match best, if that is better than what it had.\<close>

lemma scan_best_first:
  assumes "scan_best target es (mx, b) = (mx', b')"
  shows "(\<forall>e \<in> set es. matched target (fst e) \<le> mx') \<and>
    (if mx' = mx then b' = b
     else mx < mx' \<and> find (\<lambda>e. matched target (fst e) = mx') es = Some (fst b', fst (snd b')) \<and> snd (snd b'))"
  using assms
proof (induction es arbitrary: mx b)
  case (Cons e es)
  obtain oid h where e: "e = (oid, h)" by fastforce
  show ?case
  proof (cases "matched target oid > mx")
    case True
    with Cons.prems e have s: "scan_best target es (matched target oid, oid, h, True) = (mx', b')" by simp
    have "matched target oid \<le> mx'"
      using scan_best_ge[of "matched target oid" target es "(oid, h, True)"] s by simp
    with True Cons.IH[OF s] e show ?thesis by (auto split: if_splits)
  next
    case False
    with Cons.prems e have s: "scan_best target es (mx, b) = (mx', b')" by simp
    have "mx \<le> mx'" using scan_best_ge[of mx target es b] s by simp
    with False Cons.IH[OF s] e show ?thesis by (auto split: if_splits)
  qed
qed simp

text \<open>
  The loop over the cache: \<open>xs\<close> are the entries already visited, in their current order, \<open>ys\<close>
  those to come.
\<close>

lemma cache_rel_node:
  assumes "cache_rel c (xs @ (a, e) # ys)"
  shows "\<exists>n. heap (dll c) a = Some n \<and> node_key n = fst e \<and> node_value n = snd e
    \<and> node_next n = first_or (map fst ys) None"
proof -
  from assms have "links (heap (dll c)) (last_or (map fst xs) None) (a # map fst ys) None"
    and "node_data (dll c) a = Some e"
    by (auto simp: cache_rel_def dll_wf_def)
  then show ?thesis by (auto simp: node_data_def)
qed

lemma cache_lookup_entry:
  assumes "cache_rel c (xs @ (a, e) # ys)"
  shows "\<exists>d. cache_lookup (fst e) c = Some (Some (snd e), c\<lparr>dll := d\<rparr>) \<and>
    cache_rel (c\<lparr>dll := d\<rparr>) ((a, e) # xs @ ys)"
proof -
  have "oid.abs_map (hm c) (overlay_id (fst e)) = Some a"
    using assms unfolding cache_rel_def by (metis in_set_conv_decomp)
  then have l: "table_lookup oid_less (fst e) (hm c) = Some a" by (simp add: table_lookup_abs)
  obtain d where d: "move2Head a (dll c) = Some d" "cache_rel (c\<lparr>dll := d\<rparr>) ((a, e) # xs @ ys)"
    using cache_rel_touch[OF assms] by blast
  from cache_rel_node[of "c\<lparr>dll := d\<rparr>" "[]" a e "xs @ ys"] d(2) obtain n where
    "heap d a = Some n" "node_value n = snd e" by auto
  with d l show ?thesis by (auto simp: cache_lookup_def cr_processHit_def node_at_def)
qed

lemma cache_scan_best:
  assumes "id_length_ok target"
  shows "cache_rel c (xs @ ys) \<Longrightarrow>
    \<exists>c' zs. cache_scan target (first_or (map fst ys) None) best c = Some (scan_best target (map snd ys) best, c') \<and>
      cache_rel c' zs \<and> mset zs = mset (xs @ ys) \<and> capacity c' = capacity c \<and> myOID c' = myOID c"
proof (induction ys arbitrary: xs c best)
  case Nil
  then show ?case by (intro exI[of _ c] exI[of _ xs]) (simp add: cache_scan.simps iter_hasMore_def)
next
  case (Cons y ys)
  obtain a oid h where y: "y = (a, oid, h)" by (cases y) auto
  obtain mx b where best: "best = (mx, b)" by (cases best)
  obtain next_oid next_hop hit where b: "b = (next_oid, next_hop, hit)" by (cases b) auto
  from cache_rel_node[of c xs a "(oid, h)" ys] Cons.prems y obtain n where
    n: "heap (dll c) a = Some n" "node_key n = oid" "node_next n = first_or (map fst ys) None" by auto
  have step: "cache_scan target (first_or (map fst (y # ys)) None) best c =
      (if matched target oid > mx then
        Option.bind (cache_lookup oid c) (\<lambda>(found, c).
          case found of Some h \<Rightarrow> cache_scan target (first_or (map fst ys) None) (matched target oid, oid, h, True) c
          | None \<Rightarrow> cache_scan target (first_or (map fst ys) None) (matched target oid, oid, next_hop, hit) c)
      else cache_scan target (first_or (map fst ys) None) best c)"
    using n(1,3) y best b unfolding n(2)[symmetric]
    by (subst cache_scan.simps) (simp add: iter_hasMore_def iter_getNext_def node_at_def matched_eq[OF assms])
  show ?case
  proof (cases "matched target oid > mx")
    case True
    from cache_lookup_entry[of c xs a "(oid, h)" ys] Cons.prems y obtain d where
      d: "cache_lookup oid c = Some (Some h, c\<lparr>dll := d\<rparr>)" "cache_rel (c\<lparr>dll := d\<rparr>) (((a, oid, h) # xs) @ ys)"
      by auto
    from Cons.IH[OF d(2), of "(matched target oid, oid, h, True)"] obtain c' zs where
      "cache_scan target (first_or (map fst ys) None) (matched target oid, oid, h, True) (c\<lparr>dll := d\<rparr>) =
         Some (scan_best target (map snd ys) (matched target oid, oid, h, True), c')"
      "cache_rel c' zs" "mset zs = mset (((a, oid, h) # xs) @ ys)" "capacity c' = capacity c" "myOID c' = myOID c"
      by auto
    with True d(1) y best show ?thesis
      unfolding step by (intro exI[of _ c'] exI[of _ zs]) simp
  next
    case False
    from Cons.IH[of c "xs @ [y]" best] Cons.prems obtain c' zs where
      "cache_scan target (first_or (map fst ys) None) best c = Some (scan_best target (map snd ys) best, c')"
      "cache_rel c' zs" "mset zs = mset ((xs @ [y]) @ ys)" "capacity c' = capacity c" "myOID c' = myOID c"
      by auto
    with False y best show ?thesis
      unfolding step by (intro exI[of _ c'] exI[of _ zs]) simp
  qed
qed

section \<open>The next hop\<close>

text \<open>The entries a peer searches, and a state in which the search is defined.\<close>

definition known_entries :: "'s Plexus \<Rightarrow> lru \<Rightarrow> (OverlayID \<times> HostAddress) list" where
  "known_entries s L = routing_table s @ proactive_cache s @ L"

definition tables_ok :: "'s Plexus \<Rightarrow> lru \<Rightarrow> bool" where
  "tables_ok s L \<longleftrightarrow> oid.wf_table (routing_table s) \<and> oid.wf_table (proactive_cache s) \<and> name.wf_table (index_table s)
     \<and> (\<exists>c. px_cache s = Some c \<and> cache_entries c L)"

definition best_entry :: "OverlayID \<Rightarrow> (OverlayID \<times> HostAddress) list \<Rightarrow> (int \<times> OverlayID \<times> HostAddress) option" where
  "best_entry target es =
     (let mx = Max (insert 0 ((\<lambda>e. matched target (fst e)) ` set es)) in
      if mx = 0 then None
      else map_option (\<lambda>e. (mx, e)) (find (\<lambda>e. matched target (fst e) = mx) es))"

lemma best_entry_scan:
  assumes "scan_best target es (0, b) = (mx, oid, h, hit)"
  shows "best_entry target es = (if mx = 0 then None else Some (mx, oid, h)) \<and> 0 \<le> mx"
proof -
  from scan_best_first[OF assms] have all: "\<forall>e \<in> set es. matched target (fst e) \<le> mx" by simp
  have ge: "0 \<le> mx" using scan_best_ge[of 0 target es b] assms by simp
  from scan_best_first[OF assms] have f: "mx \<noteq> 0 \<Longrightarrow> find (\<lambda>e. matched target (fst e) = mx) es = Some (oid, h)"
    by (auto split: if_splits)
  then have "mx \<noteq> 0 \<Longrightarrow> mx \<in> (\<lambda>e. matched target (fst e)) ` set es"
    by (force simp: find_Some_iff)
  with all ge have "Max (insert 0 ((\<lambda>e. matched target (fst e)) ` set es)) = mx"
    by (intro Max_eqI) auto
  with f ge show ?thesis by (simp add: best_entry_def Let_def)
qed

text \<open>The search: the best entry of all three, and a cache with its entries in another order.\<close>

lemma search_next_hop_best:
  assumes "tables_ok s L" and "id_length_ok target"
  shows "\<exists>mx oid h hit c L'. search_next_hop env target s = Some ((mx, oid, h, hit), s\<lparr>px_cache := Some c\<rparr>) \<and>
    tables_ok (s\<lparr>px_cache := Some c\<rparr>) L' \<and> mset L' = mset L \<and>
    best_entry target (known_entries s L) = (if mx = 0 then None else Some (mx, oid, h)) \<and> 0 \<le> mx \<and>
    map_option capacity (px_cache s) = Some (capacity c)"
proof -
  obtain c ps where c: "px_cache s = Some c" "cache_rel c ps" "L = map snd ps"
    and wf: "oid.wf_table (routing_table s)" "oid.wf_table (proactive_cache s)" "name.wf_table (index_table s)"
    using assms(1) by (auto simp: tables_ok_def cache_entries_def)
  let ?rt = "routing_table s" and ?pc = "proactive_cache s"
  define h0 where "h0 = (case table_lookup oid_less (junk_max env) ?rt of Some h \<Rightarrow> h | None \<Rightarrow> HostAddress_new [] (- 1))"
  from best_match_scan[OF assms(2), of ?rt ?rt 0 "junk_max env" False h0] oid.lookup_of_entry[OF wf(1)]
  obtain mx1 b1 hit1 where 1:
    "best_match target (map fst ?rt) (0, junk_max env, False) = Some (mx1, b1, hit1)"
    "scan_best target ?rt (0, junk_max env, h0, False) =
       (mx1, b1, if mx1 > 0 then the (table_lookup oid_less b1 ?rt) else h0, hit1)"
    "mx1 > 0 \<and> hit1 \<and> b1 \<in> fst ` set ?rt \<or> mx1 = 0 \<and> b1 = junk_max env \<and> hit1 = False" by auto
  define h1 where "h1 = (case table_lookup oid_less b1 ?rt of Some h \<Rightarrow> h | None \<Rightarrow> HostAddress_new [] (- 1))"
  have h1: "scan_best target ?rt (0, junk_max env, h0, False) = (mx1, b1, h1, hit1)"
    using 1(2,3) oid.lookup_of_entry[OF wf(1)] by (auto simp: h1_def h0_def)
  from best_match_scan[OF assms(2), of ?pc ?pc mx1 b1 False h1] oid.lookup_of_entry[OF wf(2)]
  obtain mx2 b2 hit2 where 2:
    "best_match target (map fst ?pc) (mx1, b1, False) = Some (mx2, b2, hit2)"
    "scan_best target ?pc (mx1, b1, h1, False) =
       (mx2, b2, if mx2 > mx1 then the (table_lookup oid_less b2 ?pc) else h1, hit2)"
    "mx2 > mx1 \<and> hit2 \<and> b2 \<in> fst ` set ?pc \<or> mx2 = mx1 \<and> b2 = b1 \<and> hit2 = False" by auto
  define h2 where "h2 = (if hit2 then
      (case table_lookup oid_less b2 ?pc of Some h \<Rightarrow> h | None \<Rightarrow> h1) else h1)"
  have h2: "scan_best target ?pc (mx1, b1, h1, False) = (mx2, b2, h2, hit2)"
    using 2(2,3) oid.lookup_of_entry[OF wf(2)] by (auto simp: h2_def)
  obtain mx oid h hit where best: "scan_best target L (mx2, b2, h2, hit2) = (mx, oid, h, hit)"
    by (metis prod_cases4)
  from cache_scan_best[OF assms(2), of c "[]" ps "(mx2, b2, h2, hit2)"] c best obtain c' zs where
    3: "cache_scan target (first_or (map fst ps) None) (mx2, b2, h2, hit2) c = Some ((mx, oid, h, hit), c')"
    "cache_rel c' zs" "mset zs = mset ps" "capacity c' = capacity c" by auto
  have "iter_reset c = first_or (map fst ps) None" using c(2) by (simp add: iter_reset_def cache_rel_def dll_wf_def)
  then have S: "search_next_hop env target s = Some ((mx, oid, h, hit), s\<lparr>px_cache := Some c'\<rparr>)"
    using 1(1) 2(1) 3(1) c(1) unfolding h2_def h1_def
    by (cases hit2) (simp_all add: search_next_hop_def reset_iterator_def Let_def)
  have hits: "\<exists>hit'. scan_best target es (m, b, h, x) = (m', b', h', hit')"
    if "scan_best target es (m, b, h, y) = (m', b', h', z)" for es m b h x y m' b' h' z
    using that by (induction es arbitrary: m b h x y) (auto split: if_splits)
  obtain hit3 where "scan_best target ?pc (mx1, b1, h1, hit1) = (mx2, b2, h2, hit3)" using hits[OF h2] by blast
  moreover obtain hit4 where "scan_best target L (mx2, b2, h2, hit3) = (mx, oid, h, hit4)" using hits[OF best] by blast
  ultimately have "scan_best target (known_entries s L) (0, junk_max env, h0, False) = (mx, oid, h, hit4)"
    by (simp add: known_entries_def scan_best_append h1)
  from best_entry_scan[OF this] S 3 c wf show ?thesis
    by (intro exI[of _ mx] exI[of _ oid] exI[of _ h] exI[of _ hit] exI[of _ c'] exI[of _ "map snd zs"])
       (auto simp: tables_ok_def cache_entries_def)
qed

lemma find_SomeD: "find P xs = Some x \<Longrightarrow> P x \<and> x \<in> set xs"
  by (auto simp: find_Some_iff)

text \<open>What the search changes of the state: the order of the cache, and the hit counters.\<close>

lemma tables_ok_count [simp]: "tables_ok (count_cache_hit m s) L \<longleftrightarrow> tables_ok s L"
  by (auto simp: tables_ok_def count_cache_hit_def incrementGetCacheHitCounter_def incrementPutCacheHitCounter_def
     split: message.split)

lemma count_cache_hit_simps [simp]:
  "routing_table (count_cache_hit m s) = routing_table s" "proactive_cache (count_cache_hit m s) = proactive_cache s"
  "index_table (count_cache_hit m s) = index_table s" "px_peer (count_cache_hit m s) = px_peer s"
  "px_cache (count_cache_hit m s) = px_cache s"
  by (auto simp: count_cache_hit_def incrementGetCacheHitCounter_def incrementPutCacheHitCounter_def split: message.split)

lemma setNextHop_search:
  assumes "tables_ok s L" and "target_oid m = Some target" and "id_length_ok target"
    and "id_length_ok (peer_overlay_id (px_peer s))"
    and "\<not> (cache_storage (px_peer s) = str ''end_point'' \<and> is_reply m)"
    and "overlay_ttl (message_base m) \<noteq> 0" and "\<not> answered_here m s"
  shows "\<exists>s' L'. setNextHop env m s =
      (case best_entry target (known_entries s L) of None \<Rightarrow> Some (False, m, s')
       | Some (mx, oid, h) \<Rightarrow>
           if mx < matched (peer_overlay_id (px_peer s)) (dst_oid (message_base m)) then Some (False, m, s')
           else Some (True, on_base (set_hop h oid) m, s')) \<and>
    tables_ok s' L' \<and> mset L' = mset L \<and> routing_table s' = routing_table s \<and>
    proactive_cache s' = proactive_cache s \<and> index_table s' = index_table s \<and> px_peer s' = px_peer s \<and>
    map_option capacity (px_cache s') = map_option capacity (px_cache s)"
proof -
  from search_next_hop_best[OF assms(1,3), of env] obtain mx oid h hit c L' where
    S: "search_next_hop env target s = Some ((mx, oid, h, hit), s\<lparr>px_cache := Some c\<rparr>)"
    "tables_ok (s\<lparr>px_cache := Some c\<rparr>) L'" "mset L' = mset L"
    "best_entry target (known_entries s L) = (if mx = 0 then None else Some (mx, oid, h))"
    "Some (capacity c) = map_option capacity (px_cache s)" by (metis (no_types, lifting))
  let ?s = "if hit then count_cache_hit m (s\<lparr>px_cache := Some c\<rparr>) else s\<lparr>px_cache := Some c\<rparr>"
  have "setNextHop env m s =
      (if mx = 0 \<or> mx < matched (peer_overlay_id (px_peer s)) (dst_oid (message_base m)) then Some (False, m, ?s)
       else Some (True, on_base (set_hop h oid) m, ?s))"
    using S(1) assms(2,6,7) by (simp add: setNextHop_def matched_eq[OF assms(4)] Let_def if_not_P[OF assms(5)])
  with S(2-5) show ?thesis by (intro exI[of _ ?s] exI[of _ L']) simp
qed

text \<open>
  C11. The next hop. For a routed message that is not held back (a reply with end-point caching, a
  TTL of 0, a GET the index table answers) the peer finds, among its routing table, its
  proactive cache and its cache, the first entry that shares the longest non-empty prefix with the
  target, and forwards the message to it unless the peer itself shares more with the address
  the message came under; the tables are unchanged, the cache keeps its entries.
\<close>

theorem next_hop_best:
  assumes "tables_ok s L" and "target_oid m = Some target" and "id_length_ok target"
    and "id_length_ok (peer_overlay_id (px_peer s))"
    and "\<not> (cache_storage (px_peer s) = str ''end_point'' \<and> is_reply m)"
    and "overlay_ttl (message_base m) \<noteq> 0" and "\<not> answered_here m s"
  shows "\<exists>s' L'. setNextHop env m s =
      (case best_entry target (known_entries s L) of None \<Rightarrow> Some (False, m, s')
       | Some (mx, oid, h) \<Rightarrow>
           if mx < matched (peer_overlay_id (px_peer s)) (dst_oid (message_base m)) then Some (False, m, s')
           else Some (True, on_base (set_hop h oid) m, s')) \<and>
    tables_ok s' L' \<and> mset L' = mset L \<and> routing_table s' = routing_table s \<and>
    proactive_cache s' = proactive_cache s \<and> index_table s' = index_table s \<and> px_peer s' = px_peer s"
  using setNextHop_search[OF assms] by blast

text \<open>
  At the peer a message is addressed to (its destination id agrees with the peer's id), the
  message goes on only to an id that agrees with the target on every bit from bit 1 up: a
  partial match, however much longer than the peer's own, is not followed.
\<close>

theorem second_hop_only_to_target:
  assumes "tables_ok s L" and "target_oid m = Some target" and "id_length_ok target"
    and "id_length_ok (peer_overlay_id (px_peer s))"
    and "MAX_LENGTH target = MAX_LENGTH (peer_overlay_id (px_peer s))"
    and "overlay_id (dst_oid (message_base m)) = overlay_id (peer_overlay_id (px_peer s))"
    and "setNextHop env m s = Some (True, m', s')"
  shows "\<exists>oid h. (oid, h) \<in> set (known_entries s L) \<and> dst_oid (message_base m') = oid \<and>
    (\<forall>i \<in> {1..<nat (sint (MAX_LENGTH target))}. bit (overlay_id oid) i = bit (overlay_id target) i)"
proof -
  let ?me = "peer_overlay_id (px_peer s)" and ?n = "nat (sint (MAX_LENGTH target))"
  have n: "0 < ?n" "?n = nat (sint (MAX_LENGTH ?me))" using assms(3,5) by (simp_all add: id_length_ok_def)
  have cond: "\<not> (cache_storage (px_peer s) = str ''end_point'' \<and> is_reply m)"
    "overlay_ttl (message_base m) \<noteq> 0" "\<not> answered_here m s"
    using assms(2,7) by (auto simp: setNextHop_def split: if_splits)
  have own: "matched ?me (dst_oid (message_base m)) = int (?n - 1)"
    using common_prefix_full[OF n(1), of ?me "dst_oid (message_base m)"] assms(6) n(2) by (simp add: matched_def)
  from setNextHop_search[OF assms(1-4) cond, of env] assms(7) own obtain mx oid h where
    b: "best_entry target (known_entries s L) = Some (mx, oid, h)" "\<not> mx < int (?n - 1)"
    "m' = on_base (set_hop h oid) m"
    by (auto split: option.splits prod.splits if_splits)
  from b(1) have f: "find (\<lambda>e. matched target (fst e) = mx) (known_entries s L) = Some (oid, h)"
    by (auto simp: best_entry_def Let_def split: if_splits)
  then have e: "(oid, h) \<in> set (known_entries s L)" "matched target oid = mx"
    by (auto dest: find_SomeD)
  have "common_prefix ?n target oid < ?n"
    using GetMatchedPrefixLength_eq[of target ?n oid] assms(3) n(1) by (simp add: id_length_ok_def nat_le_iff)
  moreover have "?n - 1 \<le> common_prefix ?n target oid" using e(2) b(2) by (simp only: matched_def)
  ultimately have "common_prefix ?n target oid = ?n - 1" by linarith
  then have "\<forall>i \<in> {1..<?n}. bit (overlay_id oid) i = bit (overlay_id target) i"
    using common_prefix_full[OF n(1), of target oid] by auto
  moreover have "dst_oid (message_base m') = oid"
    unfolding b(3) by (cases m) (simp_all add: on_base_def ABSMessage.defs set_hop_def)
  ultimately show ?thesis using e(1) by blast
qed

section \<open>A small network, for the examples\<close>

definition example_peer :: "OverlayID \<Rightarrow> cstring \<Rightarrow> Peer" where
  "example_peer oid storage = \<lparr>run_sequence_no = 0, n_peers = 2, peer_name = [], peer_overlay_id = oid,
    peer_status = 0, host_name = [104], listen_port_number = 80, publish_name_range_start = 0,
    publish_name_range_end = 0, lookup_name_range_start = 0, lookup_name_range_end = 0, webserver_port = 0,
    put_generated = 0, put_received = 0, put_processed = 0, put_forwarded = 0, put_dropped = 0,
    get_generated = 0, get_received = 0, get_processed = 0, get_forwarded = 0, get_dropped = 0,
    peer_alpha = 0, peer_k = 10, timeout_sec = 0, timeout_micro_sec = 0, n_retry = 0, init_rcvd = True,
    start_gen_name_rcvd = False, start_lookup_name_rcvd = False, start_gen_name = False, peer_dyn_status = 0,
    log_server_name = [], log_server_user = [], cache_storage = storage, cache_type = [], name_db = []\<rparr>"

definition example_env :: "(clong \<Rightarrow> 's \<Rightarrow> (clong \<times> 's) option) \<Rightarrow> nat \<Rightarrow> 's env" where
  "example_env decode K = \<lparr>print_double = (\<lambda>_. [48]), now_ms = 0, iCode_decode = decode, iCode_K = K,
    junk_max = raw_oid, junk_dst = raw_oid, junk_reply_dst = raw_oid, junk_reply_target = raw_oid,
    raw_put_reply = ABSMessage.extend raw_base (MessagePUT_REPLY.fields 0 0 0 0 0 raw_oid []),
    raw_get_reply = ABSMessage.extend raw_base (MessageGET_REPLY.fields 0 0 0 0 0 raw_oid HostAddress_default []),
    raw_retrieve_reply = ABSMessage.extend raw_base (MessageRetrieveReply.fields 0 0 0 0 0 HostAddress_default [])\<rparr>"

definition example_state :: "'s \<Rightarrow> OverlayID \<Rightarrow> (OverlayID, HostAddress) table \<Rightarrow> 's Plexus" where
  "example_state code oid rt = (Plexus_new (example_peer oid (str ''path'')) 0 2 code)
     \<lparr>routing_table := rt, px_cache := Some (Cache_new oid 10)\<rparr>"

definition example_base :: "byte \<Rightarrow> ABSMessage" where
  "example_base ty = raw_base\<lparr>messageType := ty, overlay_ttl := 10, source_host := [115], source_port := 90,
     src_oid := OverlayID_new 1 4 4\<rparr>"

definition example_get :: "OverlayID \<Rightarrow> OverlayID \<Rightarrow> cstring \<Rightarrow> message" where
  "example_get dst target name =
     Msg_GET (ABSMessage.extend ((example_base MSG_PLEXUS_GET)\<lparr>dst_oid := dst\<rparr>) (MessageGET.fields target name))"

lemmas example_defs = example_state_def example_peer_def example_get_def example_base_def Plexus_new_def
  raw_base_def raw_oid_def OverlayID_new_def table_empty_def ABSMessage.defs MessageGET.defs

lemma example_tables_ok: "oid.wf_table rt \<Longrightarrow> tables_ok (example_state code oid rt) []"
  using cache_rel_new[of oid 10]
  by (auto simp: tables_ok_def cache_entries_def example_state_def Plexus_new_def table_empty_def)

lemma matched_example:
  "matched (OverlayID_new a p 4) b = (let f = \<lambda>i. bit a i = bit (overlay_id b) i in
     if f 3 then if f 2 then if f 1 then 3 else 2 else 1 else 0)"
proof -
  have "rev [1..<4] = [3, 2, 1 :: nat]" by code_simp
  then show ?thesis by (simp add: matched_def common_prefix_def OverlayID_new_def Let_def)
qed

lemma next_hop_best_witness:
  "\<exists>s'. setNextHop (example_env (\<lambda>_ _. None) 4) (example_get (OverlayID_new 0 4 4) (OverlayID_new 0b0111 4 4) [110])
      (example_state () (OverlayID_new 0b1000 4 4) [(OverlayID_new 0b0110 4 4, HostAddress_new [98] 81)]) =
    Some (True, on_base (set_hop (HostAddress_new [98] 81) (OverlayID_new 0b0110 4 4))
      (example_get (OverlayID_new 0 4 4) (OverlayID_new 0b0111 4 4) [110]), s')"
proof -
  let ?env = "example_env (\<lambda>_ _. None) 4 :: unit env"
  let ?me = "OverlayID_new 0b1000 4 4" and ?t = "OverlayID_new 0b0111 4 4" and ?o = "OverlayID_new 0b0110 4 4"
  let ?s = "example_state () ?me [(?o, HostAddress_new [98] 81)]"
  let ?m = "example_get (OverlayID_new 0 4 4) ?t [110]"
  have ok: "tables_ok ?s []" by (rule example_tables_ok) (simp add: oid.wf_Cons)
  have e: "known_entries ?s [] = [(?o, HostAddress_new [98] 81)]"
    by (simp add: known_entries_def example_defs)
  have b: "best_entry ?t (known_entries ?s []) = Some (3, ?o, HostAddress_new [98] 81)"
    unfolding e by (simp add: best_entry_def matched_example) (simp add: OverlayID_new_def)
  have me: "peer_overlay_id (px_peer ?s) = ?me" and d: "dst_oid (message_base ?m) = OverlayID_new 0 4 4"
    by (simp_all add: example_defs)
  have "matched ?me (OverlayID_new 0 4 4) = 0"
    by (simp add: matched_example) (simp add: OverlayID_new_def)
  then show ?thesis
    using next_hop_best[OF ok, of ?m ?t ?env] b me d
    by (auto simp: id_length_ok_def) (simp_all add: example_defs str_def table_lookup_def, blast)
qed

lemma second_hop_only_to_target_witness:
  "\<exists>m' s'. setNextHop (example_env (\<lambda>_ _. None) 4) (example_get (OverlayID_new 0b1000 4 4) (OverlayID_new 0b0111 4 4) [110])
      (example_state () (OverlayID_new 0b1000 4 4) [(OverlayID_new 0b0110 4 4, HostAddress_new [98] 81)]) = Some (True, m', s') \<and>
    (\<forall>i \<in> {1..<4}. bit (overlay_id (dst_oid (message_base m'))) i = bit (0b0111 :: clong) i)"
proof -
  let ?env = "example_env (\<lambda>_ _. None) 4 :: unit env"
  let ?me = "OverlayID_new 0b1000 4 4" and ?t = "OverlayID_new 0b0111 4 4" and ?o = "OverlayID_new 0b0110 4 4"
  let ?s = "example_state () ?me [(?o, HostAddress_new [98] 81)]"
  let ?m = "example_get ?me ?t [110]"
  have ok: "tables_ok ?s []" by (rule example_tables_ok) (simp add: oid.wf_Cons)
  have e: "known_entries ?s [] = [(?o, HostAddress_new [98] 81)]"
    by (simp add: known_entries_def example_defs)
  have b: "best_entry ?t (known_entries ?s []) = Some (3, ?o, HostAddress_new [98] 81)"
    unfolding e by (simp add: best_entry_def matched_example) (simp add: OverlayID_new_def)
  have me: "peer_overlay_id (px_peer ?s) = ?me" and d: "dst_oid (message_base ?m) = ?me"
    by (simp_all add: example_defs)
  have len: "id_length_ok ?t" "id_length_ok ?me" by (simp_all add: id_length_ok_def OverlayID_new_def)
  have t: "target_oid ?m = Some ?t" by (simp add: example_defs)
  have own: "\<not> 3 < matched ?me ?me" by (simp add: matched_example)
  have "\<exists>s'. setNextHop ?env ?m ?s = Some (True, on_base (set_hop (HostAddress_new [98] 81) ?o) ?m, s')"
    using setNextHop_search[OF ok t len(1), of ?env] len(2) b me d own
    by (auto simp: id_length_ok_def) (simp_all add: example_defs str_def table_lookup_def, blast)
  then obtain m' s' where n: "setNextHop ?env ?m ?s = Some (True, m', s')" by blast
  from second_hop_only_to_target[OF ok t len(1) _ _ _ n] len(2) me d
  have "\<forall>i \<in> {1..<nat (sint (MAX_LENGTH ?t))}. bit (overlay_id (dst_oid (message_base m'))) i = bit (overlay_id ?t) i"
    by (auto simp: OverlayID_new_def)
  with n show ?thesis by (simp add: OverlayID_new_def)
qed

end
