(* ===== verification/Processing.thy ===== *)
theory Processing
  imports Routing
begin

text \<open>
  \<^verbatim>\<open>PlexusMessageProcessor::processMessage\<close>, one definition per branch, and the requests
  \<^verbatim>\<open>get\<close>, \<^verbatim>\<open>get_for_client\<close> and \<^verbatim>\<open>put\<close> of \<^verbatim>\<open>PlexusProtocol\<close> that it shares with the threads of
  the peer. A branch works on the whole state and returns None where the code is undefined: an
  array overrun by a printed text, a cache or index table used before the INIT message installed
  them, or a code that does not return. A message is handled by its class, which is the one its
  type announces. Printing is left out, and so are the address database and the log files.
\<close>

section \<open>Shared steps\<close>

definition SUCCESS :: cint where "SUCCESS = 0"
definition ERROR_GET_FAILED :: cint where "ERROR_GET_FAILED = - 108"
definition PEER_RUNNING :: cint where "PEER_RUNNING = 1"
definition LOG_GET :: cint where "LOG_GET = 0"
definition LOG_PUT :: cint where "LOG_PUT = 1"
definition ALL_LOGS :: cint where "ALL_LOGS = 3"

text \<open>Constructing a message draws a sequence number.\<close>

definition draw :: "(cint \<Rightarrow> cint \<Rightarrow> cint \<times> 'm) \<Rightarrow> 's Plexus \<Rightarrow> 'm \<times> 's Plexus" where
  "draw new s = (let (gen, m) = new (network_size s) (sequence_no_generator s) in
     (m, s\<lparr>sequence_no_generator := gen\<rparr>))"

definition c_text :: "cstring \<Rightarrow> cstring" where
  "c_text s = takeWhile (\<lambda>c. c \<noteq> 0) s"

definition path_caching :: "'s Plexus \<Rightarrow> bool" where
  "path_caching s \<longleftrightarrow> cache_storage (px_peer s) = str ''path''"

definition proactive :: "'s Plexus \<Rightarrow> bool" where
  "proactive s \<longleftrightarrow> c_text (cache_type (px_peer s)) = str ''proactive''"

text \<open>\<^verbatim>\<open>cache->add\<close> with the address a message came from.\<close>

definition cache_source :: "'a ABSMessage_scheme \<Rightarrow> 's Plexus \<Rightarrow> 's Plexus option" where
  "cache_source m s =
     Option.bind (px_cache s) (\<lambda>c.
     map_option (\<lambda>c. s\<lparr>px_cache := Some c\<rparr>)
       (cache_add (routing_table s) (proactive_cache s) (stored_key (src_oid m))
         (HostAddress_new (source_host m) (source_port m)) c))"

text \<open>A reply is queued; with caching on the path \<^verbatim>\<open>setNextHop\<close> may address it to another peer first.\<close>

definition send_reply :: "'s env \<Rightarrow> message \<Rightarrow> 's Plexus \<Rightarrow> 's Plexus option" where
  "send_reply env reply s =
     (if path_caching s
      then Option.bind (setNextHop env reply s) (\<lambda>(_, reply, s). Some (addToOutgoingQueue reply s))
      else Some (addToOutgoingQueue reply s))"

text \<open>The key of a log entry, printed into an array of 300 characters.\<close>

definition log_key :: "'a ABSMessage_scheme \<Rightarrow> cstring option" where
  "log_key m =
     (let i_str = c_text (source_host m) @ str ''_'' @ c_text (dest_host m) @ str ''_'' @ print_int (sequence_no m) in
      if length i_str < 300 then Some i_str else None)"

section \<open>Branches\<close>

definition process_PUT :: "'s env \<Rightarrow> MessagePUT \<Rightarrow> 's Plexus \<Rightarrow> 's Plexus option" where
  "process_PUT env m s =
     (if px_cache s = None then None else
      let s = on_peer incrementPut_processed s;
          s = s\<lparr>index_table := snd (table_add str_less (put_deviceName m) (put_hostAddress m) (index_table s))\<rparr>;
          p = px_peer s;
          (reply, s) = draw (\<lambda>ns. MessagePUT_REPLY_new ns (raw_put_reply env) (host_name p) (listen_port_number p)
            (source_host m) (source_port m) (peer_overlay_id p) (junk_reply_dst env) SUCCESS (src_oid m)
            (put_deviceName m)) s in
      send_reply env (Msg_PUT_REPLY (reply\<lparr>pr_hops := ucast (overlay_hops m), pr_ip_hops := ip_hops m,
        pr_latency := latency m, pr_origin_seq_no := sequence_no m\<rparr>)) s)"

definition process_GET :: "'s env \<Rightarrow> MessageGET \<Rightarrow> 's Plexus \<Rightarrow> 's Plexus option" where
  "process_GET env m s =
     (if px_cache s = None then None else
      let s = on_peer incrementGet_processed s;
          p = px_peer s;
          found = table_lookup str_less (get_deviceName m) (index_table s);
          hostAddress = (case found of Some h \<Rightarrow> h | None \<Rightarrow> HostAddress_default);
          status = (if found = None then ERROR_GET_FAILED else SUCCESS);
          (reply, s) = draw (\<lambda>ns. MessageGET_REPLY_new ns (raw_get_reply env) (host_name p) (listen_port_number p)
            (source_host m) (source_port m) (peer_overlay_id p) (junk_reply_dst env) status (src_oid m)
            hostAddress (get_deviceName m)) s;
          reply = Msg_GET_REPLY (reply\<lparr>gr_hops := ucast (overlay_hops m), gr_ip_hops := ip_hops m,
            gr_latency := latency m, gr_origin_seq_no := sequence_no m\<rparr>) in
      if found \<noteq> None then send_reply env reply s else Some (addToOutgoingQueue reply s))"

definition process_GET_REPLY :: "'s env \<Rightarrow> MessageGET_REPLY \<Rightarrow> 's Plexus \<Rightarrow> 's Plexus option" where
  "process_GET_REPLY env m s =
     Option.bind (cache_source m s) (\<lambda>s.
     Option.bind (log_key m) (\<lambda>key.
     let status = (if gr_status m = ERROR_GET_FAILED then str ''F'' else str ''S'') in
     map_option (\<lambda>entry. addToLogQueue entry s)
       (LogEntry_new (print_double env) LOG_GET key ''iidssi''
         [Arg_int (gr_hops m), Arg_int (gr_ip_hops m), Arg_double (gr_latency m), Arg_str status,
          Arg_str (gr_device_name m), Arg_int (GetOverlay_id (src_oid m))])))"

definition process_PUT_REPLY :: "'s env \<Rightarrow> MessagePUT_REPLY \<Rightarrow> 's Plexus \<Rightarrow> 's Plexus option" where
  "process_PUT_REPLY env m s =
     Option.bind (log_key m) (\<lambda>key.
     map_option (\<lambda>entry. addToLogQueue entry s)
       (LogEntry_new (print_double env) LOG_PUT key ''iidsi''
         [Arg_int (pr_hops m), Arg_int (pr_ip_hops m), Arg_double (pr_latency m),
          Arg_str (pr_device_name m), Arg_int (GetOverlay_id (src_oid m))]))"

text \<open>The name database is searched; the result, the default address for an unknown name, is sent with success.\<close>

definition process_RETRIEVE :: "'s env \<Rightarrow> RetrieveMessage \<Rightarrow> 's Plexus \<Rightarrow> 's Plexus" where
  "process_RETRIEVE env m s =
     (let p = px_peer s;
          result = (case searchNameDb (rm_deviceName m) p of Some ha \<Rightarrow> ha | None \<Rightarrow> HostAddress_default);
          (reply, s) = draw (\<lambda>ns. MessageRetrieveReply_new ns (raw_retrieve_reply env) (host_name p)
            (listen_port_number p) (source_host m) (source_port m) (peer_overlay_id p) (src_oid m) SUCCESS
            result (rm_deviceName m)) s in
      addToOutgoingQueue (Msg_RETRIEVE_REPLY (reply\<lparr>rr_origin_seq_no := sequence_no m\<rparr>)) s)"

definition name_index :: "cstring \<Rightarrow> cint" where
  "name_index name = ucast (urlHash name) AND 0x003FFFFF"

definition process_RETRIEVE_REPLY :: "'s env \<Rightarrow> MessageRetrieveReply \<Rightarrow> 's Plexus \<Rightarrow> 's Plexus" where
  "process_RETRIEVE_REPLY env m s =
     (let ind = \<lparr>name_hash = name_index (c_text (rr_device_name m)), message_seq_no = rr_origin_seq_no m\<rparr> in
      case table_lookup index_less ind (unresolved_get s) of None \<Rightarrow> s
      | Some (requester, d_name) \<Rightarrow>
          let s = s\<lparr>unresolved_get := snd (table_remove index_less ind (unresolved_get s))\<rparr>;
              p = px_peer s;
              (reply, s) = draw (\<lambda>ns. MessageGET_REPLY_new ns (raw_get_reply env) (host_name p)
                (listen_port_number p) (hostName requester) (hostPort requester) (peer_overlay_id p)
                (junk_reply_dst env) SUCCESS (junk_reply_target env) (rr_host_address m) (rr_device_name m)) s in
          addToOutgoingQueue (Msg_GET_REPLY (reply\<lparr>sequence_no := message_seq_no ind\<rparr>)) s)"

text \<open>CACHE_ME messages, on behalf of a host, to every peer in the routing table.\<close>

fun flood :: "cstring \<Rightarrow> cint \<Rightarrow> OverlayID \<Rightarrow> byte \<Rightarrow> OverlayID list \<Rightarrow> 's Plexus \<Rightarrow> 's Plexus" where
  "flood sh sp soid ttl [] s = s"
| "flood sh sp soid ttl (dst # it) s =
     (let dst_ha = (case table_lookup oid_less dst (routing_table s) of Some h \<Rightarrow> h | None \<Rightarrow> HostAddress_default);
          (msg, s) = draw (\<lambda>ns. MessageCacheMe_new ns sh sp (hostName dst_ha) (hostPort dst_ha) soid dst) s in
      flood sh sp soid ttl it (addToOutgoingQueue (Msg_CACHE_ME (msg\<lparr>overlay_ttl := ttl\<rparr>)) s))"

definition init_peer :: "PeerInitMessage \<Rightarrow> Peer \<Rightarrow> Peer" where
  "init_peer m p = p\<lparr>n_peers := pi_n_peers m, peer_overlay_id := dst_oid m, peer_name := pi_peer_name m,
     log_server_name := pi_log_server_name m, log_server_user := pi_log_server_user m,
     run_sequence_no := pi_run_sequence_no m, peer_k := pi_k m, peer_alpha := pi_alpha m,
     publish_name_range_start := pi_publish_start m, publish_name_range_end := pi_publish_end m,
     lookup_name_range_start := pi_lookup_start m, lookup_name_range_end := pi_lookup_end m,
     webserver_port := pi_webserver_port m\<rparr>"

text \<open>The state the message installs; then, with proactive caching, the neighbours are told.\<close>

definition init_state :: "PeerInitMessage \<Rightarrow> 's Plexus \<Rightarrow> 's Plexus" where
  "init_state m s =
     (let s = on_peer (init_peer m) s;
          s = s\<lparr>network_size := pi_n_peers m\<rparr>;
          s = setRoutingTable (pi_routing_table m) s;
          s = setIndexTable table_empty s;
          s = setCache (Cache_new (peer_overlay_id (px_peer s)) (sint (peer_k (px_peer s)))) s;
          s = s\<lparr>logs := Some (run_sequence_no (px_peer s), c_text (log_server_name (px_peer s)), str ''pweb'')\<rparr>;
          s = reset_counters s in
      on_peer (\<lambda>p. p\<lparr>init_rcvd := True\<rparr>) s)"

definition process_INIT :: "PeerInitMessage \<Rightarrow> 's Plexus \<Rightarrow> 's Plexus" where
  "process_INIT m s =
     (let s = init_state m s; p = px_peer s in
      if proactive s
      then flood (host_name p) (listen_port_number p) (peer_overlay_id p) 2 (reset_iterator (routing_table s)) s
      else s)"

definition process_CACHE_ME :: "MessageCacheMe \<Rightarrow> 's Plexus \<Rightarrow> 's Plexus" where
  "process_CACHE_ME m s =
     (if \<not> proactive s then s else
      let oid = src_oid m; ha = HostAddress_new (source_host m) (source_port m);
          s = (if \<not> oid_eq oid (peer_overlay_id (px_peer s)) \<and> table_lookup oid_less oid (routing_table s) = None
               then s\<lparr>proactive_cache := snd (table_add oid_less oid ha (proactive_cache s))\<rparr> else s) in
      if overlay_ttl m > 0
      then flood (source_host m) (source_port m) (src_oid m) (overlay_ttl m) (reset_iterator (routing_table s)) s
      else s)"

definition process_FORCE_LOG :: "'s env \<Rightarrow> 's Plexus \<Rightarrow> 's Plexus option" where
  "process_FORCE_LOG env s =
     map_option (\<lambda>entry. addToLogQueue entry s) (LogEntry_new (print_double env) ALL_LOGS (str ''flush'') '''' [])"

section \<open>Requests\<close>

text \<open>
  The requests of clients and of the peer itself are given to \<^verbatim>\<open>processMessage\<close>, here
  \<open>proc\<close>, and queued when it says so.
\<close>

type_synonym 's processor = "message \<Rightarrow> 's Plexus \<Rightarrow> (bool \<times> message \<times> 's Plexus) option"

definition start_request :: "'s processor \<Rightarrow> message \<Rightarrow> 's Plexus \<Rightarrow> 's Plexus option" where
  "start_request proc m s =
     map_option (\<lambda>(forward, m, s). if forward then addToOutgoingQueue m s else s) (proc m s)"

definition hash_oid :: "'s env \<Rightarrow> cint \<Rightarrow> 's Plexus \<Rightarrow> (OverlayID \<times> 's Plexus) option" where
  "hash_oid env hash s = map_option (\<lambda>(oid, code). (oid, s\<lparr>code_state := code\<rparr>))
     (OverlayID_pattern (iCode_decode env) (iCode_K env) (scast hash) (code_state s))"

definition get :: "'s processor \<Rightarrow> 's env \<Rightarrow> cstring \<Rightarrow> 's Plexus \<Rightarrow> 's Plexus option" where
  "get proc env name s =
     Option.bind (hash_oid env (atoi name) s) (\<lambda>(targetID, s).
     let p = px_peer s;
         (msg, s) = draw (\<lambda>ns. MessageGET_new ns (host_name p) (listen_port_number p) [] (- 1)
           (peer_overlay_id p) (junk_dst env) targetID name) s in
     map_option (on_peer incrementGet_generated) (start_request proc (Msg_GET msg) s))"

text \<open>The name of the home agent is what follows the last dot, the device name what is before it.\<close>

fun last_dot :: "cstring \<Rightarrow> nat \<Rightarrow> int" where
  "last_dot s 0 = - 1"
| "last_dot s (Suc i) = (if s ! i = 46 then int i else last_dot s i)"

definition split_name :: "cstring \<Rightarrow> cstring \<times> cstring" where
  "split_name s = (let d = last_dot s (length s) in
     (if d < 0 then s else take (nat d) s, drop (nat (d + 1)) s))"

definition get_for_client :: "'s processor \<Rightarrow> 's env \<Rightarrow> PeerInitiateGET \<Rightarrow> 's Plexus \<Rightarrow> 's Plexus option" where
  "get_for_client proc env message s =
     (let (d_name, ha_name) = split_name (ig_device_name message);
          hash = name_index ha_name in
      Option.bind (hash_oid env hash s) (\<lambda>(targetID, s).
      let p = px_peer s;
          (msg, s) = draw (\<lambda>ns. MessageGET_new ns (host_name p) (listen_port_number p) [] (- 1)
            (peer_overlay_id p) (junk_dst env) targetID ha_name) s;
          msg = msg\<lparr>sequence_no := sequence_no message\<rparr>;
          ind = \<lparr>name_hash = hash, message_seq_no = sequence_no message\<rparr>;
          s = s\<lparr>unresolved_get := snd (table_add index_less ind
            (HostAddress_new (source_host message) (source_port message), d_name) (unresolved_get s))\<rparr> in
      map_option (on_peer incrementGet_generated) (start_request proc (Msg_GET msg) s)))"

definition put :: "'s processor \<Rightarrow> 's env \<Rightarrow> cstring \<Rightarrow> HostAddress \<Rightarrow> 's Plexus \<Rightarrow> 's Plexus option" where
  "put proc env name hostAddress s =
     Option.bind (hash_oid env (atoi name) s) (\<lambda>(targetID, s).
     let p = px_peer s;
         (msg, s) = draw (\<lambda>ns. MessagePUT_new ns (host_name p) (listen_port_number p) [] (- 1)
           (peer_overlay_id p) (junk_dst env) targetID name hostAddress) s;
         ind = \<lparr>name_hash = atoi name, message_seq_no = sequence_no msg\<rparr>;
         s = s\<lparr>unresolved_put := snd (table_add index_less ind (now_ms env) (unresolved_put s))\<rparr> in
     map_option (on_peer incrementPut_generated) (start_request proc (Msg_PUT msg) s))"

text \<open>The requests a client sends to a home agent: the message given to \<^verbatim>\<open>send_message\<close>.\<close>

definition get_from_client ::
    "'s env \<Rightarrow> cstring \<Rightarrow> HostAddress \<Rightarrow> 's Plexus \<Rightarrow> (message \<times> 's Plexus) option" where
  "get_from_client env name destination s =
     Option.bind (hash_oid env (atoi name) s) (\<lambda>(destID, s).
     let p = px_peer s;
         (msg, s) = draw (\<lambda>ns. PeerInitiateGET_new ns (host_name p) (listen_port_number p)
           (hostName destination) (hostPort destination) (peer_overlay_id p) destID name) s in
     Some (Msg_INITIATE_GET (calculateOverlayTTL (n_peers p) msg), s))"

definition put_from_client ::
    "'s env \<Rightarrow> cstring \<Rightarrow> HostAddress \<Rightarrow> HostAddress \<Rightarrow> 's Plexus \<Rightarrow> (message \<times> 's Plexus) option" where
  "put_from_client env name hostAddress destination s =
     Option.bind (hash_oid env (atoi name) s) (\<lambda>(destID, s).
     let p = px_peer s;
         (msg, s) = draw (\<lambda>ns. PeerInitiatePUT_new ns (host_name p) (listen_port_number p)
           (hostName destination) (hostPort destination) (peer_overlay_id p) destID name hostAddress) s in
     Some (Msg_INITIATE_PUT (calculateOverlayTTL (n_peers p) msg), s))"

section \<open>\<^verbatim>\<open>processMessage\<close>\<close>

text \<open>The part after \<^verbatim>\<open>if (forward)\<close>; \<open>proc\<close> is the recursive call made for the requests of clients.\<close>

definition process_here :: "'s processor \<Rightarrow> 's env \<Rightarrow> message \<Rightarrow> 's Plexus \<Rightarrow> 's Plexus option" where
  "process_here proc env message s = (case message of
     Msg_PUT m \<Rightarrow> process_PUT env m s
   | Msg_GET m \<Rightarrow> process_GET env m s
   | Msg_GET_REPLY m \<Rightarrow> process_GET_REPLY env m s
   | Msg_RETRIEVE m \<Rightarrow> Some (process_RETRIEVE env m s)
   | Msg_RETRIEVE_REPLY m \<Rightarrow> Some (process_RETRIEVE_REPLY env m s)
   | Msg_PUT_REPLY m \<Rightarrow> process_PUT_REPLY env m s
   | Msg_INIT m \<Rightarrow> Some (process_INIT m s)
   | Msg_CONFIG m \<Rightarrow> Some (on_peer (\<lambda>p. p\<lparr>peer_alpha := parameter_alpha m, peer_k := parameter_k m\<rparr>) s)
   | Msg_INITIATE_GET m \<Rightarrow> get_for_client proc env m s
   | Msg_INITIATE_PUT m \<Rightarrow> put proc env (ip_device_name m) (ip_hostAddress m) s
   | Msg_START m \<Rightarrow> Some (on_peer (\<lambda>p. p\<lparr>peer_status := PEER_RUNNING\<rparr>) s)
   | Msg_CHANGE_STATUS m \<Rightarrow> Some (on_peer (\<lambda>p. p\<lparr>peer_status := cs_peer_status m\<rparr>) s)
   | Msg_GEN_NAME m \<Rightarrow> Some (on_peer (\<lambda>p. p\<lparr>start_gen_name_rcvd := True\<rparr>) s)
   | Msg_LOOKUP_NAME m \<Rightarrow> Some (on_peer (\<lambda>p. p\<lparr>start_lookup_name_rcvd := True\<rparr>) s)
   | Msg_DYN_STATUS m \<Rightarrow> Some (on_peer (\<lambda>p. p\<lparr>peer_dyn_status := dyn_status m\<rparr>) s)
   | Msg_CACHE_ME m \<Rightarrow> Some (process_CACHE_ME m s)
   | Msg_FORCE_LOG m \<Rightarrow> process_FORCE_LOG env s)"

definition processMessage_step :: "'s processor \<Rightarrow> 's env \<Rightarrow> 's processor" where
  "processMessage_step proc env message s =
     (let message = on_base decrementOverlayTtl message in
      Option.bind (setNextHop env message s) (\<lambda>(forward, message, s).
      if forward then
        (if path_caching s \<and> is_reply message
         then map_option (\<lambda>s. (True, message, s)) (cache_source (message_base message) s)
         else Some (True, message, s))
      else map_option (\<lambda>s. (False, message, s)) (process_here proc env message s)))"

text \<open>
  A request of a client makes one recursive call, with a GET or a PUT, and these make none: two
  levels are the whole recursion (\<open>processMessage_rec\<close>).
\<close>

definition processMessage :: "'s env \<Rightarrow> 's processor" where
  "processMessage env = processMessage_step (processMessage_step (\<lambda>_ _. None) env) env"

section \<open>The recursion\<close>

text \<open>The fields of a class are those of the object whose base part is replaced.\<close>

lemma extend_get [simp]:
  "get_target_oid (ABSMessage.extend b (ABSMessage.more m)) = get_target_oid m"
  "get_deviceName (ABSMessage.extend b (ABSMessage.more m)) = get_deviceName m"
  by (cases m; simp add: ABSMessage.defs)+

lemma extend_get_reply [simp]:
  "gr_target_oid (ABSMessage.extend b (ABSMessage.more m)) = gr_target_oid m"
  "gr_status (ABSMessage.extend b (ABSMessage.more m)) = gr_status m"
  "gr_device_name (ABSMessage.extend b (ABSMessage.more m)) = gr_device_name m"
  "gr_origin_seq_no (ABSMessage.extend b (ABSMessage.more m)) = gr_origin_seq_no m"
  "gr_host_address (ABSMessage.extend b (ABSMessage.more m)) = gr_host_address m"
  "gr_hops (ABSMessage.extend b (ABSMessage.more m)) = gr_hops m"
  "gr_ip_hops (ABSMessage.extend b (ABSMessage.more m)) = gr_ip_hops m"
  "gr_latency (ABSMessage.extend b (ABSMessage.more m)) = gr_latency m"
  by (cases m; simp add: ABSMessage.defs)+

lemma extend_put [simp]:
  "put_target_oid (ABSMessage.extend b (ABSMessage.more m)) = put_target_oid m"
  "put_deviceName (ABSMessage.extend b (ABSMessage.more m)) = put_deviceName m"
  "put_hostAddress (ABSMessage.extend b (ABSMessage.more m)) = put_hostAddress m"
  by (cases m; simp add: ABSMessage.defs)+

lemma extend_put_reply [simp]:
  "pr_target_oid (ABSMessage.extend b (ABSMessage.more m)) = pr_target_oid m"
  "pr_device_name (ABSMessage.extend b (ABSMessage.more m)) = pr_device_name m"
  "pr_status (ABSMessage.extend b (ABSMessage.more m)) = pr_status m"
  "pr_origin_seq_no (ABSMessage.extend b (ABSMessage.more m)) = pr_origin_seq_no m"
  "pr_hops (ABSMessage.extend b (ABSMessage.more m)) = pr_hops m"
  "pr_ip_hops (ABSMessage.extend b (ABSMessage.more m)) = pr_ip_hops m"
  "pr_latency (ABSMessage.extend b (ABSMessage.more m)) = pr_latency m"
  by (cases m; simp add: ABSMessage.defs)+

lemma extend_initiate_get [simp]:
  "ig_device_name (ABSMessage.extend b (ABSMessage.more m)) = ig_device_name m"
  by (cases m; simp add: ABSMessage.defs)+

lemma extend_initiate_put [simp]:
  "ip_device_name (ABSMessage.extend b (ABSMessage.more m)) = ip_device_name m"
  "ip_hostAddress (ABSMessage.extend b (ABSMessage.more m)) = ip_hostAddress m"
  by (cases m; simp add: ABSMessage.defs)+

lemma extend_retrieve [simp]:
  "rm_deviceName (ABSMessage.extend b (ABSMessage.more m)) = rm_deviceName m"
  by (cases m; simp add: ABSMessage.defs)+

lemma extend_retrieve_reply [simp]:
  "rr_device_name (ABSMessage.extend b (ABSMessage.more m)) = rr_device_name m"
  "rr_origin_seq_no (ABSMessage.extend b (ABSMessage.more m)) = rr_origin_seq_no m"
  "rr_host_address (ABSMessage.extend b (ABSMessage.more m)) = rr_host_address m"
  by (cases m; simp add: ABSMessage.defs)+

lemma extend_config [simp]:
  "parameter_k (ABSMessage.extend b (ABSMessage.more m)) = parameter_k m"
  "parameter_alpha (ABSMessage.extend b (ABSMessage.more m)) = parameter_alpha m"
  by (cases m; simp add: ABSMessage.defs)+

lemma extend_init [simp]:
  "pi_routing_table (ABSMessage.extend b (ABSMessage.more m)) = pi_routing_table m"
  "pi_k (ABSMessage.extend b (ABSMessage.more m)) = pi_k m"
  "pi_n_peers (ABSMessage.extend b (ABSMessage.more m)) = pi_n_peers m"
  by (cases m; simp add: ABSMessage.defs)+

lemma extend_more_base [simp]: "ABSMessage.truncate (ABSMessage.extend b x) = b"
  by (simp add: ABSMessage.defs)

lemma message_base_set [simp]: "message_base (set_base b m) = b"
  by (cases m) simp_all

lemma message_base_on [simp]: "message_base (on_base f m) = f (message_base m)"
  by (simp add: on_base_def)

lemma target_oid_on [simp]: "target_oid (on_base f m) = target_oid m"
  by (cases m) (simp_all add: on_base_def)

lemma is_reply_on [simp]: "is_reply (on_base f m) = is_reply m"
  by (cases m) (simp_all add: on_base_def)

lemma answered_here_on [simp]: "answered_here (on_base f m) s = answered_here m s"
  by (cases m) (simp_all add: on_base_def)

lemma requests_call:
  "(\<And>m s. p (Msg_GET m) s = q (Msg_GET m) s) \<Longrightarrow> get_for_client p env m s = get_for_client q env m s"
  "(\<And>m s. p (Msg_PUT m) s = q (Msg_PUT m) s) \<Longrightarrow> put p env n h s = put q env n h s"
  by (simp_all add: get_for_client_def put_def start_request_def)

lemma setNextHop_message:
  "setNextHop env m s = Some (b, m', s') \<Longrightarrow> (\<exists>f. m' = on_base f m) \<or> m' = m"
  by (auto simp: setNextHop_def bind_eq_Some_conv Let_def split: option.splits if_splits)

lemma step_routed:
  assumes "target_oid m \<noteq> None"
  shows "processMessage_step p env m s = processMessage_step q env m s"
proof -
  have "process_here p env m' s' = process_here q env m' s'" if "target_oid m' \<noteq> None" for m' s'
    using that by (cases m') (simp_all add: process_here_def)
  moreover have "target_oid m' = target_oid m"
    if "setNextHop env (on_base decrementOverlayTtl m) s = Some (b, m', s')" for b m' s'
    using setNextHop_message[OF that] by auto
  ultimately show ?thesis
    using assms by (auto simp: processMessage_step_def Let_def intro!: Option.bind_cong)
qed

lemma processMessage_rec:
  "processMessage env m s = processMessage_step (processMessage env) env m s"
proof -
  let ?p = "processMessage_step (\<lambda>_ _. None) env" and ?q = "processMessage env"
  have routed: "?p m s = ?q m s" if "target_oid m \<noteq> None" for m s
    unfolding processMessage_def by (rule step_routed[OF that])
  have "process_here ?p env m s = process_here ?q env m s" for m s
    using routed requests_call[of ?p ?q env] by (cases m) (simp_all add: process_here_def)
  then have "processMessage_step ?p env m s = processMessage_step ?q env m s"
    unfolding processMessage_step_def[of ?p env m s] processMessage_step_def[of ?q env m s] by (simp cong: if_cong)
  then show ?thesis by (simp add: processMessage_def[of env])
qed

end
