(* ===== verification/Golay.thy ===== *)
theory Golay
  imports Prelude
begin

text \<open>
  The binary (23,12,7) Golay code of \<^verbatim>\<open>plnode/protocol/plexus/golay/golay.c\<close>: the
  syndrome computation (a shift-and-subtract division over GF(2)), the generation of
  combinations, the construction of the encoding and decoding tables, and the encoder and
  decoder on top of them. The C globals are the fields of \<open>golay_state\<close>; a result None
  stands for undefined behaviour (an index out of range) or for a loop that never returns.
  The main result is that the decoder recovers every data word whose code word was hit by
  at most three bit errors.
\<close>

section \<open>The code\<close>

definition X22 :: clong where "X22 = 0x00400000"
definition X11 :: clong where "X11 = 0x00000800"
definition MASK12 :: clong where "MASK12 = 0xfffff800"
definition GENPOL :: clong where "GENPOL = 0x00000c75"

record golay_state =
  g_pattern :: clong
  encoding_table :: "clong list"
  decoding_table :: "clong list"
  g_codeword :: clong
  g_a :: "int list"
  enc_initialized :: bool
  dec_initialized :: bool

text \<open>Static storage is zero when the program starts.\<close>

definition golay_start :: golay_state where
  "golay_start = \<lparr>g_pattern = 0, encoding_table = replicate 4096 0,
     decoding_table = replicate 2048 0, g_codeword = 0, g_a = replicate 4 0,
     enc_initialized = False, dec_initialized = False\<rparr>"

text \<open>
  \<open>arr2int\<close> sums \<open>2 ^ (a[i] - 1)\<close>. The inner loop \<^verbatim>\<open>while (temp--) mul = mul << 1\<close>
  runs \<open>temp\<close> times; a negative count, or one that shifts out of the sign bit, is undefined.
\<close>

primrec shift_loop :: "nat \<Rightarrow> clong \<Rightarrow> clong" where
  "shift_loop 0 mul = mul"
| "shift_loop (Suc temp) mul = shift_loop temp (push_bit 1 mul)"

definition arr2int_body :: "int list \<Rightarrow> nat \<Rightarrow> clong \<Rightarrow> clong option" where
  "arr2int_body a i result =
     (if i < length a \<and> 1 \<le> a ! i \<and> a ! i \<le> 63
      then Some (result + shift_loop (nat (a ! i - 1)) 1) else None)"

definition arr2int :: "int list \<Rightarrow> nat \<Rightarrow> clong option" where
  "arr2int a r = for_loop (arr2int_body a) [1..<Suc r] 0"

text \<open>\<open>nextcomb_back\<close> is the loop \<^verbatim>\<open>while (a[j] == n - r + j) j--\<close>.\<close>

fun nextcomb_back :: "int \<Rightarrow> int \<Rightarrow> int list \<Rightarrow> nat \<Rightarrow> nat option" where
  "nextcomb_back n r a j =
     (if a ! j = n - r + int j
      then (case j of 0 \<Rightarrow> None | Suc j' \<Rightarrow> nextcomb_back n r a j') else Some j)"

declare nextcomb_back.simps [simp del]

definition nextcomb :: "nat \<Rightarrow> nat \<Rightarrow> int list \<Rightarrow> int list option" where
  "nextcomb n r a =
     (if r = 0 \<or> length a \<le> r then None
      else let a = a[r := a ! r + 1] in
        if a ! r \<le> int n then Some a
        else Option.bind (nextcomb_back (int n) (int r) a (r - 1)) (\<lambda>j.
          Some (foldl (\<lambda>a i. a[i := a ! j + int i - int j + 1]) a (rev [j..<Suc r]))))"

text \<open>
  \<open>get_syndrome\<close> has two nested \<^verbatim>\<open>while\<close> loops. \<open>aux\<close> is not reset between rounds. Both
  loops may run forever, so they are partial functions into an option type.
\<close>

partial_function (option) find_aux :: "clong \<Rightarrow> clong \<Rightarrow> clong option" where
  "find_aux aux pattern =
     (if aux AND pattern = 0 then find_aux (drop_bit 1 aux) pattern else Some aux)"

partial_function (option) syndrome_loop :: "clong \<Rightarrow> clong \<Rightarrow> clong option" where
  "syndrome_loop pattern aux =
     (if pattern AND MASK12 = 0 then Some pattern
      else Option.bind (find_aux aux pattern)
        (\<lambda>aux'. syndrome_loop (pattern XOR (aux' div X11) * GENPOL) aux'))"

definition get_syndrome :: "clong \<Rightarrow> clong option" where
  "get_syndrome pattern =
     (if X11 \<le>s pattern then syndrome_loop pattern X22 else Some pattern)"

text \<open>A store into a C array: out of range is undefined.\<close>

definition store :: "clong \<Rightarrow> clong \<Rightarrow> clong list \<Rightarrow> clong list option" where
  "store i v t = (if unat i < length t then Some (t[unat i := v]) else None)"

definition gen_enc_body :: "nat \<Rightarrow> golay_state \<Rightarrow> golay_state option" where
  "gen_enc_body i st =
     (let temp = push_bit 11 (g_pattern st) in
      Option.bind (get_syndrome temp) (\<lambda>s.
      Option.bind (store (g_pattern st) (temp + s) (encoding_table st)) (\<lambda>t.
        Some (st\<lparr>encoding_table := t, g_pattern := g_pattern st + 1\<rparr>))))"

definition gen_enc_table :: "golay_state \<Rightarrow> golay_state option" where
  "gen_enc_table st = for_loop gen_enc_body [0..<4096] (st\<lparr>g_pattern := 0\<rparr>)"

text \<open>\<^verbatim>\<open>decoding_table[get_syndrome(temp)] = temp\<close>.\<close>

definition dec_entry :: "clong \<Rightarrow> golay_state \<Rightarrow> golay_state option" where
  "dec_entry temp st =
     Option.bind (get_syndrome temp) (\<lambda>s.
     Option.bind (store s temp (decoding_table st)) (\<lambda>t. Some (st\<lparr>decoding_table := t\<rparr>)))"

definition single_body :: "nat \<Rightarrow> clong \<times> golay_state \<Rightarrow> (clong \<times> golay_state) option" where
  "single_body i = (\<lambda>(temp, st). let temp = temp * 2 in
     Option.bind (dec_entry temp st) (\<lambda>st. Some (temp, st)))"

definition comb_entry :: "nat \<Rightarrow> golay_state \<Rightarrow> golay_state option" where
  "comb_entry r st = Option.bind (arr2int (g_a st) r) (\<lambda>temp. dec_entry temp st)"

definition comb_body :: "nat \<Rightarrow> nat \<Rightarrow> golay_state \<Rightarrow> golay_state option" where
  "comb_body r i st =
     Option.bind (nextcomb 23 r (g_a st)) (\<lambda>a. comb_entry r (st\<lparr>g_a := a\<rparr>))"

definition gen_dec_table :: "golay_state \<Rightarrow> golay_state option" where
  "gen_dec_table st =
     (let st = st\<lparr>decoding_table := (decoding_table st)[0 := 0, 1 := 1]\<rparr> in
      Option.bind (for_loop single_body [2..<24] (1, st)) (\<lambda>(temp, st).
      let st = st\<lparr>g_a := (g_a st)[1 := 1, 2 := 2]\<rparr> in
      Option.bind (comb_entry 2 st) (\<lambda>st.
      Option.bind (for_loop (comb_body 2) [1..<253] st) (\<lambda>st.
      let st = st\<lparr>g_a := (g_a st)[1 := 1, 2 := 2, 3 := 3]\<rparr> in
      Option.bind (comb_entry 3 st) (\<lambda>st.
      for_loop (comb_body 3) [1..<1771] st)))))"

text \<open>\<^verbatim>\<open>encode_golay\<close> and \<^verbatim>\<open>decode_golay\<close>; the \<^verbatim>\<open>debug\<close> output is left out.\<close>

definition encode_golay :: "clong \<Rightarrow> golay_state \<Rightarrow> (clong \<times> golay_state) option" where
  "encode_golay data st =
     Option.bind (if enc_initialized st then Some st
                  else map_option (\<lambda>st. st\<lparr>enc_initialized := True\<rparr>) (gen_enc_table st)) (\<lambda>st.
     if unat data < length (encoding_table st)
     then let c = encoding_table st ! unat data in Some (c, st\<lparr>g_codeword := c\<rparr>)
     else None)"

definition decode_golay :: "clong \<Rightarrow> golay_state \<Rightarrow> (clong \<times> golay_state) option" where
  "decode_golay codeword st =
     Option.bind (if dec_initialized st then Some st
                  else map_option (\<lambda>st. st\<lparr>dec_initialized := True\<rparr>) (gen_dec_table st)) (\<lambda>st.
     Option.bind (get_syndrome codeword) (\<lambda>s.
     if unat s < length (decoding_table st)
     then Some (signed_drop_bit 11 (codeword XOR decoding_table st ! unat s), st) else None))"

section \<open>The syndrome is the remainder modulo the generator polynomial\<close>

text \<open>
  Reference definition: cancel the bits \<open>11 + k\<close> from the highest down. One round of the C
  loop does one such cancellation and skips the bits that are already zero.
\<close>

primrec poly_rem :: "nat \<Rightarrow> clong \<Rightarrow> clong" where
  "poly_rem 0 p = p"
| "poly_rem (Suc k) p = poly_rem k (if bit p (11 + k) then p XOR push_bit k GENPOL else p)"

lemma bit_GENPOL: "bit GENPOL i \<longleftrightarrow> i \<in> {0, 2, 4, 5, 6, 10, 11}"
proof (cases "i < 12")
  case True
  then have "i \<in> {0, 1, 2, 3, 4, 5, 6, 7, 8, 9, 10, 11}"
    by (simp add: less_Suc_eq numeral_eq_Suc)
  then show ?thesis by (auto simp: GENPOL_def)
next
  case False
  have "fits 12 GENPOL" by (simp add: fits_iff_unat GENPOL_def)
  with False show ?thesis by (auto simp: fits_def)
qed

lemma fits_GENPOL: "fits 12 GENPOL"
  by (auto simp: fits_def bit_GENPOL)

lemma fits_push_GENPOL: "fits (12 + k) (push_bit k GENPOL)"
  by (auto simp: fits_def bit_push_bit_iff bit_GENPOL)

lemma fits_reduce:
  assumes "fits (12 + k) p" and "bit p (11 + k)" and "k < 52"
  shows "fits (11 + k) (p XOR push_bit k GENPOL)"
proof (rule fits_Suc)
  show "fits (Suc (11 + k)) (p XOR push_bit k GENPOL)"
    using assms(1) fits_push_GENPOL[of k] by (auto simp: fits_def bit_xor_iff)
  have "bit (push_bit k GENPOL) (11 + k)"
    using assms(3) by (simp add: bit_push_bit_iff bit_GENPOL)
  with assms(2) show "\<not> bit (p XOR push_bit k GENPOL) (11 + k)"
    by (simp add: bit_xor_iff)
qed

lemma poly_rem_xor: "poly_rem k (p XOR q) = poly_rem k p XOR poly_rem k q"
proof (induction k arbitrary: p q)
  case (Suc k)
  have "(p XOR q) XOR (push_bit k GENPOL) = (p XOR push_bit k GENPOL) XOR q"
    and "(p XOR push_bit k GENPOL) XOR (q XOR push_bit k GENPOL) = p XOR q"
    and "p XOR q XOR push_bit k GENPOL = p XOR (q XOR push_bit k GENPOL)"
    by (simp_all add: bit_eq_iff bit_xor_iff) blast+
  then show ?case by (simp add: bit_xor_iff flip: Suc.IH) (simp add: Suc.IH[symmetric] ac_simps)
qed simp

lemma poly_rem_0 [simp]: "poly_rem k 0 = 0"
  by (induction k) auto

lemma poly_rem_fits: "fits (11 + k) p \<Longrightarrow> k \<le> 52 \<Longrightarrow> fits 11 (poly_rem k p)"
proof (induction k arbitrary: p)
  case (Suc k)
  then show ?case
    using fits_reduce[of k p] fits_Suc[of "11 + k" p] by auto
qed simp

lemma poly_rem_id: "fits 11 p \<Longrightarrow> poly_rem k p = p"
  by (induction k) (auto simp: fits_def)

section \<open>The loops compute it\<close>

lemma MASK12_mask: "MASK12 = push_bit 11 (mask 21)"
  by (simp add: MASK12_def mask_eq_exp_minus_1 push_bit_eq_mult)

lemma and_MASK12_0: "fits 32 p \<Longrightarrow> p AND MASK12 = 0 \<longleftrightarrow> fits 11 p"
proof -
  assume p: "fits 32 p"
  have "bit (p AND MASK12) i \<longleftrightarrow> bit p i \<and> 11 \<le> i" for i
    using p by (cases "i < 32") (auto simp: MASK12_mask bit_and_iff bit_push_bit_iff bit_mask_iff fits_def)
  then have "p AND MASK12 = 0 \<longleftrightarrow> (\<forall>i. \<not> (bit p i \<and> 11 \<le> i))"
    by (metis bit_0_eq bot_apply bot_bool_def bit_word_eqI)
  then show ?thesis by (auto simp: fits_def)
qed

lemma find_aux_top:
  assumes "bit p n" and "n < 64" and "\<And>i. n < i \<Longrightarrow> i \<le> m \<Longrightarrow> \<not> bit p i" and "n \<le> m" and "m < 64"
  shows "find_aux (2 ^ m) p = Some (2 ^ n)"
  using assms(4,5,3)
proof (induction "m - n" arbitrary: m)
  case 0
  then have "m = n" by simp
  moreover have "2 ^ n AND p \<noteq> 0"
    using assms(1,2) by (simp add: and_two_power_eq_0)
  ultimately show ?case by (simp add: find_aux.simps)
next
  case (Suc d)
  then have n: "n < m" by simp
  have z: "2 ^ m AND p = 0"
    using Suc.prems n by (simp add: and_two_power_eq_0)
  obtain m' where m': "m = Suc m'" using n by (cases m) auto
  have "drop_bit 1 (2 ^ m) = (2 ^ m' :: clong)"
    using Suc.prems m' drop_bit_two_power[of 1 m, where 'a = 64] by simp
  moreover have "find_aux (2 ^ m') p = Some (2 ^ n)"
    using Suc.hyps Suc.prems m' n by (intro Suc.hyps(1)) auto
  ultimately show ?case
    using z by (subst find_aux.simps) simp
qed

lemma div_X11_mult: "n \<le> 11 \<Longrightarrow> 2 ^ (11 + n) div X11 * GENPOL = push_bit n GENPOL"
proof -
  assume n: "n \<le> 11"
  have "X11 = 2 ^ 11" by (simp add: X11_def)
  then have "2 ^ (11 + n) div X11 = drop_bit 11 ((2 ^ (11 + n) :: clong))"
    by (simp add: drop_bit_eq_div)
  also have "\<dots> = 2 ^ n"
    using n by (simp add: drop_bit_two_power)
  finally show ?thesis by (simp add: push_bit_eq_mult)
qed

lemma syndrome_loop_eq:
  "fits (11 + k) p \<Longrightarrow> k \<le> m \<Longrightarrow> m \<le> 12 \<Longrightarrow> 1 \<le> m \<Longrightarrow>
   syndrome_loop p (2 ^ (10 + m)) = Some (poly_rem k p)"
proof (induction k arbitrary: p m)
  case 0
  then show ?case
    by (simp add: syndrome_loop.simps and_MASK12_0 fits_mono)
next
  case (Suc k)
  show ?case
  proof (cases "bit p (11 + k)")
    case True
    have f: "find_aux (2 ^ (10 + m)) p = Some (2 ^ (11 + k))"
      using Suc.prems True by (intro find_aux_top) (auto simp: fits_def)
    have d: "2 ^ (11 + k) div X11 * GENPOL = push_bit k GENPOL"
      using Suc.prems by (intro div_X11_mult) simp
    have e: "10 + Suc k = 11 + k" by simp
    have ne: "p AND MASK12 \<noteq> 0"
      using True Suc.prems fits_mono[of "11 + Suc k" p 32]
      by (simp add: and_MASK12_0) (auto simp: fits_def intro!: exI[of _ "11 + k"])
    have "syndrome_loop p (2 ^ (10 + m))
        = syndrome_loop (p XOR 2 ^ (11 + k) div X11 * GENPOL) (2 ^ (11 + k))"
      by (subst syndrome_loop.simps) (simp only: ne if_False f Option.bind.bind_lunit)
    also have "\<dots> = syndrome_loop (p XOR push_bit k GENPOL) (2 ^ (10 + Suc k))"
      by (simp only: d e)
    also have "\<dots> = Some (poly_rem k (p XOR push_bit k GENPOL))"
      using fits_reduce[of k p] Suc.prems True by (intro Suc.IH) auto
    finally show ?thesis by (simp only: True poly_rem.simps if_True)
  next
    case False
    with Suc.prems have "fits (11 + k) p" by (simp add: fits_Suc)
    then have "syndrome_loop p (2 ^ (10 + m)) = Some (poly_rem k p)"
      using Suc.prems by (intro Suc.IH) auto
    then show ?thesis by (simp only: False poly_rem.simps if_False)
  qed
qed

definition syn :: "clong \<Rightarrow> clong" where "syn p = poly_rem 12 p"

lemma get_syndrome_eq:
  assumes "fits 23 p"
  shows "get_syndrome p = Some (syn p)"
proof (cases "X11 \<le>s p")
  case True
  have "X22 = 2 ^ (10 + 12)" by (simp add: X22_def push_bit_eq_mult)
  with True show ?thesis
    using syndrome_loop_eq[of 12 p 12] assms by (simp add: get_syndrome_def syn_def)
next
  case False
  have "sint p = uint p"
    using assms by (intro sint_nonneg_fits) (rule fits_mono, auto)
  with False have "uint p < 2048"
    by (simp add: word_sle_eq X11_def)
  then have "unat p < 2 ^ 11"
    by (simp add: nat_less_iff flip: nat_uint_eq)
  then have "fits 11 p" by (simp add: fits_iff_unat)
  with False show ?thesis by (simp add: get_syndrome_def syn_def poly_rem_id)
qed

text \<open>
  Beyond bit 22 the search for the leading bit misses the set bit and shifts \<open>aux\<close> to zero,
  where it stays: the loop does not return.
\<close>

lemma find_aux_Some:
  assumes "find_aux aux p = Some a"
  shows "(\<exists>k. a = drop_bit k aux) \<and> a AND p \<noteq> 0"
proof (rule find_aux.raw_induct[where P = "\<lambda>aux p a. (\<exists>k. a = drop_bit k aux) \<and> a AND p \<noteq> 0", OF _ assms])
  fix f aux p a
  assume IH: "\<And>aux p a. f aux p = Some a \<Longrightarrow> (\<exists>k. a = drop_bit k aux) \<and> a AND p \<noteq> 0"
    and eq: "(if aux AND p = 0 then f (drop_bit 1 aux) p else Some aux) = Some a"
  show "(\<exists>k. a = drop_bit k aux) \<and> a AND p \<noteq> 0"
  proof (cases "aux AND p = 0")
    case True
    with eq IH obtain k where "a = drop_bit k (drop_bit 1 aux)" "a AND p \<noteq> 0" by fastforce
    then show ?thesis by (metis drop_bit_drop_bit)
  next
    case False
    with eq show ?thesis by (auto intro: exI[of _ 0])
  qed
qed

lemma find_aux_two_power:
  assumes "find_aux (2 ^ j) p = Some a" and "j \<le> 22"
  shows "\<exists>j'\<le>22. a = 2 ^ j'"
proof -
  obtain k where k: "a = drop_bit k (2 ^ j)" and nz: "a AND p \<noteq> 0"
    using find_aux_Some[OF assms(1)] by blast
  have "k \<le> j"
  proof (rule ccontr)
    assume "\<not> k \<le> j"
    then have "a = 0" unfolding k by (intro bit_word_eqI) (auto simp: bit_drop_bit_eq bit_two_power)
    with nz show False by simp
  qed
  then show ?thesis using assms(2) k by (auto simp: drop_bit_two_power intro!: exI[of _ "j - k"])
qed

lemma cancel_fits_23: "j \<le> 22 \<Longrightarrow> fits 23 ((2 ^ j div X11) * GENPOL)"
proof (cases "11 \<le> j")
  case True
  assume "j \<le> 22"
  then show ?thesis
    using True div_X11_mult[of "j - 11"] fits_mono[OF fits_push_GENPOL[of "j - 11"], of 23] by simp
next
  case False
  have "X11 = 2 ^ 11" by (simp add: X11_def)
  then have "2 ^ j div X11 = drop_bit 11 (2 ^ j)" by (simp add: drop_bit_eq_div)
  also have "\<dots> = 0"
    using False by (intro bit_word_eqI) (auto simp: bit_drop_bit_eq bit_two_power)
  finally show ?thesis by (simp add: fits_def)
qed

lemma syndrome_loop_diverges:
  assumes "bit p i" and "23 \<le> i" and "i < 32" and "j \<le> 22"
  shows "syndrome_loop p (2 ^ j) = None"
proof (rule ccontr)
  assume "syndrome_loop p (2 ^ j) \<noteq> None"
  then obtain r where r: "syndrome_loop p (2 ^ j) = Some r" by blast
  have "\<not> (bit p i \<and> (\<exists>j\<le>22. (2 ^ j :: clong) = 2 ^ j))"
  proof (rule syndrome_loop.raw_induct[where P = "\<lambda>p aux r. \<not> (bit p i \<and> (\<exists>j\<le>22. aux = 2 ^ j))",
        OF _ r, THEN notI[OF notE]])
    fix f p aux r
    assume IH: "\<And>p aux r. f p aux = Some r \<Longrightarrow> \<not> (bit p i \<and> (\<exists>j\<le>22. aux = 2 ^ j))"
      and eq: "(if p AND MASK12 = 0 then Some p
        else Option.bind (find_aux aux p) (\<lambda>aux'. f (p XOR (aux' div X11) * GENPOL) aux')) = Some r"
    show "\<not> (bit p i \<and> (\<exists>j\<le>22. aux = 2 ^ j))"
    proof
      assume "bit p i \<and> (\<exists>j\<le>22. aux = 2 ^ j)"
      then obtain j where bp: "bit p i" and j: "j \<le> 22" "aux = 2 ^ j" by blast
      have "bit (p AND MASK12) i"
        using bp assms(2,3) by (auto simp: bit_and_iff MASK12_mask bit_push_bit_iff bit_mask_iff)
      then have "p AND MASK12 \<noteq> 0" by auto
      with eq obtain a where a: "find_aux aux p = Some a"
        and fa: "f (p XOR (a div X11) * GENPOL) a = Some r" by (auto split: bind_splits)
      from a j obtain j' where j': "j' \<le> 22" "a = 2 ^ j'" using find_aux_two_power by blast
      have "bit (p XOR (a div X11) * GENPOL) i"
        using bp cancel_fits_23[OF j'(1)] assms(2) j'(2) by (simp add: bit_xor_iff fits_def)
      with IH[OF fa] j' show False by blast
    qed
  qed (use assms in auto)
  with assms show False by blast
qed

section \<open>Error patterns and their syndromes\<close>

lemma syn_xor: "syn (p XOR q) = syn p XOR syn q"
  by (simp add: syn_def poly_rem_xor)

lemma syn_0 [simp]: "syn 0 = 0"
  by (simp add: syn_def)

lemma syn_fits: "fits 23 p \<Longrightarrow> fits 11 (syn p)"
  unfolding syn_def by (intro poly_rem_fits) (auto intro: fits_mono)

lemma syn_id: "fits 11 p \<Longrightarrow> syn p = p"
  by (simp add: syn_def poly_rem_id)

lemma unat_syn_less: "fits 23 p \<Longrightarrow> unat (syn p) < 2048"
  using syn_fits[of p] by (simp add: fits_iff_unat)

text \<open>A pattern is given by the positions of its bits, in increasing order.\<close>

primrec pos_word :: "nat list \<Rightarrow> clong" where
  "pos_word [] = 0"
| "pos_word (i # is) = 2 ^ i XOR pos_word is"

lemma bit_pos_word:
  "distinct ps \<Longrightarrow> set ps \<subseteq> {..<64} \<Longrightarrow> bit (pos_word ps) i \<longleftrightarrow> i \<in> set ps"
  by (induction ps) (auto simp: bit_xor_iff bit_two_power)

lemma fits_pos_word: "set ps \<subseteq> {..<23} \<Longrightarrow> fits 23 (pos_word ps)"
  by (induction ps) (auto simp: fits_def bit_xor_iff bit_two_power)

definition error_positions :: "nat list list" where
  "error_positions = concat (map (\<lambda>k. kcomb k [0..<23]) [0, 1, 2, 3])"

lemma error_positions_bounds:
  "ps \<in> set error_positions \<Longrightarrow> set ps \<subseteq> {..<23} \<and> distinct ps"
  using kcomb_elem[where P = "(<)" and xs = "[0..<23]" and ys = ps]
  by (fastforce simp: error_positions_def strict_sorted_iff)

definition hamming_weight :: "clong \<Rightarrow> nat" where
  "hamming_weight w = length (filter (bit w) [0..<64])"

lemma weight_filter: "fits 23 e \<Longrightarrow> hamming_weight e = length (filter (bit e) [0..<23])"
proof -
  assume e: "fits 23 e"
  have "[0..<64] = [0..<23] @ [23..<23 + 41]"
    using upt_add_eq_append[of 0 23 41] by (simp only: numeral_plus_numeral le0 semiring_norm)
  moreover have "filter (bit e) [23..<23 + 41] = []"
    using e by (intro filter_False) (auto simp: fits_def)
  ultimately show ?thesis by (simp only: hamming_weight_def filter_append append_Nil2)
qed

lemma low_weight_positions:
  assumes "length (filter P [0..<23]) \<le> 3"
  shows "filter P [0..<23] \<in> set error_positions"
proof -
  have "n \<le> 3 \<Longrightarrow> n \<in> {0, 1, 2, 3}" for n :: nat
    by auto
  then have "length (filter P [0..<23]) \<in> {0, 1, 2, 3}" using assms .
  then show ?thesis
    unfolding error_positions_def using filter_in_kcomb[of P "[0..<23]"] by auto
qed

lemma positions_of:
  assumes "fits 23 e"
  shows "pos_word (filter (bit e) [0..<23]) = e"
proof (rule bit_word_eqI)
  fix i assume "i < LENGTH(64)"
  have "bit (pos_word (filter (bit e) [0..<23])) i \<longleftrightarrow> i \<in> set (filter (bit e) [0..<23])"
    by (rule bit_pos_word) auto
  then show "bit (pos_word (filter (bit e) [0..<23])) i = bit e i"
    using assms by (auto simp: fits_def not_le)
qed

lemma low_weight_pattern:
  assumes "fits 23 e" and "hamming_weight e \<le> 3"
  shows "\<exists>ps\<in>set error_positions. e = pos_word ps"
proof (rule bexI)
  show "e = pos_word (filter (bit e) [0..<23])" using assms(1) by (simp add: positions_of)
qed (use low_weight_positions[of "bit e"] assms in \<open>simp add: weight_filter\<close>)

lemma hamming_weight_pos_word:
  "ps \<in> set error_positions \<Longrightarrow> hamming_weight (pos_word ps) \<le> 3"
proof -
  assume ps: "ps \<in> set error_positions"
  then have b: "set ps \<subseteq> {..<23}" "distinct ps" by (auto dest: error_positions_bounds)
  have "length ps \<le> 3" using ps kcomb_elem by (fastforce simp: error_positions_def)
  have "hamming_weight (pos_word ps) = card (set (filter (bit (pos_word ps)) [0..<64]))"
    by (simp only: hamming_weight_def distinct_card distinct_filter distinct_upt)
  also have "set (filter (bit (pos_word ps)) [0..<64]) = set ps"
  proof -
    have "bit (pos_word ps) i \<longleftrightarrow> i \<in> set ps" for i
      using b by (intro bit_pos_word) auto
    then show ?thesis using b by auto
  qed
  finally show ?thesis using b \<open>length ps \<le> 3\<close> by (simp add: distinct_card)
qed

text \<open>The syndromes of the 23 single errors, and the same as lists of bits.\<close>

lemma poly_rem_numeral:
  "poly_rem (numeral n) p = poly_rem (pred_numeral n)
     (if bit p (11 + pred_numeral n) then p XOR push_bit (pred_numeral n) GENPOL else p)"
  by (simp add: numeral_eq_Suc)

lemma syn_singles:
    "syn 0x800 = 1141"
    "syn 0x1000 = 1183"
    "syn 0x2000 = 1355"
    "syn 0x4000 = 1763"
    "syn 0x8000 = 435"
    "syn 0x10000 = 870"
    "syn 0x20000 = 1740"
    "syn 0x40000 = 493"
    "syn 0x80000 = 986"
    "syn 0x100000 = 1972"
    "syn 0x200000 = 797"
    "syn 0x400000 = 1594"
  unfolding syn_def by (simp_all add: poly_rem_numeral GENPOL_def)

definition bits11 :: "clong \<Rightarrow> bool list" where
  "bits11 w = map (bit w) [0..<11]"

fun xor_list :: "bool list \<Rightarrow> bool list \<Rightarrow> bool list" where
  "xor_list (x # xs) (y # ys) = (if x then \<not> y else y) # xor_list xs ys"
| "xor_list _ _ = []"

definition single_bits :: "bool list list" where
  "single_bits = [
     [True, False, False, False, False, False, False, False, False, False, False],
     [False, True, False, False, False, False, False, False, False, False, False],
     [False, False, True, False, False, False, False, False, False, False, False],
     [False, False, False, True, False, False, False, False, False, False, False],
     [False, False, False, False, True, False, False, False, False, False, False],
     [False, False, False, False, False, True, False, False, False, False, False],
     [False, False, False, False, False, False, True, False, False, False, False],
     [False, False, False, False, False, False, False, True, False, False, False],
     [False, False, False, False, False, False, False, False, True, False, False],
     [False, False, False, False, False, False, False, False, False, True, False],
     [False, False, False, False, False, False, False, False, False, False, True],
     [True, False, True, False, True, True, True, False, False, False, True],
     [True, True, True, True, True, False, False, True, False, False, True],
     [True, True, False, True, False, False, True, False, True, False, True],
     [True, True, False, False, False, True, True, True, False, True, True],
     [True, True, False, False, True, True, False, True, True, False, False],
     [False, True, True, False, False, True, True, False, True, True, False],
     [False, False, True, True, False, False, True, True, False, True, True],
     [True, False, True, True, False, True, True, True, True, False, False],
     [False, True, False, True, True, False, True, True, True, True, False],
     [False, False, True, False, True, True, False, True, True, True, True],
     [True, False, True, True, True, False, False, False, True, True, False],
     [False, True, False, True, True, True, False, False, False, True, True]]"

lemma xor_list_map: "xor_list (map f xs) (map g xs) = map (\<lambda>x. f x \<noteq> g x) xs"
  by (induction xs) auto

lemma bits11_xor: "bits11 (v XOR w) = xor_list (bits11 v) (bits11 w)"
  by (simp add: bits11_def xor_list_map bit_xor_iff)

lemma single_bits_eq: "i < 23 \<Longrightarrow> single_bits ! i = bits11 (syn (2 ^ i))"
proof -
  assume "i < 23"
  then have "i \<in> {0,1,2,3,4,5,6,7,8,9,10} \<or> i \<in> {11,12,13,14,15,16,17,18,19,20,21,22}"
    by (simp, presburger)
  then show ?thesis
  proof
    assume "i \<in> {0,1,2,3,4,5,6,7,8,9,10}"
    moreover from this have "syn (2 ^ i) = 2 ^ i"
      by (intro syn_id) (auto simp: fits_iff_unat)
    ultimately show ?thesis by (auto simp: single_bits_def bits11_def upt_rec bit_two_power)
  next
    assume "i \<in> {11,12,13,14,15,16,17,18,19,20,21,22}"
    then show ?thesis
      by (elim insertE emptyE) (simp_all add: single_bits_def bits11_def upt_rec syn_singles)
  qed
qed

section \<open>The minimum distance is seven\<close>

text \<open>
  A code word is determined by its data bits, and its redundant bits are the sum of the
  syndromes of the data bits. \<open>low_sums n acc rs\<close> checks by a depth-first search that every sum
  of \<open>k \<le> n\<close> of the rows \<open>rs\<close> has, added to \<open>acc\<close>, a weight above \<open>n - k\<close>.
\<close>

fun at_least :: "nat \<Rightarrow> bool list \<Rightarrow> bool" where
  "at_least 0 bs = True"
| "at_least (Suc n) [] = False"
| "at_least (Suc n) (b # bs) = (if b then at_least n bs else at_least (Suc n) bs)"

fun low_sums :: "nat \<Rightarrow> bool list \<Rightarrow> bool list list \<Rightarrow> bool"
  and low_sums_with :: "nat \<Rightarrow> bool list \<Rightarrow> bool list list \<Rightarrow> bool" where
  "low_sums 0 acc rs = True"
| "low_sums (Suc n) acc [] = True"
| "low_sums (Suc n) acc (r # rs) = (low_sums (Suc n) acc rs \<and> low_sums_with n (xor_list acc r) rs)"
| "low_sums_with n acc rs = (at_least (Suc n) acc \<and> low_sums n acc rs)"

lemma at_least_weight: "at_least n bs \<longleftrightarrow> n \<le> length (filter id bs)"
  by (induction n bs rule: at_least.induct) auto

lemma low_sums_sound:
  "low_sums n acc rs \<Longrightarrow> ys \<in> set (subseqs rs) \<Longrightarrow> ys \<noteq> [] \<Longrightarrow> length ys \<le> n \<Longrightarrow>
   n < length (filter id (foldl xor_list acc ys)) + length ys"
proof (induction n arbitrary: acc rs ys)
  case (Suc n)
  note outer = Suc.IH
  show ?case using Suc.prems
  proof (induction rs arbitrary: ys)
    case (Cons r rs)
    show ?case
    proof (cases "ys \<in> set (subseqs rs)")
      case True
      with Cons show ?thesis by simp
    next
      case False
      with Cons.prems obtain zs where zs: "ys = r # zs" "zs \<in> set (subseqs rs)"
        by (auto simp: Let_def)
      from Cons.prems have "at_least (Suc n) (xor_list acc r)" "low_sums n (xor_list acc r) rs" by auto
      with zs Cons.prems outer[of "xor_list acc r" rs zs] show ?thesis
        by (cases "zs = []") (auto simp: at_least_weight id_def)
    qed
  qed simp
qed simp

lemma low_sums_rows: "low_sums 6 (replicate 11 False) (drop 11 single_bits)"
  by code_simp

text \<open>The high bits of a word with syndrome zero are its data, the low bits their redundancy.\<close>

lemma foldl_xor_list_bits:
  assumes "set ps \<subseteq> {..<23}"
  shows "foldl xor_list (bits11 v) (map (\<lambda>i. single_bits ! i) ps) = bits11 (v XOR syn (pos_word ps))"
  using assms
proof (induction ps arbitrary: v)
  case (Cons i ps)
  then have "foldl xor_list (bits11 v) (map ((!) single_bits) (i # ps))
      = foldl xor_list (bits11 (v XOR syn (2 ^ i))) (map ((!) single_bits) ps)"
    by (simp add: single_bits_eq bits11_xor)
  also have "\<dots> = bits11 ((v XOR syn (2 ^ i)) XOR syn (pos_word ps))"
    using Cons.prems by (intro Cons.IH) auto
  finally show ?case by (simp add: syn_xor ac_simps)
qed simp

lemma map_filter_in_subseqs: "map f (filter P xs) \<in> set (subseqs (map f xs))"
  by (induction xs) (auto simp: Let_def)

lemma pos_word_append: "pos_word (ps @ qs) = pos_word ps XOR pos_word qs"
  by (induction ps) (auto simp: ac_simps)

lemma minimum_weight:
  assumes "fits 23 c" and "syn c = 0" and "c \<noteq> 0"
  shows "7 \<le> hamming_weight c"
proof -
  define ls where "ls = filter (bit c) [0..<11]"
  define ps where "ps = filter (bit c) [11..<23]"
  have "[0..<23] = [0..<11] @ [11..<23::nat]"
    using upt_add_eq_append[of 0 11 12] by simp
  then have split: "filter (bit c) [0..<23] = ls @ ps"
    by (simp only: ls_def ps_def filter_append)
  have c: "c = pos_word ls XOR pos_word ps"
    using positions_of[OF assms(1)] by (simp only: split pos_word_append)
  have bl: "bit (pos_word ls) i \<longleftrightarrow> i \<in> set ls" for i
    by (rule bit_pos_word) (auto simp: ls_def)
  then have "fits 11 (pos_word ls)" by (auto simp: fits_def ls_def)
  then have sl: "syn (pos_word ls) = pos_word ls" by (rule syn_id)
  have "syn (pos_word ls XOR pos_word ps) = 0" using assms(2) by (simp only: c[symmetric])
  then have low: "syn (pos_word ps) = pos_word ls"
    by (simp add: syn_xor sl word_xor_eq_0)
  have "bits11 (pos_word ls) = map (bit c) [0..<11]"
    by (simp add: bits11_def bl) (simp add: ls_def)
  then have wl: "length (filter id (bits11 (pos_word ls))) = length ls"
    by (simp add: ls_def filter_map comp_def)
  have "hamming_weight c = length ls + length ps"
    using assms(1) split by (simp add: weight_filter)
  moreover have "ps \<noteq> []"
    using low c assms(3) by auto
  moreover have "6 < length ls + length ps" if "length ps \<le> 6"
  proof -
    have rows: "drop 11 single_bits = map ((!) single_bits) [11..<23]"
      by (simp add: single_bits_def upt_rec)
    have "map ((!) single_bits) ps \<in> set (subseqs (drop 11 single_bits))"
      unfolding rows ps_def by (rule map_filter_in_subseqs)
    then have "6 < length (filter id (foldl xor_list (replicate 11 False) (map ((!) single_bits) ps)))
        + length (map ((!) single_bits) ps)"
      using low_sums_rows that \<open>ps \<noteq> []\<close> by (intro low_sums_sound) auto
    moreover have "replicate 11 False = bits11 0"
      by (simp add: bits11_def list_eq_iff_nth_eq)
    moreover have "set ps \<subseteq> {..<23}" by (auto simp: ps_def)
    then have "foldl xor_list (bits11 0) (map ((!) single_bits) ps) = bits11 (pos_word ls)"
      by (simp only: foldl_xor_list_bits xor.left_neutral low)
    ultimately show ?thesis by (simp only: wl length_map)
  qed
  ultimately show ?thesis by linarith
qed

lemma weight_xor_le: "hamming_weight (v XOR w) \<le> hamming_weight v + hamming_weight w"
proof -
  have "length (filter (bit (v XOR w)) xs) \<le> length (filter (bit v) xs) + length (filter (bit w) xs)" for xs
    by (induction xs) (auto simp: bit_xor_iff)
  then show ?thesis by (simp only: hamming_weight_def)
qed

lemma syn_inj_low_weight:
  assumes "fits 23 v" "fits 23 w" "hamming_weight v \<le> 3" "hamming_weight w \<le> 3" "syn v = syn w"
  shows "v = w"
proof (rule ccontr)
  assume "v \<noteq> w"
  then have "v XOR w \<noteq> 0" by (simp add: word_xor_eq_0)
  then have "7 \<le> hamming_weight (v XOR w)"
    using assms by (intro minimum_weight) (auto simp: syn_xor)
  with weight_xor_le[of v w] assms show False by linarith
qed

lemma distinct_error_positions: "distinct error_positions"
proof -
  have "distinct (kcomb k [0..<23])" for k by (simp add: distinct_kcomb)
  moreover have "set (kcomb j [0..<23]) \<inter> set (kcomb k [0..<23]) = {}" if "j \<noteq> k" for j k :: nat
    using that kcomb_elem by (metis disjoint_iff)
  ultimately show ?thesis
    by (simp only: error_positions_def list.map concat.simps append_Nil2 distinct_append set_append
        Int_Un_distrib) simp
qed

lemma pos_word_inj: "inj_on pos_word (set error_positions)"
proof (rule inj_onI)
  fix ps qs assume ps: "ps \<in> set error_positions" and qs: "qs \<in> set error_positions"
    and eq: "pos_word ps = pos_word qs"
  have bits: "bit (pos_word ps) i \<longleftrightarrow> i \<in> set ps" if "ps \<in> set error_positions" for ps i
    using that error_positions_bounds by (intro bit_pos_word) fastforce+
  have "set ps = set qs" using bits[OF ps] bits[OF qs] eq by auto
  moreover have "sorted_wrt (<) ps" "sorted_wrt (<) qs"
    using ps qs kcomb_elem[where P = "(<)" and xs = "[0..<23]"] by (auto simp: error_positions_def)
  ultimately show "ps = qs" by (simp add: strict_sorted_equal)
qed

lemma distinct_syndromes: "distinct (map (\<lambda>ps. unat (syn (pos_word ps))) error_positions)"
  unfolding distinct_map
proof (intro conjI inj_onI distinct_error_positions)
  fix ps qs assume e: "ps \<in> set error_positions" "qs \<in> set error_positions"
    and "unat (syn (pos_word ps)) = unat (syn (pos_word qs))"
  then have "syn (pos_word ps) = syn (pos_word qs)" by (simp only: word_unat_eq_iff)
  moreover have "fits 23 (pos_word ps)" "fits 23 (pos_word qs)"
    using e by (simp_all add: error_positions_bounds fits_pos_word)
  ultimately have "pos_word ps = pos_word qs"
    using e hamming_weight_pos_word syn_inj_low_weight by metis
  then show "ps = qs" by (rule inj_onD[OF pos_word_inj]) (fact e)+
qed

section \<open>The decoding table\<close>

definition dec_store :: "clong list \<Rightarrow> clong \<Rightarrow> clong list" where
  "dec_store t e = t[unat (syn e) := e]"

lemma length_dec_store [simp]: "length (dec_store t e) = length t"
  by (simp add: dec_store_def)

lemma length_foldl_dec_store [simp]: "length (foldl dec_store t es) = length t"
  by (induction es arbitrary: t) auto

lemma foldl_dec_store:
  "foldl dec_store t es = foldl (\<lambda>t (i, v). t[i := v]) t (map (\<lambda>e. (unat (syn e), e)) es)"
  by (induction es arbitrary: t) (auto simp: dec_store_def)

definition corrects :: "clong list \<Rightarrow> bool" where
  "corrects t \<longleftrightarrow> length t = 2048 \<and>
     (\<forall>ps\<in>set error_positions. t ! unat (syn (pos_word ps)) = pos_word ps)"

lemma foldl_dec_store_corrects:
  assumes "length t = 2048"
  shows "corrects (foldl dec_store t (map pos_word error_positions))"
proof -
  have "foldl dec_store t (map pos_word error_positions) ! unat (syn (pos_word ps)) = pos_word ps"
    if "ps \<in> set error_positions" for ps
    unfolding foldl_dec_store
  proof (rule foldl_list_update_nth)
    show "distinct (map fst (map (\<lambda>e. (unat (syn e), e)) (map pos_word error_positions)))"
      using distinct_syndromes by (simp add: comp_def)
    show "unat (syn (pos_word ps)) < length t"
      using that error_positions_bounds assms by (auto intro: unat_syn_less fits_pos_word)
  qed (use that in auto)
  then show ?thesis using assms by (simp add: corrects_def)
qed

lemma dec_entry_eq:
  "fits 23 e \<Longrightarrow> length (decoding_table st) = 2048 \<Longrightarrow>
   dec_entry e st = Some (st\<lparr>decoding_table := dec_store (decoding_table st) e\<rparr>)"
  by (simp add: dec_entry_def get_syndrome_eq store_def unat_syn_less dec_store_def)

lemma single_loop:
  assumes "n \<le> 22" and "length (decoding_table st) = 2048"
  shows "for_loop single_body [2..<2 + n] (1, st)
    = Some (2 ^ n, st\<lparr>decoding_table := foldl dec_store (decoding_table st) (map (\<lambda>i. 2 ^ i) [1..<Suc n])\<rparr>)"
  using assms(1)
proof (induction n)
  case (Suc n)
  have "fits 23 (2 ^ Suc n :: clong)"
    using Suc.prems by (auto simp: fits_def bit_two_power simp del: power_Suc)
  then have body: "single_body (2 + n) (2 ^ n, st\<lparr>decoding_table := t\<rparr>)
      = Some (2 ^ Suc n, st\<lparr>decoding_table := dec_store t (2 ^ Suc n)\<rparr>)" if "length t = 2048" for t
    using that by (simp add: single_body_def dec_entry_eq mult.commute Let_def)
  have "[2..<2 + Suc n] = [2..<2 + n] @ [2 + n]" and "[1..<Suc (Suc n)] = [1..<Suc n] @ [Suc n]"
    by simp_all
  then show ?case
    using Suc.IH Suc.prems body assms(2) by (simp only: for_loop_append) simp
qed simp

primrec comb_seq :: "nat \<Rightarrow> nat \<Rightarrow> int list \<Rightarrow> int list list option" where
  "comb_seq r 0 a = Some []"
| "comb_seq r (Suc k) a =
     Option.bind (nextcomb 23 r a) (\<lambda>a'. map_option ((#) a') (comb_seq r k a'))"

lemma comb_loop:
  assumes "comb_seq r k (g_a st) = Some as"
    and "\<forall>a\<in>set as. arr2int a r = Some (val a) \<and> fits 23 (val a)"
    and "length (decoding_table st) = 2048"
  shows "for_loop (comb_body r) [m..<m + k] st
    = Some (st\<lparr>g_a := last (g_a st # as),
        decoding_table := foldl dec_store (decoding_table st) (map val as)\<rparr>)"
  using assms
proof (induction k arbitrary: st as m)
  case (Suc k)
  then obtain a as' where a: "nextcomb 23 r (g_a st) = Some a" "comb_seq r k a = Some as'" "as = a # as'"
    by (auto split: bind_splits)
  let ?st = "st\<lparr>g_a := a, decoding_table := dec_store (decoding_table st) (val a)\<rparr>"
  have body: "comb_body r m st = Some ?st"
    using Suc.prems a by (simp add: comb_body_def comb_entry_def dec_entry_eq)
  have "for_loop (comb_body r) [Suc m..<Suc m + k] ?st
      = Some (?st\<lparr>g_a := last (g_a ?st # as'),
          decoding_table := foldl dec_store (decoding_table ?st) (map val as')\<rparr>)"
    using Suc.prems a by (intro Suc.IH) auto
  moreover have "[m..<m + Suc k] = m # [Suc m..<Suc m + k]" by (simp add: upt_conv_Cons)
  ultimately show ?case using body a(3) by simp
qed simp

text \<open>The arrays the generator walks through are the combinations in lexicographic order.\<close>

lemma shift_loop_eq: "shift_loop n m = push_bit n m"
  by (induction n arbitrary: m) (auto simp: push_bit_push_bit)

definition comb_array :: "int list \<Rightarrow> nat list \<Rightarrow> int list" where
  "comb_array pad ps = 0 # map (\<lambda>i. int i + 1) ps @ pad"

lemma arr2int_comb_array:
  assumes "distinct ps" and "set ps \<subseteq> {..<23}"
  shows "arr2int (comb_array pad ps) (length ps) = Some (pos_word ps)"
proof -
  have "for_loop (arr2int_body (comb_array pad ps)) [1..<Suc n] 0 = Some (pos_word (take n ps))"
    if "n \<le> length ps" for n
    using that
  proof (induction n)
    case (Suc n)
    have nth: "comb_array pad ps ! Suc n = int (ps ! n) + 1"
      using Suc.prems by (simp add: comb_array_def nth_append)
    have "ps ! n \<in> set ps" using Suc.prems by simp
    then have p: "ps ! n < 23" using assms(2) by blast
    have "bit (pos_word (take n ps)) (ps ! n) \<longleftrightarrow> ps ! n \<in> set (take n ps)"
      using assms by (intro bit_pos_word) (auto dest: in_set_takeD)
    moreover have "ps ! n \<notin> set (take n ps)"
      using distinct_take[OF assms(1), of "Suc n"] Suc.prems
      by (simp add: take_Suc_conv_app_nth)
    ultimately have "pos_word (take n ps) + 2 ^ (ps ! n) = pos_word (take n ps) XOR 2 ^ (ps ! n)"
      using p by (intro add_two_power_eq_xor) auto
    then have "pos_word (take n ps) + 2 ^ (ps ! n) = pos_word (take n ps @ [ps ! n])"
      by (simp only: pos_word_append pos_word.simps xor.right_neutral)
    moreover have "Suc n < length (comb_array pad ps)"
      using Suc.prems by (simp add: comb_array_def)
    ultimately have "arr2int_body (comb_array pad ps) (Suc n) (pos_word (take n ps))
        = Some (pos_word (take (Suc n) ps))"
      using nth p Suc.prems by (simp add: arr2int_body_def shift_loop_eq take_Suc_conv_app_nth)
    then show ?case using Suc by (simp add: upt_Suc_append del: upt_Suc)
  qed simp
  from this[of "length ps"] show ?thesis by (simp add: arr2int_def)
qed

lemma map_comb_array:
  "map (comb_array pad) (kcomb k [0..<23]) = map (\<lambda>xs. 0 # xs @ pad) (kcomb k [1..23])"
proof -
  have "[1..23] = map (\<lambda>i. int i + 1) [0..<23]"
    by (simp add: upto.simps upt_rec)
  then show ?thesis by (simp only: kcomb_map list.map_comp) (simp add: comb_array_def comp_def)
qed

lemma comb_seq_pairs:
  "comb_seq 2 252 [0, 1, 2, 0] = Some (tl (map (comb_array [0]) (kcomb 2 [0..<23])))"
  unfolding map_comb_array by code_simp

lemma comb_seq_triples:
  "comb_seq 3 1770 [0, 1, 2, 3] = Some (tl (map (comb_array []) (kcomb 3 [0..<23])))"
  unfolding map_comb_array by code_simp

lemma kcomb_positions:
  assumes "ps \<in> set (kcomb k [0..<23])"
  shows "length ps = k" "distinct ps" "set ps \<subseteq> {..<23}"
  using kcomb_elem[OF assms, of "(<)"] by (auto simp: strict_sorted_iff)

text \<open>One entry for the first combination and one loop for the others.\<close>

lemma comb_phase:
  assumes seq: "comb_seq r k (g_a st) = Some (tl (map (comb_array pad) (kcomb r [0..<23])))"
    and first: "g_a st = hd (map (comb_array pad) (kcomb r [0..<23]))"
    and ne: "kcomb r [0..<23] \<noteq> []"
    and len: "length (decoding_table st) = 2048"
  shows "Option.bind (comb_entry r st) (for_loop (comb_body r) [1..<1 + k])
    = Some (st\<lparr>g_a := last (map (comb_array pad) (kcomb r [0..<23])),
        decoding_table := foldl dec_store (decoding_table st) (map pos_word (kcomb r [0..<23]))\<rparr>)"
proof -
  let ?val = "\<lambda>a. the (arr2int a r)"
  have val: "arr2int (comb_array pad ps) r = Some (pos_word ps) \<and> fits 23 (pos_word ps)"
    if "ps \<in> set (kcomb r [0..<23])" for ps
    using that kcomb_positions[OF that] arr2int_comb_array[of ps pad] fits_pos_word by auto
  obtain p ps where k: "kcomb r [0..<23] = p # ps" using ne by (cases "kcomb r [0..<23]") auto
  let ?st = "st\<lparr>decoding_table := dec_store (decoding_table st) (pos_word p)\<rparr>"
  have e: "comb_entry r st = Some ?st"
    using val[of p] first len by (simp add: k comb_entry_def dec_entry_eq)
  have "for_loop (comb_body r) [1..<1 + k] ?st
      = Some (?st\<lparr>g_a := last (g_a ?st # map (comb_array pad) ps),
          decoding_table := foldl dec_store (decoding_table ?st) (map ?val (map (comb_array pad) ps))\<rparr>)"
    using seq val len by (intro comb_loop) (auto simp: k)
  moreover have "map ?val (map (comb_array pad) ps) = map pos_word ps"
    using val by (auto simp: k)
  ultimately have "for_loop (comb_body r) [1..<1 + k] ?st
      = Some (?st\<lparr>g_a := last (g_a ?st # map (comb_array pad) ps),
          decoding_table := foldl dec_store (decoding_table ?st) (map pos_word ps)\<rparr>)"
    by (simp only:)
  moreover have "g_a ?st # map (comb_array pad) ps = map (comb_array pad) (kcomb r [0..<23])"
    using first by (simp add: k)
  ultimately show ?thesis using e by (simp only: Option.bind.bind_lunit k) simp
qed

lemma gen_dec_table_corrects:
  assumes "length (decoding_table st) = 2048" and "g_a st = [0, 0, 0, 0]"
  shows "\<exists>st'. gen_dec_table st = Some st' \<and> corrects (decoding_table st') \<and>
    encoding_table st' = encoding_table st \<and> enc_initialized st' = enc_initialized st"
proof -
  let ?t0 = "(decoding_table st)[0 := 0, 1 := 1]"
  let ?t1 = "foldl dec_store ?t0 (map (\<lambda>i. 2 ^ i) [1..<23])"
  let ?t2 = "foldl dec_store ?t1 (map pos_word (kcomb 2 [0..<23]))"
  let ?t3 = "foldl dec_store ?t2 (map pos_word (kcomb 3 [0..<23]))"
  let ?k = "\<lambda>r pad. map (comb_array pad) (kcomb r [0..<23])"
  have s1: "for_loop single_body [2..<24] (1, st\<lparr>decoding_table := ?t0\<rparr>)
      = Some (2 ^ 22, st\<lparr>decoding_table := ?t1\<rparr>)"
    using single_loop[of 22 "st\<lparr>decoding_table := ?t0\<rparr>"] assms(1) by simp
  have ends: "hd (?k 2 [0]) = [0, 1, 2, 0]" "last (?k 2 [0]) = [0, 22, 23, 0]"
    "hd (?k 3 []) = [0, 1, 2, 3]" "kcomb 2 [0..<23] \<noteq> []" "kcomb 3 [0..<23] \<noteq> []"
    by code_simp+
  have s2: "Option.bind (comb_entry 2 (st\<lparr>decoding_table := ?t1, g_a := [0, 1, 2, 0]\<rparr>))
        (for_loop (comb_body 2) [1..<253])
      = Some (st\<lparr>decoding_table := ?t2, g_a := [0, 22, 23, 0]\<rparr>)"
    using comb_phase[of 2 252 "st\<lparr>decoding_table := ?t1, g_a := [0, 1, 2, 0]\<rparr>" "[0]"]
      comb_seq_pairs ends assms(1) by simp
  have s3: "Option.bind (comb_entry 3 (st\<lparr>decoding_table := ?t2, g_a := [0, 1, 2, 3]\<rparr>))
        (for_loop (comb_body 3) [1..<1771])
      = Some (st\<lparr>decoding_table := ?t3, g_a := last (?k 3 [])\<rparr>)"
    using comb_phase[of 3 1770 "st\<lparr>decoding_table := ?t2, g_a := [0, 1, 2, 3]\<rparr>" "[]"]
      comb_seq_triples ends assms(1) by simp
  have t3: "?t3 = foldl dec_store (decoding_table st) (map pos_word error_positions)"
  proof -
    have k1: "kcomb 1 [0..<23] = map (\<lambda>i. [i]) [0..<23]" by code_simp
    have u: "[0..<23] = 0 # [1..<23::nat]" by (simp add: upt_rec)
    have "map pos_word (kcomb 1 [0..<23]) = map (\<lambda>i. 2 ^ i) [0..<23]"
      by (simp only: k1 list.map_comp) (simp add: comp_def)
    also have "\<dots> = 1 # map (\<lambda>i. 2 ^ i) [1..<23]"
      by (simp only: u list.map power_0)
    finally have m1: "map pos_word (kcomb 1 [0..<23]) = 1 # map (\<lambda>i. 2 ^ i) [1..<23]" .
    have "?t0 = dec_store (dec_store (decoding_table st) 0) 1"
      by (simp add: dec_store_def syn_id fits_iff_unat)
    then show ?thesis
      by (simp only: error_positions_def list.map concat.simps map_append foldl_append m1
          kcomb.simps append_Nil2 foldl.simps pos_word.simps)
  qed
  have e1: "st\<lparr>decoding_table := t, g_a := (g_a (st\<lparr>decoding_table := t\<rparr>))[1 := 1, 2 := 2]\<rparr>
      = st\<lparr>decoding_table := t, g_a := [0, 1, 2, 0]\<rparr>" for t
    using assms(2) by simp
  have e2: "st\<lparr>decoding_table := t, g_a := [0, 22, 23, 0],
        g_a := (g_a (st\<lparr>decoding_table := t, g_a := [0, 22, 23, 0]\<rparr>))[1 := 1, 2 := 2, 3 := 3]\<rparr>
      = st\<lparr>decoding_table := t, g_a := [0, 1, 2, 3]\<rparr>" for t
    by simp
  have "gen_dec_table st = Some (st\<lparr>decoding_table := ?t3, g_a := last (?k 3 [])\<rparr>)"
    by (simp only: gen_dec_table_def Let_def s1 Option.bind.bind_lunit prod.case e1
        bind_assoc[symmetric] s2 e2 s3)
  moreover have "corrects ?t3"
    unfolding t3 using assms(1) by (rule foldl_dec_store_corrects)
  ultimately show ?thesis by simp
qed

section \<open>The encoding table\<close>

definition enc_word :: "clong \<Rightarrow> clong" where
  "enc_word d = push_bit 11 d + syn (push_bit 11 d)"

lemma fits_push_11: "fits 12 d \<Longrightarrow> fits 23 (push_bit 11 d)"
  by (auto simp: fits_def bit_push_bit_iff)

lemma enc_word_xor: "fits 12 d \<Longrightarrow> enc_word d = push_bit 11 d XOR syn (push_bit 11 d)"
  unfolding enc_word_def
proof (rule disjunctive_add_eq_xor, rule bit_word_eqI)
  fix i assume "fits 12 d"
  then have "fits 11 (syn (push_bit 11 d))" by (intro syn_fits fits_push_11)
  then show "bit (push_bit 11 d AND syn (push_bit 11 d)) i = bit 0 i"
    by (auto simp: bit_and_iff bit_push_bit_iff fits_def)
qed

lemma fits_enc_word: "fits 12 d \<Longrightarrow> fits 23 (enc_word d)"
  by (simp add: enc_word_xor fits_push_11 fits_xor fits_mono[OF syn_fits])

lemma syn_enc_word: "fits 12 d \<Longrightarrow> syn (enc_word d) = 0"
  by (simp add: enc_word_xor syn_xor syn_id syn_fits fits_push_11)

lemma drop_enc_word: "fits 12 d \<Longrightarrow> drop_bit 11 (enc_word d) = d"
proof (rule bit_word_eqI)
  fix i assume d: "fits 12 d" and i: "i < LENGTH(64)"
  have "fits 11 (syn (push_bit 11 d))" using d by (intro syn_fits fits_push_11)
  then show "bit (drop_bit 11 (enc_word d)) i = bit d i"
    using d i by (cases "i < 12", auto simp: enc_word_xor bit_drop_bit_eq bit_xor_iff bit_push_bit_iff fits_def)
qed

lemma gen_enc_loop:
  assumes "length t = 4096" and "n \<le> 4096"
  shows "for_loop gen_enc_body [0..<n] (st\<lparr>g_pattern := 0, encoding_table := t\<rparr>)
    = Some (st\<lparr>g_pattern := of_nat n,
        encoding_table := map (\<lambda>d. enc_word (of_nat d)) [0..<n] @ drop n t\<rparr>)"
  using assms(2)
proof (induction n)
  case (Suc n)
  have u: "unat (of_nat n :: clong) = n"
    using Suc.prems by (simp add: unat_of_nat)
  then have "fits 12 (of_nat n :: clong)" using Suc.prems by (simp add: fits_iff_unat)
  then have g: "get_syndrome (push_bit 11 (of_nat n)) = Some (syn (push_bit 11 (of_nat n)))"
    by (intro get_syndrome_eq fits_push_11)
  have "drop n t = t ! n # drop (Suc n) t" using assms(1) Suc.prems by (intro Cons_nth_drop_Suc[symmetric]) simp
  then have upd: "(map f [0..<n] @ drop n t)[n := v] = map f [0..<n] @ v # drop (Suc n) t" for f v
    by (simp add: list_update_append)
  have "gen_enc_body n (st\<lparr>g_pattern := of_nat n,
        encoding_table := map (\<lambda>d. enc_word (of_nat d)) [0..<n] @ drop n t\<rparr>)
      = Some (st\<lparr>g_pattern := of_nat (Suc n),
        encoding_table := map (\<lambda>d. enc_word (of_nat d)) [0..<Suc n] @ drop (Suc n) t\<rparr>)"
    using assms(1) Suc.prems g
    by (simp add: gen_enc_body_def store_def u upd enc_word_def add.commute Let_def)
  then show ?case using Suc by (simp del: upt_Suc add: upt_Suc_append)
qed (simp add: assms)

definition enc_table :: "clong list" where
  "enc_table = map (\<lambda>d. enc_word (of_nat d)) [0..<4096]"

lemma gen_enc_table_eq:
  "length (encoding_table st) = 4096 \<Longrightarrow>
   gen_enc_table st = Some (st\<lparr>g_pattern := 4096, encoding_table := enc_table\<rparr>)"
  using gen_enc_loop[of "encoding_table st" 4096 st] by (simp add: gen_enc_table_def enc_table_def)

section \<open>Correctness of the encoder and the decoder\<close>

text \<open>What the two calls keep of the globals, whatever the order they are made in.\<close>

definition golay_inv :: "golay_state \<Rightarrow> bool" where
  "golay_inv st \<longleftrightarrow> length (encoding_table st) = 4096 \<and> length (decoding_table st) = 2048 \<and>
     (enc_initialized st \<longrightarrow> encoding_table st = enc_table) \<and>
     (if dec_initialized st then corrects (decoding_table st) else g_a st = [0, 0, 0, 0])"

lemma golay_inv_start: "golay_inv golay_start"
proof -
  have "replicate 4 0 = [0, 0, 0, 0 :: int]" by (simp add: numeral_eq_Suc)
  then show ?thesis by (simp add: golay_inv_def golay_start_def)
qed

lemma encode_golay_eq:
  assumes "golay_inv st" and "fits 12 d"
  shows "\<exists>st'. encode_golay d st = Some (enc_word d, st') \<and> golay_inv st' \<and>
    dec_initialized st' = dec_initialized st"
proof -
  have "unat d < 4096" using assms(2) by (simp add: fits_iff_unat)
  then have "enc_table ! unat d = enc_word d" "length enc_table = 4096"
    by (simp_all add: enc_table_def)
  with assms \<open>unat d < 4096\<close> show ?thesis
    by (auto simp: encode_golay_def golay_inv_def gen_enc_table_eq Let_def)
qed

lemma decode_golay_eq:
  assumes "golay_inv st" and "fits 23 w"
  shows "\<exists>st'. decode_golay w st = Some (signed_drop_bit 11 (w XOR decoding_table st' ! unat (syn w)), st')
    \<and> golay_inv st' \<and> dec_initialized st' \<and> corrects (decoding_table st')"
proof (cases "dec_initialized st")
  case True
  with assms show ?thesis
    by (auto simp: decode_golay_def golay_inv_def get_syndrome_eq unat_syn_less)
next
  case False
  with assms(1) obtain st' where "gen_dec_table st = Some st'" "corrects (decoding_table st')"
    "encoding_table st' = encoding_table st" "enc_initialized st' = enc_initialized st"
    using gen_dec_table_corrects[of st] by (auto simp: golay_inv_def)
  with False assms show ?thesis
    by (auto simp: decode_golay_def golay_inv_def get_syndrome_eq unat_syn_less corrects_def)
qed

lemma signed_drop_bit_fits: "fits 63 (w :: clong) \<Longrightarrow> signed_drop_bit n w = drop_bit n w"
  by (rule bit_word_eqI) (auto simp: bit_signed_drop_bit_iff bit_drop_bit_eq fits_def)

lemma decode_error_pattern:
  assumes "fits 12 d" and "ps \<in> set error_positions" and "corrects t"
  shows "signed_drop_bit 11 ((enc_word d XOR pos_word ps) XOR t ! unat (syn (enc_word d XOR pos_word ps))) = d"
proof -
  have "syn (enc_word d XOR pos_word ps) = syn (pos_word ps)"
    using assms(1) by (simp add: syn_xor syn_enc_word)
  then have "(enc_word d XOR pos_word ps) XOR t ! unat (syn (enc_word d XOR pos_word ps)) = enc_word d"
    using assms(2,3) by (simp add: corrects_def xor.assoc)
  then show ?thesis
    using assms(1) by (simp add: signed_drop_bit_fits fits_mono[OF fits_enc_word] drop_enc_word)
qed

text \<open>There are as many patterns of weight at most three as syndromes: the code is perfect.\<close>

lemma syndromes_exhausted:
  assumes "s < 2048"
  shows "\<exists>ps\<in>set error_positions. unat (syn (pos_word ps)) = s"
proof -
  let ?f = "\<lambda>ps. unat (syn (pos_word ps))"
  have "length error_positions = 2048"
  proof -
    have "(23 :: nat) choose 0 = 1" "(23 :: nat) choose 1 = 23" "(23 :: nat) choose 2 = 253"
      by (simp_all add: choose_two)
    moreover have "(23 :: nat) choose 3 = 1771"
      using Suc_times_binomial_eq[of 22 2] by (simp add: choose_two)
    ultimately show ?thesis
      by (simp only: error_positions_def length_concat list.map comp_def length_kcomb length_upt
          minus_nat.diff_0 sum_list_simps)
  qed
  then have "card (?f ` set error_positions) = 2048"
    using distinct_syndromes by (metis distinct_card length_map set_map)
  moreover have "?f ` set error_positions \<subseteq> {..<2048}"
    using error_positions_bounds unat_syn_less fits_pos_word by auto
  ultimately have "?f ` set error_positions = {..<2048}"
    by (intro card_subset_eq) auto
  then have "s \<in> ?f ` set error_positions" using assms by blast
  then show ?thesis by blast
qed

section \<open>Properties\<close>

text \<open>
  C1. Error correction: from any state the two routines can be in, encoding a 12-bit word,
  flipping at most three of the 23 code bits and decoding gives the word back; neither call
  has undefined behaviour or fails to return.
\<close>

theorem golay_corrects_three_errors:
  assumes "golay_inv st" and "unat d < 4096" and "unat e < 2 ^ 23" and "hamming_weight e \<le> 3"
  shows "\<exists>c st1 st2. encode_golay d st = Some (c, st1) \<and> decode_golay (c XOR e) st1 = Some (d, st2)
    \<and> golay_inv st2"
proof -
  have d: "fits 12 d" and e: "fits 23 e" using assms by (simp_all add: fits_iff_unat)
  obtain ps where ps: "ps \<in> set error_positions" "e = pos_word ps"
    using low_weight_pattern[OF e assms(4)] by blast
  obtain st1 where s1: "encode_golay d st = Some (enc_word d, st1)" "golay_inv st1"
    using encode_golay_eq[OF assms(1) d] by blast
  have "fits 23 (enc_word d XOR e)" using d e by (simp add: fits_xor fits_enc_word)
  with decode_golay_eq[OF s1(2)] ps decode_error_pattern[OF d ps(1)]
  obtain st2 where "decode_golay (enc_word d XOR e) st1 = Some (d, st2)" "golay_inv st2" by fastforce
  with s1 show ?thesis by blast
qed

theorem golay_corrects_three_errors_witness:
  "\<exists>c st1 st2. encode_golay 0x0b golay_start = Some (c, st1) \<and>
    decode_golay (c XOR 0xE000) st1 = Some (0x0b, st2) \<and> golay_inv st2"
proof (rule golay_corrects_three_errors)
  show "golay_inv golay_start" by (rule golay_inv_start)
  show "hamming_weight 0xE000 \<le> 3"
    by (simp add: hamming_weight_def upt_rec)
qed simp_all

text \<open>
  Minimum distance: the code words of two different 12-bit words differ in at least seven
  of their bits.
\<close>

theorem golay_minimum_distance:
  assumes "golay_inv st" and "unat d1 < 4096" and "unat d2 < 4096" and "d1 \<noteq> d2"
    and "encode_golay d1 st = Some (c1, st1)" and "encode_golay d2 st1 = Some (c2, st2)"
  shows "7 \<le> hamming_weight (c1 XOR c2)"
proof -
  have d: "fits 12 d1" "fits 12 d2" using assms by (simp_all add: fits_iff_unat)
  have c: "c1 = enc_word d1" "c2 = enc_word d2"
    using encode_golay_eq[OF assms(1) d(1)] assms(5) encode_golay_eq[OF _ d(2)] assms(6) by fastforce+
  have "c1 \<noteq> c2" using c d drop_enc_word assms(4) by metis
  then show ?thesis
    using c d by (intro minimum_weight) (auto simp: fits_xor fits_enc_word syn_xor syn_enc_word word_xor_eq_0)
qed

theorem golay_minimum_distance_witness:
  "\<exists>c1 c2 st1 st2. encode_golay 1 golay_start = Some (c1, st1) \<and> encode_golay 2 st1 = Some (c2, st2) \<and>
    7 \<le> hamming_weight (c1 XOR c2)"
proof -
  note i = golay_inv_start
  obtain st1 where s1: "encode_golay 1 golay_start = Some (enc_word 1, st1)" "golay_inv st1"
    using encode_golay_eq[OF i, of 1] by (auto simp: fits_iff_unat)
  obtain st2 where s2: "encode_golay 2 st1 = Some (enc_word 2, st2)"
    using encode_golay_eq[OF s1(2), of 2] by (auto simp: fits_iff_unat)
  show ?thesis using golay_minimum_distance[OF i _ _ _ s1(1) s2] s1 s2 by auto
qed

text \<open>
  Complete decoding: every 23-bit word is decoded, and to the data of a code word at
  distance at most three.
\<close>

theorem golay_decodes_to_nearest:
  assumes "golay_inv st" and "unat w < 2 ^ 23"
  shows "\<exists>d st'. decode_golay w st = Some (d, st') \<and> unat d < 4096 \<and> hamming_weight (w XOR enc_word d) \<le> 3"
proof -
  have w: "fits 23 w" using assms(2) by (simp add: fits_iff_unat)
  obtain st' where st': "decode_golay w st
      = Some (signed_drop_bit 11 (w XOR decoding_table st' ! unat (syn w)), st')"
    "corrects (decoding_table st')"
    using decode_golay_eq[OF assms(1) w] by blast
  obtain ps where ps: "ps \<in> set error_positions" "syn (pos_word ps) = syn w"
    using syndromes_exhausted[of "unat (syn w)"] unat_syn_less[OF w] by (auto simp: word_unat_eq_iff)
  have p23: "fits 23 (pos_word ps)" using ps error_positions_bounds fits_pos_word by blast
  define c where "c = w XOR pos_word ps"
  define d where "d = drop_bit 11 c"
  have c: "fits 23 c" "syn c = 0"
    using w p23 ps(2) by (simp_all add: c_def fits_xor syn_xor)
  have d: "fits 12 d" using c(1) by (auto simp: d_def fits_def bit_drop_bit_eq)
  have "c = enc_word d"
  proof -
    have "fits 11 (c XOR enc_word d)"
      unfolding fits_def
    proof (intro allI impI)
      fix i :: nat assume "11 \<le> i"
      have "bit (drop_bit 11 (enc_word d)) (i - 11) = bit (drop_bit 11 c) (i - 11)"
        using drop_enc_word[OF d] by (simp only: d_def)
      with \<open>11 \<le> i\<close> show "\<not> bit (c XOR enc_word d) i"
        by (simp add: bit_drop_bit_eq bit_xor_iff)
    qed
    moreover have "syn (c XOR enc_word d) = 0" using c(2) d by (simp add: syn_xor syn_enc_word)
    ultimately show ?thesis by (simp add: syn_id word_xor_eq_0)
  qed
  then have "w XOR enc_word d = pos_word ps"
    by (metis c_def xor.assoc xor.left_neutral xor_self_eq)
  moreover have "signed_drop_bit 11 (w XOR decoding_table st' ! unat (syn w)) = d"
    using st'(2) ps c(1) fits_mono[of 23 c 63]
    by (simp add: corrects_def d_def c_def signed_drop_bit_fits flip: ps(2))
  ultimately show ?thesis
    using st' d hamming_weight_pos_word[OF ps(1)] by (auto simp: fits_iff_unat)
qed

theorem golay_decodes_to_nearest_witness:
  "\<exists>d st'. decode_golay 0x7fffff golay_start = Some (d, st') \<and> unat d < 4096 \<and>
    hamming_weight (0x7fffff XOR enc_word d) \<le> 3"
  by (rule golay_decodes_to_nearest) (simp_all add: golay_inv_start)

text \<open>
  C40. The syndrome loop returns on every 23-bit word, and computes the remainder of the
  polynomial division by the generator: the reference division, which is linear, fits the
  eleven redundant bits and is the identity on them.
\<close>

theorem get_syndrome_remainder:
  assumes "unat p < 2 ^ 23" and "unat q < 2 ^ 23"
  shows "get_syndrome p = Some (poly_rem 12 p) \<and> unat (poly_rem 12 p) < 2048 \<and>
    get_syndrome (p XOR q) = Some (poly_rem 12 p XOR poly_rem 12 q)"
proof -
  have f: "fits 23 p" "fits 23 q" using assms by (simp_all add: fits_iff_unat)
  then have "get_syndrome (p XOR q) = Some (poly_rem 12 p XOR poly_rem 12 q)"
    by (simp only: get_syndrome_eq fits_xor syn_def poly_rem_xor)
  then show ?thesis
    using f unat_syn_less[OF f(1)] by (simp only: get_syndrome_eq syn_def)
qed

theorem get_syndrome_remainder_witness:
  "get_syndrome 0x400000 = Some 1594"
  using get_syndrome_remainder[of "0x400000" 0] syn_singles(12) by (simp only: syn_def) simp

lemma decode_golay_diverges:
  assumes "golay_inv st" and "unat w < 2 ^ 32" and "bit w i" and "23 \<le> i"
  shows "get_syndrome w = None \<and> decode_golay w st = None"
proof -
  have w: "fits 32 w" using assms(2) by (simp add: fits_iff_unat)
  with assms(3) have i: "i < 32" by (meson fits_def not_le)
  have "2 ^ 23 \<le> unat w"
    using w assms(3,4) by (metis fits_def fits_iff_unat not_le)
  then have "X11 \<le>s w"
  proof -
    have "int (2 ^ 23) \<le> uint w" using \<open>2 ^ 23 \<le> unat w\<close> by (simp only: uint_nat of_nat_le_iff)
    moreover have "sint w = uint w" using fits_mono[OF w, of 63] by (intro sint_nonneg_fits) simp
    ultimately show ?thesis by (simp add: word_sle_eq X11_def)
  qed
  moreover have "X22 = 2 ^ 22" by (simp add: X22_def)
  ultimately have "get_syndrome w = None"
    using syndrome_loop_diverges[OF assms(3,4) i, of 22] by (simp add: get_syndrome_def)
  moreover from this have "decode_golay w st = None"
    by (simp add: decode_golay_def bind_rzero split: bind_splits)
  ultimately show ?thesis by simp
qed

text \<open>
  A word with a bit set above the 23 code bits (bits 23 to 31) is never decoded: the
  syndrome loop does not return, so neither does the decoder, although its comment says that
  the most significant bit is ignored.
\<close>

theorem decode_golay_hangs:
  assumes "golay_inv st" and "unat w < 2 ^ 32" and "bit w i" and "23 \<le> i"
  shows "get_syndrome w = None \<and> decode_golay w st = None"
  using assms by (rule decode_golay_diverges)

theorem decode_golay_hangs_witness:
  "get_syndrome 0x800000 = None \<and> decode_golay 0x800000 golay_start = None"
  by (rule decode_golay_hangs[where i = 23])
    (simp_all add: golay_inv_start)

end
