(* ===== verification/Codes.thy ===== *)
theory Codes
  imports Overlay_ID Golay
begin

text \<open>
  The codes of \<^verbatim>\<open>plnode/protocol\<close> behind the interface of \<^verbatim>\<open>code.h\<close>: \<^verbatim>\<open>null_code.h\<close> and
  \<^verbatim>\<open>plexus/golay/GolayCode.h\<close>, both instances of the locale \<open>ABSCode\<close>.
\<close>

text \<open>\<^verbatim>\<open>GolayCode\<close> forwards to \<^verbatim>\<open>golay.c\<close>; the argument becomes \<^verbatim>\<open>unsigned\<close> without change of bits.\<close>

definition GolayCode_encode :: "clong \<Rightarrow> golay_state \<Rightarrow> (clong \<times> golay_state) option" where
  "GolayCode_encode message = encode_golay message"

definition GolayCode_decode :: "clong \<Rightarrow> golay_state \<Rightarrow> (clong \<times> golay_state) option" where
  "GolayCode_decode codeword = decode_golay codeword"

definition GolayCode_K :: nat where "GolayCode_K = 12"
definition GolayCode_N :: nat where "GolayCode_N = 23"

text \<open>\<^verbatim>\<open>NullCode\<close> is the identity.\<close>

definition NullCode_encode :: "clong \<Rightarrow> unit \<Rightarrow> (clong \<times> unit) option" where
  "NullCode_encode message s = Some (message, s)"

definition NullCode_decode :: "clong \<Rightarrow> unit \<Rightarrow> (clong \<times> unit) option" where
  "NullCode_decode codeword s = Some (codeword, s)"

definition NullCode_K :: "nat \<Rightarrow> nat" where "NullCode_K bit_length = bit_length"
definition NullCode_N :: "nat \<Rightarrow> nat" where "NullCode_N bit_length = bit_length"

interpretation golay: ABSCode GolayCode_encode GolayCode_decode GolayCode_K GolayCode_N golay_inv
proof
  fix s and m :: clong
  assume "golay_inv s" "fits GolayCode_K m"
  then show "\<exists>c s'. GolayCode_encode m s = Some (c, s') \<and> fits GolayCode_N c \<and> golay_inv s'"
    using encode_golay_eq[of s m] fits_enc_word[of m]
    by (auto simp: GolayCode_encode_def GolayCode_K_def GolayCode_N_def)
next
  fix s s1 s2 and m c :: clong
  assume h: "golay_inv s" "fits GolayCode_K m" "GolayCode_encode m s = Some (c, s1)"
    "golay_inv s1" "golay_inv s2"
  then have m: "fits 12 m" by (simp add: GolayCode_K_def)
  have c: "c = enc_word m" using h encode_golay_eq[OF h(1) m] by (auto simp: GolayCode_encode_def)
  have e: "[] \<in> set error_positions" by (simp add: error_positions_def)
  from decode_golay_eq[OF h(5) fits_enc_word[OF m]] obtain s3 where
    "decode_golay (enc_word m) s2 =
       Some (signed_drop_bit 11 (enc_word m XOR decoding_table s3 ! unat (syn (enc_word m))), s3)"
    "golay_inv s3" "corrects (decoding_table s3)" by blast
  with decode_error_pattern[OF m e, of "decoding_table s3"] c
  show "\<exists>s3. GolayCode_decode c s2 = Some (m, s3) \<and> golay_inv s3"
    by (auto simp: GolayCode_decode_def)
qed

interpretation golay: Total_ABSCode GolayCode_encode GolayCode_decode GolayCode_K GolayCode_N golay_inv
proof
  fix s and c :: clong
  assume "golay_inv s" "fits GolayCode_N c"
  then show "\<exists>m s'. GolayCode_decode c s = Some (m, s') \<and> golay_inv s'"
    using decode_golay_eq[of s c] by (auto simp: GolayCode_decode_def GolayCode_N_def)
qed (simp_all add: GolayCode_K_def GolayCode_N_def)

interpretation null: ABSCode NullCode_encode NullCode_decode "NullCode_K n" "NullCode_N n" "\<lambda>_. True"
  by unfold_locales (auto simp: NullCode_encode_def NullCode_decode_def NullCode_K_def NullCode_N_def)

end
