(* ===== verification/Peer_Safety.thy ===== *)
theory Peer_Safety
  imports Processing Codes
begin

text \<open>
  The state invariant of a peer that has received its INIT message, and the proof that
  \<^verbatim>\<open>processMessage\<close> keeps it and is defined: no branch of the handler overruns an array, follows
  a null pointer or fails to return. What a message must satisfy for that is \<open>message_safe\<close>. The
  lemmas are proved once in the locale \<open>peer_code\<close>, over any code that decodes every word of
  its length; the Golay and the null code are its instances.
\<close>

section \<open>The invariant\<close>

text \<open>
  The tables are maps, the cache is a well-formed list of at most its capacity, which is at least
  2, and the ids of the peer have a length the prefix loop is defined for. \<open>cinv\<close> is the
  invariant of the code.
\<close>

definition plexus_ok :: "('s \<Rightarrow> bool) \<Rightarrow> 's Plexus \<Rightarrow> bool" where
  "plexus_ok cinv s \<longleftrightarrow> (\<exists>L c. tables_ok s L \<and> px_cache s = Some c \<and> 2 \<le> capacity c \<and> int (length L) \<le> capacity c)
     \<and> index.wf_table (unresolved_get s) \<and> index.wf_table (unresolved_put s) \<and> name_db_ok (px_peer s)
     \<and> id_length_ok (peer_overlay_id (px_peer s)) \<and> cinv (code_state s)"

text \<open>What holds before the INIT message.\<close>

definition plexus_base :: "('s \<Rightarrow> bool) \<Rightarrow> 's Plexus \<Rightarrow> bool" where
  "plexus_base cinv s \<longleftrightarrow> oid.wf_table (proactive_cache s) \<and> index.wf_table (unresolved_get s)
     \<and> index.wf_table (unresolved_put s) \<and> name_db_ok (px_peer s) \<and> cinv (code_state s)"

text \<open>The texts of a log entry fit: its key, and the values printed into 20 characters each.\<close>

definition log_fits :: "'s env \<Rightarrow> 'a ABSMessage_scheme \<Rightarrow> clong \<Rightarrow> cstring \<Rightarrow> bool" where
  "log_fits env m d name \<longleftrightarrow>
     length (c_text (source_host m)) + length (c_text (dest_host m)) < 280
     \<and> length (print_double env d) < 20 \<and> length (c_text name) < 20"

fun message_safe :: "'s env \<Rightarrow> nat \<Rightarrow> message \<Rightarrow> bool" where
  "message_safe env N (Msg_GET m) = (id_length_ok (get_target_oid m) \<and> id_length_ok (src_oid m))"
| "message_safe env N (Msg_PUT m) = (id_length_ok (put_target_oid m) \<and> id_length_ok (src_oid m))"
| "message_safe env N (Msg_GET_REPLY m) =
     (id_length_ok (gr_target_oid m) \<and> log_fits env m (gr_latency m) (gr_device_name m))"
| "message_safe env N (Msg_PUT_REPLY m) =
     (id_length_ok (pr_target_oid m) \<and> log_fits env m (pr_latency m) (pr_device_name m))"
| "message_safe env N (Msg_INIT m) =
     (oid.wf_table (pi_routing_table m) \<and> 2 \<le> sint (pi_k m) \<and> id_length_ok (dst_oid m))"
| "message_safe env N (Msg_INITIATE_PUT m) = fits N (scast (atoi (ip_device_name m)) :: clong)"
| "message_safe env N _ = True"

section \<open>Printed numbers are short\<close>

lemma length_print_nat: "n < 10 ^ Suc k \<Longrightarrow> length (print_nat n) \<le> Suc k"
proof (induction k arbitrary: n)
  case 0
  then show ?case by (simp add: print_nat.simps[of n])
next
  case (Suc k)
  then have "n div 10 < 10 ^ Suc k" by (simp add: less_mult_imp_div_less mult.commute)
  from Suc.IH[OF this] show ?case by (simp add: print_nat.simps[of n])
qed

lemma length_print_int: "length (print_int w) < 13"
proof -
  have "- (2 ^ 31) \<le> sint w" "sint w < 2 ^ 31" using sint_greater_eq[of w] sint_lt[of w] by simp_all
  then have "nat (- sint w) < 10 ^ Suc 10" "nat (sint w) < 10 ^ Suc 10" by simp_all
  from length_print_nat[OF this(1)] length_print_nat[OF this(2)] show ?thesis by (auto simp: print_int_def)
qed

lemma length_print_int_20 [simp]: "length (print_int w) < 20"
  using length_print_int[of w] by simp

lemma fits_print_int [simp]: "fits_str (print_int w) = Some (print_int w)"
  using length_print_int[of w] by (simp add: fits_str_def)

lemma log_key_fits:
  assumes "log_fits env m d name"
  shows "\<exists>key. log_key m = Some key"
  using assms length_print_int[of "sequence_no m"] by (simp add: log_key_def log_fits_def str_def Let_def)

section \<open>What the steps keep\<close>

text \<open>Everything but the cache and its hit counters is untouched by the search for a next hop.\<close>

lemma search_next_hop_frame:
  "search_next_hop env t s = Some (r, s') \<Longrightarrow> \<exists>c. s' = s\<lparr>px_cache := c\<rparr>"
  by (auto simp: search_next_hop_def Let_def bind_eq_Some_conv)

lemma count_cache_hit_frame:
  "\<exists>g p. count_cache_hit m s = s\<lparr>get_cache_hit_count := g, put_cache_hit_count := p\<rparr>"
  by (rule exI[of _ "get_cache_hit_count (count_cache_hit m s)"], rule exI[of _ "put_cache_hit_count (count_cache_hit m s)"])
     (auto simp: count_cache_hit_def incrementGetCacheHitCounter_def incrementPutCacheHitCounter_def split: message.split)

lemma setNextHop_frame:
  assumes "setNextHop env m s = Some (b, m', s')"
  shows "\<exists>c g p. s' = s\<lparr>px_cache := c, get_cache_hit_count := g, put_cache_hit_count := p\<rparr>"
proof -
  have id: "\<exists>c g p. s = s\<lparr>px_cache := c, get_cache_hit_count := g, put_cache_hit_count := p\<rparr>"
    by (rule exI[of _ "px_cache s"], rule exI[of _ "get_cache_hit_count s"], rule exI[of _ "put_cache_hit_count s"]) simp
  from assms have "s' = s \<or> (\<exists>t r x. search_next_hop env t s = Some (r, x) \<and> (s' = x \<or> s' = count_cache_hit m x))"
    by (auto simp: setNextHop_def Let_def bind_eq_Some_conv split: option.splits if_splits) blast+
  then show ?thesis
  proof
    assume "s' = s"
    with id show ?thesis by simp
  next
    assume "\<exists>t r x. search_next_hop env t s = Some (r, x) \<and> (s' = x \<or> s' = count_cache_hit m x)"
    then obtain t r x where x: "search_next_hop env t s = Some (r, x)" "s' = x \<or> s' = count_cache_hit m x" by blast
    obtain c where c: "x = s\<lparr>px_cache := c\<rparr>" using search_next_hop_frame[OF x(1)] by blast
    have "x = s\<lparr>px_cache := c, get_cache_hit_count := get_cache_hit_count s, put_cache_hit_count := put_cache_hit_count s\<rparr>"
      by (simp add: c)
    moreover have "\<exists>g p. count_cache_hit m x = s\<lparr>px_cache := c, get_cache_hit_count := g, put_cache_hit_count := p\<rparr>"
      using count_cache_hit_frame[of m x] by (simp add: c)
    ultimately show ?thesis using x(2) by metis
  qed
qed

text \<open>The search keeps the invariant, and is defined for a target of a valid length.\<close>

lemma plexus_okD:
  assumes "plexus_ok cinv s"
  shows "\<exists>L c. tables_ok s L \<and> px_cache s = Some c \<and> 2 \<le> capacity c \<and> int (length L) \<le> capacity c"
    and "id_length_ok (peer_overlay_id (px_peer s))"
    and "cinv (code_state s)"
  using assms by (auto simp: plexus_ok_def)

lemma setNextHop_ok:
  assumes "plexus_ok cinv s" and "\<And>t. target_oid m = Some t \<Longrightarrow> id_length_ok t"
  shows "\<exists>b m' s'. setNextHop env m s = Some (b, m', s') \<and> plexus_ok cinv s'"
proof -
  obtain L c where L: "tables_ok s L" "px_cache s = Some c" "2 \<le> capacity c" "int (length L) \<le> capacity c"
    using plexus_okD(1)[OF assms(1)] by blast
  have "setNextHop env m s = Some (False, m, s) \<or>
    (\<exists>t. target_oid m = Some t \<and> \<not> (cache_storage (px_peer s) = str ''end_point'' \<and> is_reply m) \<and>
      overlay_ttl (message_base m) \<noteq> 0 \<and> \<not> answered_here m s)"
    by (auto simp: setNextHop_def split: option.split)
  then consider (kept) "setNextHop env m s = Some (False, m, s)"
    | (search) t where "target_oid m = Some t" "\<not> (cache_storage (px_peer s) = str ''end_point'' \<and> is_reply m)"
        "overlay_ttl (message_base m) \<noteq> 0" "\<not> answered_here m s"
    by blast
  then show ?thesis
  proof cases
    case kept
    with assms(1) show ?thesis by blast
  next
    case search
    from setNextHop_search[OF L(1) search(1) assms(2)[OF search(1)] plexus_okD(2)[OF assms(1)] search(2-4), of env]
    obtain s' L' where r: "setNextHop env m s = (case best_entry t (known_entries s L) of None \<Rightarrow> Some (False, m, s')
       | Some (mx, oid, h) \<Rightarrow>
           if mx < matched (peer_overlay_id (px_peer s)) (dst_oid (message_base m)) then Some (False, m, s')
           else Some (True, on_base (set_hop h oid) m, s'))"
      and s': "tables_ok s' L'" "mset L' = mset L" "map_option capacity (px_cache s') = map_option capacity (px_cache s)"
      by blast
    have "\<exists>b m'. setNextHop env m s = Some (b, m', s')"
      unfolding r by (auto split: option.split)
    then obtain b m' where n: "setNextHop env m s = Some (b, m', s')" by blast
    obtain c' where "px_cache s' = Some c'" "capacity c' = capacity c" using s'(3) L(2) by auto
    moreover have "length L' = length L" using s'(2) by (metis size_mset)
    moreover obtain x g p where "s' = s\<lparr>px_cache := x, get_cache_hit_count := g, put_cache_hit_count := p\<rparr>"
      using setNextHop_frame[OF n] by blast
    ultimately have "plexus_ok cinv s'"
      using assms(1) s'(1) L(3,4) by (auto simp: plexus_ok_def)
    with n show ?thesis by blast
  qed
qed

lemma ucast_scast_int: "ucast (scast (w :: cint) :: clong) = w"
  by (intro bit_word_eqI) (simp add: bit_ucast_iff bit_signed_iff)

lemma int_key_stored: "int_key (stored_key key)"
  by (simp add: int_key_def stored_key_def OverlayID_new_def GetOverlay_id_def ucast_scast_int)

lemma cache_source_ok:
  assumes "plexus_ok cinv s"
  shows "\<exists>c. cache_source m s = Some (s\<lparr>px_cache := Some c\<rparr>) \<and> plexus_ok cinv (s\<lparr>px_cache := Some c\<rparr>)"
proof -
  obtain L c where L: "tables_ok s L" "px_cache s = Some c" "2 \<le> capacity c" "int (length L) \<le> capacity c"
    using plexus_okD(1)[OF assms(1)] by blast
  then have e: "cache_entries c L" by (simp add: tables_ok_def)
  let ?k = "stored_key (src_oid m)" and ?v = "HostAddress_new (source_host m) (source_port m)"
  have cap: "capacity c = int (nat (capacity c))" "2 \<le> nat (capacity c)" "length L \<le> nat (capacity c)"
    using L(3,4) by auto
  from cache_add_entries[OF e int_key_stored cap, of "routing_table s" "proactive_cache s" "src_oid m" ?v]
  obtain c' where c': "cache_add (routing_table s) (proactive_cache s) ?k ?v c = Some c'"
    "cache_entries c' (lru_add (routing_table s) (proactive_cache s) (myOID c) (nat (capacity c)) ?k ?v L)"
    "capacity c' = capacity c" by blast
  have "length (lru_add (routing_table s) (proactive_cache s) (myOID c) (nat (capacity c)) ?k ?v L) \<le> nat (capacity c)"
    using length_lru_add[of L "nat (capacity c)"] cap by simp
  moreover from this cap(1) c'(2,3) L(3) assms L(1) have "plexus_ok cinv (s\<lparr>px_cache := Some c'\<rparr>)"
    by (auto simp: plexus_ok_def tables_ok_def)
  ultimately show ?thesis using c'(1) L(2) by (auto simp: cache_source_def)
qed

text \<open>Steps that leave what the invariant looks at.\<close>

lemma plexus_ok_base: "plexus_ok cinv s \<Longrightarrow> plexus_base cinv s"
  by (auto simp: plexus_ok_def plexus_base_def tables_ok_def)

lemma plexus_ok_queues [simp]:
  "plexus_ok cinv (addToOutgoingQueue m s) = plexus_ok cinv s"
  "plexus_ok cinv (addToIncomingQueue m s) = plexus_ok cinv s"
  "plexus_ok cinv (addToLogQueue e s) = plexus_ok cinv s"
  "plexus_ok cinv (reset_counters s) = plexus_ok cinv s"
  "plexus_ok cinv (s\<lparr>sequence_no_generator := g\<rparr>) = plexus_ok cinv s"
  by (simp_all add: plexus_ok_def tables_ok_def addToOutgoingQueue_def addToIncomingQueue_def addToLogQueue_def
       reset_counters_def)

lemma plexus_ok_peer:
  "(\<And>p. peer_overlay_id (f p) = peer_overlay_id p \<and> name_db (f p) = name_db p) \<Longrightarrow>
   plexus_ok cinv (on_peer f s) = plexus_ok cinv s"
  by (simp add: plexus_ok_def tables_ok_def on_peer_def name_db_ok_def)

lemma plexus_ok_count [simp]:
  "plexus_ok cinv (on_peer incrementPut_processed s) = plexus_ok cinv s"
  "plexus_ok cinv (on_peer incrementGet_processed s) = plexus_ok cinv s"
  "plexus_ok cinv (on_peer incrementPut_generated s) = plexus_ok cinv s"
  "plexus_ok cinv (on_peer incrementGet_generated s) = plexus_ok cinv s"
  by (simp_all add: plexus_ok_peer incrementPut_processed_def incrementGet_processed_def
       incrementPut_generated_def incrementGet_generated_def)

lemma draw_state: "draw new s = (m, s') \<Longrightarrow> s' = s\<lparr>sequence_no_generator := sequence_no_generator s'\<rparr>"
  by (auto simp: draw_def split: prod.splits)

lemma plexus_ok_draw: "draw new s = (m, s') \<Longrightarrow> plexus_ok cinv s' = plexus_ok cinv s"
  using plexus_ok_queues(5)[where cinv = cinv and s = s and g = "sequence_no_generator s'"] draw_state[of new s m s']
  by metis

lemma table_add_wf:
  "name.wf_table t \<Longrightarrow> name.wf_table (snd (table_add str_less n v t))"
  "oid.wf_table u \<Longrightarrow> oid.wf_table (snd (table_add oid_less k w u))"
  "index.wf_table x \<Longrightarrow> index.wf_table (snd (table_add index_less i y x))"
  using name.table_add_refines[of t n v] oid.table_add_refines[of u k w] index.table_add_refines[of x i y]
  by (metis prod.collapse)+

lemma plexus_ok_tables:
  "plexus_ok cinv s \<Longrightarrow> plexus_ok cinv (s\<lparr>index_table := snd (table_add str_less n h (index_table s))\<rparr>)"
  "plexus_ok cinv s \<Longrightarrow> plexus_ok cinv (s\<lparr>proactive_cache := snd (table_add oid_less k h (proactive_cache s))\<rparr>)"
  "plexus_ok cinv s \<Longrightarrow> plexus_ok cinv (s\<lparr>unresolved_get := snd (table_add index_less i r (unresolved_get s))\<rparr>)"
  "plexus_ok cinv s \<Longrightarrow> plexus_ok cinv (s\<lparr>unresolved_put := snd (table_add index_less i d (unresolved_put s))\<rparr>)"
  "plexus_ok cinv s \<Longrightarrow> plexus_ok cinv (s\<lparr>unresolved_get := snd (table_remove index_less i (unresolved_get s))\<rparr>)"
  using index.table_remove_refines[of "unresolved_get s" i]
  by (auto simp: plexus_ok_def tables_ok_def table_add_wf) (metis prod.collapse)

lemma draw_frame: "\<exists>m g. draw new s = (m, s\<lparr>sequence_no_generator := g\<rparr>)"
  by (auto simp: draw_def split: prod.splits)

lemma flood_frame:
  "\<exists>q n g. flood sh sp soid ttl it s =
     s\<lparr>outgoing_message_queue := q, outgoing_queue_pushed := n, sequence_no_generator := g\<rparr>"
proof (induction it arbitrary: s)
  case Nil
  have "s = s\<lparr>outgoing_message_queue := outgoing_message_queue s, outgoing_queue_pushed := outgoing_queue_pushed s,
    sequence_no_generator := sequence_no_generator s\<rparr>" by simp
  then show ?case unfolding flood.simps by blast
next
  case (Cons dst it)
  let ?h = "case table_lookup oid_less dst (routing_table s) of Some h \<Rightarrow> h | None \<Rightarrow> HostAddress_default"
  define new where "new = (\<lambda>ns. MessageCacheMe_new ns sh sp (hostName ?h) (hostPort ?h) soid dst)"
  from draw_frame[of new s] obtain m g where d: "draw new s = (m, s\<lparr>sequence_no_generator := g\<rparr>)" by blast
  from Cons.IH[of "addToOutgoingQueue (Msg_CACHE_ME (m\<lparr>overlay_ttl := ttl\<rparr>)) (s\<lparr>sequence_no_generator := g\<rparr>)"]
  show ?case by (simp add: d[unfolded new_def] addToOutgoingQueue_def)
qed

lemma flood_ok: "plexus_ok cinv (flood sh sp soid ttl it s) = plexus_ok cinv s"
  using flood_frame[of sh sp soid ttl it s] by (auto simp: plexus_ok_def tables_ok_def)

section \<open>The branches keep the invariant\<close>

lemma send_reply_ok:
  assumes "plexus_ok cinv s" and "\<And>t. target_oid m = Some t \<Longrightarrow> id_length_ok t"
  shows "\<exists>s'. send_reply env m s = Some s' \<and> plexus_ok cinv s'"
proof -
  obtain b m' s' where "setNextHop env m s = Some (b, m', s')" "plexus_ok cinv s'"
    using setNextHop_ok[OF assms(1), of m env] assms(2) by blast
  with assms(1) show ?thesis by (simp add: send_reply_def)
qed

lemma draw_put_reply:
  "\<exists>r g. draw (\<lambda>ns. MessagePUT_REPLY_new ns raw sh sp dh dp so d st target name) s =
     (r, s\<lparr>sequence_no_generator := g\<rparr>) \<and> pr_target_oid r = target \<and> pr_status r = st \<and> pr_device_name r = name"
  by (simp add: draw_def MessagePUT_REPLY_new_def ABSMessage_new_def calculateOverlayTTL_def
       ABSMessage.defs MessagePUT_REPLY.defs) blast

lemma draw_get_reply:
  "\<exists>r g. draw (\<lambda>ns. MessageGET_REPLY_new ns raw sh sp dh dp so d st target host name) s =
     (r, s\<lparr>sequence_no_generator := g\<rparr>) \<and> gr_target_oid r = target \<and> gr_status r = st \<and>
     gr_host_address r = host \<and> gr_device_name r = name"
  by (simp add: draw_def MessageGET_REPLY_new_def ABSMessage_new_def calculateOverlayTTL_def
       ABSMessage.defs MessageGET_REPLY.defs) blast

lemma plexus_ok_cache: "plexus_ok cinv s \<Longrightarrow> px_cache s \<noteq> None"
  by (auto simp: plexus_ok_def)

lemma process_PUT_ok:
  assumes "plexus_ok cinv s" and "id_length_ok (src_oid m)"
  shows "\<exists>s'. process_PUT env m s = Some s' \<and> plexus_ok cinv s'"
proof -
  let ?s = "(on_peer incrementPut_processed s)\<lparr>index_table :=
    snd (table_add str_less (put_deviceName m) (put_hostAddress m) (index_table (on_peer incrementPut_processed s)))\<rparr>"
  have ok: "plexus_ok cinv ?s" using assms(1) by (intro plexus_ok_tables) simp
  obtain r g where "draw (\<lambda>ns. MessagePUT_REPLY_new ns (raw_put_reply env) (host_name (px_peer ?s))
      (listen_port_number (px_peer ?s)) (source_host m) (source_port m) (peer_overlay_id (px_peer ?s))
      (junk_reply_dst env) SUCCESS (src_oid m) (put_deviceName m)) ?s = (r, ?s\<lparr>sequence_no_generator := g\<rparr>)"
    "pr_target_oid r = src_oid m"
    using draw_put_reply by blast
  with send_reply_ok[of cinv "?s\<lparr>sequence_no_generator := g\<rparr>"
      "Msg_PUT_REPLY (r\<lparr>pr_hops := ucast (overlay_hops m), pr_ip_hops := ip_hops m, pr_latency := latency m,
         pr_origin_seq_no := sequence_no m\<rparr>)" env] ok assms(2) plexus_ok_cache[OF assms(1)]
  show ?thesis by (simp add: process_PUT_def Let_def)
qed

lemma process_GET_ok:
  assumes "plexus_ok cinv s" and "id_length_ok (src_oid m)"
  shows "\<exists>s'. process_GET env m s = Some s' \<and> plexus_ok cinv s'"
proof -
  let ?s = "on_peer incrementGet_processed s"
  let ?f = "table_lookup str_less (get_deviceName m) (index_table ?s)"
  have ok: "plexus_ok cinv ?s" using assms(1) by simp
  obtain r g where r: "draw (\<lambda>ns. MessageGET_REPLY_new ns (raw_get_reply env) (host_name (px_peer ?s))
      (listen_port_number (px_peer ?s)) (source_host m) (source_port m) (peer_overlay_id (px_peer ?s))
      (junk_reply_dst env) (if ?f = None then ERROR_GET_FAILED else SUCCESS) (src_oid m)
      (case ?f of Some h \<Rightarrow> h | None \<Rightarrow> HostAddress_default) (get_deviceName m)) ?s =
      (r, ?s\<lparr>sequence_no_generator := g\<rparr>)"
    "gr_target_oid r = src_oid m"
    using draw_get_reply by blast
  have "plexus_ok cinv (?s\<lparr>sequence_no_generator := g\<rparr>)" using ok by simp
  with r send_reply_ok[of cinv "?s\<lparr>sequence_no_generator := g\<rparr>"
      "Msg_GET_REPLY (r\<lparr>gr_hops := ucast (overlay_hops m), gr_ip_hops := ip_hops m, gr_latency := latency m,
         gr_origin_seq_no := sequence_no m\<rparr>)" env] assms(2) plexus_ok_cache[OF assms(1)]
  show ?thesis by (simp add: process_GET_def Let_def)
qed

lemma args_LogEntry:
  "args_match lf format args \<Longrightarrow> \<exists>e. LogEntry_new lf ty key format args = Some e"
  using log_values_join[of lf format args 0 "[]"] by (simp add: LogEntry_new_def)

lemma fits_c_text: "length (c_text s) < 20 \<Longrightarrow> fits_str (takeWhile (\<lambda>c. c \<noteq> 0) s) \<noteq> None"
  by (simp add: fits_str_def c_text_def)

lemma process_PUT_REPLY_ok:
  assumes "plexus_ok cinv s" and "log_fits env m (pr_latency m) (pr_device_name m)"
  shows "\<exists>s'. process_PUT_REPLY env m s = Some s' \<and> plexus_ok cinv s'"
proof -
  obtain key where key: "log_key m = Some key" using log_key_fits[OF assms(2)] by blast
  have "args_match (print_double env) ''iidsi'' [Arg_int (pr_hops m), Arg_int (pr_ip_hops m), Arg_double (pr_latency m),
          Arg_str (pr_device_name m), Arg_int (GetOverlay_id (src_oid m))]"
    using assms(2) fits_c_text by (simp add: log_fits_def fits_str_def c_text_def)
  from args_LogEntry[OF this, of LOG_PUT key] key assms(1) show ?thesis by (auto simp: process_PUT_REPLY_def)
qed

lemma process_GET_REPLY_ok:
  assumes "plexus_ok cinv s" and "log_fits env m (gr_latency m) (gr_device_name m)"
  shows "\<exists>s'. process_GET_REPLY env m s = Some s' \<and> plexus_ok cinv s'"
proof -
  obtain key where key: "log_key m = Some key" using log_key_fits[OF assms(2)] by blast
  obtain c where c: "cache_source m s = Some (s\<lparr>px_cache := Some c\<rparr>)" "plexus_ok cinv (s\<lparr>px_cache := Some c\<rparr>)"
    using cache_source_ok[OF assms(1)] by blast
  have "args_match (print_double env) ''iidssi''
     [Arg_int (gr_hops m), Arg_int (gr_ip_hops m), Arg_double (gr_latency m),
      Arg_str (if gr_status m = ERROR_GET_FAILED then str ''F'' else str ''S''),
      Arg_str (gr_device_name m), Arg_int (GetOverlay_id (src_oid m))]"
    using assms(2) by (simp add: log_fits_def fits_str_def c_text_def str_def)
  from args_LogEntry[OF this, of LOG_GET key] key c show ?thesis by (auto simp: process_GET_REPLY_def Let_def)
qed

lemma plexus_ok_draw_queue:
  "plexus_ok cinv (case draw new s of (m, s) \<Rightarrow> addToOutgoingQueue (f m) s) = plexus_ok cinv s"
proof -
  obtain m s' where d: "draw new s = (m, s')" by fastforce
  from plexus_ok_draw[OF d] d show ?thesis by simp
qed

lemma process_RETRIEVE_ok: "plexus_ok cinv (process_RETRIEVE env m s) = plexus_ok cinv s"
  by (simp add: process_RETRIEVE_def Let_def plexus_ok_draw_queue)

lemma process_RETRIEVE_REPLY_ok:
  assumes "plexus_ok cinv s"
  shows "plexus_ok cinv (process_RETRIEVE_REPLY env m s)"
  using assms by (auto simp: process_RETRIEVE_REPLY_def Let_def plexus_ok_draw_queue plexus_ok_tables
    split: option.split)

lemma process_CACHE_ME_ok:
  assumes "plexus_ok cinv s"
  shows "plexus_ok cinv (process_CACHE_ME m s)"
  using assms by (simp add: process_CACHE_ME_def Let_def flood_ok plexus_ok_tables)

lemma process_FORCE_LOG_ok:
  assumes "plexus_ok cinv s"
  shows "\<exists>s'. process_FORCE_LOG env s = Some s' \<and> plexus_ok cinv s'"
  using args_LogEntry[of "print_double env" "''''" "[]" ALL_LOGS "str ''flush''"] assms
  by (auto simp: process_FORCE_LOG_def)

text \<open>The INIT message establishes the invariant.\<close>

lemmas init_state_defs = init_state_def Let_def on_peer_def init_peer_def setRoutingTable_def setIndexTable_def
  setCache_def reset_counters_def table_empty_def

lemma init_state_simps [simp]:
  "routing_table (init_state m s) = pi_routing_table m" "index_table (init_state m s) = []"
  "proactive_cache (init_state m s) = proactive_cache s"
  "px_cache (init_state m s) = Some (Cache_new (dst_oid m) (sint (pi_k m)))"
  "unresolved_get (init_state m s) = unresolved_get s" "unresolved_put (init_state m s) = unresolved_put s"
  "code_state (init_state m s) = code_state s" "network_size (init_state m s) = pi_n_peers m"
  "incoming_queue_pushed (init_state m s) = 0" "incoming_queue_popped (init_state m s) = 0"
  "incoming_message_queue (init_state m s) = incoming_message_queue s"
  "outgoing_message_queue (init_state m s) = outgoing_message_queue s"
  by (simp_all add: init_state_defs)

lemma init_state_peer [simp]:
  "peer_overlay_id (px_peer (init_state m s)) = dst_oid m" "init_rcvd (px_peer (init_state m s))"
  "host_name (px_peer (init_state m s)) = host_name (px_peer s)"
  "listen_port_number (px_peer (init_state m s)) = listen_port_number (px_peer s)"
  "name_db (px_peer (init_state m s)) = name_db (px_peer s)"
  "cache_type (px_peer (init_state m s)) = cache_type (px_peer s)"
  by (simp_all add: init_state_defs)

lemma process_INIT_ok:
  assumes "plexus_base cinv s" and "oid.wf_table (pi_routing_table m)" and "2 \<le> sint (pi_k m)"
    and "id_length_ok (dst_oid m)"
  shows "plexus_ok cinv (process_INIT m s)"
proof -
  have "cache_entries (Cache_new (dst_oid m) (sint (pi_k m))) []"
    using cache_rel_new by (auto simp: cache_entries_def)
  with assms have "plexus_ok cinv (init_state m s)"
    by (auto simp: plexus_ok_def plexus_base_def tables_ok_def name_db_ok_def Cache_new_def)
  then show ?thesis by (simp add: process_INIT_def Let_def flood_ok)
qed

section \<open>Requests\<close>

lemma start_request_ok:
  assumes "proc m s = Some (b, m', s')" and "plexus_ok cinv s'"
  shows "\<exists>s''. start_request proc m s = Some s'' \<and> plexus_ok cinv s''"
  using assms by (simp add: start_request_def)

lemma scast_mask: "fits 22 (scast (name_index name) :: clong)"
proof -
  have "\<not> bit (scast (name_index name) :: clong) i" if "22 \<le> i" for i
  proof -
    have m: "(0x003FFFFF :: cint) = mask 22" by (simp add: mask_eq_exp_minus_1)
    have n: "\<not> bit (name_index name) j" if "22 \<le> j" for j
      using that unfolding name_index_def m by (simp add: bit_and_iff bit_mask_iff)
    show ?thesis using that by (simp add: bit_signed_iff n)
  qed
  then show ?thesis by (simp add: fits_def)
qed

context Total_ABSCode
begin

lemma hash_oid_ok:
  assumes "iCode_decode env = decode" and "iCode_K env = K" and "inv (code_state s)"
    and "fits N (scast hash :: clong)"
  shows "\<exists>oid code. hash_oid env hash s = Some (oid, s\<lparr>code_state := code\<rparr>) \<and> inv code \<and> id_length_ok oid"
proof -
  obtain m code where "decode (scast hash) (code_state s) = Some (m, code)" "inv code"
    using decode_total[OF assms(3,4)] by blast
  with assms(1,2) K_word K_range show ?thesis
    by (auto simp: hash_oid_def OverlayID_pattern_def id_length_ok_def OverlayID_new_def)
qed

end

lemma base_extend [simp]:
  "src_oid (ABSMessage.extend b x) = src_oid b" "dst_oid (ABSMessage.extend b x) = dst_oid b"
  "source_host (ABSMessage.extend b x) = source_host b" "dest_host (ABSMessage.extend b x) = dest_host b"
  "overlay_ttl (ABSMessage.extend b x) = overlay_ttl b" "sequence_no (ABSMessage.extend b x) = sequence_no b"
  "source_port (ABSMessage.extend b x) = source_port b"
  by (simp_all add: ABSMessage.defs)

lemma base_truncate [simp]:
  "src_oid (ABSMessage.truncate m) = src_oid m" "dst_oid (ABSMessage.truncate m) = dst_oid m"
  "source_host (ABSMessage.truncate m) = source_host m" "dest_host (ABSMessage.truncate m) = dest_host m"
  "overlay_ttl (ABSMessage.truncate m) = overlay_ttl m" "sequence_no (ABSMessage.truncate m) = sequence_no m"
  "source_port (ABSMessage.truncate m) = source_port m"
  by (simp_all add: ABSMessage.defs)

lemma message_safe_decrement [simp]:
  "message_safe env N (on_base decrementOverlayTtl m) = message_safe env N m"
  by (cases m) (simp_all add: on_base_def decrementOverlayTtl_def log_fits_def)

lemma setNextHop_False: "setNextHop env m s = Some (False, m', s') \<Longrightarrow> m' = m"
  by (auto simp: setNextHop_def bind_eq_Some_conv Let_def split: option.splits if_splits)

text \<open>A handler step is safe if the local branch is.\<close>

lemma step_ok:
  assumes "plexus_ok cinv s" and "\<And>t. target_oid m = Some t \<Longrightarrow> id_length_ok t"
    and "\<And>s. plexus_ok cinv s \<Longrightarrow>
      \<exists>s'. process_here proc env (on_base decrementOverlayTtl m) s = Some s' \<and> plexus_ok cinv s'"
  shows "\<exists>b m' s'. processMessage_step proc env m s = Some (b, m', s') \<and> plexus_ok cinv s'"
proof -
  let ?m = "on_base decrementOverlayTtl m"
  obtain b m' s' where n: "setNextHop env ?m s = Some (b, m', s')" "plexus_ok cinv s'"
    using setNextHop_ok[OF assms(1), of ?m env] assms(2) by auto
  show ?thesis
  proof (cases b)
    case True
    from cache_source_ok[OF n(2)] obtain c where "cache_source (message_base m') s' = Some (s'\<lparr>px_cache := Some c\<rparr>)"
      "plexus_ok cinv (s'\<lparr>px_cache := Some c\<rparr>)" by blast
    with n True show ?thesis
      by (cases "path_caching s' \<and> is_reply m'") (auto simp: processMessage_step_def)
  next
    case False
    with setNextHop_False[of env ?m s m' s'] n(1) have "m' = ?m" by simp
    with assms(3)[OF n(2)] n False show ?thesis by (auto simp: processMessage_step_def)
  qed
qed

lemma request_GET_ok:
  assumes "plexus_ok cinv s" and "id_length_ok (get_target_oid m)" and "id_length_ok (src_oid m)"
  shows "\<exists>b m' s'. processMessage env (Msg_GET m) s = Some (b, m', s') \<and> plexus_ok cinv s'"
  unfolding processMessage_def
proof (rule step_ok[OF assms(1)])
  fix s :: "'a Plexus"
  assume "plexus_ok cinv s"
  from process_GET_ok[OF this, of "ABSMessage.extend (decrementOverlayTtl (ABSMessage.truncate m)) (ABSMessage.more m)"] assms(3)
  show "\<exists>s'. process_here (processMessage_step (\<lambda>_ _. None) env) env (on_base decrementOverlayTtl (Msg_GET m)) s = Some s' \<and>
      plexus_ok cinv s'"
    by (simp add: process_here_def on_base_def decrementOverlayTtl_def)
qed (use assms(2) in auto)

lemma request_PUT_ok:
  assumes "plexus_ok cinv s" and "id_length_ok (put_target_oid m)" and "id_length_ok (src_oid m)"
  shows "\<exists>b m' s'. processMessage env (Msg_PUT m) s = Some (b, m', s') \<and> plexus_ok cinv s'"
  unfolding processMessage_def
proof (rule step_ok[OF assms(1)])
  fix s :: "'a Plexus"
  assume "plexus_ok cinv s"
  from process_PUT_ok[OF this, of "ABSMessage.extend (decrementOverlayTtl (ABSMessage.truncate m)) (ABSMessage.more m)"] assms(3)
  show "\<exists>s'. process_here (processMessage_step (\<lambda>_ _. None) env) env (on_base decrementOverlayTtl (Msg_PUT m)) s = Some s' \<and>
      plexus_ok cinv s'"
    by (simp add: process_here_def on_base_def decrementOverlayTtl_def)
qed (use assms(2) in auto)

lemma draw_get:
  "\<exists>r g. draw (\<lambda>ns. MessageGET_new ns sh sp dh dp so d target name) s = (r, s\<lparr>sequence_no_generator := g\<rparr>) \<and>
     get_target_oid r = target \<and> src_oid r = so \<and> get_deviceName r = name"
  by (simp add: draw_def MessageGET_new_def ABSMessage_new_def calculateOverlayTTL_def ABSMessage.defs MessageGET.defs) blast

lemma draw_put:
  "\<exists>r g. draw (\<lambda>ns. MessagePUT_new ns sh sp dh dp so d target name host) s = (r, s\<lparr>sequence_no_generator := g\<rparr>) \<and>
     put_target_oid r = target \<and> src_oid r = so \<and> put_deviceName r = name \<and> put_hostAddress r = host"
  by (simp add: draw_def MessagePUT_new_def ABSMessage_new_def calculateOverlayTTL_def ABSMessage.defs MessagePUT.defs) blast

lemma plexus_ok_code: "plexus_ok cinv s \<Longrightarrow> cinv code \<Longrightarrow> plexus_ok cinv (s\<lparr>code_state := code\<rparr>)"
  by (simp add: plexus_ok_def tables_ok_def)

context Total_ABSCode
begin

lemma get_for_client_ok:
  assumes "iCode_decode env = decode" and "iCode_K env = K" and "plexus_ok inv s"
  shows "\<exists>s'. get_for_client (processMessage env) env m s = Some s' \<and> plexus_ok inv s'"
proof -
  obtain d_name ha_name where n: "split_name (ig_device_name m) = (d_name, ha_name)" by fastforce
  have "fits N (scast (name_index ha_name) :: clong)" using scast_mask N_range fits_mono by blast
  then obtain oid code where c: "hash_oid env (name_index ha_name) s = Some (oid, s\<lparr>code_state := code\<rparr>)" "inv code"
    "id_length_ok oid"
    using hash_oid_ok[OF assms(1,2) plexus_okD(3)[OF assms(3)]] by blast
  let ?s = "s\<lparr>code_state := code\<rparr>"
  obtain r g where r: "draw (\<lambda>ns. MessageGET_new ns (host_name (px_peer ?s)) (listen_port_number (px_peer ?s)) [] (- 1)
      (peer_overlay_id (px_peer ?s)) (junk_dst env) oid ha_name) ?s = (r, ?s\<lparr>sequence_no_generator := g\<rparr>)"
    "get_target_oid r = oid" "src_oid r = peer_overlay_id (px_peer ?s)"
    using draw_get by blast
  let ?i = "\<lparr>name_hash = name_index ha_name, message_seq_no = sequence_no m\<rparr>"
  let ?r = "(HostAddress_new (source_host m) (source_port m), d_name)"
  let ?t = "?s\<lparr>sequence_no_generator := g, unresolved_get := snd (table_add index_less ?i ?r (unresolved_get s))\<rparr>"
  have "plexus_ok inv ?t"
    using plexus_ok_tables(3)[of inv "?s\<lparr>sequence_no_generator := g\<rparr>"] plexus_ok_code[OF assms(3) c(2)] by simp
  from request_GET_ok[OF this, of "r\<lparr>sequence_no := sequence_no m\<rparr>" env] r(2,3) c(3) plexus_okD(2)[OF assms(3)]
  obtain b m' s' where "processMessage env (Msg_GET (r\<lparr>sequence_no := sequence_no m\<rparr>)) ?t = Some (b, m', s')"
    "plexus_ok inv s'" by auto
  then show ?thesis using n c(1) r(1) by (simp add: get_for_client_def start_request_def)
qed

lemma put_ok:
  assumes "iCode_decode env = decode" and "iCode_K env = K" and "plexus_ok inv s"
    and "fits N (scast (atoi name) :: clong)"
  shows "\<exists>s'. put (processMessage env) env name host s = Some s' \<and> plexus_ok inv s'"
proof -
  obtain oid code where c: "hash_oid env (atoi name) s = Some (oid, s\<lparr>code_state := code\<rparr>)" "inv code" "id_length_ok oid"
    using hash_oid_ok[OF assms(1,2) plexus_okD(3)[OF assms(3)] assms(4)] by blast
  let ?s = "s\<lparr>code_state := code\<rparr>"
  obtain r g where r: "draw (\<lambda>ns. MessagePUT_new ns (host_name (px_peer ?s)) (listen_port_number (px_peer ?s)) [] (- 1)
      (peer_overlay_id (px_peer ?s)) (junk_dst env) oid name host) ?s = (r, ?s\<lparr>sequence_no_generator := g\<rparr>)"
    "put_target_oid r = oid" "src_oid r = peer_overlay_id (px_peer ?s)"
    using draw_put by blast
  let ?i = "\<lparr>name_hash = atoi name, message_seq_no = sequence_no r\<rparr>"
  let ?t = "?s\<lparr>sequence_no_generator := g, unresolved_put := snd (table_add index_less ?i (now_ms env) (unresolved_put s))\<rparr>"
  have "plexus_ok inv ?t"
    using plexus_ok_tables(4)[of inv "?s\<lparr>sequence_no_generator := g\<rparr>"] plexus_ok_code[OF assms(3) c(2)] by simp
  from request_PUT_ok[OF this, of r env] r(2,3) c(3) plexus_okD(2)[OF assms(3)]
  obtain b m' s' where "processMessage env (Msg_PUT r) ?t = Some (b, m', s')" "plexus_ok inv s'" by auto
  then show ?thesis using c(1) r(1) by (simp add: put_def start_request_def)
qed

text \<open>Every message a peer can handle safely is handled, and the invariant holds again.\<close>

lemma process_here_ok:
  assumes "iCode_decode env = decode" and "iCode_K env = K" and "plexus_ok inv s" and "message_safe env N m"
  shows "\<exists>s'. process_here (processMessage env) env m s = Some s' \<and> plexus_ok inv s'"
proof (cases m)
  case (Msg_INIT m)
  with assms process_INIT_ok[OF plexus_ok_base[OF assms(3)], of m] show ?thesis by (simp add: process_here_def)
next
  case (Msg_RETRIEVE_REPLY m)
  with process_RETRIEVE_REPLY_ok[OF assms(3)] show ?thesis by (simp add: process_here_def)
next
  case (Msg_CACHE_ME m)
  with process_CACHE_ME_ok[OF assms(3)] show ?thesis by (simp add: process_here_def)
qed (use assms process_PUT_ok[OF assms(3)] process_GET_ok[OF assms(3)] process_GET_REPLY_ok[OF assms(3)]
    process_PUT_REPLY_ok[OF assms(3)] get_for_client_ok[OF assms(1-3)] put_ok[OF assms(1-3)]
    process_FORCE_LOG_ok[OF assms(3)] in
    \<open>simp_all add: process_here_def process_RETRIEVE_ok plexus_ok_peer\<close>)

lemma processMessage_ok:
  assumes "iCode_decode env = decode" and "iCode_K env = K" and "plexus_ok inv s" and "message_safe env N m"
  shows "\<exists>b m' s'. processMessage env m s = Some (b, m', s') \<and> plexus_ok inv s'"
proof -
  have "\<exists>b m' s'. processMessage_step (processMessage env) env m s = Some (b, m', s') \<and> plexus_ok inv s'"
  proof (rule step_ok[OF assms(3)])
    fix t
    assume "target_oid m = Some t"
    with assms(4) show "id_length_ok t" by (cases m) auto
  next
    fix s :: "'a Plexus"
    assume "plexus_ok inv s"
    from process_here_ok[OF assms(1,2) this, of "on_base decrementOverlayTtl m"] assms(4)
    show "\<exists>s'. process_here (processMessage env) env (on_base decrementOverlayTtl m) s = Some s' \<and> plexus_ok inv s'"
      by simp
  qed
  then show ?thesis by (simp add: processMessage_rec[symmetric])
qed

lemma processMessage_INIT:
  assumes "plexus_base inv s" and "message_safe env N (Msg_INIT m)"
  shows "\<exists>m' s'. processMessage env (Msg_INIT m) s = Some (False, m', s') \<and> plexus_ok inv s'"
proof -
  let ?m = "ABSMessage.extend (decrementOverlayTtl (ABSMessage.truncate m)) (ABSMessage.more m)"
  have "plexus_ok inv (process_INIT ?m s)"
    using assms(2) by (intro process_INIT_ok[OF assms(1)]) (simp_all add: decrementOverlayTtl_def)
  then show ?thesis
    by (simp add: processMessage_def processMessage_step_def[of "processMessage_step (\<lambda>_ _. None) env"]
      process_here_def on_base_def setNextHop_def)
qed

end

section \<open>The peers of the program\<close>

text \<open>A peer as the program sets it up, with the Golay code.\<close>

definition golay_env :: "golay_state env \<Rightarrow> bool" where
  "golay_env env \<longleftrightarrow> iCode_decode env = GolayCode_decode \<and> iCode_K env = GolayCode_K"


text \<open>What a flood of CACHE_ME messages queues.\<close>

fun cache_me_view :: "message \<Rightarrow> (HostAddress \<times> HostAddress \<times> OverlayID \<times> OverlayID \<times> byte) option" where
  "cache_me_view (Msg_CACHE_ME m) = Some (HostAddress_new (source_host m) (source_port m),
     HostAddress_new (dest_host m) (dest_port m), src_oid m, dst_oid m, overlay_ttl m)"
| "cache_me_view _ = None"

lemma flood_queue:
  assumes "oid.wf_table (routing_table s)" and "set es \<subseteq> set (routing_table s)"
  shows "\<exists>ms. outgoing_message_queue (flood sh sp soid ttl (map fst es) s) = outgoing_message_queue s @ ms \<and>
    map cache_me_view ms = map (\<lambda>(k, h). Some (HostAddress_new sh sp, h, soid, k, ttl)) es"
  using assms
proof (induction es arbitrary: s)
  case (Cons e es)
  obtain k h where e: "e = (k, h)" by fastforce
  with Cons.prems have l: "table_lookup oid_less k (routing_table s) = Some h"
    by (intro oid.lookup_of_entry) auto
  let ?m = "snd (MessageCacheMe_new (network_size s) sh sp (hostName h) (hostPort h) soid k (sequence_no_generator s))"
  let ?s = "addToOutgoingQueue (Msg_CACHE_ME (?m\<lparr>overlay_ttl := ttl\<rparr>))
    (s\<lparr>sequence_no_generator := sequence_no_generator s + 1\<rparr>)"
  have step: "flood sh sp soid ttl (map fst (e # es)) s = flood sh sp soid ttl (map fst es) ?s"
    by (simp add: e l draw_def MessageCacheMe_new_def ABSMessage_new_def)
  have q: "outgoing_message_queue ?s = outgoing_message_queue s @ [Msg_CACHE_ME (?m\<lparr>overlay_ttl := ttl\<rparr>)]"
    by (simp add: addToOutgoingQueue_def)
  have v: "cache_me_view (Msg_CACHE_ME (?m\<lparr>overlay_ttl := ttl\<rparr>)) = Some (HostAddress_new sh sp, h, soid, k, ttl)"
    by (simp add: MessageCacheMe_new_def ABSMessage_new_def calculateOverlayTTL_def HostAddress_new_def)
  have rt: "routing_table ?s = routing_table s" by (simp add: addToOutgoingQueue_def)
  have "oid.wf_table (routing_table ?s)" "set es \<subseteq> set (routing_table ?s)" using Cons.prems rt by auto
  from Cons.IH[OF this] obtain ms where
    "outgoing_message_queue (flood sh sp soid ttl (map fst es) ?s) = outgoing_message_queue ?s @ ms"
    "map cache_me_view ms = map (\<lambda>(k, h). Some (HostAddress_new sh sp, h, soid, k, ttl)) es" by blast
  with q v e show ?case unfolding step
    by (intro exI[of _ "Msg_CACHE_ME (?m\<lparr>overlay_ttl := ttl\<rparr>) # ms"]) simp
qed simp

lemma flood_keeps [simp]:
  "routing_table (flood sh sp soid ttl it s) = routing_table s" "index_table (flood sh sp soid ttl it s) = index_table s"
  "proactive_cache (flood sh sp soid ttl it s) = proactive_cache s" "px_peer (flood sh sp soid ttl it s) = px_peer s"
  "incoming_message_queue (flood sh sp soid ttl it s) = incoming_message_queue s"
  using flood_frame[of sh sp soid ttl it s] by auto

lemma example_ok:
  "oid.wf_table rt \<Longrightarrow> id_length_ok oid \<Longrightarrow> cinv code \<Longrightarrow> plexus_ok cinv (example_state code oid rt)"
  using example_tables_ok[of rt code oid]
  by (auto simp: plexus_ok_def example_state_def Plexus_new_def example_peer_def table_empty_def name_db_ok_def
      Cache_new_def intro!: exI[of _ "[]"])

lemma example_golay_env: "golay_env (example_env GolayCode_decode GolayCode_K)"
  by (simp add: golay_env_def example_env_def)


text \<open>
  The INIT message starts a peer: whatever the peer held, as long as its tables were well
  formed, afterwards it satisfies the invariant, has the routing table, the id and the number of
  peers of the message, an empty index table and fresh queue counters; with proactive caching
  it has queued one CACHE_ME message, with a TTL of 2, for each entry of its routing table, and
  otherwise none. The messages that wait in its queues stay there.
\<close>

theorem init_establishes_invariant:
  assumes "plexus_base golay_inv s" and "message_safe env GolayCode_N (Msg_INIT m)"
  shows "\<exists>m' s'. processMessage env (Msg_INIT m) s = Some (False, m', s') \<and> plexus_ok golay_inv s' \<and>
    routing_table s' = pi_routing_table m \<and> peer_overlay_id (px_peer s') = dst_oid m \<and>
    network_size s' = pi_n_peers m \<and> index_table s' = [] \<and> init_rcvd (px_peer s') \<and>
    incoming_queue_pushed s' = 0 \<and> incoming_queue_popped s' = 0 \<and>
    incoming_message_queue s' = incoming_message_queue s \<and>
    (\<exists>ms. outgoing_message_queue s' = outgoing_message_queue s @ ms \<and>
      map cache_me_view ms =
        (if proactive s then map (\<lambda>(k, h). Some (HostAddress_new (host_name (px_peer s)) (listen_port_number (px_peer s)),
           h, dst_oid m, k, 2)) (pi_routing_table m) else []))"
proof -
  let ?m = "ABSMessage.extend (decrementOverlayTtl (ABSMessage.truncate m)) (ABSMessage.more m)"
  let ?t = "process_INIT ?m s"
  have p: "processMessage env (Msg_INIT m) s = Some (False, Msg_INIT ?m, ?t)"
    by (simp add: processMessage_def processMessage_step_def[of "processMessage_step (\<lambda>_ _. None) env"]
      process_here_def on_base_def setNextHop_def)
  have ok: "plexus_ok golay_inv ?t"
    using assms(2) by (intro process_INIT_ok[OF assms(1)]) (simp_all add: decrementOverlayTtl_def)
  let ?s = "init_state ?m s"
  have pro: "proactive ?s = proactive s" by (simp add: proactive_def)
  have rt: "routing_table ?s = pi_routing_table m" "peer_overlay_id (px_peer ?s) = dst_oid m"
    "network_size ?s = pi_n_peers m" by (simp_all add: decrementOverlayTtl_def)
  have t: "?t = (if proactive s then flood (host_name (px_peer s)) (listen_port_number (px_peer s)) (dst_oid m) 2
      (map fst (pi_routing_table m)) ?s else ?s)"
    using pro rt by (simp add: process_INIT_def Let_def reset_iterator_def)
  obtain q n g where f: "flood (host_name (px_peer s)) (listen_port_number (px_peer s)) (dst_oid m) 2
      (map fst (pi_routing_table m)) ?s =
      ?s\<lparr>outgoing_message_queue := q, outgoing_queue_pushed := n, sequence_no_generator := g\<rparr>"
    using flood_frame by blast
  have "oid.wf_table (routing_table ?s)" "set (pi_routing_table m) \<subseteq> set (routing_table ?s)"
    using rt(1) assms(2) by simp_all
  from flood_queue[OF this, of "host_name (px_peer s)" "listen_port_number (px_peer s)" "dst_oid m" 2] f
  have "\<exists>ms. q = outgoing_message_queue s @ ms \<and> map cache_me_view ms =
      map (\<lambda>(k, h). Some (HostAddress_new (host_name (px_peer s)) (listen_port_number (px_peer s)), h, dst_oid m, k, 2))
        (pi_routing_table m)" by simp
  then have "\<exists>ms. outgoing_message_queue ?t = outgoing_message_queue s @ ms \<and> map cache_me_view ms =
        (if proactive s then map (\<lambda>(k, h). Some (HostAddress_new (host_name (px_peer s)) (listen_port_number (px_peer s)),
           h, dst_oid m, k, 2)) (pi_routing_table m) else [])"
    using t f by (cases "proactive s") auto
  moreover have "routing_table ?t = pi_routing_table m \<and> peer_overlay_id (px_peer ?t) = dst_oid m \<and>
    network_size ?t = pi_n_peers m \<and> index_table ?t = [] \<and> init_rcvd (px_peer ?t) \<and>
    incoming_queue_pushed ?t = 0 \<and> incoming_queue_popped ?t = 0 \<and>
    incoming_message_queue ?t = incoming_message_queue s"
    using rt t f by (cases "proactive s") simp_all
  ultimately show ?thesis using p ok by blast
qed

definition example_init :: "OverlayID \<Rightarrow> (OverlayID, HostAddress) table \<Rightarrow> PeerInitMessage" where
  "example_init oid rt = ABSMessage.extend ((example_base MSG_PEER_INIT)\<lparr>dst_oid := oid\<rparr>)
     (PeerInitMessage.fields rt 2 10 0 0 0 0 0 0 0 [] [] [])"

lemma init_establishes_invariant_witness:
  "\<exists>m' s'. processMessage (example_env GolayCode_decode GolayCode_K)
      (Msg_INIT (example_init (OverlayID_new 3 12 12) [(OverlayID_new 7 12 12, HostAddress_new [98] 81)]))
      (Plexus_new (example_peer (OverlayID_new 0 0 0) []) 0 0 golay_start) = Some (False, m', s') \<and>
    plexus_ok golay_inv s' \<and> routing_table s' = [(OverlayID_new 7 12 12, HostAddress_new [98] 81)]"
proof -
  let ?m = "example_init (OverlayID_new 3 12 12) [(OverlayID_new 7 12 12, HostAddress_new [98] 81)]"
  have 1: "plexus_base golay_inv (Plexus_new (example_peer (OverlayID_new 0 0 0) []) 0 0 golay_start)"
    by (simp add: plexus_base_def Plexus_new_def example_peer_def table_empty_def name_db_ok_def golay_inv_start)
  have 2: "message_safe (example_env GolayCode_decode GolayCode_K) GolayCode_N (Msg_INIT ?m)"
    by (simp add: example_init_def example_defs PeerInitMessage.defs id_length_ok_def oid.wf_Cons)
  moreover have "pi_routing_table ?m = [(OverlayID_new 7 12 12, HostAddress_new [98] 81)]"
    by (simp add: example_init_def example_defs PeerInitMessage.defs)
  ultimately show ?thesis using init_establishes_invariant[OF 1 2] by auto
qed

end
