(* ===== verification/Plexus_Behaviour.thy ===== *)
theory Plexus_Behaviour
  imports Peer_Safety
begin

text \<open>
  What the handler of a peer does with the requests of the protocol: storing and finding names,
  the requests of clients, the spreading of cache entries, and how often a message can be
  forwarded.
\<close>

section \<open>The handler on a message that stays\<close>

definition aged :: "message \<Rightarrow> message" where
  "aged m = on_base decrementOverlayTtl m"

lemma processMessage_stays:
  assumes "setNextHop env (aged m) s = Some (False, m', s1)" and "process_here (processMessage env) env (aged m) s1 = Some s2"
  shows "processMessage env m s = Some (False, aged m, s2)"
  using assms setNextHop_False[OF assms(1)]
  by (subst processMessage_rec) (simp add: processMessage_step_def aged_def)

lemma setNextHop_unrouted: "target_oid m = None \<Longrightarrow> setNextHop env m s = Some (False, m, s)"
  by (simp add: setNextHop_def)

lemma processMessage_unrouted:
  assumes "target_oid m = None"
  shows "processMessage env m s = map_option (\<lambda>s. (False, aged m, s)) (process_here (processMessage env) env (aged m) s)"
  using assms setNextHop_unrouted[of "aged m" env s]
  by (subst processMessage_rec) (simp add: processMessage_step_def aged_def)

lemma setNextHop_answered: "answered_here m s \<Longrightarrow> setNextHop env m s = Some (False, m, s)"
  by (cases m) (auto simp: setNextHop_def)

text \<open>A reply that \<open>send_reply\<close> queues is of the class, and holds the fields, it was given.\<close>

lemma send_reply_queues:
  assumes "send_reply env m s = Some s'"
  shows "\<exists>m'. outgoing_message_queue s' = outgoing_message_queue s @ [m'] \<and> (m' = m \<or> (\<exists>f. m' = on_base f m)) \<and>
    index_table s' = index_table s \<and> unresolved_get s' = unresolved_get s \<and> px_peer s' = px_peer s"
proof (cases "path_caching s")
  case True
  with assms obtain b m' s1 where n: "setNextHop env m s = Some (b, m', s1)" "s' = addToOutgoingQueue m' s1"
    by (auto simp: send_reply_def bind_eq_Some_conv)
  from setNextHop_frame[OF n(1)] setNextHop_message[OF n(1)] n(2) show ?thesis
    by (auto simp: addToOutgoingQueue_def)
next
  case False
  with assms show ?thesis by (auto simp: send_reply_def addToOutgoingQueue_def)
qed

lemma on_base_reply [simp]:
  "on_base f (Msg_GET_REPLY r) = Msg_GET_REPLY (ABSMessage.extend (f (ABSMessage.truncate r)) (ABSMessage.more r))"
  "on_base f (Msg_PUT_REPLY p) = Msg_PUT_REPLY (ABSMessage.extend (f (ABSMessage.truncate p)) (ABSMessage.more p))"
  by (simp_all add: on_base_def)

section \<open>Storing and finding a name\<close>

lemma name_lookup_add:
  assumes "name.wf_table t"
  shows "table_lookup str_less x (snd (table_add str_less n h t)) =
    (if x = n \<and> table_lookup str_less n t = None then Some h else table_lookup str_less x t)"
proof -
  obtain b t' where a: "table_add str_less n h t = (b, t')" by fastforce
  from name.table_add_refines[OF assms a] show ?thesis
    by (auto simp: table_lookup_def name.map_find_abs a)
qed

lemma process_PUT_stores:
  assumes "process_PUT env m s = Some s'" and "name.wf_table (index_table s)"
  shows "table_lookup str_less x (index_table s') =
      (if x = put_deviceName m \<and> table_lookup str_less x (index_table s) = None then Some (put_hostAddress m)
       else table_lookup str_less x (index_table s)) \<and>
    put_processed (px_peer s') = put_processed (px_peer s) + 1 \<and>
    (\<exists>r. outgoing_message_queue s' = outgoing_message_queue s @ [Msg_PUT_REPLY r] \<and> pr_status r = SUCCESS \<and>
      pr_device_name r = put_deviceName m \<and> pr_target_oid r = src_oid m)"
proof -
  let ?s = "(on_peer incrementPut_processed s)\<lparr>index_table :=
    snd (table_add str_less (put_deviceName m) (put_hostAddress m) (index_table (on_peer incrementPut_processed s)))\<rparr>"
  obtain r g where r: "draw (\<lambda>ns. MessagePUT_REPLY_new ns (raw_put_reply env) (host_name (px_peer ?s))
      (listen_port_number (px_peer ?s)) (source_host m) (source_port m) (peer_overlay_id (px_peer ?s))
      (junk_reply_dst env) SUCCESS (src_oid m) (put_deviceName m)) ?s = (r, ?s\<lparr>sequence_no_generator := g\<rparr>)"
    "pr_target_oid r = src_oid m" "pr_status r = SUCCESS" "pr_device_name r = put_deviceName m"
    using draw_put_reply by blast
  let ?r = "r\<lparr>pr_hops := ucast (overlay_hops m), pr_ip_hops := ip_hops m, pr_latency := latency m,
         pr_origin_seq_no := sequence_no m\<rparr>"
  have send: "send_reply env (Msg_PUT_REPLY ?r) (?s\<lparr>sequence_no_generator := g\<rparr>) = Some s'"
    using assms(1) r(1) by (simp add: process_PUT_def Let_def split: if_splits)
  from send_reply_queues[OF send] r(2-4) have
    "index_table s' = snd (table_add str_less (put_deviceName m) (put_hostAddress m) (index_table s))"
    "put_processed (px_peer s') = put_processed (px_peer s) + 1"
    "\<exists>r. outgoing_message_queue s' = outgoing_message_queue s @ [Msg_PUT_REPLY r] \<and> pr_status r = SUCCESS \<and>
      pr_device_name r = put_deviceName m \<and> pr_target_oid r = src_oid m"
    by (auto simp: on_peer_def incrementPut_processed_def)
  then show ?thesis using name_lookup_add[OF assms(2)] by auto
qed

lemma process_GET_replies:
  assumes "process_GET env m s = Some s'" and "table_lookup str_less (get_deviceName m) (index_table s) = found"
  shows "index_table s' = index_table s \<and> unresolved_get s' = unresolved_get s \<and> get_processed (px_peer s') = get_processed (px_peer s) + 1 \<and>
    (\<exists>r. outgoing_message_queue s' = outgoing_message_queue s @ [Msg_GET_REPLY r] \<and>
      gr_status r = (if found = None then ERROR_GET_FAILED else SUCCESS) \<and>
      gr_host_address r = (case found of Some h \<Rightarrow> h | None \<Rightarrow> HostAddress_default) \<and>
      gr_device_name r = get_deviceName m \<and> gr_target_oid r = src_oid m \<and> gr_origin_seq_no r = sequence_no m)"
proof -
  let ?s = "on_peer incrementGet_processed s"
  obtain r g where r: "draw (\<lambda>ns. MessageGET_REPLY_new ns (raw_get_reply env) (host_name (px_peer ?s))
      (listen_port_number (px_peer ?s)) (source_host m) (source_port m) (peer_overlay_id (px_peer ?s))
      (junk_reply_dst env) (if found = None then ERROR_GET_FAILED else SUCCESS) (src_oid m)
      (case found of Some h \<Rightarrow> h | None \<Rightarrow> HostAddress_default) (get_deviceName m)) ?s =
      (r, ?s\<lparr>sequence_no_generator := g\<rparr>)"
    "gr_target_oid r = src_oid m" "gr_status r = (if found = None then ERROR_GET_FAILED else SUCCESS)"
    "gr_host_address r = (case found of Some h \<Rightarrow> h | None \<Rightarrow> HostAddress_default)"
    "gr_device_name r = get_deviceName m"
    using draw_get_reply by blast
  let ?r = "r\<lparr>gr_hops := ucast (overlay_hops m), gr_ip_hops := ip_hops m, gr_latency := latency m,
         gr_origin_seq_no := sequence_no m\<rparr>"
  let ?t = "?s\<lparr>sequence_no_generator := g\<rparr>"
  have f: "table_lookup str_less (get_deviceName m) (index_table ?s) = found"
    using assms(2) by (simp add: on_peer_def)
  have "(if found \<noteq> None then send_reply env (Msg_GET_REPLY ?r) ?t
      else Some (addToOutgoingQueue (Msg_GET_REPLY ?r) ?t)) = Some s'"
    using assms(1) r(1) by (cases found) (auto simp: process_GET_def Let_def f split: if_splits)
  then have "\<exists>m'. outgoing_message_queue s' = outgoing_message_queue ?t @ [m'] \<and>
      (m' = Msg_GET_REPLY ?r \<or> (\<exists>f. m' = on_base f (Msg_GET_REPLY ?r))) \<and>
      index_table s' = index_table ?t \<and> unresolved_get s' = unresolved_get ?t \<and> px_peer s' = px_peer ?t"
    using send_reply_queues[of env "Msg_GET_REPLY ?r" ?t s']
    by (auto simp: addToOutgoingQueue_def split: if_splits)
  with r(2-5) show ?thesis by (auto simp: on_peer_def incrementGet_processed_def)
qed

lemma aged_GET: "aged (Msg_GET m) = Msg_GET (ABSMessage.extend (decrementOverlayTtl (ABSMessage.truncate m)) (ABSMessage.more m))"
  by (simp add: aged_def on_base_def)

text \<open>
  C22. A name that was put is found. When a peer processes a PUT locally, it stores the address
  unless it has one for the name, and acknowledges the PUT with success in either case; a
  later GET for the name at this peer is then answered at once, whatever its TTL and target,
  with success and the first address put, and the reply goes to the queue.
\<close>

theorem put_then_get:
  assumes "plexus_ok cinv s" and "process_here proc env (Msg_PUT p) s = Some s1" and "plexus_ok cinv s1"
    and "get_deviceName g = put_deviceName p" and "id_length_ok (src_oid g)"
  shows "(\<exists>r. outgoing_message_queue s1 = outgoing_message_queue s @ [Msg_PUT_REPLY r] \<and> pr_status r = SUCCESS) \<and>
    (\<exists>r s2. processMessage env2 (Msg_GET g) s1 = Some (False, aged (Msg_GET g), s2) \<and>
      outgoing_message_queue s2 = outgoing_message_queue s1 @ [Msg_GET_REPLY r] \<and> gr_status r = SUCCESS \<and>
      gr_origin_seq_no r = sequence_no g \<and>
      gr_host_address r = (case table_lookup str_less (put_deviceName p) (index_table s) of
        Some h \<Rightarrow> h | None \<Rightarrow> put_hostAddress p))"
proof -
  have wf: "name.wf_table (index_table s)" using assms(1) by (auto simp: plexus_ok_def tables_ok_def)
  have put: "process_PUT env p s = Some s1" using assms(2) by (simp add: process_here_def)
  note P = process_PUT_stores[OF put wf, of "put_deviceName p"]
  let ?h = "case table_lookup str_less (put_deviceName p) (index_table s) of Some h \<Rightarrow> h | None \<Rightarrow> put_hostAddress p"
  have found: "table_lookup str_less (put_deviceName p) (index_table s1) = Some ?h"
    using P by (auto split: option.splits if_splits)
  let ?g = "ABSMessage.extend (decrementOverlayTtl (ABSMessage.truncate g)) (ABSMessage.more g)"
  have fields: "src_oid ?g = src_oid g" "sequence_no ?g = sequence_no g"
    by (simp_all add: decrementOverlayTtl_def)
  have "answered_here (aged (Msg_GET g)) s1" using found assms(4) by (simp add: aged_GET)
  from setNextHop_answered[OF this] have n: "setNextHop env2 (aged (Msg_GET g)) s1 = Some (False, aged (Msg_GET g), s1)" .
  obtain s2 where s2: "process_GET env2 ?g s1 = Some s2"
    using process_GET_ok[OF assms(3), of ?g env2] assms(5) fields by auto
  then have "processMessage env2 (Msg_GET g) s1 = Some (False, aged (Msg_GET g), s2)"
    by (intro processMessage_stays[OF n]) (simp add: aged_GET process_here_def)
  moreover have "table_lookup str_less (get_deviceName ?g) (index_table s1) = Some ?h"
    using found assms(4) by simp
  from process_GET_replies[OF s2 this] obtain r where
    "outgoing_message_queue s2 = outgoing_message_queue s1 @ [Msg_GET_REPLY r]" "gr_status r = SUCCESS"
    "gr_host_address r = ?h" "gr_origin_seq_no r = sequence_no g"
    using fields by auto
  ultimately show ?thesis using P by blast
qed

definition example_put :: "OverlayID \<Rightarrow> cstring \<Rightarrow> HostAddress \<Rightarrow> MessagePUT" where
  "example_put target name host = ABSMessage.extend (example_base MSG_PLEXUS_PUT) (MessagePUT.fields target name host)"

lemma put_then_get_witness:
  "\<exists>s1 s2 r. process_here (\<lambda>_ _. None) (example_env (\<lambda>_ _. None) 4)
      (Msg_PUT (example_put (OverlayID_new 5 4 4) [110] (HostAddress_new [99] 99)))
      (example_state () (OverlayID_new 3 4 4) []) = Some s1 \<and>
    processMessage (example_env (\<lambda>_ _. None) 4) (example_get (OverlayID_new 0 4 4) (OverlayID_new 5 4 4) [110]) s1 =
      Some (False, aged (example_get (OverlayID_new 0 4 4) (OverlayID_new 5 4 4) [110]), s2) \<and>
    outgoing_message_queue s2 = outgoing_message_queue s1 @ [Msg_GET_REPLY r] \<and>
    gr_host_address r = HostAddress_new [99] 99"
proof -
  let ?p = "example_put (OverlayID_new 5 4 4) [110] (HostAddress_new [99] 99)"
  let ?s = "example_state () (OverlayID_new 3 4 4) []"
  let ?env = "example_env (\<lambda>_ _. None) 4 :: unit env"
  have ok: "plexus_ok (\<lambda>_. True) ?s" by (rule example_ok) (simp_all add: id_length_ok_def OverlayID_new_def)
  have p: "id_length_ok (src_oid ?p)" "put_deviceName ?p = [110]" "put_hostAddress ?p = HostAddress_new [99] 99"
    by (simp_all add: example_put_def example_defs MessagePUT.defs id_length_ok_def)
  obtain g where g: "example_get (OverlayID_new 0 4 4) (OverlayID_new 5 4 4) [110] = Msg_GET g"
    "get_deviceName g = [110]" "id_length_ok (src_oid g)"
    by (simp add: example_defs id_length_ok_def)
  from process_PUT_ok[OF ok p(1), of ?env] obtain s1 where
    s1: "process_here (\<lambda>_ _. None) ?env (Msg_PUT ?p) ?s = Some s1" "plexus_ok (\<lambda>_. True) s1"
    by (auto simp: process_here_def)
  have none: "table_lookup str_less [110] (index_table ?s) = None"
    by (simp add: example_defs table_lookup_def)
  from put_then_get[OF ok s1, of g ?env] g(2,3) p none s1(1) show ?thesis
    unfolding g(1) by auto
qed

section \<open>A message is forwarded only so often\<close>

text \<open>
  A chain of forwards, by the peers of the list, each in some state; between two peers the
  forwarding thread changes the hops and the latency (\<open>f\<close>), not the TTL.
\<close>

inductive forwards :: "('s env \<times> 's Plexus) list \<Rightarrow> message \<Rightarrow> message \<Rightarrow> bool" where
  last_hop: "forwards [] m m"
| hop: "processMessage env m s = Some (True, m1, s') \<Longrightarrow> (\<And>b. overlay_ttl (f b) = overlay_ttl b) \<Longrightarrow>
    forwards ps (on_base f m1) m2 \<Longrightarrow> forwards ((env, s) # ps) m m2"

lemma setNextHop_True:
  assumes "setNextHop env m s = Some (True, m', s')"
  shows "overlay_ttl (message_base m) \<noteq> 0 \<and> (\<exists>h oid. m' = on_base (set_hop h oid) m)"
  using assms by (auto simp: setNextHop_def bind_eq_Some_conv Let_def split: option.splits if_splits)

lemma processMessage_True:
  assumes "processMessage env m s = Some (True, m', s')"
  shows "overlay_ttl (message_base m') = overlay_ttl (message_base m) - 1 \<and> overlay_ttl (message_base m') \<noteq> 0"
proof -
  from assms obtain b m1 s1 where "setNextHop env (aged m) s = Some (b, m1, s1)" "b" "m' = m1"
    by (subst (asm) processMessage_rec)
       (auto simp: processMessage_step_def aged_def bind_eq_Some_conv split: if_splits)
  with setNextHop_True[of env "aged m" s m1 s1] show ?thesis
    by (auto simp: aged_def set_hop_def decrementOverlayTtl_def)
qed

text \<open>The forwards a TTL allows; 0 counts as 256, since the first peer decrements it to 255.\<close>

definition ttl_forwards :: "byte \<Rightarrow> nat" where
  "ttl_forwards ttl = (if ttl = 0 then 255 else unat ttl - 1)"

lemma ttl_forwards_step:
  assumes "ttl - 1 \<noteq> 0"
  shows "ttl_forwards ttl = Suc (ttl_forwards (ttl - 1))"
proof (cases "ttl = 0")
  case False
  then have "unat (ttl - 1) = unat ttl - 1" by (rule unat_minus_one)
  moreover have "unat (ttl - 1) \<noteq> 0" using assms unat_eq_0 by blast
  ultimately show ?thesis using False assms by (simp add: ttl_forwards_def)
next
  case True
  have "unat (- 1 :: byte) = 255" by code_simp
  with True show ?thesis by (simp add: ttl_forwards_def)
qed

text \<open>
  C39. Forwarding ends. Whatever peers forward a message, in whatever states, a message with TTL
  \<open>t\<close> is forwarded at most \<open>t - 1\<close> times (a new message, with TTL 10, at most 9 times), its TTL
  being \<open>t\<close> minus the number of forwards; but TTL 0 is no bound: the first peer turns it into
  255.
\<close>

theorem forwarding_ends:
  assumes "forwards ps m m'"
  shows "length ps \<le> ttl_forwards (overlay_ttl (message_base m)) \<and>
    overlay_ttl (message_base m') = overlay_ttl (message_base m) - of_nat (length ps)"
  using assms
proof (induction rule: forwards.induct)
  case (hop env m s m1 s' f ps m2)
  from processMessage_True[OF hop(1)] have t: "overlay_ttl (message_base m1) = overlay_ttl (message_base m) - 1"
    "overlay_ttl (message_base m) - 1 \<noteq> 0" by auto
  with hop(2,4) ttl_forwards_step[OF t(2)] show ?case by (simp add: algebra_simps)
qed simp

lemma forwarding_ends_witness:
  "\<exists>m'. forwards [(example_env (\<lambda>_ _. None) 4,
      example_state () (OverlayID_new 0b1000 4 4) [(OverlayID_new 0b0110 4 4, HostAddress_new [98] 81)])]
      (example_get (OverlayID_new 0 4 4) (OverlayID_new 0b0111 4 4) [110]) m' \<and>
    overlay_ttl (message_base m') = 9"
proof -
  let ?env = "example_env (\<lambda>_ _. None) 4 :: unit env"
  let ?t = "OverlayID_new 0b0111 4 4" and ?o = "OverlayID_new 0b0110 4 4" and ?me = "OverlayID_new 0b1000 4 4"
  let ?s = "example_state () ?me [(?o, HostAddress_new [98] 81)]"
  let ?m = "example_get (OverlayID_new 0 4 4) ?t [110]"
  have ok: "tables_ok ?s []" by (rule example_tables_ok) (simp add: oid.wf_Cons)
  have e: "known_entries ?s [] = [(?o, HostAddress_new [98] 81)]"
    by (simp add: known_entries_def example_defs)
  have b: "best_entry ?t (known_entries ?s []) = Some (3, ?o, HostAddress_new [98] 81)"
    unfolding e by (simp add: best_entry_def matched_example) (simp add: OverlayID_new_def)
  have me: "peer_overlay_id (px_peer ?s) = ?me" and d: "dst_oid (message_base (aged ?m)) = OverlayID_new 0 4 4"
    and t: "target_oid (aged ?m) = Some ?t" and ttl: "overlay_ttl (message_base (aged ?m)) = 9"
    and rep: "\<not> is_reply (aged ?m)" and here: "\<not> answered_here (aged ?m) ?s"
    by (simp_all add: example_defs aged_def decrementOverlayTtl_def table_lookup_def)
  have len: "id_length_ok ?t" "id_length_ok ?me" by (simp_all add: id_length_ok_def OverlayID_new_def)
  have "\<not> 3 < matched ?me (OverlayID_new 0 4 4)"
    by (simp add: matched_example)
  then obtain m1 s1 where n: "setNextHop ?env (aged ?m) ?s = Some (True, m1, s1)"
    using setNextHop_search[OF ok t len(1), of ?env] len(2) b me d ttl rep here by auto
  moreover have "\<not> is_reply m1" using setNextHop_True[OF n] rep by auto
  ultimately have p: "processMessage ?env ?m ?s = Some (True, m1, s1)"
    by (subst processMessage_rec) (simp add: processMessage_step_def aged_def)
  have "forwards [(?env, ?s)] ?m (on_base (\<lambda>b. b) m1)"
    by (rule forwards.hop[OF p _ forwards.last_hop]) simp
  moreover have "overlay_ttl (message_base ?m) = 10" by (simp add: example_defs)
  ultimately show ?thesis using forwarding_ends by fastforce
qed

section \<open>Retrieving an address\<close>

text \<open>
  A RETRIEVE message is always answered with success, to its sender: with the address the
  peer has for the name, or, for a name it does not know, with the default address (an empty
  host name and port -1).
\<close>

theorem retrieve_reports_success:
  "\<exists>r s'. processMessage env (Msg_RETRIEVE m) s = Some (False, aged (Msg_RETRIEVE m), s') \<and>
    outgoing_message_queue s' = outgoing_message_queue s @ [Msg_RETRIEVE_REPLY r] \<and>
    rr_status r = SUCCESS \<and> rr_origin_seq_no r = sequence_no m \<and> rr_device_name r = rm_deviceName m \<and>
    dest_host r = source_host m \<and> dest_port r = source_port m \<and>
    rr_host_address r = (case searchNameDb (rm_deviceName m) (px_peer s) of Some h \<Rightarrow> h | None \<Rightarrow> HostAddress_new [] (- 1))"
proof -
  obtain m' where a: "aged (Msg_RETRIEVE m) = Msg_RETRIEVE m'" and f: "source_host m' = source_host m"
    "source_port m' = source_port m" "sequence_no m' = sequence_no m" "rm_deviceName m' = rm_deviceName m"
    by (simp add: aged_def on_base_def decrementOverlayTtl_def)
  have d: "HostAddress_default = HostAddress_new [] (- 1)" by (simp add: HostAddress_default_def HostAddress_new_def)
  have p: "processMessage env (Msg_RETRIEVE m) s = Some (False, aged (Msg_RETRIEVE m), process_RETRIEVE env m' s)"
    using processMessage_unrouted[of "Msg_RETRIEVE m" env s] by (simp add: a process_here_def)
  show ?thesis
    unfolding p d[symmetric] using f
    by (simp add: process_RETRIEVE_def draw_def MessageRetrieveReply_new_def ABSMessage_new_def calculateOverlayTTL_def
        ABSMessage.defs MessageRetrieveReply.defs addToOutgoingQueue_def Let_def SUCCESS_def)
qed

section \<open>Spreading cache entries\<close>

text \<open>
  With proactive caching a CACHE_ME message makes its source known: if the source is not the
  peer itself and not in its routing table, the proactive cache has an entry for it afterwards
  (an older one is kept). Unless its TTL was 1, it goes on to every peer of the routing table, with
  the TTL decreased by one, still under the name of its source.
\<close>

theorem cache_me_spreads:
  assumes "proactive s" and "oid.wf_table (routing_table s)" and "oid.wf_table (proactive_cache s)"
  shows "\<exists>s' ms. processMessage env (Msg_CACHE_ME m) s = Some (False, aged (Msg_CACHE_ME m), s') \<and>
    routing_table s' = routing_table s \<and>
    (\<not> oid_eq (src_oid m) (peer_overlay_id (px_peer s)) \<and> table_lookup oid_less (src_oid m) (routing_table s) = None \<longrightarrow>
      table_lookup oid_less (src_oid m) (proactive_cache s') =
        (case table_lookup oid_less (src_oid m) (proactive_cache s) of Some h \<Rightarrow> Some h
         | None \<Rightarrow> Some (HostAddress_new (source_host m) (source_port m)))) \<and>
    outgoing_message_queue s' = outgoing_message_queue s @ ms \<and>
    map cache_me_view ms = (if overlay_ttl m = 1 then [] else
      map (\<lambda>(k, h). Some (HostAddress_new (source_host m) (source_port m), h, src_oid m, k, overlay_ttl m - 1))
        (routing_table s))"
proof -
  let ?m = "decrementOverlayTtl m"
  have a: "aged (Msg_CACHE_ME m) = Msg_CACHE_ME ?m" by (simp add: aged_def on_base_def)
  have f: "source_host ?m = source_host m" "source_port ?m = source_port m" "src_oid ?m = src_oid m"
    "overlay_ttl ?m = overlay_ttl m - 1"
    by (simp_all add: decrementOverlayTtl_def)
  let ?ha = "HostAddress_new (source_host m) (source_port m)"
  let ?new = "\<not> oid_eq (src_oid m) (peer_overlay_id (px_peer s)) \<and> table_lookup oid_less (src_oid m) (routing_table s) = None"
  define s1 where "s1 = (if ?new
    then s\<lparr>proactive_cache := snd (table_add oid_less (src_oid m) ?ha (proactive_cache s))\<rparr> else s)"
  let ?t = "process_CACHE_ME ?m s"
  have p: "processMessage env (Msg_CACHE_ME m) s = Some (False, aged (Msg_CACHE_ME m), ?t)"
    using processMessage_unrouted[of "Msg_CACHE_ME m" env s] by (simp add: a process_here_def)
  have s1: "routing_table s1 = routing_table s" "outgoing_message_queue s1 = outgoing_message_queue s"
    by (simp_all add: s1_def)
  have t: "?t = (if overlay_ttl m - 1 > 0 then flood (source_host m) (source_port m) (src_oid m) (overlay_ttl m - 1)
      (map fst (routing_table s)) s1 else s1)"
    using assms(1) f s1 unfolding process_CACHE_ME_def Let_def s1_def[symmetric] reset_iterator_def f
    by (simp add: s1_def)
  have pos: "overlay_ttl m - 1 > 0 \<longleftrightarrow> overlay_ttl m \<noteq> 1" by (simp add: word_gt_0)
  obtain b t' where add: "table_add oid_less (src_oid m) ?ha (proactive_cache s) = (b, t')" by fastforce
  from oid.table_add_refines[OF assms(3) add] have look: "?new \<longrightarrow>
      table_lookup oid_less (src_oid m) (proactive_cache s1) =
        (case table_lookup oid_less (src_oid m) (proactive_cache s) of Some h \<Rightarrow> Some h | None \<Rightarrow> Some ?ha)"
    by (auto simp: s1_def add table_lookup_def oid.map_find_abs split: option.split)
  have "oid.wf_table (routing_table s1)" "set (routing_table s) \<subseteq> set (routing_table s1)" using assms(2) s1 by simp_all
  from flood_queue[OF this, of "source_host m" "source_port m" "src_oid m" "overlay_ttl m - 1"] s1 t pos
  have "\<exists>ms. outgoing_message_queue ?t = outgoing_message_queue s @ ms \<and>
    map cache_me_view ms = (if overlay_ttl m = 1 then [] else
      map (\<lambda>(k, h). Some (?ha, h, src_oid m, k, overlay_ttl m - 1)) (routing_table s))"
    by auto
  moreover have "routing_table ?t = routing_table s" "proactive_cache ?t = proactive_cache s1"
    using t s1 by simp_all
  ultimately show ?thesis using p look by metis
qed

lemma cache_me_spreads_witness:
  "\<exists>s' ms. processMessage (example_env (\<lambda>_ _. None) 4) (Msg_CACHE_ME ((example_base MSG_CACHE_ME)\<lparr>overlay_ttl := 2\<rparr>))
      ((example_state () (OverlayID_new 3 4 4) [(OverlayID_new 7 4 4, HostAddress_new [98] 81)])
        \<lparr>px_peer := (example_peer (OverlayID_new 3 4 4) [])\<lparr>cache_type := str ''proactive''\<rparr>\<rparr>) =
      Some (False, aged (Msg_CACHE_ME ((example_base MSG_CACHE_ME)\<lparr>overlay_ttl := 2\<rparr>)), s') \<and>
    outgoing_message_queue s' = ms \<and> map cache_me_view ms =
      [Some (HostAddress_new [115] 90, HostAddress_new [98] 81, OverlayID_new 1 4 4, OverlayID_new 7 4 4, 1)]"
proof -
  let ?rt = "[(OverlayID_new 7 4 4, HostAddress_new [98] 81)]"
  let ?s = "(example_state () (OverlayID_new 3 4 4) ?rt)
    \<lparr>px_peer := (example_peer (OverlayID_new 3 4 4) [])\<lparr>cache_type := str ''proactive''\<rparr>\<rparr>"
  let ?m = "(example_base MSG_CACHE_ME)\<lparr>overlay_ttl := 2\<rparr>"
  have 1: "proactive ?s"
    by (simp add: proactive_def example_peer_def c_text_def str_def)
  have rt: "routing_table ?s = ?rt" "proactive_cache ?s = []" "outgoing_message_queue ?s = []"
    by (simp_all add: example_state_def Plexus_new_def table_empty_def)
  have 2: "oid.wf_table (routing_table ?s)" "oid.wf_table (proactive_cache ?s)"
    unfolding rt by (simp_all add: oid.wf_Cons)
  have m: "source_host ?m = [115]" "source_port ?m = 90" "src_oid ?m = OverlayID_new 1 4 4" "overlay_ttl ?m = 2"
    by (simp_all add: example_base_def)
  from cache_me_spreads[OF 1 2, of "example_env (\<lambda>_ _. None) 4" ?m] show ?thesis
    unfolding m rt by auto
qed

section \<open>Requests of clients\<close>

text \<open>
  A client can stop a peer: a PUT request whose name starts with a number of at least
  \<open>2 ^ 23\<close> (up to the largest \<^verbatim>\<open>int\<close>) makes the Golay decoder loop for ever, in the only processing
  thread. (A GET request cannot: its number has 22 bits, see \<open>processing_safe\<close>.)
\<close>

theorem put_request_hangs:
  assumes "golay_env env" and "golay_inv (code_state s)" and "0 \<le> sint (atoi (ip_device_name m))"
    and "bit (atoi (ip_device_name m)) i" and "23 \<le> i"
  shows "processMessage env (Msg_INITIATE_PUT m) s = None"
proof -
  let ?h = "atoi (ip_device_name m)" and ?w = "scast (atoi (ip_device_name m)) :: clong"
  have top: "\<not> bit ?h 31" using assms(3) bit_last_iff[of ?h] by simp
  have i: "i < 31"
    using bit_imp_le_length[OF assms(4)] top assms(4) by (cases "i = 31") auto
  have "fits 31 ?w" using top by (auto simp: fits_def bit_signed_iff min_def)
  then have "unat ?w < 2 ^ 32" by (simp add: fits_iff_unat)
  moreover have "bit ?w i" using assms(4) i by (simp add: bit_signed_iff min_def)
  ultimately have "decode_golay ?w (code_state s) = None"
    using decode_golay_diverges[OF assms(2)] assms(5) by blast
  then have "hash_oid env ?h s = None"
    using assms(1) by (simp add: hash_oid_def OverlayID_pattern_def golay_env_def GolayCode_decode_def)
  moreover obtain m' where "aged (Msg_INITIATE_PUT m) = Msg_INITIATE_PUT m'" "ip_device_name m' = ip_device_name m"
    by (simp add: aged_def on_base_def)
  ultimately show ?thesis
    using processMessage_unrouted[of "Msg_INITIATE_PUT m" env s] by (simp add: process_here_def put_def)
qed

lemma put_request_hangs_witness:
  "processMessage (example_env GolayCode_decode GolayCode_K)
     (Msg_INITIATE_PUT (ABSMessage.extend (example_base MSG_PEER_INITIATE_PUT)
       (PeerInitiatePUT.fields (str ''8388608'') (HostAddress_new [99] 99))))
     (example_state golay_start (OverlayID_new 3 12 12) []) = None"
proof -
  let ?m = "ABSMessage.extend (example_base MSG_PEER_INITIATE_PUT)
       (PeerInitiatePUT.fields (str ''8388608'') (HostAddress_new [99] 99))"
  have "ip_device_name ?m = str ''8388608''" by (simp add: example_defs PeerInitiatePUT.defs)
  moreover have "atoi (str ''8388608'') = 8388608" by code_simp
  ultimately have a: "atoi (ip_device_name ?m) = 8388608" by simp
  have "code_state (example_state golay_start (OverlayID_new 3 12 12) []) = golay_start"
    by (simp add: example_state_def Plexus_new_def)
  then show ?thesis
    using put_request_hangs[OF example_golay_env, of "example_state golay_start (OverlayID_new 3 12 12) []" ?m 23] a
    by (simp add: golay_inv_start bit_numeral_rec)
qed

text \<open>What processing a message may do to the open requests of clients, and what it sends.\<close>

fun is_retrieve :: "message \<Rightarrow> bool" where
  "is_retrieve (Msg_RETRIEVE m) = True"
| "is_retrieve (Msg_RETRIEVE_REPLY m) = True"
| "is_retrieve _ = False"

lemma is_retrieve_on [simp]: "is_retrieve (on_base f m) = is_retrieve m"
  by (cases m) (simp_all add: on_base_def)

definition keeps_open :: "'s Plexus \<Rightarrow> 's Plexus \<Rightarrow> bool" where
  "keeps_open s s' \<longleftrightarrow>
     (\<exists>ms. outgoing_message_queue s' = outgoing_message_queue s @ ms \<and> (\<forall>m\<in>set ms. \<not> is_retrieve m)) \<and>
     (\<forall>i r. table_lookup index_less i (unresolved_get s) = Some r \<longrightarrow>
       table_lookup index_less i (unresolved_get s') = Some r) \<and>
     (index.wf_table (unresolved_get s) \<longrightarrow> index.wf_table (unresolved_get s'))"

lemma keeps_open_same:
  "outgoing_message_queue s' = outgoing_message_queue s \<Longrightarrow> unresolved_get s' = unresolved_get s \<Longrightarrow> keeps_open s s'"
  by (simp add: keeps_open_def)

lemma keeps_open_send:
  "outgoing_message_queue s' = outgoing_message_queue s @ [m] \<Longrightarrow> \<not> is_retrieve m \<Longrightarrow>
   unresolved_get s' = unresolved_get s \<Longrightarrow> keeps_open s s'"
  by (simp add: keeps_open_def)

lemma keeps_open_trans:
  assumes "keeps_open s t" and "keeps_open t u" 
  shows "keeps_open s u"
proof -
  obtain a b where "outgoing_message_queue t = outgoing_message_queue s @ a" "\<forall>m\<in>set a. \<not> is_retrieve m"
    "outgoing_message_queue u = outgoing_message_queue t @ b" "\<forall>m\<in>set b. \<not> is_retrieve m"
    using assms by (auto simp: keeps_open_def)
  then have "outgoing_message_queue u = outgoing_message_queue s @ (a @ b) \<and> (\<forall>m\<in>set (a @ b). \<not> is_retrieve m)"
    by auto
  with assms show ?thesis unfolding keeps_open_def by blast
qed

lemma setNextHop_keeps:
  "setNextHop env m s = Some (b, m', s') \<Longrightarrow> keeps_open s s' \<and> (is_retrieve m' \<longleftrightarrow> is_retrieve m)"
  using setNextHop_frame[of env m s b m' s'] setNextHop_message[of env m s b m' s']
  by (auto intro: keeps_open_same)

lemma cache_source_keeps: "cache_source m s = Some s' \<Longrightarrow> keeps_open s s'"
  by (auto simp: cache_source_def bind_eq_Some_conv intro: keeps_open_same)

lemma send_reply_keeps: "send_reply env m s = Some s' \<Longrightarrow> \<not> is_retrieve m \<Longrightarrow> keeps_open s s'"
  using send_reply_queues[of env m s s'] by (auto intro: keeps_open_send)

lemma flood_keeps_open: "keeps_open s (flood sh sp soid ttl it s)"
proof (induction it arbitrary: s)
  case (Cons dst it)
  define new where "new = (\<lambda>ns. MessageCacheMe_new ns sh sp
    (hostName (case table_lookup oid_less dst (routing_table s) of Some h \<Rightarrow> h | None \<Rightarrow> HostAddress_default))
    (hostPort (case table_lookup oid_less dst (routing_table s) of Some h \<Rightarrow> h | None \<Rightarrow> HostAddress_default)) soid dst)"
  obtain m g where d: "draw new s = (m, s\<lparr>sequence_no_generator := g\<rparr>)" using draw_frame[of new s] by blast
  let ?s = "addToOutgoingQueue (Msg_CACHE_ME (m\<lparr>overlay_ttl := ttl\<rparr>)) (s\<lparr>sequence_no_generator := g\<rparr>)"
  have "keeps_open s ?s" by (rule keeps_open_send[of _ _ "Msg_CACHE_ME (m\<lparr>overlay_ttl := ttl\<rparr>)"]) (simp_all add: addToOutgoingQueue_def)
  with Cons.IH[of ?s] show ?case using d[unfolded new_def] by (auto intro: keeps_open_trans)
qed (simp add: keeps_open_same)

lemma draw_keeps: "draw new s = (m, s') \<Longrightarrow> keeps_open s s'"
  by (auto simp: draw_def intro!: keeps_open_same split: prod.splits)

lemma process_PUT_keeps: "process_PUT env m s = Some s' \<Longrightarrow> keeps_open s s'"
proof -
  assume p: "process_PUT env m s = Some s'"
  let ?s = "(on_peer incrementPut_processed s)\<lparr>index_table :=
    snd (table_add str_less (put_deviceName m) (put_hostAddress m) (index_table (on_peer incrementPut_processed s)))\<rparr>"
  from p obtain r s1 where "draw (\<lambda>ns. MessagePUT_REPLY_new ns (raw_put_reply env) (host_name (px_peer ?s))
      (listen_port_number (px_peer ?s)) (source_host m) (source_port m) (peer_overlay_id (px_peer ?s))
      (junk_reply_dst env) SUCCESS (src_oid m) (put_deviceName m)) ?s = (r, s1)"
    "\<exists>r. send_reply env (Msg_PUT_REPLY r) s1 = Some s'"
    by (auto simp: process_PUT_def Let_def split: if_splits prod.splits)
  then have "keeps_open ?s s1" "keeps_open s1 s'" by (auto intro: draw_keeps send_reply_keeps)
  moreover have "keeps_open s ?s" by (rule keeps_open_same) (simp_all add: on_peer_def)
  ultimately show ?thesis by (blast intro: keeps_open_trans)
qed

lemma process_GET_keeps: "process_GET env m s = Some s' \<Longrightarrow> keeps_open s s'"
  using process_GET_replies[of env m s s'] by (auto intro: keeps_open_send)

lemma keeps_open_other [simp]:
  "keeps_open s (addToLogQueue e t) = keeps_open s t"
  "keeps_open s (on_peer f t) = keeps_open s t"
  "keeps_open (s\<lparr>code_state := c\<rparr>) t = keeps_open s t"
  "keeps_open s s"
  by (simp_all add: keeps_open_def addToLogQueue_def on_peer_def)

lemma process_replies_keep:
  "process_GET_REPLY env g s = Some s' \<Longrightarrow> keeps_open s s'"
  "process_PUT_REPLY env p s = Some s' \<Longrightarrow> keeps_open s s'"
  "process_FORCE_LOG env s = Some s' \<Longrightarrow> keeps_open s s'"
  by (auto simp: process_GET_REPLY_def process_PUT_REPLY_def process_FORCE_LOG_def Let_def bind_eq_Some_conv
      dest!: cache_source_keeps)

lemma process_CACHE_ME_keeps: "keeps_open s (process_CACHE_ME m s)"
proof -
  let ?s = "if \<not> oid_eq (src_oid m) (peer_overlay_id (px_peer s)) \<and> table_lookup oid_less (src_oid m) (routing_table s) = None
    then s\<lparr>proactive_cache := snd (table_add oid_less (src_oid m) (HostAddress_new (source_host m) (source_port m)) (proactive_cache s))\<rparr>
    else s"
  have "keeps_open s ?s" by (simp add: keeps_open_same)
  moreover have "keeps_open ?s (flood (source_host m) (source_port m) (src_oid m) (overlay_ttl m) (reset_iterator (routing_table ?s)) ?s)"
    by (rule flood_keeps_open)
  moreover have "keeps_open s s" by (simp add: keeps_open_same)
  ultimately show ?thesis unfolding process_CACHE_ME_def Let_def by (auto intro: keeps_open_trans)
qed

lemma process_INIT_keeps: "keeps_open s (process_INIT m s)"
proof -
  have "keeps_open s (init_state m s)" by (simp add: keeps_open_same)
  then show ?thesis unfolding process_INIT_def Let_def by (auto intro: keeps_open_trans flood_keeps_open)
qed

lemma start_request_keeps:
  assumes "start_request proc m s = Some s'" and "\<And>b m' t. proc m s = Some (b, m', t) \<Longrightarrow> keeps_open s t \<and> \<not> is_retrieve m'"
  shows "keeps_open s s'"
proof -
  from assms(1) obtain b m' t where t: "proc m s = Some (b, m', t)" "s' = (if b then addToOutgoingQueue m' t else t)"
    by (auto simp: start_request_def)
  have "keeps_open t (addToOutgoingQueue m' t)"
    by (rule keeps_open_send[of _ _ m']) (use assms(2)[OF t(1)] in \<open>simp_all add: addToOutgoingQueue_def\<close>)
  with assms(2)[OF t(1)] t(2) show ?thesis by (auto intro: keeps_open_trans)
qed

lemma keeps_open_request:
  assumes "index.wf_table (unresolved_get s)"
  shows "keeps_open s (s\<lparr>unresolved_get := snd (table_add index_less i r (unresolved_get s))\<rparr>)"
proof -
  obtain b t where "table_add index_less i r (unresolved_get s) = (b, t)" by fastforce
  from index.table_add_refines[OF assms this] this show ?thesis
    by (auto simp: keeps_open_def table_lookup_def index.map_find_abs)
qed

lemma keeps_open_wf: "keeps_open s t \<Longrightarrow> index.wf_table (unresolved_get s) \<Longrightarrow> index.wf_table (unresolved_get t)"
  by (simp add: keeps_open_def)

lemma get_for_client_keeps:
  assumes "get_for_client proc env m s = Some s'" and "index.wf_table (unresolved_get s)"
    and "\<And>m s b m' t. proc (Msg_GET m) s = Some (b, m', t) \<Longrightarrow> keeps_open s t \<and> \<not> is_retrieve m'"
  shows "keeps_open s s'"
proof -
  obtain d_name ha_name where n: "split_name (ig_device_name m) = (d_name, ha_name)" by fastforce
  from assms(1) n obtain oid s1 where c: "hash_oid env (name_index ha_name) s = Some (oid, s1)"
    by (auto simp: get_for_client_def Let_def bind_eq_Some_conv)
  then obtain code where s1: "s1 = s\<lparr>code_state := code\<rparr>" by (auto simp: hash_oid_def)
  obtain r s2 where r: "draw (\<lambda>ns. MessageGET_new ns (host_name (px_peer s1)) (listen_port_number (px_peer s1)) [] (- 1)
      (peer_overlay_id (px_peer s1)) (junk_dst env) oid ha_name) s1 = (r, s2)" by fastforce
  let ?i = "\<lparr>name_hash = name_index ha_name, message_seq_no = sequence_no m\<rparr>"
  let ?r = "(HostAddress_new (source_host m) (source_port m), d_name)"
  let ?t = "s2\<lparr>unresolved_get := snd (table_add index_less ?i ?r (unresolved_get s2))\<rparr>"
  from assms(1) n c r obtain s3 where s3: "start_request proc (Msg_GET (r\<lparr>sequence_no := sequence_no m\<rparr>)) ?t = Some s3"
    "s' = on_peer incrementGet_generated s3"
    by (auto simp: get_for_client_def Let_def)
  have 1: "keeps_open s s1" by (simp add: s1 keeps_open_same)
  have 2: "keeps_open s1 s2" by (rule draw_keeps[OF r])
  have 3: "keeps_open s2 ?t"
    using keeps_open_wf[OF 2 keeps_open_wf[OF 1 assms(2)]] by (rule keeps_open_request)
  have 4: "keeps_open ?t s3" by (rule start_request_keeps[OF s3(1)]) (blast dest: assms(3))
  show ?thesis unfolding s3(2) using keeps_open_trans[OF keeps_open_trans[OF keeps_open_trans[OF 1 2] 3] 4] by simp
qed

lemma put_keeps:
  assumes "put proc env n h s = Some s'"
    and "\<And>m s b m' t. proc (Msg_PUT m) s = Some (b, m', t) \<Longrightarrow> keeps_open s t \<and> \<not> is_retrieve m'"
  shows "keeps_open s s'"
proof -
  from assms(1) obtain oid s1 where c: "hash_oid env (atoi n) s = Some (oid, s1)"
    by (auto simp: put_def bind_eq_Some_conv)
  then obtain code where s1: "s1 = s\<lparr>code_state := code\<rparr>" by (auto simp: hash_oid_def)
  obtain r s2 where r: "draw (\<lambda>ns. MessagePUT_new ns (host_name (px_peer s1)) (listen_port_number (px_peer s1)) [] (- 1)
      (peer_overlay_id (px_peer s1)) (junk_dst env) oid n h) s1 = (r, s2)" by fastforce
  let ?i = "\<lparr>name_hash = atoi n, message_seq_no = sequence_no r\<rparr>"
  let ?t = "s2\<lparr>unresolved_put := snd (table_add index_less ?i (now_ms env) (unresolved_put s2))\<rparr>"
  from assms(1) c r obtain s3 where s3: "start_request proc (Msg_PUT r) ?t = Some s3"
    "s' = on_peer incrementPut_generated s3"
    by (auto simp: put_def Let_def)
  have 1: "keeps_open s s1" by (simp add: s1 keeps_open_same)
  have 2: "keeps_open s1 s2" by (rule draw_keeps[OF r])
  have 3: "keeps_open s2 ?t" by (simp add: keeps_open_same)
  have 4: "keeps_open ?t s3" by (rule start_request_keeps[OF s3(1)]) (blast dest: assms(2))
  show ?thesis unfolding s3(2) using keeps_open_trans[OF keeps_open_trans[OF keeps_open_trans[OF 1 2] 3] 4] by simp
qed

text \<open>The whole handler, first for a message that makes no request.\<close>

lemma step_keeps:
  assumes "processMessage_step proc env m s = Some (b, m', s')" and "\<not> is_retrieve m"
    and "\<And>t t'. keeps_open s t \<Longrightarrow> process_here proc env (aged m) t = Some t' \<Longrightarrow> keeps_open t t'"
  shows "keeps_open s s' \<and> \<not> is_retrieve m'"
proof -
  from assms(1) obtain c m1 s1 where n: "setNextHop env (aged m) s = Some (c, m1, s1)"
    and r: "(if c then (if path_caching s1 \<and> is_reply m1 then map_option (\<lambda>s. (True, m1, s)) (cache_source (message_base m1) s1)
        else Some (True, m1, s1)) else map_option (\<lambda>s. (False, m1, s)) (process_here proc env m1 s1)) = Some (b, m', s')"
    by (auto simp: processMessage_step_def aged_def bind_eq_Some_conv)
  have 1: "keeps_open s s1 \<and> \<not> is_retrieve m1" using setNextHop_keeps[OF n] assms(2) by (simp add: aged_def)
  show ?thesis
  proof (cases c)
    case True
    with r 1 show ?thesis by (auto dest: cache_source_keeps intro: keeps_open_trans split: if_splits)
  next
    case False
    with n have "m1 = aged m" by (auto dest: setNextHop_False)
    with r False 1 assms(3)[of s1] show ?thesis by (auto intro: keeps_open_trans)
  qed
qed

lemma routed_keeps:
  assumes "target_oid m \<noteq> None" and "processMessage env m s = Some (b, m', s')"
  shows "keeps_open s s' \<and> \<not> is_retrieve m'"
  using assms(2) unfolding processMessage_def
proof (rule step_keeps)
  show "\<not> is_retrieve m" using assms(1) by (cases m) auto
next
  fix t t'
  assume h: "process_here (processMessage_step (\<lambda>_ _. None) env) env (aged m) t = Some t'"
  have "target_oid (aged m) \<noteq> None" using assms(1) by (simp add: aged_def)
  with h show "keeps_open t t'"
    by (cases "aged m") (auto simp: process_here_def intro: process_PUT_keeps process_GET_keeps process_replies_keep)
qed

text \<open>
  Nothing answers the request of a client. Processing any message other than RETRIEVE and its reply
  queues no RETRIEVE and no reply to one, forwards none, and leaves every open client request
  open: only the reply to a RETRIEVE closes one. As nothing else creates a RETRIEVE, a network
  in which none was sent from outside never closes a request.
\<close>

theorem client_requests_stay_open:
  assumes "processMessage env m s = Some (b, m', s')" and "\<not> is_retrieve m" and "index.wf_table (unresolved_get s)"
  shows "\<not> is_retrieve m' \<and>
    (\<exists>ms. outgoing_message_queue s' = outgoing_message_queue s @ ms \<and> (\<forall>x\<in>set ms. \<not> is_retrieve x)) \<and>
    (\<forall>i r. table_lookup index_less i (unresolved_get s) = Some r \<longrightarrow>
      table_lookup index_less i (unresolved_get s') = Some r)"
proof -
  from assms(1) have "processMessage_step (processMessage env) env m s = Some (b, m', s')"
    by (simp add: processMessage_rec[symmetric])
  then have "keeps_open s s' \<and> \<not> is_retrieve m'"
  proof (rule step_keeps[OF _ assms(2)])
    fix t t'
    assume k: "keeps_open s t" and h: "process_here (processMessage env) env (aged m) t = Some t'"
    have wf: "index.wf_table (unresolved_get t)" using keeps_open_wf[OF k assms(3)] .
    have r: "keeps_open s t \<and> \<not> is_retrieve m'" if "processMessage env x s = Some (b, m', t)" "target_oid x \<noteq> None"
      for x s b m' t
      using routed_keeps[OF that(2,1)] .
    have "\<not> is_retrieve (aged m)" using assms(2) by (simp add: aged_def)
    with h show "keeps_open t t'"
      by (cases "aged m")
        (auto simp: process_here_def process_CACHE_ME_keeps process_INIT_keeps wf
          intro: process_PUT_keeps process_GET_keeps process_replies_keep
          elim!: get_for_client_keeps[OF _ wf] put_keeps dest: r)
  qed
  then show ?thesis by (auto simp: keeps_open_def)
qed

definition example_get_reply :: "OverlayID \<Rightarrow> cstring \<Rightarrow> HostAddress \<Rightarrow> message" where
  "example_get_reply target name host = Msg_GET_REPLY (ABSMessage.extend (example_base MSG_PLEXUS_GET_REPLY)
     (MessageGET_REPLY.fields SUCCESS 1 0 0 5 target host name))"

lemma client_requests_stay_open_witness:
  "\<exists>b m' s'. processMessage (example_env GolayCode_decode GolayCode_K)
      (example_get_reply (OverlayID_new 3 12 12) [110] (HostAddress_new [99] 99))
      ((example_state golay_start (OverlayID_new 3 12 12) [])
        \<lparr>unresolved_get := [(\<lparr>name_hash = 7, message_seq_no = 5\<rparr>, HostAddress_new [99] 99, [100])]\<rparr>) = Some (b, m', s') \<and>
    table_lookup index_less \<lparr>name_hash = 7, message_seq_no = 5\<rparr> (unresolved_get s') = Some (HostAddress_new [99] 99, [100])"
proof -
  let ?i = "\<lparr>name_hash = 7, message_seq_no = 5\<rparr>"
  let ?s = "(example_state golay_start (OverlayID_new 3 12 12) [])\<lparr>unresolved_get := [(?i, HostAddress_new [99] 99, [100])]\<rparr>"
  let ?env = "example_env GolayCode_decode GolayCode_K"
  let ?m = "example_get_reply (OverlayID_new 3 12 12) [110] (HostAddress_new [99] 99)"
  have wf: "index.wf_table (unresolved_get ?s)" by (simp add: index.wf_Cons)
  have "plexus_ok golay_inv (example_state golay_start (OverlayID_new 3 12 12) [])"
    by (rule example_ok) (simp_all add: id_length_ok_def OverlayID_new_def golay_inv_start)
  then have ok: "plexus_ok golay_inv ?s" using wf by (simp add: plexus_ok_def tables_ok_def)
  have safe: "message_safe ?env GolayCode_N ?m"
    by (simp add: example_get_reply_def example_defs MessageGET_REPLY.defs id_length_ok_def log_fits_def c_text_def example_env_def)
  have e: "iCode_decode ?env = GolayCode_decode" "iCode_K ?env = GolayCode_K" by (simp_all add: example_env_def)
  from golay.processMessage_ok[OF e ok safe] obtain b m' s' where
    p: "processMessage ?env ?m ?s = Some (b, m', s')" by blast
  have "\<not> is_retrieve ?m" by (simp add: example_get_reply_def)
  from client_requests_stay_open[OF p this wf] p show ?thesis
    by (simp add: table_lookup_def index_less_def)
qed

section \<open>Order of the messages\<close>

text \<open>
  The incoming queue is first-in first-out: over any run of pushes by the listening thread and
  pops by the processing threads that does not block, the messages popped and those left are
  exactly the messages that were there and those pushed, in this order, and the two
  counters grow by the numbers of pushes and pops (modulo \<open>2 ^ 32\<close>).
\<close>

theorem incoming_queue_fifo:
  assumes "incoming.queue_run cs s = Some (out, s')"
  shows "incoming_message_queue s @ map the (filter (\<lambda>c. c \<noteq> None) cs) = out @ incoming_message_queue s' \<and>
    incoming_queue_pushed s' = incoming_queue_pushed s + of_nat (length (filter (\<lambda>c. c \<noteq> None) cs)) \<and>
    incoming_queue_popped s' = incoming_queue_popped s + of_nat (length out)"
  using assms by (rule incoming.queue_run_fifo)

lemma incoming_queue_fifo_witness:
  "\<exists>s'. incoming.queue_run [Some (Msg_START raw_base), Some (Msg_FORCE_LOG raw_base), None]
      (example_state () raw_oid []) = Some ([Msg_START raw_base], s') \<and>
    incoming_message_queue s' = [Msg_FORCE_LOG raw_base]"
proof -
  let ?s = "example_state () raw_oid []"
  have q: "incoming_message_queue ?s = []" by (simp add: example_state_def Plexus_new_def)
  then obtain out s' where r: "incoming.queue_run [Some (Msg_START raw_base), Some (Msg_FORCE_LOG raw_base), None] ?s =
      Some (out, s')" "length out = 1"
    by (simp add: addToIncomingQueue_def getIncomingQueueFront_def)
  from incoming_queue_fifo[OF r(1)] q have "[Msg_START raw_base, Msg_FORCE_LOG raw_base] = out @ incoming_message_queue s'"
    by simp
  with r show ?thesis by (cases out) auto
qed

end
