(* ===== verification/Web_Interface.thy ===== *)
theory Web_Interface
  imports Processing "HOL-Library.Signed_Division"
begin

text \<open>
  The web interface of a peer: the callback \<^verbatim>\<open>interface_callback\<close> of \<^verbatim>\<open>server_system_test.cc\<close>, which
  registers device names and lists them, with the parser of query strings,
  \<^verbatim>\<open>common/query_string_parser.h\<close>, and the callback of the status page. The web server itself
  (\<^verbatim>\<open>mongoose\<close>) calls them with a request and sends what they print.
\<close>

section \<open>Query strings\<close>

text \<open>\<^verbatim>\<open>split\<close>: \<^verbatim>\<open>getline\<close> up to the delimiter while there are characters left.\<close>

function split :: "byte \<Rightarrow> cstring \<Rightarrow> cstring list" where
  "split delim s =
     (if s = [] then [] else takeWhile (\<lambda>c. c \<noteq> delim) s # split delim (drop 1 (dropWhile (\<lambda>c. c \<noteq> delim) s)))"
  by pat_completeness auto

termination split
proof (relation "measure (\<lambda>(_, s). length s)", goal_cases)
  case (2 delim s)
  have "length (dropWhile (\<lambda>c. c \<noteq> delim) s) \<le> length s" by (rule length_dropWhile_le)
  with 2 show ?case by (cases s) auto
qed simp

declare split.simps [simp del]

text \<open>
  \<^verbatim>\<open>parse\<close>: each pair is split at the equals signs and its first two parts are taken; a pair
  with fewer parts is read past the end of the vector, None here.
\<close>

fun parse_pairs :: "cstring list \<Rightarrow> (cstring, cstring) table \<Rightarrow> (cstring, cstring) table option" where
  "parse_pairs [] store = Some store"
| "parse_pairs (it # kvps) store =
     (case split 61 it of k # v # _ \<Rightarrow> parse_pairs kvps (snd (table_add str_less k v store)) | _ \<Rightarrow> None)"

definition parse :: "cstring \<Rightarrow> (cstring, cstring) table \<Rightarrow> (cstring, cstring) table option" where
  "parse query_string store = parse_pairs (split 38 query_string) store"

definition get_value :: "cstring \<Rightarrow> (cstring, cstring) table \<Rightarrow> cstring option" where
  "get_value key store = table_lookup str_less key store"

section \<open>Addresses and numbers\<close>

text \<open>\<^verbatim>\<open>atol\<close>; \<^verbatim>\<open>toString\<close> of a \<^verbatim>\<open>long\<close> is \<open>print_long\<close>.\<close>

definition atol :: "cstring \<Rightarrow> clong" where
  "atol s =
     (let s = dropWhile (\<lambda>c. c = 32 \<or> 9 \<le> c \<and> c \<le> 13) s in
      case s of [] \<Rightarrow> 0
      | c # cs \<Rightarrow>
          if c = 45 then word_of_int (- digits_value (takeWhile is_digit cs))
          else if c = 43 then word_of_int (digits_value (takeWhile is_digit cs))
          else word_of_int (digits_value (takeWhile is_digit s)))"

text \<open>The remainder of \<^verbatim>\<open>%\<close>, with the sign of the dividend.\<close>

definition c_rem :: "clong \<Rightarrow> int \<Rightarrow> clong" where
  "c_rem w n = word_of_int (sint w smod n)"

definition ipToString :: "clong \<Rightarrow> cstring" where
  "ipToString ip =
     (let workIp = ip;
          d = c_rem workIp 0x100; workIp = signed_drop_bit 8 workIp;
          c = c_rem workIp 0x100; workIp = signed_drop_bit 8 workIp;
          b = c_rem workIp 0x100; workIp = signed_drop_bit 8 workIp;
          a = workIp in
      print_long a @ [46] @ print_long b @ [46] @ print_long c @ [46] @ print_long d)"

section \<open>The interface\<close>

text \<open>What \<^verbatim>\<open>mg_printf\<close> sends: the status line, the length announced, and the text.\<close>

record http_reply =
  http_code :: cstring
  content_length :: nat
  content :: cstring

text \<open>\<^verbatim>\<open>snprintf\<close> into an array of \<open>n\<close> characters: the length of the whole text, and what fits.\<close>

definition print_content :: "nat \<Rightarrow> cstring \<Rightarrow> cstring \<Rightarrow> http_reply" where
  "print_content n code text = \<lparr>http_code = code, content_length = length text, content = take (n - 1) text\<rparr>"

definition no_init_reply :: "'s Plexus \<Rightarrow> http_reply option" where
  "no_init_reply s =
     Option.bind (oid_toString (peer_overlay_id (px_peer s))) (\<lambda>result.
     Option.bind (c_string result) (\<lambda>oid.
     Some (print_content 1024 (str ''200 OK'')
       (str ''Peer Status Report<br/><br/> '' @ replicate 24 32 @ str ''peer oid '' @ oid @ str ''<br/>'' @
        replicate 24 32 @ str ''INIT not received''))))"

text \<open>The checks registering and updating a name have in common, around the operation \<open>act\<close>.\<close>

definition device_request ::
    "cstring \<Rightarrow> (cstring, cstring) table \<Rightarrow> (cstring \<Rightarrow> HostAddress \<Rightarrow> 's Plexus \<Rightarrow> cstring \<times> 's Plexus) \<Rightarrow>
     's Plexus \<Rightarrow> cstring \<times> 's Plexus" where
  "device_request ip_address qsp act s =
     (case (get_value (str ''name'') qsp, get_value (str ''port'') qsp) of
        (Some name, Some port) \<Rightarrow>
          let port_number = atoi port in
          if 1024 \<le> sint port_number \<and> sint port_number \<le> 65535 then
            if ip_address \<noteq> [] then
              if name \<noteq> [] then act name (HostAddress_new ip_address port_number) s
              else (str ''493 Device Name of Zero Length Not Allowed'', s)
            else (str ''492 Remote IP Error'', s)
          else (str ''491 Port Number Not in Range'', s)
      | _ \<Rightarrow> (str ''451 Parameter Not Understood'', s))"

definition register_device :: "clong \<Rightarrow> cstring \<Rightarrow> HostAddress \<Rightarrow> 's Plexus \<Rightarrow> cstring \<times> 's Plexus" where
  "register_device now name ha s =
     (if searchNameDb name (px_peer s) = None then (str ''200 OK'', on_peer (addToNameDB now name ha) s)
      else (str ''494 Device Name Not Available'', s))"

definition update_device :: "clong \<Rightarrow> cstring \<Rightarrow> HostAddress \<Rightarrow> 's Plexus \<Rightarrow> cstring \<times> 's Plexus" where
  "update_device now name ha s =
     (let (found, p) = updateNameDB now name ha (px_peer s) in
      (if found then str ''200 OK'' else str ''496 Device Name Not Found'', s\<lparr>px_peer := p\<rparr>))"

text \<open>The requests that only read: the status and the payload.\<close>

definition is_available :: "(cstring, cstring) table \<Rightarrow> 's Plexus \<Rightarrow> cstring \<times> cstring" where
  "is_available qsp s =
     (case get_value (str ''name'') qsp of None \<Rightarrow> (str ''451 Parameter Not Understood'', [])
      | Some name \<Rightarrow>
          if name = [] then (str ''493 Device Name of Zero Length Not Allowed'', [])
          else if searchNameDb name (px_peer s) = None then (str ''200 OK'', str ''Device Name Available.'')
          else (str ''494 Device Name Not Available'', []))"

definition get_all :: "HostAddress \<times> clong \<Rightarrow> (cstring, cstring) table \<Rightarrow> 's Plexus \<Rightarrow> cstring \<times> cstring" where
  "get_all raw qsp s =
     (case get_value (str ''timestamp'') qsp of None \<Rightarrow> (str ''451 Parameter Not Understood'', [])
      | Some timestamp_str \<Rightarrow>
          let timestamp = atol timestamp_str in
          if 0 <s timestamp then
            (str ''200 OK'', routingTable2String (routing_table s) [] @
               nameDbToString (map (\<lambda>(n, t). (n, unat t)) (searchNameDb_since raw timestamp (px_peer s))))
          else (str ''495 Timestamp Less Than or Equal to Zero'', []))"

text \<open>The chain of comparisons of the method.\<close>

definition handle_method ::
    "clong \<Rightarrow> HostAddress \<times> clong \<Rightarrow> clong \<Rightarrow> (cstring, cstring) table \<Rightarrow> 's Plexus \<Rightarrow>
     cstring \<times> cstring \<times> 's Plexus" where
  "handle_method now raw remote_ip qsp s =
     (case get_value (str ''method'') qsp of None \<Rightarrow> (str ''400 Bad Request'', [], s)
      | Some method_name \<Rightarrow>
          if method_name \<in> {str ''register'', str ''REGISTER''} then
            (let (code, s) = device_request (ipToString remote_ip) qsp (register_device now) s in (code, [], s))
          else if method_name \<in> {str ''update'', str ''UPDATE''} then
            (let (code, s) = device_request (ipToString remote_ip) qsp (update_device now) s in (code, [], s))
          else if method_name \<in> {str ''isavailable'', str ''ISAVAILABLE''} then
            (let (code, payload) = is_available qsp s in (code, payload, s))
          else if method_name \<in> {str ''getall'', str ''GETALL''} then
            (let (code, payload) = get_all raw qsp s in (code, payload, s))
          else (str ''405 Method Not Allowed'', [], s))"

definition interface_callback ::
    "clong \<Rightarrow> HostAddress \<times> clong \<Rightarrow> clong \<Rightarrow> cstring option \<Rightarrow> 's Plexus \<Rightarrow> (http_reply \<times> 's Plexus) option" where
  "interface_callback now raw remote_ip query_string s =
     (if \<not> init_rcvd (px_peer s) then map_option (\<lambda>r. (r, s)) (no_init_reply s)
      else
        let reply = (\<lambda>(code, payload, s).
              (print_content 16384 code (str ''<html><body>'' @ c_text payload @ str ''</body></html>''), s)) in
        case query_string of None \<Rightarrow> Some (reply (str ''200 OK'', [], s))
        | Some q \<Rightarrow> map_option (\<lambda>qsp. reply (handle_method now raw remote_ip qsp s)) (parse q table_empty))"

section \<open>The status page\<close>

text \<open>
  \<^verbatim>\<open>callback\<close>: the arguments of its \<^verbatim>\<open>snprintf\<close> that are texts built from the tables. The
  numbers between them are left out; without these texts there is no page.
\<close>

definition status_texts :: "'s Plexus \<Rightarrow> buffer list option" where
  "status_texts s =
     Option.bind (oid_toString (peer_overlay_id (px_peer s))) (\<lambda>oid.
     Option.bind (printRoutingTable2String (routing_table s)) (\<lambda>routing.
     Option.bind (printRoutingTable2String (proactive_cache s)) (\<lambda>proactive.
     Option.bind (px_cache s) (\<lambda>c.
     Option.bind (cache_toString c) (\<lambda>cache.
     Some [oid, routing, proactive, cache])))))"

end
