(* ===== verification/Node.thy ===== *)
theory Node
  imports Web_Interface
begin

text \<open>
  The threads of the peer program, \<^verbatim>\<open>server_system_test.cc\<close>, around the protocol object: listening,
  processing, forwarding, logging, controlling, the thread for the messages that came before
  INIT, and the web interface. One turn of the loop of a thread is a step of the node, where the
  listening and the pending thread are cut at their unlocked accesses to the INIT flag and to
  \<^verbatim>\<open>received_before_init_queue\<close>. A step waits where the thread does, and is undefined where the code is.
\<close>

section \<open>State\<close>

datatype 'a outcome = Blocked | Undefined | Next 'a

text \<open>\<open>Undefined\<close> for None.\<close>

definition defined_or :: "'a option \<Rightarrow> ('a \<Rightarrow> 'b outcome) \<Rightarrow> 'b outcome" where
  "defined_or x f = (case x of None \<Rightarrow> Undefined | Some y \<Rightarrow> f y)"

datatype pending_pc = Waiting | Draining | Pending_done

text \<open>The controlling thread: at the top of its loop, in its two \<^verbatim>\<open>for\<close> loops (with the names read from the file), and between them.\<close>

datatype control_pc =
  Control_top
| Publishing cint "cint list"
| Published "cint list"
| Looking_up cint "cint list"
| Control_done

text \<open>
  \<open>held\<close> is the message the listening thread has found to be early and not yet queued.
  \<open>written\<close> are the entries the logging thread has taken from its queue.
\<close>

record 's node =
  proto :: "'s Plexus"
  received_before_init_queue :: "message list"
  held :: "message option"
  pending :: pending_pc
  control :: control_pc
  publish_name_done :: bool
  lookup_name_done :: bool
  written :: "LogEntry list"

text \<open>
  What a run depends on: the environment of the handlers, the memory behind received strings, the
  properties of \<open>serialize\<close> (see \<open>Receive\<close>), the cost of the path to a host, the addition of
  \<^verbatim>\<open>double\<close>s, the numbers of the name file, the content of an indeterminate address.
\<close>

record 's program =
  prog_env :: "'s env"
  prog_fill :: "byte option"
  prog_cow :: bool
  prog_rv :: nat
  prog_cost :: "HostAddress \<Rightarrow> cint \<times> clong"
  prog_add :: "clong \<Rightarrow> clong \<Rightarrow> clong"
  prog_names :: "cint \<Rightarrow> cint \<Rightarrow> cint list"
  prog_raw :: "HostAddress \<times> clong"

definition system_init :: "Peer \<Rightarrow> cint \<Rightarrow> 's \<Rightarrow> 's node" where
  "system_init p ns code =
     \<lparr>proto = Plexus_new p 0 ns code, received_before_init_queue = [], held = None, pending = Waiting,
      control = Control_top, publish_name_done = False, lookup_name_done = False, written = []\<rparr>"

section \<open>Listening\<close>

text \<open>The counters of the messages received; a request of a client counts as a message.\<close>

fun count_received :: "message \<Rightarrow> Peer \<Rightarrow> Peer" where
  "count_received (Msg_GET m) p = incrementGet_received p"
| "count_received (Msg_INITIATE_GET m) p = incrementGet_received p"
| "count_received (Msg_PUT m) p = incrementPut_received p"
| "count_received (Msg_INITIATE_PUT m) p = incrementPut_received p"
| "count_received _ p = p"

definition listener_thread :: "'s program \<Rightarrow> buffer \<Rightarrow> 's node \<Rightarrow> 's node outcome" where
  "listener_thread P buffer n =
     (if held n \<noteq> None then Blocked else
      let s = proto n in
      if buffer = [] then Next n else
      defined_or (receive (prog_fill P) (network_size s) (sequence_no_generator s) buffer) (\<lambda>r.
        case r of None \<Rightarrow> Next n
        | Some (gen, m) \<Rightarrow>
            let s = on_peer (count_received m) (s\<lparr>sequence_no_generator := gen\<rparr>) in
            if init_rcvd (px_peer s) \<or> messageType (message_base m) = MSG_PEER_INIT
            then Next (n\<lparr>proto := addToIncomingQueue m s\<rparr>)
            else Next (n\<lparr>proto := s, held := Some m\<rparr>)))"

definition hold_back :: "'s node \<Rightarrow> 's node outcome" where
  "hold_back n = (case held n of None \<Rightarrow> Blocked
     | Some m \<Rightarrow> Next (n\<lparr>received_before_init_queue := received_before_init_queue n @ [m], held := None\<rparr>))"

text \<open>An error of \<^verbatim>\<open>select\<close> counts as a dropped PUT.\<close>

definition select_error :: "'s node \<Rightarrow> 's node outcome" where
  "select_error n = Next (n\<lparr>proto := on_peer incrementPut_Dropped (proto n)\<rparr>)"

text \<open>The thread that gives the early messages to the incoming queue, once, and ends.\<close>

definition pending_message_process_thread :: "'s node \<Rightarrow> 's node outcome" where
  "pending_message_process_thread n = (case pending n of
     Waiting \<Rightarrow>
       if \<not> init_rcvd (px_peer (proto n)) \<or> received_before_init_queue n = [] then Blocked
       else Next (n\<lparr>pending := Draining\<rparr>)
   | Draining \<Rightarrow>
       (case received_before_init_queue n of [] \<Rightarrow> Next (n\<lparr>pending := Pending_done\<rparr>)
        | m # ms \<Rightarrow> Next (n\<lparr>proto := addToIncomingQueue m (proto n), received_before_init_queue := ms\<rparr>))
   | Pending_done \<Rightarrow> Blocked)"

section \<open>Processing and forwarding\<close>

definition processing_thread :: "'s program \<Rightarrow> 's node \<Rightarrow> 's node outcome" where
  "processing_thread P n = (case getIncomingQueueFront (proto n) of None \<Rightarrow> Blocked
     | Some (message, s) \<Rightarrow>
         defined_or (processMessage (prog_env P) message s) (\<lambda>(forward, message, s).
           Next (n\<lparr>proto := if forward then addToOutgoingQueue message s else s\<rparr>)))"

text \<open>
  \<^verbatim>\<open>send_message\<close>: a connection, then the bytes; both may fail with a negative code. \<open>net\<close> gives the codes of
  each attempt. The message is serialised after the connection only.
\<close>

definition send_message :: "'s program \<Rightarrow> message \<Rightarrow> cint \<times> cint \<Rightarrow> cint option" where
  "send_message P message codes =
     (if fst codes <s 0 then Some (fst codes)
      else map_option (\<lambda>_. snd codes) (serialize (prog_cow P) (prog_rv P) message))"

fun retry_loop :: "(nat \<Rightarrow> cint option) \<Rightarrow> nat list \<Rightarrow> cint \<Rightarrow> cint option" where
  "retry_loop send [] error_code = Some error_code"
| "retry_loop send (retry # rs) error_code =
     Option.bind (send retry) (\<lambda>error_code.
     if error_code <s 0 then retry_loop send rs error_code else Some error_code)"

definition count_sent :: "byte \<Rightarrow> cint \<Rightarrow> Peer \<Rightarrow> Peer" where
  "count_sent ty error_code p =
     (if 0 \<le>s error_code then
        (if ty = MSG_PLEXUS_GET then incrementGet_forwarded p
         else if ty = MSG_PLEXUS_PUT then incrementPut_forwarded p else p)
      else
        (if ty = MSG_PLEXUS_GET then incrementGet_Dropped p
         else if ty = MSG_PLEXUS_PUT then incrementPut_Dropped p else p))"

definition incrementLatency :: "(clong \<Rightarrow> clong \<Rightarrow> clong) \<Rightarrow> clong \<Rightarrow> 'a ABSMessage_scheme \<Rightarrow> 'a ABSMessage_scheme" where
  "incrementLatency add d m = m\<lparr>latency := add (latency m) d\<rparr>"

text \<open>A GET and a PUT collect the cost of the path to the next hop.\<close>

definition add_cost :: "'s program \<Rightarrow> message \<Rightarrow> message" where
  "add_cost P message =
     (let message = on_base incrementOverlayHops message; b = message_base message in
      if messageType b = MSG_PLEXUS_GET \<or> messageType b = MSG_PLEXUS_PUT then
        let (hops, lat) = prog_cost P (HostAddress_new (dest_host b) (dest_port b)) in
        on_base (incrementLatency (prog_add P) lat) (on_base (incrementIpHops hops) message)
      else message)"

definition forwarding_thread :: "'s program \<Rightarrow> (nat \<Rightarrow> cint \<times> cint) \<Rightarrow> 's node \<Rightarrow> 's node outcome" where
  "forwarding_thread P net n = (case getOutgoingQueueFront (proto n) of None \<Rightarrow> Blocked
     | Some (message, s) \<Rightarrow>
         let message = add_cost P message in
         defined_or (retry_loop (\<lambda>i. send_message P message (net i)) [0..<nat (sint (n_retry (px_peer s)))] 0)
           (\<lambda>error_code. Next (n\<lparr>proto := on_peer (count_sent (messageType (message_base message)) error_code) s\<rparr>)))"

section \<open>Logging\<close>

definition logging_thread :: "'s node \<Rightarrow> 's node outcome" where
  "logging_thread n =
     (if \<not> init_rcvd (px_peer (proto n)) then Blocked else
      case getLoggingQueueFront (proto n) of None \<Rightarrow> Blocked
      | Some (entry, s) \<Rightarrow> Next (n\<lparr>proto := s, written := written n @ [entry]\<rparr>))"

section \<open>Controlling\<close>

text \<open>
  Both loops index the names from the start of the range to publish. An index outside the
  vector is undefined.
\<close>

definition name_text :: "Peer \<Rightarrow> cint \<Rightarrow> cint list \<Rightarrow> cstring option" where
  "name_text p i names =
     (let k = sint i - sint (publish_name_range_start p) in
      if 0 \<le> k \<and> k < int (length names) then Some (print_nat (unat (names ! nat k))) else None)"

definition controlling_thread :: "'s program \<Rightarrow> 's node \<Rightarrow> 's node outcome" where
  "controlling_thread P n =
     (let s = proto n; p = px_peer s; env = prog_env P in
      case control n of
        Control_top \<Rightarrow>
          if publish_name_done n \<and> lookup_name_done n then Next (n\<lparr>control := Control_done\<rparr>)
          else if \<not> init_rcvd p then Blocked
          else
            let names = prog_names P (publish_name_range_end p + 1)
                  (publish_name_range_end p - publish_name_range_start p + 1) in
            Next (n\<lparr>control := if start_gen_name_rcvd p \<and> \<not> publish_name_done n
              then Publishing (publish_name_range_start p) names else Published names\<rparr>)
      | Publishing i names \<Rightarrow>
          if i \<le>s publish_name_range_end p then
            defined_or (name_text p i names) (\<lambda>name.
            defined_or (put (processMessage env) env name (HostAddress_new (str ''dummyhost'') i) s) (\<lambda>s.
            Next (n\<lparr>proto := s, control := Publishing (i + 1) names\<rparr>)))
          else Next (n\<lparr>publish_name_done := True, control := Published names\<rparr>)
      | Published names \<Rightarrow>
          Next (n\<lparr>control := if start_lookup_name_rcvd p \<and> \<not> lookup_name_done n
            then Looking_up (lookup_name_range_start p) names else Control_top\<rparr>)
      | Looking_up i names \<Rightarrow>
          if i \<le>s lookup_name_range_end p then
            defined_or (name_text p i names) (\<lambda>name.
            defined_or (get (processMessage env) env name s) (\<lambda>s.
            Next (n\<lparr>proto := s, control := Looking_up (i + 1) names\<rparr>)))
          else Next (n\<lparr>lookup_name_done := True, control := Control_top\<rparr>)
      | Control_done \<Rightarrow> Blocked)"

section \<open>The node\<close>

datatype event =
  Receive buffer
| Hold_back
| Select_error
| Process
| Forward "nat \<Rightarrow> cint \<times> cint"
| Write_log
| Drain
| Control
| Web clong clong "cstring option"

fun node_step :: "'s program \<Rightarrow> event \<Rightarrow> 's node \<Rightarrow> 's node outcome" where
  "node_step P (Receive buffer) n = listener_thread P buffer n"
| "node_step P Hold_back n = hold_back n"
| "node_step P Select_error n = select_error n"
| "node_step P Process n = processing_thread P n"
| "node_step P (Forward net) n = forwarding_thread P net n"
| "node_step P Write_log n = logging_thread n"
| "node_step P Drain n = pending_message_process_thread n"
| "node_step P Control n = controlling_thread P n"
| "node_step P (Web now remote_ip query) n =
     defined_or (interface_callback now (prog_raw P) remote_ip query (proto n)) (\<lambda>(reply, s). Next (n\<lparr>proto := s\<rparr>))"

text \<open>The states a node reaches by events, in any order, each allowed by \<open>ok\<close> in its state.\<close>

inductive node_run :: "'s program \<Rightarrow> ('s node \<Rightarrow> event \<Rightarrow> bool) \<Rightarrow> 's node \<Rightarrow> event list \<Rightarrow> 's node \<Rightarrow> bool"
  for P ok n where
  start: "node_run P ok n [] n"
| step: "node_run P ok n es n1 \<Longrightarrow> ok n1 e \<Longrightarrow> node_step P e n1 = Next n2 \<Longrightarrow> node_run P ok n (es @ [e]) n2"

end
