(* ===== verification/Web_Registry.thy ===== *)
theory Web_Registry
  imports Web_Interface
begin

text \<open>
  What the web interface promises: the parser of query strings inverts the join of the pairs, the
  pairs without a value are exactly the ones that crash it, and the requests for device names
  implement a registry, a map from names to addresses.
\<close>

section \<open>Query strings\<close>

fun join :: "byte \<Rightarrow> cstring list \<Rightarrow> cstring" where
  "join d [] = []"
| "join d [x] = x"
| "join d (x # y # xs) = x @ d # join d (y # xs)"

lemma split_Nil [simp]: "split d [] = []"
  by (simp add: split.simps[of d "[]"])

lemma takeWhile_piece [simp]:
  "d \<notin> set x \<Longrightarrow> takeWhile (\<lambda>c. c \<noteq> d) (x @ d # s) = x"
  "d \<notin> set x \<Longrightarrow> dropWhile (\<lambda>c. c \<noteq> d) (x @ d # s) = d # s"
  "d \<notin> set x \<Longrightarrow> takeWhile (\<lambda>c. c \<noteq> d) x = x"
  "d \<notin> set x \<Longrightarrow> dropWhile (\<lambda>c. c \<noteq> d) x = []"
  by (induction x) auto

lemma split_piece: "d \<notin> set x \<Longrightarrow> split d (x @ d # s) = x # split d s"
  by (subst split.simps) simp

lemma split_last: "d \<notin> set x \<Longrightarrow> x \<noteq> [] \<Longrightarrow> split d x = [x]"
  by (subst split.simps) simp

lemma split_join: "\<forall>x\<in>set xs. d \<notin> set x \<and> x \<noteq> [] \<Longrightarrow> split d (join d xs) = xs"
  by (induction d xs rule: join.induct) (auto simp: split_piece split_last)

text \<open>A string is cut in at least two exactly when it has a delimiter before its last character.\<close>

lemma split_single: "length (split d s) < 2 \<longleftrightarrow> d \<notin> set (butlast s)"
proof (cases "d \<in> set s")
  case False
  then show ?thesis by (cases "s = []") (auto simp: split_last dest: in_set_butlastD)
next
  case True
  then obtain x t where s: "s = x @ d # t" "d \<notin> set x" by (meson split_list_first)
  have "split d t = [] \<longleftrightarrow> t = []" by (subst split.simps) simp
  then show ?thesis using s by (cases t) (auto simp: split_piece butlast_append)
qed

abbreviation plain :: "cstring \<Rightarrow> bool" where
  "plain s \<equiv> 38 \<notin> set s \<and> 61 \<notin> set s"

definition pair_text :: "cstring \<times> cstring \<Rightarrow> cstring" where
  "pair_text kv = fst kv @ 61 # snd kv"

definition pair_ok :: "cstring \<times> cstring \<Rightarrow> bool" where
  "pair_ok kv \<longleftrightarrow> plain (fst kv) \<and> plain (snd kv) \<and> snd kv \<noteq> []"

definition query_text :: "(cstring \<times> cstring) list \<Rightarrow> cstring" where
  "query_text kvs = join 38 (map pair_text kvs)"

lemma split_pair: "pair_ok kv \<Longrightarrow> split 61 (pair_text kv) = [fst kv, snd kv]"
  by (simp add: pair_ok_def pair_text_def split_piece split_last)

lemma parse_pairs_map:
  assumes "list_all pair_ok kvs" and "name.wf_table t"
  shows "\<exists>t'. parse_pairs (map pair_text kvs) t = Some t' \<and> name.wf_table t' \<and>
    (\<forall>k. get_value k t' = (case get_value k t of Some v \<Rightarrow> Some v | None \<Rightarrow> map_of kvs k))"
  using assms
proof (induction kvs arbitrary: t)
  case (Cons kv kvs)
  obtain k v where kv: "kv = (k, v)" by (cases kv)
  obtain b t1 where a: "table_add str_less k v t = (b, t1)" by fastforce
  note r = name.table_add_refines[OF Cons.prems(2) a]
  have l: "get_value x y = name.abs_map y x" for x and y :: "(cstring, cstring) table"
    by (simp add: get_value_def table_lookup_def name.map_find_abs)
  from Cons.IH[of t1] Cons.prems r obtain t' where t': "parse_pairs (map pair_text kvs) t1 = Some t'"
    "name.wf_table t'" "\<forall>k. get_value k t' = (case get_value k t1 of Some v \<Rightarrow> Some v | None \<Rightarrow> map_of kvs k)"
    by auto
  have "parse_pairs (map pair_text (kv # kvs)) t = Some t'"
    using Cons.prems(1) split_pair[of kv] a t'(1) kv by simp
  moreover have "get_value x t' = (case get_value x t of Some v \<Rightarrow> Some v | None \<Rightarrow> map_of (kv # kvs) x)" for x
    using t'(3) r kv by (auto simp: l split: option.splits if_splits)
  ultimately show ?case using t'(2) by blast
qed (auto split: option.splits)

lemma parse_query:
  assumes "list_all pair_ok kvs"
  shows "\<exists>t. parse (query_text kvs) table_empty = Some t \<and> (\<forall>k. get_value k t = map_of kvs k)"
proof -
  have "split 38 (query_text kvs) = map pair_text kvs"
    unfolding query_text_def using assms
    by (intro split_join) (auto simp: list_all_iff pair_ok_def pair_text_def)
  with parse_pairs_map[OF assms, of "[]"] show ?thesis
    by (auto simp: parse_def table_empty_def get_value_def table_lookup_def)
qed

text \<open>
  The parser of query strings inverts their construction: the pairs joined with \<open>&\<close>, each a key and a
  non-empty value joined with \<open>=\<close>, parse to a store that gives the first value of each key.
\<close>

theorem query_roundtrip:
  assumes "list_all pair_ok kvs"
  shows "\<exists>t. parse (query_text kvs) table_empty = Some t \<and> (\<forall>k. get_value k t = map_of kvs k)"
  using parse_query[OF assms] .

lemma query_roundtrip_witness:
  "\<exists>t. parse (query_text [(str ''port'', [56]), (str ''port'', [57])]) table_empty = Some t \<and>
     get_value (str ''port'') t = Some [56]"
  using query_roundtrip[of "[(str ''port'', [56]), (str ''port'', [57])]"] by (auto simp: pair_ok_def str_def)

lemma parse_pairs_None: "parse_pairs ps t = None \<longleftrightarrow> (\<exists>p\<in>set ps. length (split 61 p) < 2)"
proof (induction ps arbitrary: t)
  case (Cons p ps)
  show ?case
  proof (cases "split 61 p")
    case (Cons k vs)
    then show ?thesis using Cons.IH by (cases vs) auto
  qed simp
qed simp

lemma interface_None:
  assumes "init_rcvd (px_peer s)"
  shows "interface_callback now raw ip q s = None \<longleftrightarrow>
    (case q of None \<Rightarrow> False | Some q \<Rightarrow> \<exists>p\<in>set (split 38 q). 61 \<notin> set (butlast p))"
  using assms by (simp add: interface_callback_def parse_def parse_pairs_None split_single split: option.split)

text \<open>
  After INIT, a request crashes the peer (\<^verbatim>\<open>kv[1]\<close> is read behind the end of its vector) exactly
  when one of the parts between the \<open>&\<close> of its query string has no equals sign before its last
  character: a key without a value, as in \<open>name=\<close>, or a doubled \<open>&\<close>.
\<close>

theorem bad_query_crashes:
  assumes "init_rcvd (px_peer s)"
  shows "interface_callback now raw ip (Some q) s = None \<longleftrightarrow> (\<exists>p\<in>set (split 38 q). 61 \<notin> set (butlast p))"
  using interface_None[OF assms] by simp

lemma bad_query_crashes_witness:
  "interface_callback 0 (HostAddress_default, 0) 0 (Some (str ''name=''))
     (example_state () raw_oid []) = None"
proof -
  have "split 38 (str ''name='') = [str ''name='']" by (rule split_last) (simp_all add: str_def)
  then show ?thesis
    by (subst bad_query_crashes) (simp_all add: str_def example_state_def example_peer_def Plexus_new_def)
qed

section \<open>The registry\<close>

text \<open>The requests about device names, and the query strings that make them.\<close>

datatype device_call = Register cstring cstring | Update cstring cstring | Available cstring

fun call_pairs :: "device_call \<Rightarrow> (cstring \<times> cstring) list" where
  "call_pairs (Register n p) = [(str ''method'', str ''register''), (str ''name'', n), (str ''port'', p)]"
| "call_pairs (Update n p) = [(str ''method'', str ''update''), (str ''name'', n), (str ''port'', p)]"
| "call_pairs (Available n) = [(str ''method'', str ''isavailable''), (str ''name'', n)]"

text \<open>
  The abstract registry: a map from names to addresses. A registration by the host \<open>ip\<close> takes a free name,
  an update sets the address of any name, and reports whether it was registered.
\<close>

definition port_ok :: "cstring \<Rightarrow> bool" where
  "port_ok p \<longleftrightarrow> 1024 \<le> sint (atoi p) \<and> sint (atoi p) \<le> 65535"

fun registry_step ::
    "cstring \<Rightarrow> device_call \<Rightarrow> (cstring \<rightharpoonup> HostAddress) \<Rightarrow> (cstring \<times> cstring) \<times> (cstring \<rightharpoonup> HostAddress)" where
  "registry_step ip (Register n p) reg =
     (if \<not> port_ok p then ((str ''491 Port Number Not in Range'', []), reg)
      else if n \<in> dom reg then ((str ''494 Device Name Not Available'', []), reg)
      else ((str ''200 OK'', []), reg(n \<mapsto> HostAddress_new ip (atoi p))))"
| "registry_step ip (Update n p) reg =
     (if \<not> port_ok p then ((str ''491 Port Number Not in Range'', []), reg)
      else ((if n \<in> dom reg then str ''200 OK'' else str ''496 Device Name Not Found'', []),
        reg(n \<mapsto> HostAddress_new ip (atoi p))))"
| "registry_step ip (Available n) reg =
     ((if n \<in> dom reg then (str ''494 Device Name Not Available'', [])
       else (str ''200 OK'', str ''Device Name Available.'')), reg)"

fun registry_run ::
    "(clong \<times> clong \<times> device_call) list \<Rightarrow> (cstring \<rightharpoonup> HostAddress) \<Rightarrow>
     (cstring \<times> cstring) list \<times> (cstring \<rightharpoonup> HostAddress)" where
  "registry_run [] reg = ([], reg)"
| "registry_run ((now, ip, c) # cs) reg =
     (let (r, reg) = registry_step (ipToString ip) c reg; (rs, reg) = registry_run cs reg in (r # rs, reg))"

text \<open>The same requests to the peer.\<close>

fun web_run ::
    "HostAddress \<times> clong \<Rightarrow> (clong \<times> clong \<times> device_call) list \<Rightarrow> 's Plexus \<Rightarrow> (http_reply list \<times> 's Plexus) option" where
  "web_run raw [] s = Some ([], s)"
| "web_run raw ((now, ip, c) # cs) s =
     Option.bind (interface_callback now raw ip (Some (query_text (call_pairs c))) s) (\<lambda>(r, s).
     map_option (\<lambda>(rs, s). (r # rs, s)) (web_run raw cs s))"

definition registered :: "'s Plexus \<Rightarrow> cstring \<rightharpoonup> HostAddress" where
  "registered s = (\<lambda>n. searchNameDb n (px_peer s))"

definition page :: "cstring \<times> cstring \<Rightarrow> cstring \<times> cstring" where
  "page cp = (fst cp, str ''<html><body>'' @ snd cp @ str ''</body></html>'')"

definition registry_ok :: "'s Plexus \<Rightarrow> bool" where
  "registry_ok s \<longleftrightarrow> init_rcvd (px_peer s) \<and> name_db_ok (px_peer s)"

lemma ipToString_nonempty: "ipToString ip \<noteq> []"
  by (simp add: ipToString_def Let_def)

lemma length_str [simp]: "length (str s) = length s"
  by (simp add: str_def)

declare str_eq_iff [simp]

lemma reply_page [simp]:
  "length payload < 16000 \<Longrightarrow> 0 \<notin> set payload \<Longrightarrow>
   (http_code (print_content 16384 code (str ''<html><body>'' @ c_text payload @ str ''</body></html>'')),
    content (print_content 16384 code (str ''<html><body>'' @ c_text payload @ str ''</body></html>''))) = page (code, payload)"
  by (simp add: print_content_def page_def c_text_def takeWhile_eq_all_conv[THEN iffD2] in_set_conv_nth)

lemma interface_call:
  assumes "registry_ok s" and "list_all pair_ok (call_pairs c)"
    and "\<And>t. \<forall>k. get_value k t = map_of (call_pairs c) k \<Longrightarrow> handle_method now raw ip t s = (code, payload, s')"
    and "length payload < 16000" and "0 \<notin> set payload"
  shows "\<exists>r. interface_callback now raw ip (Some (query_text (call_pairs c))) s = Some (r, s') \<and>
    (http_code r, content r) = page (code, payload)"
proof -
  from parse_query[OF assms(2)] obtain t where "parse (query_text (call_pairs c)) table_empty = Some t"
    "\<forall>k. get_value k t = map_of (call_pairs c) k" by blast
  with assms(1) assms(3)[OF this(2)] reply_page[OF assms(4,5)] show ?thesis
    by (simp add: interface_callback_def registry_ok_def)
qed

lemma call_step:
  assumes "registry_ok s" and "list_all pair_ok (call_pairs c)"
  shows "\<exists>r s'. interface_callback now raw ip (Some (query_text (call_pairs c))) s = Some (r, s') \<and> registry_ok s' \<and>
    (case registry_step (ipToString ip) c (registered s) of (cp, reg) \<Rightarrow> (http_code r, content r) = page cp \<and> reg = registered s')"
proof -
  obtain code payload reg where r: "registry_step (ipToString ip) c (registered s) = ((code, payload), reg)"
    by (metis surj_pair)
  have db: "name_db_ok (px_peer s)" "init_rcvd (px_peer s)" using assms(1) by (simp_all add: registry_ok_def)
  have add: "registered (on_peer (addToNameDB now n ha) s) = (if registered s n = None then (registered s)(n \<mapsto> ha) else registered s)"
    "registry_ok (on_peer (addToNameDB now n ha) s)" for n ha
    using name_db_ops[OF db(1), of now n ha] assms(1)
    by (auto simp: registered_def on_peer_def registry_ok_def fun_eq_iff addToNameDB_def)
  have upd: "registered (s\<lparr>px_peer := snd (updateNameDB now n ha (px_peer s))\<rparr>) = (registered s)(n \<mapsto> ha)"
    "registry_ok (s\<lparr>px_peer := snd (updateNameDB now n ha (px_peer s))\<rparr>)"
    "fst (updateNameDB now n ha (px_peer s)) = (n \<in> dom (registered s))" for n ha
    using name_db_ops[OF db(1), of now n ha] assms(1)
    by (auto simp: registered_def registry_ok_def fun_eq_iff updateNameDB_def dom_def split: prod.splits)
  let ?goal = "\<exists>s'. (\<forall>t. (\<forall>k. get_value k t = map_of (call_pairs c) k) \<longrightarrow> handle_method now raw ip t s = (code, payload, s')) \<and>
    registry_ok s' \<and> reg = registered s' \<and> length payload < 16000 \<and> 0 \<notin> set payload"
  have ?goal
  proof (cases c)
    case (Register n p)
    have m: "handle_method now raw ip t s =
        (if \<not> port_ok p then (str ''491 Port Number Not in Range'', [], s)
         else if n \<in> dom (registered s) then (str ''494 Device Name Not Available'', [], s)
         else (str ''200 OK'', [], on_peer (addToNameDB now n (HostAddress_new (ipToString ip) (atoi p))) s))"
      if "\<forall>k. get_value k t = map_of (call_pairs c) k" for t
      using that assms(2) Register
      by (auto simp: handle_method_def device_request_def register_device_def port_ok_def pair_ok_def registered_def
          ipToString_nonempty Let_def)
    show ?thesis using r add[of n] assms(1) unfolding Register
      by (cases "port_ok p"; cases "n \<in> dom (registered s)") (auto simp: m[unfolded Register] dom_def split: if_splits)
  next
    case (Update n p)
    have m: "handle_method now raw ip t s =
        (if \<not> port_ok p then (str ''491 Port Number Not in Range'', [], s)
         else (if n \<in> dom (registered s) then str ''200 OK'' else str ''496 Device Name Not Found'', [],
           s\<lparr>px_peer := snd (updateNameDB now n (HostAddress_new (ipToString ip) (atoi p)) (px_peer s))\<rparr>))"
      if "\<forall>k. get_value k t = map_of (call_pairs c) k" for t
      using that assms(2) Update upd(3)[of n "HostAddress_new (ipToString ip) (atoi p)"]
      by (auto simp: handle_method_def device_request_def update_device_def port_ok_def pair_ok_def
          ipToString_nonempty Let_def split: prod.splits)
    show ?thesis using r upd[of n] assms(1) unfolding Update
      by (cases "port_ok p"; cases "n \<in> dom (registered s)") (auto simp: m[unfolded Update] split: if_splits)
  next
    case (Available n)
    have m: "handle_method now raw ip t s =
        (if n \<in> dom (registered s) then (str ''494 Device Name Not Available'', [], s)
         else (str ''200 OK'', str ''Device Name Available.'', s))"
      if "\<forall>k. get_value k t = map_of (call_pairs c) k" for t
      using that assms(2) Available
      by (auto simp: handle_method_def is_available_def pair_ok_def registered_def Let_def)
    show ?thesis using r assms(1) unfolding Available
      by (cases "n \<in> dom (registered s)") (auto simp: m[unfolded Available] str_def)
  qed
  then obtain s' where s': "\<And>t. \<forall>k. get_value k t = map_of (call_pairs c) k \<Longrightarrow> handle_method now raw ip t s = (code, payload, s')"
    "registry_ok s'" "reg = registered s'" "length payload < 16000" "0 \<notin> set payload" by blast
  from interface_call[OF assms s'(1,4,5)] s'(2,3) r show ?thesis by auto
qed

text \<open>
  C29. The web interface implements the registry: after INIT, a series of requests by any hosts to register,
  update or ask for device names is answered with exactly the codes and pages of the abstract
  registry, started with the names of the peer, and leaves the peer with the names of the
  registry. In particular a name that was registered stays with its host until an update.
\<close>

theorem registry_refined:
  assumes "registry_ok s" and "\<forall>(now, ip, c) \<in> set cs. list_all pair_ok (call_pairs c)"
  shows "\<exists>rs s'. web_run raw cs s = Some (rs, s') \<and> registry_ok s' \<and>
    (case registry_run cs (registered s) of (ps, reg) \<Rightarrow>
      map (\<lambda>r. (http_code r, content r)) rs = map page ps \<and> registered s' = reg)"
  using assms
proof (induction cs arbitrary: s)
  case (Cons x cs)
  obtain now ip c where x: "x = (now, ip, c)" by (cases x)
  with Cons.prems call_step[of s c now raw ip] obtain r s1 where s1:
    "interface_callback now raw ip (Some (query_text (call_pairs c))) s = Some (r, s1)" "registry_ok s1"
    "case registry_step (ipToString ip) c (registered s) of (cp, reg) \<Rightarrow> (http_code r, content r) = page cp \<and> reg = registered s1"
    by auto
  from Cons.IH[OF s1(2)] Cons.prems(2) obtain rs s' where "web_run raw cs s1 = Some (rs, s')" "registry_ok s'"
    "case registry_run cs (registered s1) of (ps, reg) \<Rightarrow>
      map (\<lambda>r. (http_code r, content r)) rs = map page ps \<and> registered s' = reg" by auto
  with s1 x show ?case by (auto split: prod.splits)
qed simp

lemma registry_refined_witness:
  "\<exists>r1 r2 s'. web_run (HostAddress_default, 0)
      [(1, 0x7F000001, Register [97] (str ''2000'')), (2, 0x7F000002, Register [97] (str ''2001''))]
      (example_state () raw_oid []) = Some ([r1, r2], s') \<and>
    http_code r1 = str ''200 OK'' \<and> http_code r2 = str ''494 Device Name Not Available''"
proof -
  let ?cs = "[(1, 0x7F000001, Register [97] (str ''2000'')), (2, 0x7F000002, Register [97] (str ''2001''))]"
  let ?s = "example_state () raw_oid []"
  have p: "px_peer ?s = example_peer raw_oid (str ''path'')" by (simp add: example_state_def Plexus_new_def)
  have ok: "registry_ok ?s" by (simp add: p registry_ok_def name_db_ok_def example_peer_def)
  have none: "registered ?s [97] = None" by (simp add: p registered_def searchNameDb_def table_lookup_def example_peer_def)
  have ports: "port_ok (str ''2000'')" "port_ok (str ''2001'')"
    by (simp_all add: port_ok_def atoi_def str_def is_digit_def digits_value_def)
  have run: "fst (registry_run ?cs (registered ?s)) = [(str ''200 OK'', []), (str ''494 Device Name Not Available'', [])]"
    using none ports by (simp add: dom_def)
  have "\<forall>(now, ip, c) \<in> set ?cs. list_all pair_ok (call_pairs c)" by (simp add: pair_ok_def str_def)
  moreover obtain reg where "registry_run ?cs (registered ?s) =
      ([(str ''200 OK'', []), (str ''494 Device Name Not Available'', [])], reg)"
    using run by (metis prod.collapse)
  ultimately obtain rs s' where r: "web_run (HostAddress_default, 0) ?cs ?s = Some (rs, s')"
    "map (\<lambda>r. (http_code r, content r)) rs =
      map page [(str ''200 OK'', []), (str ''494 Device Name Not Available'', [])]"
    using registry_refined[OF ok, of ?cs "(HostAddress_default, 0)"] by (auto simp del: web_run.simps registry_run.simps)
  then obtain r1 r2 where "rs = [r1, r2]" by (auto simp: map_eq_Cons_conv)
  with r show ?thesis by (auto simp: page_def simp del: web_run.simps)
qed

end
