(* ===== verification/Node_Safety.thy ===== *)
theory Node_Safety
  imports Node Web_Registry Peer_Safety
begin

text \<open>
  The invariant of a node: before INIT its tables are those of a new peer and only INIT messages are in
  the incoming queue, after INIT the protocol satisfies the invariant of \<open>Peer_Safety\<close>; every message
  waiting to be processed is safe. It holds in every state the threads reach by safe events, in
  any order, and no thread does anything undefined there.
\<close>

section \<open>What processing leaves alone\<close>

text \<open>The incoming queue and the INIT flag.\<close>

definition intake :: "'s Plexus \<Rightarrow> message list \<times> bool" where
  "intake s = (incoming_message_queue s, init_rcvd (px_peer s))"

lemma intake_update [simp]:
  "intake (s\<lparr>px_cache := c\<rparr>) = intake s"
  "intake (s\<lparr>get_cache_hit_count := a\<rparr>) = intake s"
  "intake (s\<lparr>put_cache_hit_count := a\<rparr>) = intake s"
  "intake (s\<lparr>index_table := i\<rparr>) = intake s"
  "intake (s\<lparr>proactive_cache := r\<rparr>) = intake s"
  "intake (s\<lparr>unresolved_get := ug\<rparr>) = intake s"
  "intake (s\<lparr>unresolved_put := up\<rparr>) = intake s"
  "intake (s\<lparr>sequence_no_generator := g\<rparr>) = intake s"
  "intake (s\<lparr>code_state := code\<rparr>) = intake s"
  "intake (addToOutgoingQueue m s) = intake s"
  "intake (addToLogQueue e s) = intake s"
  by (simp_all add: intake_def addToOutgoingQueue_def addToLogQueue_def)

lemma intake_peer [simp]:
  "init_rcvd (f (px_peer s)) = init_rcvd (px_peer s) \<Longrightarrow> intake (on_peer f s) = intake s"
  by (simp add: intake_def on_peer_def)

lemma count_init [simp]:
  "init_rcvd (incrementPut_generated p) = init_rcvd p" "init_rcvd (incrementGet_generated p) = init_rcvd p"
  "init_rcvd (incrementPut_processed p) = init_rcvd p" "init_rcvd (incrementGet_processed p) = init_rcvd p"
  "init_rcvd (count_received m p) = init_rcvd p" "init_rcvd (count_sent ty e p) = init_rcvd p"
  "init_rcvd (incrementPut_Dropped p) = init_rcvd p"
  by (cases m; simp add: count_sent_def incrementPut_generated_def incrementGet_generated_def
      incrementPut_processed_def incrementGet_processed_def incrementPut_received_def incrementGet_received_def
      incrementPut_forwarded_def incrementGet_forwarded_def incrementPut_Dropped_def incrementGet_Dropped_def)+

lemma draw_intake: "draw new s = (m, s') \<Longrightarrow> intake s' = intake s"
  using draw_state[of new s m s'] by (metis intake_update(8))

lemma draw_intake_snd [simp]: "intake (snd (draw new s)) = intake s"
  by (rule draw_intake[of new s "fst (draw new s)"]) simp

lemma setNextHop_intake: "setNextHop env m s = Some (b, m', s') \<Longrightarrow> intake s' = intake s"
  using setNextHop_frame[of env m s b m' s'] by (auto simp: intake_def)

lemma send_reply_intake: "send_reply env m s = Some s' \<Longrightarrow> intake s' = intake s"
  by (auto simp: send_reply_def bind_eq_Some_conv dest: setNextHop_intake split: if_splits)

lemma cache_source_intake: "cache_source m s = Some s' \<Longrightarrow> intake s' = intake s"
  by (auto simp: cache_source_def bind_eq_Some_conv)

lemma flood_intake [simp]: "intake (flood sh sp soid ttl it s) = intake s"
  using flood_frame[of sh sp soid ttl it s] by (auto simp: intake_def)

lemma process_PUT_intake: "process_PUT env m s = Some s' \<Longrightarrow> intake s' = intake s"
  by (auto simp: process_PUT_def Let_def dest!: draw_intake send_reply_intake split: if_splits prod.splits)

lemma process_GET_intake: "process_GET env m s = Some s' \<Longrightarrow> intake s' = intake s"
  by (auto simp: process_GET_def Let_def dest!: draw_intake send_reply_intake split: if_splits prod.splits option.splits)

lemma process_replies_intake:
  "process_GET_REPLY env g s = Some s' \<Longrightarrow> intake s' = intake s"
  "process_PUT_REPLY env p s = Some s' \<Longrightarrow> intake s' = intake s"
  "process_FORCE_LOG env s = Some s' \<Longrightarrow> intake s' = intake s"
  by (auto simp: process_GET_REPLY_def process_PUT_REPLY_def process_FORCE_LOG_def Let_def bind_eq_Some_conv
      dest!: cache_source_intake)

lemma process_RETRIEVE_intake: "intake (process_RETRIEVE env m s) = intake s"
  by (auto simp: process_RETRIEVE_def Let_def dest: draw_intake split: prod.splits)

lemma process_RETRIEVE_REPLY_intake: "intake (process_RETRIEVE_REPLY env m s) = intake s"
  by (auto simp: process_RETRIEVE_REPLY_def Let_def dest!: draw_intake split: prod.splits option.splits)

lemma process_CACHE_ME_intake: "intake (process_CACHE_ME m s) = intake s"
  by (auto simp: process_CACHE_ME_def Let_def)

lemma process_INIT_intake: "intake (process_INIT m s) = (incoming_message_queue s, True)"
proof -
  have "intake (init_state m s) = (incoming_message_queue s, True)" by (simp add: intake_def)
  then show ?thesis by (simp add: process_INIT_def Let_def)
qed

text \<open>A handler that keeps the intake, given that the calls it makes do.\<close>

lemma start_request_intake:
  assumes "start_request proc m s = Some s'" and "\<And>b m' t. proc m s = Some (b, m', t) \<Longrightarrow> intake t = intake s"
  shows "intake s' = intake s"
  using assms by (auto simp: start_request_def)

lemma hash_oid_intake: "hash_oid env h s = Some (oid, s') \<Longrightarrow> intake s' = intake s"
  by (auto simp: hash_oid_def)

lemma get_for_client_intake:
  assumes "get_for_client proc env m s = Some s'"
    and "\<And>m s b m' t. proc (Msg_GET m) s = Some (b, m', t) \<Longrightarrow> intake t = intake s"
  shows "intake s' = intake s"
  using assms(1)
  by (auto simp: get_for_client_def Let_def bind_eq_Some_conv case_prod_beta
      dest!: hash_oid_intake start_request_intake[OF _ assms(2)])

lemma put_intake:
  assumes "put proc env n h s = Some s'"
    and "\<And>m s b m' t. proc (Msg_PUT m) s = Some (b, m', t) \<Longrightarrow> intake t = intake s"
  shows "intake s' = intake s"
  using assms(1)
  by (auto simp: put_def Let_def bind_eq_Some_conv case_prod_beta
      dest!: hash_oid_intake start_request_intake[OF _ assms(2)])

lemma get_intake:
  assumes "get proc env n s = Some s'"
    and "\<And>m s b m' t. proc (Msg_GET m) s = Some (b, m', t) \<Longrightarrow> intake t = intake s"
  shows "intake s' = intake s"
  using assms(1)
  by (auto simp: get_def Let_def bind_eq_Some_conv case_prod_beta
      dest!: hash_oid_intake start_request_intake[OF _ assms(2)])

fun is_INIT :: "message \<Rightarrow> bool" where
  "is_INIT (Msg_INIT m) = True"
| "is_INIT _ = False"

lemma is_INIT_on [simp]: "is_INIT (on_base f m) = is_INIT m"
  by (cases m) (simp_all add: on_base_def)

definition intake_after :: "message \<Rightarrow> 's Plexus \<Rightarrow> message list \<times> bool" where
  "intake_after m s = (if is_INIT m then (incoming_message_queue s, True) else intake s)"

lemma intake_after_cong: "intake s = intake t \<Longrightarrow> intake_after m s = intake_after m t"
  by (simp add: intake_after_def intake_def)

lemma process_here_intake:
  assumes "process_here proc env m s = Some s'"
    and "\<And>g s b m' t. proc (Msg_GET g) s = Some (b, m', t) \<Longrightarrow> intake t = intake s"
    and "\<And>p s b m' t. proc (Msg_PUT p) s = Some (b, m', t) \<Longrightarrow> intake t = intake s"
  shows "intake s' = intake_after m s"
  using assms(1)
  by (cases m) (auto simp: process_here_def intake_after_def process_INIT_intake process_RETRIEVE_intake
      process_RETRIEVE_REPLY_intake process_CACHE_ME_intake
      dest: process_PUT_intake process_GET_intake process_replies_intake
        get_for_client_intake[OF _ assms(2)] put_intake[OF _ assms(3)])

lemma step_intake:
  assumes "processMessage_step proc env m s = Some (b, m', s')"
    and "\<And>t t'. process_here proc env (on_base decrementOverlayTtl m) t = Some t' \<Longrightarrow>
      intake t' = intake_after (on_base decrementOverlayTtl m) t"
  shows "intake s' = intake_after m s"
proof -
  let ?m = "on_base decrementOverlayTtl m"
  from assms(1) obtain c m1 s1 where n: "setNextHop env ?m s = Some (c, m1, s1)"
    and r: "(if c then (if path_caching s1 \<and> is_reply m1 then map_option (\<lambda>s. (True, m1, s)) (cache_source (message_base m1) s1)
        else Some (True, m1, s1)) else map_option (\<lambda>s. (False, m1, s)) (process_here proc env m1 s1)) = Some (b, m', s')"
    by (auto simp: processMessage_step_def bind_eq_Some_conv)
  have i: "intake s1 = intake s" by (rule setNextHop_intake[OF n])
  show ?thesis
  proof (cases c)
    case True
    with n have "\<not> is_INIT m" by (cases m) (auto simp: setNextHop_def on_base_def)
    with True r i show ?thesis by (auto simp: intake_after_def dest: cache_source_intake split: if_splits)
  next
    case False
    with n have "m1 = ?m" by (auto dest: setNextHop_False)
    with r False assms(2)[of s1] intake_after_cong[OF i, of m] show ?thesis by (auto simp: intake_after_def)
  qed
qed

lemma processMessage_intake:
  assumes "processMessage env m s = Some (b, m', s')"
  shows "intake s' = intake_after m s"
proof -
  have routed: "intake t = intake s" if "processMessage env x s = Some (c, y, t)" "target_oid x \<noteq> None" for x s c y t
  proof -
    have h: "process_here (processMessage_step (\<lambda>_ _. None) env) env (on_base decrementOverlayTtl x) u = Some u' \<Longrightarrow>
        intake u' = intake_after (on_base decrementOverlayTtl x) u" for u u'
      using that(2) by (cases x)
        (auto simp: process_here_def on_base_def intake_after_def dest: process_PUT_intake process_GET_intake process_replies_intake)
    have "intake t = intake_after x s"
      using that(1) unfolding processMessage_def by (rule step_intake) (rule h)
    then show ?thesis using that(2) by (cases x) (simp_all add: intake_after_def)
  qed
  from assms have "processMessage_step (processMessage env) env m s = Some (b, m', s')"
    by (simp add: processMessage_rec[symmetric])
  then show ?thesis
    by (rule step_intake) (erule process_here_intake, (erule routed, simp)+)
qed

section \<open>What the switch builds\<close>

text \<open>The object has the type of its class in the type field.\<close>

lemma base_type:
  "ABSMessage_deserialize b m0 = Some m \<Longrightarrow> \<exists>r. rd_char b = Some (messageType m, r)"
  by (auto simp: ABSMessage_deserialize_def bind_eq_Some_conv)

lemma receive_type:
  assumes "receive fill ns gen b = Some (Some (g, m))"
  shows "messageType (message_base m) = class_type m"
proof -
  obtain ty r where ty: "rd_char b = Some (ty, r)"
    using assms by (auto simp: receive_def bind_eq_Some_conv)
  note defs = PeerInitMessage_deserialize_def MessageGET_deserialize_def MessageGET_REPLY_deserialize_def
    MessagePUT_deserialize_def MessagePUT_REPLY_deserialize_def PeerInitiateGET_deserialize_def
    PeerInitiatePUT_deserialize_def PeerStartMessage_deserialize_def PeerChangeStatusMessage_deserialize_def
    PeerStartGenNameMessage_deserialize_def PeerStartLookupNameMessage_deserialize_def
    PeerDynChangeStatusMessage_deserialize_def LogForceMessage_deserialize_def MessageCacheMe_deserialize_def
    RetrieveMessage_deserialize_def MessageRetrieveReply_deserialize_def
  show ?thesis using assms ty
    by (auto simp: receive_def ABSMessage.defs defs bind_eq_Some_conv Let_def dest!: base_type split: if_splits prod.splits)
qed

section \<open>The invariant\<close>

definition phase_ok :: "golay_state Plexus \<Rightarrow> bool" where
  "phase_ok s \<longleftrightarrow>
     (if init_rcvd (px_peer s) then plexus_ok golay_inv s
      else plexus_base golay_inv s \<and> list_all is_INIT (incoming_message_queue s))"

definition waiting :: "'s node \<Rightarrow> message set" where
  "waiting n = set (incoming_message_queue (proto n)) \<union> set (received_before_init_queue n) \<union> set_option (held n)"

definition node_ok :: "golay_state program \<Rightarrow> golay_state node \<Rightarrow> bool" where
  "node_ok P n \<longleftrightarrow> phase_ok (proto n) \<and> (\<forall>m\<in>waiting n. message_safe (prog_env P) GolayCode_N m) \<and>
     (\<not> init_rcvd (px_peer (proto n)) \<longrightarrow> control n \<in> {Control_top, Control_done} \<and> pending n \<noteq> Draining)"

text \<open>
  The safe events: the bytes received are a safe message (or none the listener knows), the message to send can be
  serialised, the controlling thread is at a name it has a number below \<open>2 ^ 23\<close> for, and the
  query of a web request has no key without a value. The web interface is used after INIT.
\<close>

definition name_ok :: "Peer \<Rightarrow> cint \<Rightarrow> cint list \<Rightarrow> bool" where
  "name_ok p i names = (case name_text p i names of None \<Rightarrow> False
     | Some name \<Rightarrow> fits GolayCode_N (scast (atoi name) :: clong))"

fun event_safe :: "golay_state program \<Rightarrow> golay_state node \<Rightarrow> event \<Rightarrow> bool" where
  "event_safe P n (Receive buffer) \<longleftrightarrow>
     (buffer = [] \<or>
      (case receive (prog_fill P) (network_size (proto n)) (sequence_no_generator (proto n)) buffer of
         None \<Rightarrow> False | Some None \<Rightarrow> True | Some (Some (gen, m)) \<Rightarrow> message_safe (prog_env P) GolayCode_N m))"
| "event_safe P n (Forward net) \<longleftrightarrow>
     (case outgoing_message_queue (proto n) of [] \<Rightarrow> True
      | m # _ \<Rightarrow> serialize (prog_cow P) (prog_rv P) (add_cost P m) \<noteq> None)"
| "event_safe P n Control \<longleftrightarrow>
     (case control n of
        Publishing i names \<Rightarrow> i \<le>s publish_name_range_end (px_peer (proto n)) \<longrightarrow> name_ok (px_peer (proto n)) i names
      | Looking_up i names \<Rightarrow> i \<le>s lookup_name_range_end (px_peer (proto n)) \<longrightarrow> name_ok (px_peer (proto n)) i names
      | _ \<Rightarrow> True)"
| "event_safe P n (Web now ip query) \<longleftrightarrow> init_rcvd (px_peer (proto n)) \<and>
     (case query of None \<Rightarrow> True | Some q \<Rightarrow> list_all (\<lambda>p. 61 \<in> set (butlast p)) (split 38 q))"
| "event_safe P n _ \<longleftrightarrow> True"

lemma phase_ok_same:
  assumes "routing_table t = routing_table s" "index_table t = index_table s" "px_cache t = px_cache s"
    "proactive_cache t = proactive_cache s" "unresolved_get t = unresolved_get s" "unresolved_put t = unresolved_put s"
    "code_state t = code_state s" "peer_overlay_id (px_peer t) = peer_overlay_id (px_peer s)"
    "name_db (px_peer t) = name_db (px_peer s)" "init_rcvd (px_peer t) = init_rcvd (px_peer s)"
    "init_rcvd (px_peer s) \<or> list_all is_INIT (incoming_message_queue t)" "phase_ok s"
  shows "phase_ok t"
  using assms by (auto simp: phase_ok_def plexus_ok_def plexus_base_def tables_ok_def name_db_ok_def)

lemma phase_ok_intake: "phase_ok s \<Longrightarrow> init_rcvd (px_peer s) \<or> list_all is_INIT (incoming_message_queue s)"
  by (simp add: phase_ok_def split: if_splits)

lemma count_peer [simp]:
  "peer_overlay_id (count_received m p) = peer_overlay_id p" "name_db (count_received m p) = name_db p"
  "peer_overlay_id (count_sent ty e p) = peer_overlay_id p" "name_db (count_sent ty e p) = name_db p"
  "peer_overlay_id (incrementPut_Dropped p) = peer_overlay_id p" "name_db (incrementPut_Dropped p) = name_db p"
  by (cases m; simp add: count_sent_def incrementPut_received_def incrementGet_received_def
      incrementPut_forwarded_def incrementGet_forwarded_def incrementPut_Dropped_def incrementGet_Dropped_def)+

lemma count_sent_range [simp]:
  "init_rcvd (px_peer (on_peer f s)) = init_rcvd (f (px_peer s))"
  "px_peer (addToIncomingQueue m s) = px_peer s" "px_peer (addToOutgoingQueue m s) = px_peer s"
  "incoming_message_queue (addToOutgoingQueue m s) = incoming_message_queue s"
  "incoming_message_queue (addToIncomingQueue m s) = incoming_message_queue s @ [m]"
  "incoming_message_queue (on_peer f s) = incoming_message_queue s"
  by (simp_all add: on_peer_def addToIncomingQueue_def addToOutgoingQueue_def)

text \<open>The listening thread lets in an early message only if it is an INIT message.\<close>

lemma class_INIT: "class_type m = MSG_PEER_INIT \<longleftrightarrow> is_INIT m"
  by (cases m) simp_all

lemma listener_ok:
  assumes "node_ok P n" and "event_safe P n (Receive b)"
  shows "\<exists>n'. listener_thread P b n = Next n' \<and> node_ok P n' \<or> listener_thread P b n = Blocked"
proof (cases "held n = None \<and> b \<noteq> []")
  case False
  then show ?thesis using assms(1) by (auto simp: listener_thread_def)
next
  case True
  let ?s = "proto n"
  show ?thesis
  proof (cases "receive (prog_fill P) (network_size ?s) (sequence_no_generator ?s) b")
    case (Some r)
    show ?thesis
    proof (cases r)
      case None
      with Some True assms(1) show ?thesis by (auto simp: listener_thread_def defined_or_def)
    next
      case (Some gm)
      obtain gen m where gm: "gm = (gen, m)" by (cases gm)
      note r = \<open>receive _ _ _ _ = Some r\<close>[unfolded Some gm]
      have m: "message_safe (prog_env P) GolayCode_N m" using assms(2) True r by simp
      have ty: "messageType (message_base m) = MSG_PEER_INIT \<longleftrightarrow> is_INIT m"
        using receive_type[OF r] class_INIT by simp
      let ?t = "on_peer (count_received m) (?s\<lparr>sequence_no_generator := gen\<rparr>)"
      have ph: "phase_ok ?s" using assms(1) by (simp add: node_ok_def)
      have "phase_ok ?t"
        by (rule phase_ok_same[of _ ?s]) (use ph phase_ok_intake[OF ph] in \<open>simp_all add: on_peer_def\<close>)
      moreover have "phase_ok (addToIncomingQueue m ?t)" if "init_rcvd (px_peer ?s) \<or> is_INIT m"
        by (rule phase_ok_same[of _ ?s])
          (use ph phase_ok_intake[OF ph] that in \<open>auto simp: on_peer_def addToIncomingQueue_def\<close>)
      moreover have "listener_thread P b n = (if init_rcvd (px_peer ?s) \<or> is_INIT m
          then Next (n\<lparr>proto := addToIncomingQueue m ?t\<rparr>) else Next (n\<lparr>proto := ?t, held := Some m\<rparr>))"
        using True r by (simp add: listener_thread_def defined_or_def ty Let_def)
      ultimately show ?thesis using assms(1) True m
        by (cases "init_rcvd (px_peer ?s) \<or> is_INIT m") (auto simp: node_ok_def waiting_def)
    qed
  qed (use assms(2) True in simp)
qed

text \<open>The processing thread handles the front of the queue in the phase the node is in.\<close>

lemma front_ok:
  assumes "node_ok P n" and "getIncomingQueueFront (proto n) = Some (m, s)"
  shows "phase_ok s \<and> message_safe (prog_env P) GolayCode_N m \<and> (init_rcvd (px_peer s) \<or> is_INIT m) \<and>
    incoming_message_queue (proto n) = m # incoming_message_queue s \<and> px_peer s = px_peer (proto n)"
proof -
  from assms(2) have s: "s = (proto n)\<lparr>incoming_message_queue := tl (incoming_message_queue (proto n)),
      incoming_queue_popped := incoming_queue_popped (proto n) + 1\<rparr>"
    and q: "incoming_message_queue (proto n) = m # tl (incoming_message_queue (proto n))"
    by (auto simp: getIncomingQueueFront_def split: list.splits)
  have ph: "phase_ok (proto n)" using assms(1) by (simp add: node_ok_def)
  have i: "init_rcvd (px_peer (proto n)) \<or> list_all is_INIT (m # tl (incoming_message_queue (proto n)))"
    using phase_ok_intake[OF ph] q by metis
  have "m \<in> waiting n" using q by (metis UnCI list.set_intros(1) waiting_def)
  moreover have "phase_ok s"
    unfolding s by (rule phase_ok_same[of _ "proto n"]) (use ph i in auto)
  moreover have "init_rcvd (px_peer (proto n)) \<or> is_INIT m" using i by auto
  ultimately show ?thesis using assms(1) q by (simp add: node_ok_def s)
qed

lemma processMessage_phase:
  assumes "golay_env env" and "phase_ok s" and "message_safe env GolayCode_N m" and "init_rcvd (px_peer s) \<or> is_INIT m"
  shows "\<exists>b m' s'. processMessage env m s = Some (b, m', s') \<and> phase_ok s' \<and> init_rcvd (px_peer s') \<and>
    incoming_message_queue s' = incoming_message_queue s"
proof -
  have "\<exists>b m' s'. processMessage env m s = Some (b, m', s') \<and> plexus_ok golay_inv s'"
  proof (cases "init_rcvd (px_peer s)")
    case True
    with assms golay.processMessage_ok[of env s m] show ?thesis by (simp add: golay_env_def phase_ok_def)
  next
    case False
    with assms(4) obtain i where "m = Msg_INIT i" by (cases m) auto
    with False assms golay.processMessage_INIT[of s env i] show ?thesis by (auto simp: phase_ok_def)
  qed
  then obtain b m' s' where p: "processMessage env m s = Some (b, m', s')" "plexus_ok golay_inv s'" by blast
  from processMessage_intake[OF p(1)] assms(4) have "init_rcvd (px_peer s')" "incoming_message_queue s' = incoming_message_queue s"
    by (auto simp: intake_after_def intake_def split: if_splits)
  with p show ?thesis by (simp add: phase_ok_def)
qed

lemma phase_ok_outgoing [simp]: "init_rcvd (px_peer s) \<Longrightarrow> phase_ok (addToOutgoingQueue m s) = phase_ok s"
  by (simp add: phase_ok_def)

lemma processing_ok:
  assumes "golay_env (prog_env P)" and "node_ok P n"
  shows "\<exists>n'. processing_thread P n = Next n' \<and> node_ok P n' \<or> processing_thread P n = Blocked"
proof (cases "getIncomingQueueFront (proto n)")
  case None
  then show ?thesis by (simp add: processing_thread_def)
next
  case (Some ms)
  obtain m s where ms: "ms = (m, s)" by (cases ms)
  note f = front_ok[OF assms(2) Some[unfolded ms]]
  with processMessage_phase[OF assms(1), of s m] obtain b m' s' where p: "processMessage (prog_env P) m s = Some (b, m', s')"
    "phase_ok s'" "init_rcvd (px_peer s')" "incoming_message_queue s' = incoming_message_queue s" by blast
  let ?t = "if b then addToOutgoingQueue m' s' else s'"
  have "processing_thread P n = Next (n\<lparr>proto := ?t\<rparr>)"
    using Some ms p(1) by (simp add: processing_thread_def defined_or_def)
  moreover have "node_ok P (n\<lparr>proto := ?t\<rparr>)"
    using assms(2) f p by (auto simp: node_ok_def waiting_def)
  ultimately show ?thesis by blast
qed

section \<open>The other threads\<close>

lemma retry_loop_defined:
  "(\<And>i. send i \<noteq> None) \<Longrightarrow> \<exists>e. retry_loop send is e0 = Some e"
proof (induction "is" arbitrary: e0)
  case (Cons i "is")
  obtain e where "send i = Some e" using Cons.prems by blast
  with Cons show ?case by simp
qed simp

lemma forwarding_ok:
  assumes "node_ok P n" and "event_safe P n (Forward net)"
  shows "\<exists>n'. forwarding_thread P net n = Next n' \<and> node_ok P n' \<or> forwarding_thread P net n = Blocked"
proof (cases "outgoing_message_queue (proto n)")
  case Nil
  then show ?thesis by (simp add: forwarding_thread_def getOutgoingQueueFront_def)
next
  case (Cons m q)
  let ?s = "(proto n)\<lparr>outgoing_message_queue := q, outgoing_queue_popped := outgoing_queue_popped (proto n) + 1\<rparr>"
  let ?ty = "messageType (message_base (add_cost P m))"
  from assms(2) Cons obtain b where b: "serialize (prog_cow P) (prog_rv P) (add_cost P m) = Some b" by auto
  have "send_message P (add_cost P m) (net i) \<noteq> None" for i using b by (simp add: send_message_def)
  then obtain e where e: "retry_loop (\<lambda>i. send_message P (add_cost P m) (net i)) [0..<nat (sint (n_retry (px_peer ?s)))] 0 = Some e"
    using retry_loop_defined[of "\<lambda>i. send_message P (add_cost P m) (net i)"] by blast
  have "forwarding_thread P net n = Next (n\<lparr>proto := on_peer (count_sent ?ty e) ?s\<rparr>)"
    using Cons e by (simp add: forwarding_thread_def getOutgoingQueueFront_def defined_or_def Let_def)
  moreover have "phase_ok (on_peer (count_sent ?ty e) ?s)"
    by (rule phase_ok_same[of _ "proto n"])
      (use assms(1) phase_ok_intake[of "proto n"] in \<open>simp_all add: on_peer_def node_ok_def\<close>)
  ultimately show ?thesis using assms(1) by (auto simp: node_ok_def waiting_def)
qed

lemma logging_ok:
  assumes "node_ok P n"
  shows "\<exists>n'. logging_thread n = Next n' \<and> node_ok P n' \<or> logging_thread n = Blocked"
proof (cases "init_rcvd (px_peer (proto n)) \<and> logging_queue (proto n) \<noteq> []")
  case False
  then show ?thesis by (auto simp: logging_thread_def getLoggingQueueFront_def)
next
  case True
  then obtain e q where q: "logging_queue (proto n) = e # q" by (cases "logging_queue (proto n)") auto
  let ?s = "(proto n)\<lparr>logging_queue := q, logging_queue_popped := logging_queue_popped (proto n) + 1\<rparr>"
  have "logging_thread n = Next (n\<lparr>proto := ?s, written := written n @ [e]\<rparr>)"
    using True q by (simp add: logging_thread_def getLoggingQueueFront_def)
  moreover have "phase_ok ?s"
    by (rule phase_ok_same[of _ "proto n"])
      (use assms phase_ok_intake[of "proto n"] in \<open>simp_all add: node_ok_def\<close>)
  ultimately show ?thesis using assms by (auto simp: node_ok_def waiting_def)
qed

lemma pending_ok:
  assumes "node_ok P n"
  shows "\<exists>n'. pending_message_process_thread n = Next n' \<and> node_ok P n' \<or> pending_message_process_thread n = Blocked"
proof (cases "pending n")
  case Draining
  then have i: "init_rcvd (px_peer (proto n))" using assms by (auto simp: node_ok_def)
  have "phase_ok (addToIncomingQueue m (proto n))" for m
    by (rule phase_ok_same[of _ "proto n"]) (use assms i in \<open>simp_all add: node_ok_def addToIncomingQueue_def\<close>)
  then show ?thesis using Draining assms i
    by (cases "received_before_init_queue n") (auto simp: pending_message_process_thread_def node_ok_def waiting_def)
qed (use assms in \<open>auto simp: pending_message_process_thread_def node_ok_def waiting_def\<close>)

lemma hold_back_ok:
  "node_ok P n \<Longrightarrow> \<exists>n'. hold_back n = Next n' \<and> node_ok P n' \<or> hold_back n = Blocked"
  by (cases "held n") (auto simp: hold_back_def node_ok_def waiting_def)

lemma select_ok: "node_ok P n \<Longrightarrow> \<exists>n'. select_error n = Next n' \<and> node_ok P n'"
  using phase_ok_same[of "on_peer incrementPut_Dropped (proto n)" "proto n"] phase_ok_intake[of "proto n"]
  by (auto simp: select_error_def node_ok_def waiting_def on_peer_def)

context Total_ABSCode
begin

lemma get_ok:
  assumes "iCode_decode env = decode" and "iCode_K env = K" and "plexus_ok inv s"
    and "fits N (scast (atoi name) :: clong)"
  shows "\<exists>s'. get (processMessage env) env name s = Some s' \<and> plexus_ok inv s'"
proof -
  obtain oid code where c: "hash_oid env (atoi name) s = Some (oid, s\<lparr>code_state := code\<rparr>)" "inv code" "id_length_ok oid"
    using hash_oid_ok[OF assms(1,2) plexus_okD(3)[OF assms(3)] assms(4)] by blast
  let ?s = "s\<lparr>code_state := code\<rparr>"
  obtain r g where r: "draw (\<lambda>ns. MessageGET_new ns (host_name (px_peer ?s)) (listen_port_number (px_peer ?s)) [] (- 1)
      (peer_overlay_id (px_peer ?s)) (junk_dst env) oid name) ?s = (r, ?s\<lparr>sequence_no_generator := g\<rparr>)"
    "get_target_oid r = oid" "src_oid r = peer_overlay_id (px_peer ?s)"
    using draw_get by blast
  let ?t = "?s\<lparr>sequence_no_generator := g\<rparr>"
  have "plexus_ok inv ?t" using plexus_ok_code[OF assms(3) c(2)] by simp
  from request_GET_ok[OF this, of r env] r(2,3) c(3) plexus_okD(2)[OF assms(3)]
  obtain b m' s' where "processMessage env (Msg_GET r) ?t = Some (b, m', s')" "plexus_ok inv s'" by auto
  then show ?thesis using c(1) r(1) by (simp add: get_def start_request_def)
qed

end

lemma routed_intake:
  assumes "processMessage env x s = Some (b, m', t)" and "\<not> is_INIT x"
  shows "intake t = intake s"
  using processMessage_intake[OF assms(1)] assms(2) by (simp add: intake_after_def)

lemma request_phase:
  assumes "golay_env env" and "phase_ok s" and "init_rcvd (px_peer s)" and "fits GolayCode_N (scast (atoi name) :: clong)"
  shows "\<exists>s'. put (processMessage env) env name h s = Some s' \<and> phase_ok s' \<and> intake s' = intake s"
    and "\<exists>s'. get (processMessage env) env name s = Some s' \<and> phase_ok s' \<and> intake s' = intake s"
proof -
  have ok: "plexus_ok golay_inv s" using assms(2,3) by (simp add: phase_ok_def)
  obtain s1 where s1: "put (processMessage env) env name h s = Some s1" "plexus_ok golay_inv s1"
    using golay.put_ok[OF _ _ ok assms(4), of env h] assms(1) by (auto simp: golay_env_def)
  obtain s2 where s2: "get (processMessage env) env name s = Some s2" "plexus_ok golay_inv s2"
    using golay.get_ok[OF _ _ ok assms(4), of env] assms(1) by (auto simp: golay_env_def)
  have "intake s1 = intake s" using s1(1) by (rule put_intake) (erule routed_intake, simp)
  with s1 assms(3) show "\<exists>s'. put (processMessage env) env name h s = Some s' \<and> phase_ok s' \<and> intake s' = intake s"
    by (auto simp: phase_ok_def intake_def)
  have "intake s2 = intake s" using s2(1) by (rule get_intake) (erule routed_intake, simp)
  with s2 assms(3) show "\<exists>s'. get (processMessage env) env name s = Some s' \<and> phase_ok s' \<and> intake s' = intake s"
    by (auto simp: phase_ok_def intake_def)
qed

lemma node_ok_proto:
  assumes "node_ok P n" and "phase_ok s" and "intake s = intake (proto n)" and "init_rcvd (px_peer s)"
    and "received_before_init_queue n' = received_before_init_queue n" and "held n' = held n" and "proto n' = s"
  shows "node_ok P n'"
  using assms by (simp add: node_ok_def waiting_def intake_def)

lemma node_ok_control:
  assumes "node_ok P n" and "init_rcvd (px_peer (proto n)) \<or> c = Control_done"
  shows "node_ok P (n\<lparr>control := c\<rparr>)" "node_ok P (n\<lparr>publish_name_done := x, control := c\<rparr>)"
    "node_ok P (n\<lparr>lookup_name_done := x, control := c\<rparr>)"
  using assms by (auto simp: node_ok_def waiting_def)

lemma controlling_ok:
  assumes "golay_env (prog_env P)" and "node_ok P n" and "event_safe P n Control"
  shows "\<exists>n'. controlling_thread P n = Next n' \<and> node_ok P n' \<or> controlling_thread P n = Blocked"
proof -
  let ?s = "proto n"
  have ph: "phase_ok ?s" using assms(2) by (simp add: node_ok_def)
  have i: "init_rcvd (px_peer ?s)" if "control n \<notin> {Control_top, Control_done}"
    using assms(2) that by (auto simp: node_ok_def)
  show ?thesis
  proof (cases "control n")
    case Control_top
    then show ?thesis
      using node_ok_control(1)[OF assms(2)] by (auto simp: controlling_thread_def Let_def)
  next
    case (Publishing k names)
    note i = i[unfolded Publishing, simplified]
    show ?thesis
    proof (cases "k \<le>s publish_name_range_end (px_peer ?s)")
      case True
      with assms(3) Publishing obtain name where nm: "name_text (px_peer ?s) k names = Some name"
        "fits GolayCode_N (scast (atoi name) :: clong)" by (auto simp: name_ok_def split: option.splits)
      from request_phase(1)[OF assms(1) ph i nm(2)] obtain s' where s': "put (processMessage (prog_env P)) (prog_env P) name
        (HostAddress_new (str ''dummyhost'') k) ?s = Some s'" "phase_ok s'" "intake s' = intake ?s" by blast
      then have "controlling_thread P n = Next (n\<lparr>proto := s', control := Publishing (k + 1) names\<rparr>)"
        using Publishing True nm by (simp add: controlling_thread_def Let_def defined_or_def)
      then show ?thesis using node_ok_proto[OF assms(2) s'(2,3)] s'(3) i by (auto simp: intake_def)
    next
      case False
      then show ?thesis using Publishing node_ok_control(2)[OF assms(2)] i by (auto simp: controlling_thread_def Let_def)
    qed
  next
    case (Published names)
    then show ?thesis
      using node_ok_control(1)[OF assms(2)] i by (auto simp: controlling_thread_def Let_def)
  next
    case (Looking_up k names)
    note i = i[unfolded Looking_up, simplified]
    show ?thesis
    proof (cases "k \<le>s lookup_name_range_end (px_peer ?s)")
      case True
      with assms(3) Looking_up obtain name where nm: "name_text (px_peer ?s) k names = Some name"
        "fits GolayCode_N (scast (atoi name) :: clong)" by (auto simp: name_ok_def split: option.splits)
      from request_phase(2)[OF assms(1) ph i nm(2)] obtain s' where s': "get (processMessage (prog_env P)) (prog_env P) name
        ?s = Some s'" "phase_ok s'" "intake s' = intake ?s" by blast
      then have "controlling_thread P n = Next (n\<lparr>proto := s', control := Looking_up (k + 1) names\<rparr>)"
        using Looking_up True nm by (simp add: controlling_thread_def Let_def defined_or_def)
      then show ?thesis using node_ok_proto[OF assms(2) s'(2,3)] s'(3) i by (auto simp: intake_def)
    next
      case False
      then show ?thesis using Looking_up node_ok_control(3)[OF assms(2)] i by (auto simp: controlling_thread_def Let_def)
    qed
  qed (simp add: controlling_thread_def)
qed

text \<open>A web request changes the name database only.\<close>

definition renames :: "'s Plexus \<Rightarrow> 's Plexus \<Rightarrow> bool" where
  "renames s s' \<longleftrightarrow> (\<exists>db. s' = s\<lparr>px_peer := (px_peer s)\<lparr>name_db := db\<rparr>\<rparr> \<and> name.wf_table db)"

lemma renames_same: "name_db_ok (px_peer s) \<Longrightarrow> renames s s"
  unfolding renames_def by (intro exI[of _ "name_db (px_peer s)"]) (simp add: name_db_ok_def)

lemma renamesI: "name.wf_table db \<Longrightarrow> renames s (s\<lparr>px_peer := (px_peer s)\<lparr>name_db := db\<rparr>\<rparr>)"
  unfolding renames_def by blast

lemma renames_device:
  assumes "name_db_ok (px_peer s)"
  shows "renames s (snd (register_device now n ha s))" "renames s (snd (update_device now n ha s))"
proof -
  have "name.wf_table (snd (table_add str_less n (ha, now) (name_db (px_peer s))))"
    "name.wf_table (snd (table_update str_less n (ha, now) (name_db (px_peer s))))"
    using name_db_ops[OF assms, of now n ha]
    by (simp_all add: name_db_ok_def addToNameDB_def updateNameDB_def case_prod_beta)
  then show "renames s (snd (register_device now n ha s))" "renames s (snd (update_device now n ha s))"
    using renames_same[OF assms]
    by (simp_all add: register_device_def update_device_def on_peer_def addToNameDB_def updateNameDB_def
        case_prod_beta renamesI)
qed

lemma renames_request:
  "renames s s \<Longrightarrow> (\<And>n h. renames s (snd (act n h s))) \<Longrightarrow> renames s (snd (device_request a t act s))"
  by (simp add: device_request_def Let_def split: option.split)

lemma renames_method:
  assumes "name_db_ok (px_peer s)"
  shows "renames s (snd (snd (handle_method now raw ip t s)))"
  by (simp add: handle_method_def case_prod_beta renames_same[OF assms] renames_request renames_device[OF assms]
      split: option.split)

lemma web_frame:
  assumes "interface_callback now raw ip q s = Some (r, s')" and "name_db_ok (px_peer s)"
  shows "renames s s'"
  using assms(1) renames_same[OF assms(2)] renames_method[OF assms(2), of now raw ip]
  by (auto simp: interface_callback_def Let_def case_prod_beta split: if_splits option.splits)

lemma web_ok:
  assumes "node_ok P n" and "event_safe P n (Web now ip q)"
  shows "\<exists>n'. node_step P (Web now ip q) n = Next n' \<and> node_ok P n'"
proof -
  let ?s = "proto n"
  have i: "init_rcvd (px_peer ?s)" using assms(2) by simp
  have "interface_callback now (prog_raw P) ip q ?s \<noteq> None"
    using interface_None[OF i] assms(2) by (auto simp: list_all_iff split: option.splits)
  then obtain r s' where r: "interface_callback now (prog_raw P) ip q ?s = Some (r, s')" by auto
  have ok: "plexus_ok golay_inv ?s" using assms(1) i by (simp add: node_ok_def phase_ok_def)
  with web_frame[OF r] obtain db where "s' = ?s\<lparr>px_peer := (px_peer ?s)\<lparr>name_db := db\<rparr>\<rparr>" "name.wf_table db"
    by (auto simp: plexus_ok_def renames_def)
  with ok i have "phase_ok s'" "intake s' = intake ?s" "init_rcvd (px_peer s')"
    by (auto simp: phase_ok_def plexus_ok_def tables_ok_def name_db_ok_def intake_def)
  with r show ?thesis using node_ok_proto[OF assms(1), of s'] by (auto simp: defined_or_def)
qed

end
