(* ===== verification/Node_Behaviour.thy ===== *)
theory Node_Behaviour
  imports Node_Safety
begin

text \<open>
  What the threads of a node guarantee together: the invariant of \<open>Node_Safety\<close> in every reachable state, what
  becomes of the messages that come before INIT, and what the forwarding thread counts.
\<close>

section \<open>Every reachable state is safe\<close>

lemma node_step_ok:
  assumes "golay_env (prog_env P)" and "node_ok P n" and "event_safe P n e"
  shows "(\<exists>n'. node_step P e n = Next n' \<and> node_ok P n') \<or> node_step P e n = Blocked"
  using assms listener_ok[OF assms(2)] processing_ok[OF assms(1,2)] forwarding_ok[OF assms(2)] logging_ok[OF assms(2)]
    pending_ok[OF assms(2)] hold_back_ok[OF assms(2)] select_ok[OF assms(2)] controlling_ok[OF assms(1,2)]
    web_ok[OF assms(2)]
  by (cases e) (auto simp del: event_safe.simps node_step.simps(9))

lemma start_ok:
  assumes "golay_inv code" and "name_db_ok p" and "\<not> init_rcvd p"
  shows "node_ok P (system_init p ns code)"
  using assms by (simp add: node_ok_def waiting_def phase_ok_def system_init_def plexus_base_def Plexus_new_def table_empty_def)

lemma run_ok:
  assumes "golay_env (prog_env P)" and "node_run P (event_safe P) n0 es n" and "node_ok P n0"
  shows "node_ok P n"
  using assms(2)
proof (induction rule: node_run.induct)
  case (step es n1 e n2)
  with node_step_ok[OF assms(1), of n1 e] show ?case by auto
qed (rule assms(3))


section \<open>A run\<close>

definition example_program :: "golay_state program" where
  "example_program = \<lparr>prog_env = example_env GolayCode_decode GolayCode_K, prog_fill = Some 0, prog_cow = True,
     prog_rv = 1000, prog_cost = (\<lambda>_. (1, 0)), prog_add = (+), prog_names = (\<lambda>_ _. []),
     prog_raw = (HostAddress_default, 0)\<rparr>"

definition example_node :: "golay_state node" where
  "example_node = system_init ((example_peer (OverlayID_new 0 0 0) [])\<lparr>init_rcvd := False\<rparr>) 0 golay_start"

definition example_START :: message where
  "example_START = Msg_START (example_base MSG_PEER_START)"

definition example_INIT :: message where
  "example_INIT = Msg_INIT (example_init (OverlayID_new 3 12 12) [])"

text \<open>The bytes of the two messages, which do not depend on the receiver.\<close>

lemma example_received:
  "\<exists>b. b \<noteq> [] \<and> (\<forall>ns gen. receive (Some 0) ns gen b = Some (Some (gen + 1, example_START)))"
  "\<exists>b. b \<noteq> [] \<and> (\<forall>ns gen. receive (Some 0) ns gen b = Some (Some (gen + 1, example_INIT)))"
proof -
  have bytes: "\<exists>b. b \<noteq> [] \<and> (\<forall>ns gen. receive (Some 0) ns gen b = Some (Some (gen + 1, m)))"
    if "message_ok 0 m" "messageType (message_base m) = class_type m" for m
  proof -
    note sent = message_received[OF that]
    from sent obtain b where b: "serialize True 0 m = Some b" by blast
    have r: "receive (Some 0) ns gen b = Some (Some (gen + 1, m))" for ns gen
      using sent[of ns gen] b by auto
    moreover have "rd_char [] = None" by (simp add: rd_char_def rd_def read_at_def)
    ultimately show ?thesis using r[of 0 0] by (intro exI[of _ b]) (auto simp: receive_def)
  qed
  show "\<exists>b. b \<noteq> [] \<and> (\<forall>ns gen. receive (Some 0) ns gen b = Some (Some (gen + 1, example_START)))"
    "\<exists>b. b \<noteq> [] \<and> (\<forall>ns gen. receive (Some 0) ns gen b = Some (Some (gen + 1, example_INIT)))"
    by (rule bytes; simp add: example_START_def example_INIT_def example_init_def example_defs PeerInitMessage.defs
        init_ok_def base_ok_def int_key_def string_ok_def ABSMessage.defs GetOverlay_id_def)+
qed

lemma example_program_ok: "golay_env (prog_env example_program)"
  by (simp add: example_program_def example_golay_env)

lemma example_node_ok: "node_ok example_program example_node"
  unfolding example_node_def
  by (rule start_ok) (simp_all add: golay_inv_start name_db_ok_def example_peer_def)

lemma example_INIT_type: "messageType (message_base example_INIT) = MSG_PEER_INIT"
  "messageType (message_base example_START) \<noteq> MSG_PEER_INIT"
  by (simp_all add: example_INIT_def example_START_def example_init_def example_defs PeerInitMessage.defs ABSMessage.defs)

lemma example_safe: "message_safe env N example_START" "message_safe env N example_INIT"
  by (simp_all add: example_START_def example_INIT_def example_init_def example_defs PeerInitMessage.defs id_length_ok_def)

text \<open>A message that comes early: the listening thread finds no INIT yet, and holds it.\<close>

lemma receive_early:
  assumes "\<forall>ns gen. receive (Some 0) ns gen b = Some (Some (gen + 1, example_START))" and "b \<noteq> []"
    and "held n = None" and "\<not> init_rcvd (px_peer (proto n))"
  shows "\<exists>g. listener_thread example_program b n =
    Next (n\<lparr>proto := (proto n)\<lparr>sequence_no_generator := g\<rparr>, held := Some example_START\<rparr>)"
proof -
  have p: "prog_fill example_program = Some 0" by (simp add: example_program_def)
  have "count_received example_START q = q" for q by (simp add: example_START_def)
  then show ?thesis using assms example_INIT_type(2)
    by (simp add: listener_thread_def p defined_or_def on_peer_def Let_def) blast
qed

lemma receive_INIT:
  assumes "\<forall>ns gen. receive (Some 0) ns gen b = Some (Some (gen + 1, example_INIT))" and "b \<noteq> []" and "held n = None"
  shows "\<exists>g. listener_thread example_program b n =
    Next (n\<lparr>proto := addToIncomingQueue example_INIT ((proto n)\<lparr>sequence_no_generator := g\<rparr>)\<rparr>)"
proof -
  have p: "prog_fill example_program = Some 0" by (simp add: example_program_def)
  have "count_received example_INIT q = q" for q by (simp add: example_INIT_def)
  then show ?thesis using assms example_INIT_type(1)
    by (simp add: listener_thread_def p defined_or_def on_peer_def Let_def) blast
qed

lemma process_example_INIT:
  assumes "node_ok example_program n" and "incoming_message_queue (proto n) = [example_INIT]"
  shows "\<exists>s. processing_thread example_program n = Next (n\<lparr>proto := s\<rparr>) \<and> init_rcvd (px_peer s) \<and>
    incoming_message_queue s = []"
proof -
  obtain m s where f: "getIncomingQueueFront (proto n) = Some (m, s)" using assms(2)
    by (simp add: getIncomingQueueFront_def)
  note o = front_ok[OF assms(1) f]
  from o assms(2) have q: "incoming_message_queue s = []" by simp
  from processMessage_phase[OF example_program_ok, of s m] o obtain b m' s' where
    "processMessage (prog_env example_program) m s = Some (b, m', s')" "init_rcvd (px_peer s')"
    "incoming_message_queue s' = incoming_message_queue s" by blast
  with f q show ?thesis
    by (intro exI[of _ "if b then addToOutgoingQueue m' s' else s'"]) (simp add: processing_thread_def defined_or_def)
qed

text \<open>
  INIT is received, a message comes before it is processed and is held back, another comes, INIT is
  processed, the pending thread hands over the first message and ends, and the second is queued.
\<close>

lemma example_run:
  "\<exists>es n. node_run example_program (event_safe example_program) example_node es n \<and> length es = 9 \<and>
     init_rcvd (px_peer (proto n)) \<and> pending n = Pending_done \<and> received_before_init_queue n = [example_START] \<and>
     incoming_message_queue (proto n) = [example_START]"
proof -
  obtain b where b: "b \<noteq> []" "\<forall>ns gen. receive (Some 0) ns gen b = Some (Some (gen + 1, example_START))"
    using example_received(1) by blast
  obtain c where c: "c \<noteq> []" "\<forall>ns gen. receive (Some 0) ns gen c = Some (Some (gen + 1, example_INIT))"
    using example_received(2) by blast
  let ?P = example_program
  have fill: "prog_fill ?P = Some 0" by (simp add: example_program_def)
  have safe: "event_safe ?P n (Receive b)" "event_safe ?P n (Receive c)" for n
    using b(2) c(2) by (simp_all add: fill example_safe)
  let ?n0 = example_node
  have n0: "held ?n0 = None" "\<not> init_rcvd (px_peer (proto ?n0))" "incoming_message_queue (proto ?n0) = []"
    "received_before_init_queue ?n0 = []" "pending ?n0 = Waiting"
    by (simp_all add: example_node_def system_init_def Plexus_new_def)
  obtain g1 where "node_step ?P (Receive c) ?n0 =
      Next (?n0\<lparr>proto := addToIncomingQueue example_INIT ((proto ?n0)\<lparr>sequence_no_generator := g1\<rparr>)\<rparr>)" (is "_ = Next ?n1")
    using receive_INIT[OF c(2,1) n0(1)] by auto
  note r1 = node_run.step[where ok = "event_safe ?P", OF node_run.start safe(2) this]
  obtain g2 where "node_step ?P (Receive b) ?n1 =
      Next (?n1\<lparr>proto := (proto ?n1)\<lparr>sequence_no_generator := g2\<rparr>, held := Some example_START\<rparr>)" (is "_ = Next ?n2")
    using receive_early[OF b(2,1), of ?n1] n0 by auto
  note r2 = node_run.step[where ok = "event_safe ?P", OF r1 safe(1) this]
  have "node_step ?P Hold_back ?n2 = Next (?n2\<lparr>received_before_init_queue := [example_START], held := None\<rparr>)" (is "_ = Next ?n3")
    using n0 by (simp add: hold_back_def)
  note r3 = node_run.step[where ok = "event_safe ?P", OF r2 _ this, simplified event_safe.simps, OF TrueI]
  obtain g4 where "node_step ?P (Receive b) ?n3 =
      Next (?n3\<lparr>proto := (proto ?n3)\<lparr>sequence_no_generator := g4\<rparr>, held := Some example_START\<rparr>)" (is "_ = Next ?n4")
    using receive_early[OF b(2,1), of ?n3] n0 by auto
  note r4 = node_run.step[where ok = "event_safe ?P", OF r3 safe(1) this]
  have ok: "node_ok ?P ?n4" by (rule run_ok[OF example_program_ok r4 example_node_ok])
  obtain s where s: "node_step ?P Process ?n4 = Next (?n4\<lparr>proto := s\<rparr>)" "init_rcvd (px_peer s)" "incoming_message_queue s = []"
    using process_example_INIT[OF ok] n0 by auto
  note r5 = node_run.step[where ok = "event_safe ?P", OF r4 _ s(1), simplified event_safe.simps, OF TrueI]
  let ?n5 = "?n4\<lparr>proto := s\<rparr>"
  have "node_step ?P Drain ?n5 = Next (?n5\<lparr>pending := Draining\<rparr>)" (is "_ = Next ?n6")
    using n0 s by (simp add: pending_message_process_thread_def)
  note r6 = node_run.step[where ok = "event_safe ?P", OF r5 _ this, simplified event_safe.simps, OF TrueI]
  have "node_step ?P Drain ?n6 = Next (?n6\<lparr>proto := addToIncomingQueue example_START s, received_before_init_queue := []\<rparr>)"
    (is "_ = Next ?n7") by (simp add: pending_message_process_thread_def)
  note r7 = node_run.step[where ok = "event_safe ?P", OF r6 _ this, simplified event_safe.simps, OF TrueI]
  have "node_step ?P Drain ?n7 = Next (?n7\<lparr>pending := Pending_done\<rparr>)" (is "_ = Next ?n8")
    by (simp add: pending_message_process_thread_def)
  note r8 = node_run.step[where ok = "event_safe ?P", OF r7 _ this, simplified event_safe.simps, OF TrueI]
  have "node_step ?P Hold_back ?n8 = Next (?n8\<lparr>received_before_init_queue := [example_START], held := None\<rparr>)" (is "_ = Next ?n9")
    by (simp add: hold_back_def)
  note r9 = node_run.step[where ok = "event_safe ?P", OF r8 _ this, simplified event_safe.simps, OF TrueI]
  show ?thesis
    by (rule exI, rule exI, rule conjI, rule r9) (simp add: s)
qed


section \<open>Early messages\<close>

lemma pending_done_step:
  assumes "node_step P e n = Next n'" and "pending n = Pending_done"
  shows "pending n' = Pending_done \<and> (\<exists>ms. received_before_init_queue n' = received_before_init_queue n @ ms)"
  using assms
  by (cases e) (auto simp: listener_thread_def hold_back_def select_error_def processing_thread_def forwarding_thread_def
      logging_thread_def pending_message_process_thread_def controlling_thread_def defined_or_def Let_def
      split: if_splits option.splits control_pc.splits prod.splits)

text \<open>
  A message can be lost. The thread that hands over the messages held back ends once their queue is
  empty; a message the listening thread found to be early but queues after that is never
  processed: whatever happens later, it stays where it is, and messages behind it as well.
\<close>

theorem late_message_lost:
  assumes "node_run P ok n es n'" and "pending n = Pending_done" and "received_before_init_queue n = m # ms"
  shows "pending n' = Pending_done \<and> (\<exists>ms'. received_before_init_queue n' = m # ms @ ms')"
  using assms(1)
proof (induction rule: node_run.induct)
  case (step es n1 e n2)
  with pending_done_step[of P e n1 n2] show ?case by auto
qed (simp add: assms(2,3))

lemma late_message_lost_witness:
  "\<exists>es n n'. node_run example_program (event_safe example_program) example_node es n \<and>
    node_run example_program (\<lambda>_ _. True) n [Select_error] n' \<and>
    (\<exists>ms. received_before_init_queue n' = example_START # ms)"
proof -
  obtain es n where r: "node_run example_program (event_safe example_program) example_node es n"
    "pending n = Pending_done" "received_before_init_queue n = [example_START]" using example_run by blast
  have "node_run example_program (\<lambda>_ _. True) n ([] @ [Select_error]) (n\<lparr>proto := on_peer incrementPut_Dropped (proto n)\<rparr>)"
    by (rule node_run.step[OF node_run.start TrueI]) (simp add: select_error_def)
  note run = this[unfolded append_Nil]
  from late_message_lost[OF run r(2,3)] obtain ms where
    "received_before_init_queue (n\<lparr>proto := on_peer incrementPut_Dropped (proto n)\<rparr>) = example_START # ms" by auto
  with run r(1) show ?thesis by blast
qed

section \<open>Forwarding\<close>

lemma retry_loop_result:
  "retry_loop (\<lambda>i. Some (f i)) is e0 =
     Some (case filter (\<lambda>i. 0 \<le>s f i) is of i # _ \<Rightarrow> f i | [] \<Rightarrow> if is = [] then e0 else f (last is))"
proof (induction "is" arbitrary: e0)
  case (Cons i "is")
  then show ?case by (cases "f i <s 0") (auto simp: word_sless_alt word_sle_eq split: list.splits)
qed simp


text \<open>The codes the attempts get: that of the connection if it fails, else that of sending.\<close>

definition attempt_code :: "cint \<times> cint \<Rightarrow> cint" where
  "attempt_code codes = (if fst codes <s 0 then fst codes else snd codes)"

lemma send_message_code:
  "serialize (prog_cow P) (prog_rv P) m \<noteq> None \<Longrightarrow> send_message P m codes = Some (attempt_code codes)"
  by (auto simp: send_message_def attempt_code_def)

text \<open>
  What forwarding counts. The thread takes the front of the outgoing queue and sends it until an attempt
  succeeds, at most \<open>n_retry\<close> times; a GET is then counted as dropped if there were attempts and all
  failed, and as forwarded otherwise. With \<open>n_retry \<le> 0\<close> it makes no attempt: the message is lost
  and still counted as forwarded.
\<close>

theorem forwarding_counts:
  assumes "outgoing_message_queue (proto n) = Msg_GET m # q"
    and "messageType m = MSG_PLEXUS_GET"
    and "serialize (prog_cow P) (prog_rv P) (add_cost P (Msg_GET m)) \<noteq> None"
    and "k = nat (sint (n_retry (px_peer (proto n))))"
  shows "\<exists>n'. forwarding_thread P net n = Next n' \<and> outgoing_message_queue (proto n') = q \<and>
    (let p = px_peer (proto n); p' = px_peer (proto n') in
     if 0 < k \<and> (\<forall>i<k. attempt_code (net i) <s 0)
     then get_dropped p' = get_dropped p + 1 \<and> get_forwarded p' = get_forwarded p
     else get_forwarded p' = get_forwarded p + 1 \<and> get_dropped p' = get_dropped p)"
proof -
  let ?s = "(proto n)\<lparr>outgoing_message_queue := q, outgoing_queue_popped := outgoing_queue_popped (proto n) + 1\<rparr>"
  let ?f = "\<lambda>i. attempt_code (net i)"
  have ty: "messageType (message_base (add_cost P (Msg_GET m))) = MSG_PLEXUS_GET"
    using assms(2)
    by (simp add: add_cost_def on_base_def incrementLatency_def incrementIpHops_def incrementOverlayHops_def
        ABSMessage.defs Let_def split: prod.split)
  let ?e = "case filter (\<lambda>i. 0 \<le>s ?f i) [0..<k] of i # _ \<Rightarrow> ?f i | [] \<Rightarrow> if [0..<k] = [] then 0 else ?f (last [0..<k])"
  have f: "forwarding_thread P net n = Next (n\<lparr>proto := on_peer (count_sent MSG_PLEXUS_GET ?e) ?s\<rparr>)"
    using assms(1,3,4) ty retry_loop_result[of ?f "[0..<k]" 0]
    by (simp add: forwarding_thread_def getOutgoingQueueFront_def defined_or_def Let_def send_message_code)
  have "?e <s 0 \<longleftrightarrow> 0 < k \<and> (\<forall>i<k. ?f i <s 0)"
  proof (cases "filter (\<lambda>i. 0 \<le>s ?f i) [0..<k]")
    case Nil
    then have "\<forall>i<k. ?f i <s 0" by (fastforce simp: filter_empty_conv word_sless_alt word_sle_eq not_le)
    with Nil show ?thesis by (auto simp: word_sless_alt)
  next
    case (Cons i js)
    then have "i \<in> set (filter (\<lambda>i. 0 \<le>s ?f i) [0..<k])" by simp
    then have "i < k" "\<not> ?f i <s 0" by (simp_all add: word_sless_alt word_sle_eq not_less)
    with Cons show ?thesis by auto
  qed
  moreover have "0 \<le>s ?e \<longleftrightarrow> \<not> ?e <s 0" by (simp add: word_sless_alt word_sle_eq not_less)
  ultimately show ?thesis unfolding f
    by (simp add: on_peer_def count_sent_def incrementGet_forwarded_def incrementGet_Dropped_def Let_def)
qed

lemma forwarding_counts_witness:
  "\<exists>n'. forwarding_thread example_program (\<lambda>_. (- 104, 0))
      (example_node\<lparr>proto := addToOutgoingQueue (example_get raw_oid raw_oid [110]) (proto example_node)\<rparr>) = Next n' \<and>
    get_forwarded (px_peer (proto n')) = 1"
proof -
  let ?n = "example_node\<lparr>proto := addToOutgoingQueue (example_get raw_oid raw_oid [110]) (proto example_node)\<rparr>"
  obtain m where m: "example_get raw_oid raw_oid [110] = Msg_GET m" by (simp add: example_get_def)
  have p: "px_peer (proto ?n) = (example_peer (OverlayID_new 0 0 0) [])\<lparr>init_rcvd := False\<rparr>"
    by (simp add: example_node_def system_init_def Plexus_new_def)
  have q: "outgoing_message_queue (proto ?n) = [Msg_GET m]"
    by (simp add: m example_node_def system_init_def Plexus_new_def addToOutgoingQueue_def)
  have "message_ok 1000 (add_cost example_program (Msg_GET m))"
    "messageType (message_base (add_cost example_program (Msg_GET m))) = class_type (add_cost example_program (Msg_GET m))"
    "messageType m = MSG_PLEXUS_GET"
    using m by (auto simp: example_get_def add_cost_def on_base_def example_program_def incrementLatency_def
        incrementIpHops_def incrementOverlayHops_def example_defs MessageGET.defs ABSMessage.defs raw_oid_def
        base_ok_def int_key_def string_ok_def GetOverlay_id_def OverlayID_new_def MessageGET_size_def getBaseSize_def)
  note sent = this
  have ser: "serialize (prog_cow example_program) (prog_rv example_program) (add_cost example_program (Msg_GET m)) \<noteq> None"
    using message_received[OF sent(1,2)] by (auto simp: example_program_def)
  have k: "(0::nat) = nat (sint (n_retry (px_peer (proto ?n))))" unfolding p by (simp add: example_peer_def)
  from forwarding_counts[OF q sent(3) ser k, of "\<lambda>_. (- 104, 0)"] obtain n' where
    "forwarding_thread example_program (\<lambda>_. (- 104, 0)) ?n = Next n'"
    "get_forwarded (px_peer (proto n')) = get_forwarded (px_peer (proto ?n)) + 1" by (auto simp: Let_def)
  then show ?thesis unfolding p by (simp add: example_peer_def)
qed

end
