(* ===== verification/Build_Tree.thy ===== *)
theory Build_Tree
  imports Routing
begin

text \<open>
  \<^verbatim>\<open>monitor/tree/BuildTree.h\<close>: the construction of the overlay from the list of hosts, with which the
  central program computes the id and the routing table of each peer. The ids are the leaves of a
  binary tree whose leaves are on at most two levels; the neighbours of a peer are found by toggling the bits
  of its id. The file is given by its lines.
\<close>

section \<open>The lines of the host list\<close>

text \<open>The tokens \<^verbatim>\<open>strtok\<close> finds, with blanks and newlines as delimiters.\<close>

function tokens :: "cstring \<Rightarrow> cstring list" where
  "tokens s =
     (let s = dropWhile (\<lambda>c. c = 32 \<or> c = 10) s in
      if s = [] then []
      else takeWhile (\<lambda>c. c \<noteq> 32 \<and> c \<noteq> 10) s # tokens (dropWhile (\<lambda>c. c \<noteq> 32 \<and> c \<noteq> 10) s))"
  by pat_completeness auto

termination tokens
proof (relation "measure length", goal_cases)
  case (2 s s')
  have d: "length (dropWhile Q xs) < length xs" if "xs \<noteq> []" "Q (hd xs)" for Q and xs :: cstring
    using that length_dropWhile_le[of Q "tl xs"] by (cases xs) auto
  have "s' \<noteq> []" "hd s' \<noteq> 32 \<and> hd s' \<noteq> 10" "length s' \<le> length s"
    using 2 hd_dropWhile[of "\<lambda>c. c = 32 \<or> c = 10" s] length_dropWhile_le[of "\<lambda>c. c = 32 \<or> c = 10" s] by auto
  with d[of s' "\<lambda>c. c \<noteq> 32 \<and> c \<noteq> 10"] show ?case by simp
qed simp

declare tokens.simps [simp del]

text \<open>
  Host name, port, address and alias of a line; a line of 400 characters overruns the array it
  is copied to, and one with fewer than four tokens gives a null pointer.
\<close>

definition parse_line :: "cstring \<Rightarrow> (HostAddress \<times> cstring) option" where
  "parse_line line =
     (if 400 \<le> length line then None else
      case tokens (takeWhile (\<lambda>c. c \<noteq> 0) line) of
        host # port # ip # alias # _ \<Rightarrow> Some (HostAddress_new host (atoi port), alias)
      | _ \<Rightarrow> None)"

section \<open>Ids\<close>

record BuildTree =
  treeSize :: cint
  idArray :: "OverlayID list"
  hAddArray :: "HostAddress list"
  aliasArray :: "cstring list"
  rtArray :: "(OverlayID, HostAddress) table list"
  hosts :: "(OverlayID, HostAddress) table"
  max_height :: nat

text \<open>\<^verbatim>\<open>ceil(log2(n))\<close>.\<close>

fun ceil_log2 :: "nat \<Rightarrow> nat" where
  "ceil_log2 n = (if n \<le> 1 then 0 else Suc (ceil_log2 ((n + 1) div 2)))"

declare ceil_log2.simps [simp del]

definition GetHeight :: "BuildTree \<Rightarrow> int \<Rightarrow> int" where
  "GetHeight t index =
     (if index < 2 ^ max_height t - sint (treeSize t) then int (max_height t) - 1 else int (max_height t))"

text \<open>
  The loop over the lines: the first \<open>nodes\<close> ids are the leaves of the lowest level, the others, counted
  by \<open>st\<close>, those of the level above. A shift by a negative count is undefined.
\<close>

fun fill_loop :: "nat \<Rightarrow> nat \<Rightarrow> int \<Rightarrow> (nat \<times> cstring) list \<Rightarrow> int \<Rightarrow> BuildTree \<Rightarrow> BuildTree option" where
  "fill_loop K height nodes [] st t = Some t"
| "fill_loop K height nodes ((i, line) # ls) st t =
     Option.bind (parse_line line) (\<lambda>(ha, alias).
     let lowest = int i < nodes;
         value = (if lowest then int i else st);
         len = (if lowest then height else height - 1) in
     if K < len then None else
     let oid = OverlayID_new (scast (push_bit (K - len) (word_of_int value :: cint))) (of_nat len) (of_nat K) in
     fill_loop K height nodes ls (if lowest then st else st + 1)
       (t\<lparr>idArray := idArray t @ [oid], hAddArray := hAddArray t @ [ha], aliasArray := aliasArray t @ [alias],
          hosts := snd (table_add oid_less oid ha (hosts t))\<rparr>))"

section \<open>Routing tables\<close>

text \<open>\<^verbatim>\<open>GetIndexOfLongestMatchedPrefix\<close>: the first id with the longest match, or the first id.\<close>

fun longest_loop :: "OverlayID \<Rightarrow> nat \<Rightarrow> OverlayID list \<Rightarrow> int \<times> nat \<Rightarrow> nat option" where
  "longest_loop target i [] best = Some (snd best)"
| "longest_loop target i (oid # ids) best =
     Option.bind (GetMatchedPrefixLength target oid) (\<lambda>length.
     longest_loop target (Suc i) ids (if length > fst best then (length, i) else best))"

definition GetIndexOfLongestMatchedPrefix :: "BuildTree \<Rightarrow> OverlayID \<Rightarrow> nat option" where
  "GetIndexOfLongestMatchedPrefix t oid = longest_loop oid 0 (idArray t) (0, 0)"

text \<open>The peer closest to a pattern becomes a neighbour of peer \<open>i\<close> if it is another one.\<close>

definition add_neighbour ::
    "BuildTree \<Rightarrow> nat \<Rightarrow> OverlayID \<Rightarrow> (OverlayID, HostAddress) table \<Rightarrow> (OverlayID, HostAddress) table option" where
  "add_neighbour t i nbrPattern rt =
     Option.bind (GetIndexOfLongestMatchedPrefix t nbrPattern) (\<lambda>nbrIndex.
     let nbr = idArray t ! nbrIndex in
     Some (if oid_eq nbr (idArray t ! i) then rt
           else
             let ha = (case table_lookup oid_less nbr (hosts t) of Some h \<Rightarrow> h | None \<Rightarrow> HostAddress_default) in
             snd (table_add oid_less nbr ha rt)))"

text \<open>The loop over the bits of the prefix, from the most significant one; \<open>replica\<close> has all of them toggled.\<close>

fun neighbour_loop ::
    "BuildTree \<Rightarrow> nat \<Rightarrow> cint list \<Rightarrow> OverlayID \<Rightarrow> (OverlayID, HostAddress) table \<Rightarrow>
     (OverlayID \<times> (OverlayID, HostAddress) table) option" where
  "neighbour_loop t i [] replica rt = Some (replica, rt)"
| "neighbour_loop t i (j # js) replica rt =
     (let me = idArray t ! i; position = MAX_LENGTH me - j - 1 in
      Option.bind (ToggleBitAtPosition me position) (\<lambda>nbrPattern.
      Option.bind (ToggleBitAtPosition replica position) (\<lambda>replica.
      Option.bind (add_neighbour t i nbrPattern rt) (\<lambda>rt.
      neighbour_loop t i js replica rt))))"

definition routing_table_of :: "BuildTree \<Rightarrow> nat \<Rightarrow> (OverlayID, HostAddress) table option" where
  "routing_table_of t i =
     (let me = idArray t ! i in
      Option.bind (neighbour_loop t i (map of_nat [0..<nat (sint (prefix_length me))]) me table_empty) (\<lambda>(replica, rt).
      add_neighbour t i replica rt))"

section \<open>\<^verbatim>\<open>execute\<close>\<close>

text \<open>
  The first line is the number of hosts; without one the height is not a number. A line behind the end of
  the file is empty.
\<close>

definition execute :: "nat \<Rightarrow> cstring list \<Rightarrow> BuildTree option" where
  "execute K lines =
     (let size = atoi (case lines of [] \<Rightarrow> [] | line # _ \<Rightarrow> takeWhile (\<lambda>c. c \<noteq> 0) line);
          n = nat (sint size);
          height = ceil_log2 n;
          nodesAtMaxHeight = 2 * int n - 2 ^ height;
          nodesAtPrevLevel = int n - nodesAtMaxHeight;
          startingNodeAtPrevLevel = (if height = 0 then 0 else 2 ^ (height - 1) - nodesAtPrevLevel);
          t = \<lparr>treeSize = size, idArray = [], hAddArray = [], aliasArray = [], rtArray = [], hosts = table_empty,
               max_height = height\<rparr> in
      if n = 0 then None else
      Option.bind (fill_loop K height nodesAtMaxHeight
          (map (\<lambda>i. (i, if Suc i < length lines then lines ! Suc i else [])) [0..<n]) startingNodeAtPrevLevel t) (\<lambda>t.
      map_option (\<lambda>rts. t\<lparr>rtArray := rts\<rparr>) (those (map (routing_table_of t) [0..<n]))))"

end
