(* ===== verification/Overlay_Tree.thy ===== *)
theory Overlay_Tree
  imports Build_Tree
begin

text \<open>
  The overlay \<^verbatim>\<open>BuildTree\<close> constructs is correct: the ids cover every pattern exactly once, and
  the routing tables let greedy routing make progress towards the peer that covers the target.
\<close>

section \<open>The leaves\<close>

lemma ceil_log2_bounds: "2 \<le> n \<Longrightarrow> 0 < ceil_log2 n \<and> 2 ^ (ceil_log2 n - 1) < n \<and> n \<le> 2 ^ ceil_log2 n"
proof (induction n rule: less_induct)
  case (less n)
  let ?m = "(n + 1) div 2"
  have c: "ceil_log2 n = Suc (ceil_log2 ?m)" using less.prems by (subst ceil_log2.simps) simp
  show ?case
  proof (cases "n = 2")
    case True
    then have "ceil_log2 ?m = 0" by (subst ceil_log2.simps) simp
    with c True show ?thesis by simp
  next
    case False
    with less have IH: "0 < ceil_log2 ?m" "2 ^ (ceil_log2 ?m - 1) < ?m" "?m \<le> 2 ^ ceil_log2 ?m" by simp_all
    moreover have "(2::nat) ^ ceil_log2 ?m = 2 * 2 ^ (ceil_log2 ?m - 1)"
      using IH(1) by (metis Suc_pred' power_Suc)
    ultimately have "2 ^ ceil_log2 ?m < n" "n \<le> 2 * 2 ^ ceil_log2 ?m" by linarith+
    then show ?thesis by (simp add: c)
  qed
qed

text \<open>The length and the value of the prefix of peer \<open>i\<close> of \<open>n\<close>.\<close>

definition lowest :: "nat \<Rightarrow> nat" where
  "lowest n = 2 * n - 2 ^ ceil_log2 n"

definition leaf_len :: "nat \<Rightarrow> nat \<Rightarrow> nat" where
  "leaf_len n i = (if i < lowest n then ceil_log2 n else ceil_log2 n - 1)"

definition leaf_value :: "nat \<Rightarrow> nat \<Rightarrow> nat" where
  "leaf_value n i = (if i < lowest n then i else i - lowest n + lowest n div 2)"

definition leaf_covers :: "nat \<Rightarrow> nat \<Rightarrow> nat \<Rightarrow> nat \<Rightarrow> bool" where
  "leaf_covers K n i w \<longleftrightarrow> w div 2 ^ (K - leaf_len n i) = leaf_value n i"

lemma leaf_bounds:
  assumes "2 \<le> n"
  shows "0 < ceil_log2 n" "2 ^ (ceil_log2 n - 1) < n" "n \<le> 2 ^ ceil_log2 n"
    "2 ^ ceil_log2 n = 2 * (2 ^ (ceil_log2 n - 1) :: nat)"
  using ceil_log2_bounds[OF assms] by (auto simp flip: power_Suc)

lemma lowest_half:
  assumes "2 \<le> n"
  shows "lowest n = 2 * (lowest n div 2)" "lowest n div 2 = n - 2 ^ (ceil_log2 n - 1)" "lowest n \<le> n"
  using leaf_bounds[OF assms] by (simp_all add: lowest_def)

lemma leaf_value_less:
  assumes "2 \<le> n" and "i < n"
  shows "leaf_value n i < 2 ^ leaf_len n i"
proof (cases "i < lowest n")
  case True
  then show ?thesis
    using leaf_bounds(3)[OF assms(1)] lowest_half(3)[OF assms(1)] by (simp add: leaf_value_def leaf_len_def)
next
  case False
  then have "i - lowest n + lowest n div 2 < 2 ^ (ceil_log2 n - 1)"
    using leaf_bounds(2)[OF assms(1)] lowest_half(1,2)[OF assms(1)] assms(2) by linarith
  with False show ?thesis by (simp add: leaf_value_def leaf_len_def)
qed

lemma leaf_len_le: "leaf_len n i \<le> ceil_log2 n"
  by (simp add: leaf_len_def)

text \<open>Two levels of a binary tree: what the leaves of each level cover.\<close>

lemma covers_low: "i < lowest n \<Longrightarrow> leaf_covers K n i w \<longleftrightarrow> w div 2 ^ (K - ceil_log2 n) = i"
  by (simp add: leaf_covers_def leaf_len_def leaf_value_def)

lemma covers_high:
  assumes "2 \<le> n" and "ceil_log2 n \<le> K" and "\<not> i < lowest n"
  shows "leaf_covers K n i w \<longleftrightarrow> w div 2 ^ (K - ceil_log2 n) div 2 = i - lowest n + lowest n div 2"
proof -
  have "K - (ceil_log2 n - 1) = Suc (K - ceil_log2 n)" using leaf_bounds(1)[OF assms(1)] assms(2) by simp
  then have "w div 2 ^ (K - (ceil_log2 n - 1)) = w div 2 ^ (K - ceil_log2 n) div 2"
    using div_mult2_eq[of w "2 ^ (K - ceil_log2 n)" 2] by (simp only: power_Suc2)
  then show ?thesis using assms(3) by (simp add: leaf_covers_def leaf_len_def leaf_value_def)
qed

lemma ex_leaf:
  assumes "2 \<le> n" and "ceil_log2 n \<le> K" and "w < 2 ^ K"
  shows "\<exists>i<n. leaf_covers K n i w"
proof -
  let ?h = "ceil_log2 n" and ?q = "w div 2 ^ (K - ceil_log2 n)"
  have "w < 2 ^ ?h * 2 ^ (K - ?h)" using assms by (simp flip: power_add)
  then have q: "?q < 2 ^ ?h" by (rule less_mult_imp_div_less)
  show ?thesis
  proof (cases "?q < lowest n")
    case True
    with covers_low[OF True] lowest_half(3)[OF assms(1)] show ?thesis by (intro exI[of _ ?q]) auto
  next
    case False
    let ?i = "lowest n + (?q div 2 - lowest n div 2)"
    have "?q div 2 < 2 ^ (?h - 1)" using q leaf_bounds(4)[OF assms(1)] by linarith
    moreover have "lowest n div 2 \<le> ?q div 2" using False by (intro div_le_mono) simp
    ultimately have "?i < n" using leaf_bounds(2)[OF assms(1)] lowest_half(1,2)[OF assms(1)] by linarith
    moreover have "leaf_covers K n ?i w" using False covers_high[OF assms(1,2), of ?i w] by auto
    ultimately show ?thesis by blast
  qed
qed

lemma unique_leaf:
  assumes "2 \<le> n" and "ceil_log2 n \<le> K" and "leaf_covers K n i w" and "leaf_covers K n j w"
  shows "i = j"
proof -
  note low = covers_low[of _ n K w] and high = covers_high[OF assms(1,2), of _ w]
  have cross: False if "i < lowest n" "\<not> j < lowest n" "leaf_covers K n i w" "leaf_covers K n j w" for i j
    using that low[OF that(1)] high[OF that(2)] lowest_half(1)[OF assms(1)] by linarith
  show ?thesis
    using assms(3,4) low[of i] low[of j] high[of i] high[of j] cross[of i j] cross[of j i]
    by (cases "i < lowest n"; cases "j < lowest n") auto
qed


section \<open>The ids\<close>

definition leaf_id :: "nat \<Rightarrow> nat \<Rightarrow> nat \<Rightarrow> OverlayID" where
  "leaf_id K n i = OverlayID_new (of_nat (leaf_value n i * 2 ^ (K - leaf_len n i))) (of_nat (leaf_len n i)) (of_nat K)"

text \<open>The value of an id.\<close>

definition val :: "OverlayID \<Rightarrow> nat" where
  "val oid = unat (overlay_id oid)"

lemma small_power: "m \<le> 31 \<Longrightarrow> (2::nat) ^ m \<le> 2 ^ 31"
  by (rule power_increasing) simp_all

lemma leaf_value_shifted:
  assumes "2 \<le> n" and "ceil_log2 n \<le> K" and "i < n"
  shows "leaf_value n i * 2 ^ (K - leaf_len n i) < 2 ^ K"
proof -
  have "leaf_value n i * 2 ^ (K - leaf_len n i) < 2 ^ leaf_len n i * 2 ^ (K - leaf_len n i)"
    using leaf_value_less[OF assms(1,3)] by simp
  also have "\<dots> = 2 ^ K" using leaf_len_le[of n i] assms(2) by (simp flip: power_add)
  finally show ?thesis .
qed

lemma val_leaf:
  assumes "2 \<le> n" and "ceil_log2 n \<le> K" and "K \<le> 31" and "i < n"
  shows "val (leaf_id K n i) = leaf_value n i * 2 ^ (K - leaf_len n i)"
proof -
  have "leaf_value n i * 2 ^ (K - leaf_len n i) < 2 ^ 31"
    using leaf_value_shifted[OF assms(1,2,4)] small_power[OF assms(3)] by linarith
  then show ?thesis
    unfolding val_def leaf_id_def OverlayID_new_def OverlayID.select_convs unat_of_nat by simp
qed

lemma leaf_pattern:
  assumes "2 \<le> n" and "ceil_log2 n \<le> K" and "K \<le> 31" and "i < n"
  shows "scast (push_bit (K - leaf_len n i) (word_of_int (int (leaf_value n i)) :: cint)) =
    (of_nat (leaf_value n i * 2 ^ (K - leaf_len n i)) :: clong)"
proof -
  have "push_bit (K - leaf_len n i) (word_of_int (int (leaf_value n i)) :: cint) =
      of_nat (leaf_value n i * 2 ^ (K - leaf_len n i))"
    by (simp add: push_bit_eq_mult)
  moreover have "leaf_value n i * 2 ^ (K - leaf_len n i) < 2 ^ 31"
    using leaf_value_shifted[OF assms(1,2,4)] small_power[OF assms(3)] by linarith
  ultimately show ?thesis using scast_small[of "leaf_value n i * 2 ^ (K - leaf_len n i)"] by (simp only:)
qed

text \<open>What the loop over the lines fills in.\<close>

lemma fill_loop_ids:
  assumes "2 \<le> n" and "ceil_log2 n \<le> K" and "K \<le> 31" and "\<And>i. i < n \<Longrightarrow> parse_line (f i) = Some (ha i, al i)"
    and "k \<le> n"
  shows "fill_loop K (ceil_log2 n) (int (lowest n)) (map (\<lambda>i. (i, f i)) [k..<n])
      (int (k - lowest n + lowest n div 2)) t =
    Some (t\<lparr>idArray := idArray t @ map (leaf_id K n) [k..<n], hAddArray := hAddArray t @ map ha [k..<n],
      aliasArray := aliasArray t @ map al [k..<n],
      hosts := foldl (\<lambda>m i. snd (table_add oid_less (leaf_id K n i) (ha i) m)) (hosts t) [k..<n]\<rparr>)"
  using assms(5)
proof (induction "n - k" arbitrary: k t)
  case 0
  then show ?case by simp
next
  case (Suc d)
  then have k: "k < n" "d = n - Suc k" "Suc k \<le> n" by simp_all
  have v: "(if int k < int (lowest n) then int k else int (k - lowest n + lowest n div 2)) = int (leaf_value n k)"
    "(if int k < int (lowest n) then ceil_log2 n else ceil_log2 n - 1) = leaf_len n k"
    by (simp_all add: leaf_value_def leaf_len_def)
  have st: "(if int k < int (lowest n) then int (k - lowest n + lowest n div 2) else int (k - lowest n + lowest n div 2) + 1) =
      int (Suc k - lowest n + lowest n div 2)" by auto
  have len: "\<not> K < leaf_len n k" using leaf_len_le[of n k] assms(2) by simp
  note pat = leaf_pattern[OF assms(1-3) k(1)]
  show ?case
    unfolding upt_conv_Cons[OF k(1)] list.map fill_loop.simps assms(4)[OF k(1)] bind.bind_lunit Let_def split v st pat
    unfolding leaf_id_def[symmetric] using len Suc.hyps(1)[OF k(2,3)] by simp
qed


section \<open>Matching prefixes\<close>

lemma agree_div:
  fixes a b :: clong
  shows "(\<forall>i\<ge>d. bit a i = bit b i) \<longleftrightarrow> unat a div 2 ^ d = unat b div 2 ^ d"
proof -
  have u: "unat w div 2 ^ d = unat (drop_bit d w)" for w :: clong
    unfolding unat_drop_bit_eq by (rule drop_bit_eq_div[symmetric])
  have bits: "bit w i = bit (drop_bit d w) (i - d)" if "d \<le> i" for i and w :: clong
    using that by (simp add: bit_drop_bit_eq)
  show ?thesis
    unfolding u word_unat_eq_iff[symmetric]
  proof
    assume "\<forall>i\<ge>d. bit a i = bit b i"
    then show "drop_bit d a = drop_bit d b" by (intro bit_eqI) (simp add: bit_drop_bit_eq)
  next
    assume "drop_bit d a = drop_bit d b"
    then show "\<forall>i\<ge>d. bit a i = bit b i" by (simp add: bits)
  qed
qed

lemma length_takeWhile_ge: "m \<le> length xs \<Longrightarrow> m \<le> length (takeWhile P xs) \<longleftrightarrow> (\<forall>x\<in>set (take m xs). P x)"
proof (induction xs arbitrary: m)
  case (Cons x xs)
  then show ?case by (cases m) auto
qed simp

text \<open>An id of the overlay, or a target: \<open>K\<close> bits.\<close>

definition pattern :: "nat \<Rightarrow> OverlayID \<Rightarrow> bool" where
  "pattern K oid \<longleftrightarrow> sint (MAX_LENGTH oid) = int K \<and> fits K (overlay_id oid)"

lemma matched_ge:
  assumes "pattern K a" and "fits K (overlay_id b)" and "m < K"
  shows "int m \<le> matched a b \<longleftrightarrow> val a div 2 ^ (K - m) = val b div 2 ^ (K - m)"
proof -
  have "int m \<le> matched a b \<longleftrightarrow> m \<le> length (takeWhile (\<lambda>i. bit (overlay_id a) i = bit (overlay_id b) i) (rev [1..<K]))"
    using assms(1) by (simp add: matched_def common_prefix_def pattern_def)
  also have "\<dots> \<longleftrightarrow> (\<forall>i\<in>set (take m (rev [1..<K])). bit (overlay_id a) i = bit (overlay_id b) i)"
    using assms(3) by (intro length_takeWhile_ge) simp
  also have "set (take m (rev [1..<K])) = {K - m..<K}" using assms(3) by (auto simp: take_rev)
  also have "(\<forall>i\<in>{K - m..<K}. bit (overlay_id a) i = bit (overlay_id b) i) \<longleftrightarrow>
      (\<forall>i\<ge>K - m. bit (overlay_id a) i = bit (overlay_id b) i)"
    using assms(1,2) by (auto simp: pattern_def fits_def not_less)
  finally show ?thesis by (simp add: agree_div val_def)
qed

lemma val_less: "fits K (overlay_id a) \<Longrightarrow> val a < 2 ^ K"
  by (simp add: val_def fits_iff_unat)

text \<open>Toggling a bit changes the pattern from that bit on downwards.\<close>

lemma toggle_div:
  assumes "pattern K a" and "b < K" and "K \<le> 31"
  shows "\<exists>a'. ToggleBitAtPosition a (of_nat b) = Some a' \<and> pattern K a' \<and>
    val a' div 2 ^ Suc b = val a div 2 ^ Suc b \<and> val a' div 2 ^ b \<noteq> val a div 2 ^ b"
proof -
  have b: "sint (of_nat b :: cint) = int b" "unat (of_nat b :: cint) = b"
    using assms(2,3) by (simp_all add: signed_of_nat signed_take_bit_int_eq_self unat_of_nat)
  let ?x = "scast (2 ^ b :: cint) :: clong"
  have bits: "bit ?x i \<longleftrightarrow> i = b" for i
    using assms(2,3) bit_imp_le_length[of ?x i] by (auto simp: bit_signed_iff min_def bit_exp_iff)
  let ?a = "a\<lparr>overlay_id := overlay_id a XOR ?x\<rparr>"
  have "ToggleBitAtPosition a (of_nat b) = Some ?a" using b assms(2,3) by (simp add: ToggleBitAtPosition_def)
  moreover have "pattern K ?a" using assms(1,2) by (auto simp: pattern_def fits_def bit_xor_iff bits)
  moreover have "val ?a div 2 ^ Suc b = val a div 2 ^ Suc b"
    using agree_div[of "Suc b" "overlay_id a XOR ?x" "overlay_id a"]
    by (auto simp: val_def bit_xor_iff bits simp del: power_Suc)
  moreover have "val ?a div 2 ^ b \<noteq> val a div 2 ^ b"
    by (auto simp: val_def agree_div[symmetric] bit_xor_iff bits)
  ultimately show ?thesis by blast
qed

text \<open>A node of the tree has two children.\<close>

lemma other_child:
  fixes x y z :: nat
  assumes "x div 2 ^ Suc b = z div 2 ^ Suc b" and "y div 2 ^ Suc b = z div 2 ^ Suc b"
    and "x div 2 ^ b \<noteq> z div 2 ^ b" and "y div 2 ^ b \<noteq> z div 2 ^ b"
  shows "x div 2 ^ b = y div 2 ^ b"
proof -
  have h: "w div 2 ^ Suc b = w div 2 ^ b div 2" for w :: nat
    using div_mult2_eq[of w "2 ^ b" 2] by (simp only: power_Suc2)
  show ?thesis using assms unfolding h by linarith
qed

lemma div_coarser:
  fixes x y :: nat
  assumes "x div 2 ^ c = y div 2 ^ c" and "c \<le> d"
  shows "x div 2 ^ d = y div 2 ^ d"
proof -
  have "w div 2 ^ d = w div 2 ^ c div 2 ^ (d - c)" for w :: nat
    using div_mult2_eq[of w "2 ^ c" "2 ^ (d - c)"] assms(2) by (simp flip: power_add)
  with assms(1) show ?thesis by simp
qed


section \<open>Greedy routing makes progress\<close>

lemma leaf_pattern_ok:
  assumes "2 \<le> n" and "ceil_log2 n \<le> K" and "K \<le> 31" and "i < n"
  shows "pattern K (leaf_id K n i)"
proof -
  have "val (leaf_id K n i) < 2 ^ K"
    using val_leaf[OF assms] leaf_value_shifted[OF assms(1,2,4)] by simp
  then have "fits K (overlay_id (leaf_id K n i))" by (simp add: fits_iff_unat val_def)
  moreover have "sint (of_nat K :: cint) = int K"
    using assms(3) by (simp add: signed_of_nat signed_take_bit_int_eq_self)
  ultimately show ?thesis by (simp add: pattern_def leaf_id_def OverlayID_new_def)
qed

lemma covers_own:
  assumes "2 \<le> n" and "ceil_log2 n \<le> K" and "K \<le> 31" and "i < n"
  shows "leaf_covers K n i (val (leaf_id K n i))"
  using val_leaf[OF assms] by (simp add: leaf_covers_def)

text \<open>Ids are distinct.\<close>

lemma leaf_id_inj:
  assumes "2 \<le> n" and "ceil_log2 n \<le> K" and "K \<le> 31" and "i < n" and "j < n"
    and "overlay_id (leaf_id K n i) = overlay_id (leaf_id K n j)"
  shows "i = j"
  using unique_leaf[OF assms(1,2)] covers_own[OF assms(1-3)] assms(4-6) by (metis val_def)

text \<open>
  The highest bit in which a target differs from a peer that does not cover it is in the prefix of the peer; the
  peer closest to the pattern with this bit toggled is closer to the target.
\<close>

definition best_for :: "nat \<Rightarrow> nat \<Rightarrow> OverlayID \<Rightarrow> nat \<Rightarrow> bool" where
  "best_for K n p k \<longleftrightarrow> k < n \<and> (\<forall>l<n. matched p (leaf_id K n l) \<le> matched p (leaf_id K n k))"

lemma progress:
  assumes n: "2 \<le> n" and h: "ceil_log2 n < K" and K: "K \<le> 31" and i: "i < n"
    and t: "pattern K t" and nc: "\<not> leaf_covers K n i (val t)"
  shows "\<exists>b<K. K - leaf_len n i \<le> b \<and> (\<forall>p k. pattern K p \<and>
    val p div 2 ^ Suc b = val (leaf_id K n i) div 2 ^ Suc b \<and> val p div 2 ^ b \<noteq> val (leaf_id K n i) div 2 ^ b \<and>
    best_for K n p k \<longrightarrow> k \<noteq> i \<and> matched t (leaf_id K n i) < matched t (leaf_id K n k))"
proof -
  let ?id = "leaf_id K n" and ?c = "K - leaf_len n i"
  have hK: "ceil_log2 n \<le> K" using h by simp
  note pat = leaf_pattern_ok[OF n hK K] and own = covers_own[OF n hK K]
  have fit: "fits K (overlay_id (?id l))" if "l < n" for l using pat[OF that] by (simp add: pattern_def)
  have less: "val t < 2 ^ K" "val (?id i) < 2 ^ K"
    using val_less t fit[OF i] by (auto simp: pattern_def)
  have c: "val t div 2 ^ ?c \<noteq> val (?id i) div 2 ^ ?c"
    using nc own[OF i] by (simp add: leaf_covers_def)
  define b where "b = (GREATEST b. b < K \<and> val t div 2 ^ b \<noteq> val (?id i) div 2 ^ b)"
  have lp: "0 < leaf_len n i"
    using c less by (intro gr0I) simp
  then have cK: "?c < K" using h by simp
  have b: "b < K \<and> val t div 2 ^ b \<noteq> val (?id i) div 2 ^ b"
    unfolding b_def by (rule GreatestI_nat[of _ ?c K]) (use c cK in auto)
  have cb: "?c \<le> b"
    unfolding b_def by (rule Greatest_le_nat[of _ ?c K]) (use c cK in auto)
  have above: "val t div 2 ^ Suc b = val (?id i) div 2 ^ Suc b"
  proof (rule ccontr)
    assume d: "val t div 2 ^ Suc b \<noteq> val (?id i) div 2 ^ Suc b"
    then have "Suc b < K" using b less by (cases "Suc b = K") auto
    with d have "Suc b \<le> b" unfolding b_def by (intro Greatest_le_nat[where b = K]) auto
    then show False by simp
  qed
  have b0: "0 < b" using cb leaf_len_le[of n i] h by linarith
  have "k \<noteq> i \<and> matched t (?id i) < matched t (?id k)"
    if p: "pattern K p" "val p div 2 ^ Suc b = val (?id i) div 2 ^ Suc b" "val p div 2 ^ b \<noteq> val (?id i) div 2 ^ b"
      and k: "best_for K n p k" for p k
  proof -
    have pt: "val p div 2 ^ b = val t div 2 ^ b" using other_child[OF p(2) above p(3)] b by simp
    have kn: "k < n" using k by (simp add: best_for_def)
    obtain o' where o: "o' < n" "leaf_covers K n o' (val p)"
      using ex_leaf[OF n hK, of "val p"] val_less p(1) by (auto simp: pattern_def)
    have same: "val p div 2 ^ (K - leaf_len n o') = val (?id o') div 2 ^ (K - leaf_len n o')"
      using o own by (simp add: leaf_covers_def)
    have "K - leaf_len n o' \<le> b"
    proof (rule ccontr)
      assume "\<not> K - leaf_len n o' \<le> b"
      then have "val p div 2 ^ (K - leaf_len n o') = val (?id i) div 2 ^ (K - leaf_len n o')"
        by (intro div_coarser[OF p(2)]) simp
      then have "leaf_covers K n o' (val (?id i))" using o(2) by (simp add: leaf_covers_def)
      then have "o' = i" by (rule unique_leaf[OF n hK _ own[OF i]])
      with \<open>\<not> K - leaf_len n o' \<le> b\<close> cb show False by simp
    qed
    then have "val p div 2 ^ b = val (?id o') div 2 ^ b" using same by (rule div_coarser[rotated])
    then have "int (K - b) \<le> matched p (?id o')" using matched_ge[OF p(1) fit[OF o(1)], of "K - b"] b b0 by simp
    also have "\<dots> \<le> matched p (?id k)" using k o(1) by (simp add: best_for_def)
    finally have "val p div 2 ^ b = val (?id k) div 2 ^ b" using matched_ge[OF p(1) fit[OF kn], of "K - b"] b b0 by simp
    then have tk: "val t div 2 ^ b = val (?id k) div 2 ^ b" using pt by simp
    then have "int (K - b) \<le> matched t (?id k)" using matched_ge[OF t fit[OF kn], of "K - b"] b b0 by simp
    moreover have "\<not> int (K - b) \<le> matched t (?id i)" using matched_ge[OF t fit[OF i], of "K - b"] b b0 by simp
    ultimately show ?thesis using tk b by auto
  qed
  with b cb show ?thesis by blast
qed

section \<open>The search for a neighbour\<close>

lemma longest_loop_best:
  assumes "id_length_ok p"
  shows "\<exists>k. longest_loop p i ids (mx, b) = Some k \<and>
    (if \<forall>x\<in>set ids. matched p x \<le> mx then k = b
     else \<exists>j<length ids. k = i + j \<and> (\<forall>x\<in>set ids. matched p x \<le> matched p (ids ! j)))"
proof (induction ids arbitrary: i mx b)
  case (Cons x ids)
  note m = matched_eq[OF assms, of x]
  show ?case
  proof (cases "matched p x > mx")
    case True
    with Cons.IH[of "Suc i" "matched p x" i] m obtain k where
      k: "longest_loop p i (x # ids) (mx, b) = Some k"
        "if \<forall>y\<in>set ids. matched p y \<le> matched p x then k = i
         else \<exists>j<length ids. k = Suc i + j \<and> (\<forall>y\<in>set ids. matched p y \<le> matched p (ids ! j))" by auto
    have "\<exists>j<length (x # ids). k = i + j \<and> (\<forall>y\<in>set (x # ids). matched p y \<le> matched p ((x # ids) ! j))"
    proof (cases "\<forall>y\<in>set ids. matched p y \<le> matched p x")
      case True
      with k(2) show ?thesis by (intro exI[of _ 0]) simp
    next
      case False
      with k(2) obtain j where j: "j < length ids" "k = Suc i + j" "\<forall>y\<in>set ids. matched p y \<le> matched p (ids ! j)"
        by auto
      with False have "matched p x \<le> matched p (ids ! j)" by force
      with j show ?thesis by (intro exI[of _ "Suc j"]) simp
    qed
    moreover have "\<not> (\<forall>y\<in>set (x # ids). matched p y \<le> mx)" using True by simp
    ultimately show ?thesis using k(1) by auto
  next
    case False
    with Cons.IH[of "Suc i" mx b] m obtain k where
      k: "longest_loop p i (x # ids) (mx, b) = Some k"
        "if \<forall>y\<in>set ids. matched p y \<le> mx then k = b
         else \<exists>j<length ids. k = Suc i + j \<and> (\<forall>y\<in>set ids. matched p y \<le> matched p (ids ! j))" by auto
    show ?thesis
    proof (cases "\<forall>y\<in>set ids. matched p y \<le> mx")
      case True
      with k False show ?thesis by auto
    next
      case False': False
      with k(2) obtain j where j: "j < length ids" "k = Suc i + j" "\<forall>y\<in>set ids. matched p y \<le> matched p (ids ! j)"
        by auto
      with False' False have "matched p x \<le> matched p (ids ! j)" by force
      with j have "\<exists>j<length (x # ids). k = i + j \<and> (\<forall>y\<in>set (x # ids). matched p y \<le> matched p ((x # ids) ! j))"
        by (intro exI[of _ "Suc j"]) simp
      with k(1) False' show ?thesis by auto
    qed
  qed
qed simp

lemma pattern_length_ok: "pattern K p \<Longrightarrow> 0 < K \<Longrightarrow> K \<le> 31 \<Longrightarrow> id_length_ok p"
  by (simp add: pattern_def id_length_ok_def)

lemma closest_best:
  assumes "idArray t = map (leaf_id K n) [0..<n]" and "0 < n" and "pattern K p" and "0 < K" and "K \<le> 31"
  shows "\<exists>k. GetIndexOfLongestMatchedPrefix t p = Some k \<and> best_for K n p k"
proof -
  let ?ids = "map (leaf_id K n) [0..<n]"
  from longest_loop_best[OF pattern_length_ok[OF assms(3-5)], of 0 ?ids 0 0] obtain k where
    k: "longest_loop p 0 ?ids (0, 0) = Some k"
      "if \<forall>x\<in>set ?ids. matched p x \<le> 0 then k = 0
       else \<exists>j<length ?ids. k = 0 + j \<and> (\<forall>x\<in>set ?ids. matched p x \<le> matched p (?ids ! j))" by blast
  have "best_for K n p k"
  proof (cases "\<forall>x\<in>set ?ids. matched p x \<le> 0")
    case True
    with k(2) have "k = 0" by simp
    moreover have "matched p (leaf_id K n l) \<le> matched p (leaf_id K n 0)" if "l < n" for l
    proof -
      have "matched p (leaf_id K n l) \<le> 0" using True that by simp
      then show ?thesis using matched_nonneg[of p "leaf_id K n 0"] by (rule order_trans)
    qed
    ultimately show ?thesis using assms(2) by (simp add: best_for_def)
  next
    case False
    from k(2)[unfolded if_not_P[OF False]] show ?thesis by (auto simp: best_for_def)
  qed
  with k(1) assms(1) show ?thesis by (simp add: GetIndexOfLongestMatchedPrefix_def)
qed

section \<open>The tables\<close>

text \<open>A table of peers: each entry is one of the peers in \<open>A\<close>, with its host.\<close>

definition peers_table :: "nat \<Rightarrow> nat \<Rightarrow> (nat \<Rightarrow> HostAddress) \<Rightarrow> nat set \<Rightarrow> (OverlayID, HostAddress) table \<Rightarrow> bool" where
  "peers_table K n ha A rt \<longleftrightarrow> oid.wf_table rt \<and> set rt \<subseteq> (\<lambda>k. (leaf_id K n k, ha k)) ` A"

lemma peers_table_add:
  assumes n: "2 \<le> n" "ceil_log2 n \<le> K" "K \<le> 31" and rt: "peers_table K n ha A rt" and A: "A \<subseteq> {..<n}" and k: "k < n"
  shows "peers_table K n ha (insert k A) (snd (table_add oid_less (leaf_id K n k) (ha k) rt)) \<and>
    set (snd (table_add oid_less (leaf_id K n k) (ha k) rt)) = insert (leaf_id K n k, ha k) (set rt)"
proof (cases "map_find oid_less (leaf_id K n k) rt")
  case None
  then have "snd (table_add oid_less (leaf_id K n k) (ha k) rt) = map_insert oid_less (leaf_id K n k) (ha k) rt"
    by (simp add: table_add_def)
  with None rt show ?thesis by (auto simp: peers_table_def set_map_insert oid.wf_map_insert)
next
  case (Some v)
  then obtain k' where k': "(k', v) \<in> set rt" "overlay_id k' = overlay_id (leaf_id K n k)"
    using oid.lookup_Some_entry[of "leaf_id K n k" rt v] by (auto simp: table_lookup_def)
  then obtain j where j: "j \<in> A" "k' = leaf_id K n j" "v = ha j" using rt by (auto simp: peers_table_def)
  then have "j = k" using leaf_id_inj[OF n, of j k] A k k'(2) by auto
  with k'(1) j have "(leaf_id K n k, ha k) \<in> set rt" by simp
  moreover have "snd (table_add oid_less (leaf_id K n k) (ha k) rt) = rt" using Some by (simp add: table_add_def)
  ultimately show ?thesis using rt by (auto simp: peers_table_def)
qed

lemma hosts_table:
  assumes n: "2 \<le> n" "ceil_log2 n \<le> K" "K \<le> 31" and "m \<le> n"
  shows "peers_table K n ha {..<m} (foldl (\<lambda>t i. snd (table_add oid_less (leaf_id K n i) (ha i) t)) table_empty [0..<m]) \<and>
    set (foldl (\<lambda>t i. snd (table_add oid_less (leaf_id K n i) (ha i) t)) table_empty [0..<m]) =
      (\<lambda>k. (leaf_id K n k, ha k)) ` {..<m}"
  using assms(4)
proof (induction m)
  case 0
  then show ?case by (simp add: peers_table_def table_empty_def)
next
  case (Suc m)
  then have IH: "peers_table K n ha {..<m} (foldl (\<lambda>t i. snd (table_add oid_less (leaf_id K n i) (ha i) t)) table_empty [0..<m])"
    "set (foldl (\<lambda>t i. snd (table_add oid_less (leaf_id K n i) (ha i) t)) table_empty [0..<m]) =
      (\<lambda>k. (leaf_id K n k, ha k)) ` {..<m}" by auto
  have "{..<m} \<subseteq> {..<n}" "m < n" using Suc.prems by auto
  from peers_table_add[OF n IH(1) this] IH(2) show ?case by (simp add: lessThan_Suc)
qed

section \<open>The routing table of a peer\<close>

text \<open>The tree once all lines are read, with the hosts \<open>ha\<close>.\<close>

definition filled :: "nat \<Rightarrow> nat \<Rightarrow> (nat \<Rightarrow> HostAddress) \<Rightarrow> BuildTree \<Rightarrow> bool" where
  "filled K n ha t \<longleftrightarrow> idArray t = map (leaf_id K n) [0..<n] \<and> hAddArray t = map ha [0..<n] \<and>
     oid.wf_table (hosts t) \<and> (\<forall>k<n. (leaf_id K n k, ha k) \<in> set (hosts t))"

text \<open>The closest peer to a pattern is in the table of peer \<open>i\<close>, or is \<open>i\<close>.\<close>

definition known_best :: "nat \<Rightarrow> nat \<Rightarrow> (nat \<Rightarrow> HostAddress) \<Rightarrow> nat \<Rightarrow> OverlayID \<Rightarrow> (OverlayID, HostAddress) table \<Rightarrow> bool" where
  "known_best K n ha i p rt \<longleftrightarrow> (\<exists>k. best_for K n p k \<and> (k = i \<or> (leaf_id K n k, ha k) \<in> set rt))"

lemma known_best_mono: "known_best K n ha i p rt \<Longrightarrow> set rt \<subseteq> set rt' \<Longrightarrow> known_best K n ha i p rt'"
  by (auto simp: known_best_def)

lemma oid_eq_leaf:
  assumes "2 \<le> n" and "ceil_log2 n \<le> K" and "K \<le> 31" and "i < n" and "j < n"
  shows "oid_eq (leaf_id K n i) (leaf_id K n j) \<longleftrightarrow> i = j"
  using leaf_id_inj[OF assms] by (auto simp: oid_eq_def)

lemma add_neighbour_ok:
  assumes n: "2 \<le> n" "ceil_log2 n \<le> K" "K \<le> 31" and f: "filled K n ha t" and i: "i < n"
    and rt: "peers_table K n ha ({..<n} - {i}) rt" and p: "pattern K p"
  shows "\<exists>rt'. add_neighbour t i p rt = Some rt' \<and> peers_table K n ha ({..<n} - {i}) rt' \<and> set rt \<subseteq> set rt' \<and>
    known_best K n ha i p rt'"
proof -
  have "0 < K" using leaf_bounds(1)[OF n(1)] n(2) by simp
  with closest_best[of t K n p] f p n obtain k where
    k: "GetIndexOfLongestMatchedPrefix t p = Some k" "best_for K n p k" by (auto simp: filled_def)
  then have kn: "k < n" by (simp add: best_for_def)
  have ids: "idArray t ! l = leaf_id K n l" if "l < n" for l using f that by (simp add: filled_def)
  show ?thesis
  proof (cases "k = i")
    case True
    with k rt kn i ids oid_eq_leaf[OF n] show ?thesis by (auto simp: add_neighbour_def known_best_def)
  next
    case False
    have "table_lookup oid_less (leaf_id K n k) (hosts t) = Some (ha k)"
      using f kn by (intro oid.lookup_of_entry) (auto simp: filled_def)
    with False k(1) kn i ids oid_eq_leaf[OF n]
    have a: "add_neighbour t i p rt = Some (snd (table_add oid_less (leaf_id K n k) (ha k) rt))"
      by (simp add: add_neighbour_def)
    have "insert k ({..<n} - {i}) = {..<n} - {i}" using False kn by auto
    with peers_table_add[OF n rt _ kn] a k(2) show ?thesis by (auto simp: known_best_def)
  qed
qed

text \<open>The positions of the bits of the prefix.\<close>

lemma toggle_position:
  assumes "pattern K a" and "j < K" and "K \<le> 31"
  shows "MAX_LENGTH a - of_nat j - 1 = of_nat (K - 1 - j)"
proof -
  have "MAX_LENGTH a = of_int (sint (MAX_LENGTH a))" by simp
  also have "\<dots> = of_int (int K)" using assms(1) by (simp only: pattern_def)
  finally have m: "MAX_LENGTH a = of_int (int K)" .
  have "int (K - 1 - j) = int K - int j - 1" using assms(2) by simp
  then have "(of_int (int (K - 1 - j)) :: cint) = of_int (int K) - of_int (int j) - 1" by (simp only: of_int_diff of_int_1)
  with m show ?thesis by (simp only: of_int_of_nat_eq)
qed

lemma neighbour_loop_ok:
  assumes n: "2 \<le> n" "ceil_log2 n \<le> K" "K \<le> 31" and f: "filled K n ha t" and i: "i < n" and "L \<le> K"
    and "pattern K replica" and "peers_table K n ha ({..<n} - {i}) rt" and "j0 \<le> L"
  shows "\<exists>replica' rt'. neighbour_loop t i (map of_nat [j0..<L]) replica rt = Some (replica', rt') \<and> pattern K replica' \<and>
    peers_table K n ha ({..<n} - {i}) rt' \<and> set rt \<subseteq> set rt' \<and>
    (\<forall>j\<in>{j0..<L}. \<forall>p. ToggleBitAtPosition (leaf_id K n i) (of_nat (K - 1 - j)) = Some p \<longrightarrow> known_best K n ha i p rt')"
  using assms(7-9)
proof (induction "L - j0" arbitrary: j0 replica rt)
  case 0
  then show ?case by simp
next
  case (Suc d)
  note hK = n(2)
  have j: "j0 < L" "d = L - Suc j0" "Suc j0 \<le> L" using Suc.hyps(2) by auto
  then have jK: "j0 < K" "K - 1 - j0 < K" using assms(6) by auto
  have me: "idArray t ! i = leaf_id K n i" using f i by (simp add: filled_def)
  note pi = leaf_pattern_ok[OF n(1) hK n(3) i]
  note pos = toggle_position[OF pi jK(1) n(3)]
  obtain p where p: "ToggleBitAtPosition (leaf_id K n i) (of_nat (K - 1 - j0)) = Some p" "pattern K p"
    using toggle_div[OF pi jK(2) n(3)] by blast
  obtain r where r: "ToggleBitAtPosition replica (of_nat (K - 1 - j0)) = Some r" "pattern K r"
    using toggle_div[OF Suc.prems(1) jK(2) n(3)] by blast
  obtain rt1 where rt1: "add_neighbour t i p rt = Some rt1" "peers_table K n ha ({..<n} - {i}) rt1" "set rt \<subseteq> set rt1"
    "known_best K n ha i p rt1" using add_neighbour_ok[OF n(1) hK n(3) f i Suc.prems(2) p(2)] by blast
  from Suc.hyps(1)[OF j(2) r(2) rt1(2) j(3)] obtain replica' rt' where
    l: "neighbour_loop t i (map of_nat [Suc j0..<L]) r rt1 = Some (replica', rt')" "pattern K replica'"
      "peers_table K n ha ({..<n} - {i}) rt'" "set rt1 \<subseteq> set rt'"
      "\<forall>j\<in>{Suc j0..<L}. \<forall>p. ToggleBitAtPosition (leaf_id K n i) (of_nat (K - 1 - j)) = Some p \<longrightarrow> known_best K n ha i p rt'"
    by blast
  have "neighbour_loop t i (map of_nat [j0..<L]) replica rt = Some (replica', rt')"
    unfolding upt_conv_Cons[OF j(1)] list.map neighbour_loop.simps Let_def me pos p(1) r(1) rt1(1) bind.bind_lunit
    by (rule l(1))
  moreover have "known_best K n ha i p' rt'"
    if "j \<in> {j0..<L}" "ToggleBitAtPosition (leaf_id K n i) (of_nat (K - 1 - j)) = Some p'" for j p'
  proof (cases "j = j0")
    case True
    with that(2) p(1) have "p' = p" by simp
    with known_best_mono[OF rt1(4) l(4)] show ?thesis by simp
  next
    case False
    with that(1) have "j \<in> {Suc j0..<L}" by simp
    with l(5) that(2) show ?thesis by blast
  qed
  ultimately show ?case using l(2-4) rt1(3) by blast
qed

lemma routing_table_ok:
  assumes n: "2 \<le> n" "ceil_log2 n \<le> K" "K \<le> 31" and f: "filled K n ha t" and i: "i < n"
  shows "\<exists>rt. routing_table_of t i = Some rt \<and> peers_table K n ha ({..<n} - {i}) rt \<and>
    (\<forall>b<K. K - leaf_len n i \<le> b \<longrightarrow>
      (\<forall>p. ToggleBitAtPosition (leaf_id K n i) (of_nat b) = Some p \<longrightarrow> known_best K n ha i p rt))"
proof -
  note hK = n(2)
  have me: "idArray t ! i = leaf_id K n i" using f i by (simp add: filled_def)
  have len: "leaf_len n i \<le> K" using leaf_len_le[of n i] hK by simp
  then have "sint (of_nat (leaf_len n i) :: cint) = int (leaf_len n i)"
    using n(3) small_power[OF n(3)] by (simp add: signed_of_nat signed_take_bit_int_eq_self)
  then have pl: "nat (sint (prefix_length (leaf_id K n i))) = leaf_len n i" by (simp add: leaf_id_def OverlayID_new_def)
  note pi = leaf_pattern_ok[OF n(1) hK n(3) i]
  have e: "peers_table K n ha ({..<n} - {i}) table_empty" by (simp add: peers_table_def table_empty_def)
  from neighbour_loop_ok[OF n f i len pi e le0] obtain replica rt where
    l: "neighbour_loop t i (map of_nat [0..<leaf_len n i]) (leaf_id K n i) table_empty = Some (replica, rt)"
      "pattern K replica" "peers_table K n ha ({..<n} - {i}) rt"
      "\<forall>j\<in>{0..<leaf_len n i}. \<forall>p. ToggleBitAtPosition (leaf_id K n i) (of_nat (K - 1 - j)) = Some p \<longrightarrow>
        known_best K n ha i p rt" by blast
  from add_neighbour_ok[OF n(1) hK n(3) f i l(3,2)] obtain rt' where
    rt': "add_neighbour t i replica rt = Some rt'" "peers_table K n ha ({..<n} - {i}) rt'" "set rt \<subseteq> set rt'" by blast
  have "known_best K n ha i p rt'"
    if "b < K" "K - leaf_len n i \<le> b" "ToggleBitAtPosition (leaf_id K n i) (of_nat b) = Some p" for b p
  proof -
    have "K - 1 - b \<in> {0..<leaf_len n i}" "b = K - 1 - (K - 1 - b)" using that(1,2) len by auto
    with l(4) that(3) have "known_best K n ha i p rt" by metis
    then show ?thesis using rt'(3) by (rule known_best_mono)
  qed
  with rt' l(1) me pl show ?thesis by (auto simp: routing_table_of_def Let_def)
qed

section \<open>The whole construction\<close>

text \<open>A list of \<open>n\<close> hosts: the number, then a line for each.\<close>

definition host_list :: "nat \<Rightarrow> cstring list \<Rightarrow> bool" where
  "host_list n lines \<longleftrightarrow> n < length lines \<and> atoi (takeWhile (\<lambda>c. c \<noteq> 0) (lines ! 0)) = of_nat n \<and>
     (\<forall>i<n. parse_line (lines ! Suc i) \<noteq> None)"

text \<open>A target is covered by the id whose prefix it has.\<close>

definition covers :: "OverlayID \<Rightarrow> OverlayID \<Rightarrow> bool" where
  "covers oid target \<longleftrightarrow>
     (let d = nat (sint (MAX_LENGTH oid)) - nat (sint (prefix_length oid)) in
      drop_bit d (overlay_id target) = drop_bit d (overlay_id oid))"

definition host_of :: "cstring list \<Rightarrow> nat \<Rightarrow> HostAddress" where
  "host_of lines i = fst (the (parse_line (lines ! Suc i)))"

lemma small_nat: "m \<le> 31 \<Longrightarrow> sint (of_nat m :: cint) = int m"
  by (simp add: signed_of_nat signed_take_bit_int_eq_self)

lemma covers_leaf:
  assumes "2 \<le> n" and "ceil_log2 n \<le> K" and "K \<le> 31" and "i < n"
  shows "covers (leaf_id K n i) t \<longleftrightarrow> leaf_covers K n i (val t)"
proof -
  let ?d = "K - leaf_len n i"
  have "leaf_len n i \<le> 31" using leaf_len_le[of n i] assms(2,3) by simp
  then have "nat (sint (MAX_LENGTH (leaf_id K n i))) - nat (sint (prefix_length (leaf_id K n i))) = ?d"
    using small_nat assms(3) by (simp add: leaf_id_def OverlayID_new_def)
  moreover have "drop_bit ?d a = drop_bit ?d b \<longleftrightarrow> unat a div 2 ^ ?d = unat b div 2 ^ ?d" for a b :: clong
    unfolding word_unat_eq_iff unat_drop_bit_eq by (simp only: drop_bit_eq_div)
  ultimately have "covers (leaf_id K n i) t \<longleftrightarrow> val t div 2 ^ ?d = val (leaf_id K n i) div 2 ^ ?d"
    by (simp add: covers_def val_def Let_def)
  also have "val (leaf_id K n i) div 2 ^ ?d = leaf_value n i"
    using covers_own[OF assms] by (simp add: leaf_covers_def)
  finally show ?thesis by (simp add: leaf_covers_def)
qed

text \<open>The sizes of the two levels, as \<^verbatim>\<open>execute\<close> computes them.\<close>

lemma level_sizes:
  assumes "2 \<le> n"
  shows "2 * int n - 2 ^ ceil_log2 n = int (lowest n)"
    "2 ^ (ceil_log2 n - 1) - (int n - int (lowest n)) = int (lowest n div 2)"
proof -
  have "2 ^ ceil_log2 n \<le> 2 * n" using leaf_bounds(2,4)[OF assms] by linarith
  then have l: "int (lowest n) = 2 * int n - int (2 ^ ceil_log2 n)" by (simp add: lowest_def of_nat_diff)
  moreover have "int (2 ^ ceil_log2 n) = 2 * int (2 ^ (ceil_log2 n - 1))" using leaf_bounds(4)[OF assms] by linarith
  moreover have "int (lowest n) = 2 * int (lowest n div 2)" using lowest_half(1)[OF assms] by linarith
  ultimately show "2 * int n - 2 ^ ceil_log2 n = int (lowest n)"
    "2 ^ (ceil_log2 n - 1) - (int n - int (lowest n)) = int (lowest n div 2)" by auto
qed

text \<open>The tree that results.\<close>

definition tree_ok :: "nat \<Rightarrow> nat \<Rightarrow> (nat \<Rightarrow> HostAddress) \<Rightarrow> BuildTree \<Rightarrow> bool" where
  "tree_ok K n ha T \<longleftrightarrow> filled K n ha T \<and> length (rtArray T) = n \<and>
     (\<forall>i<n. peers_table K n ha ({..<n} - {i}) (rtArray T ! i) \<and>
       (\<forall>b<K. K - leaf_len n i \<le> b \<longrightarrow>
         (\<forall>p. ToggleBitAtPosition (leaf_id K n i) (of_nat b) = Some p \<longrightarrow> known_best K n ha i p (rtArray T ! i))))"

definition alias_of :: "cstring list \<Rightarrow> nat \<Rightarrow> cstring" where
  "alias_of lines i = snd (the (parse_line (lines ! Suc i)))"

lemma execute_full:
  assumes n: "2 \<le> n" "ceil_log2 n \<le> K" "K \<le> 31" and "ceil_log2 n < 31" and l: "host_list n lines"
  shows "\<exists>T. execute K lines = Some T \<and> tree_ok K n (host_of lines) T \<and> treeSize T = of_nat n \<and>
    aliasArray T = map (alias_of lines) [0..<n]"
proof -
  let ?ha = "host_of lines" and ?al = "alias_of lines"
    and ?f = "\<lambda>i. if Suc i < length lines then lines ! Suc i else []"
  have "n \<le> 2 ^ ceil_log2 n" using leaf_bounds(3)[OF n(1)] .
  also have "(2::nat) ^ ceil_log2 n < 2 ^ 31" using assms(4) by (intro power_strict_increasing) simp_all
  finally have n31: "n < 2 ^ 31" .
  then have sz: "nat (sint (of_nat n :: cint)) = n" by (simp add: signed_of_nat signed_take_bit_int_eq_self)
  have a: "atoi (case lines of [] \<Rightarrow> [] | line # _ \<Rightarrow> takeWhile (\<lambda>c. c \<noteq> 0) line) = of_nat n"
    using l by (cases lines) (simp_all add: host_list_def)
  have f: "parse_line (?f i) = Some (?ha i, ?al i)" if "i < n" for i
    using l that by (auto simp: host_list_def host_of_def alias_of_def)
  let ?t = "\<lparr>treeSize = of_nat n, idArray = [], hAddArray = [], aliasArray = [], rtArray = [], hosts = table_empty,
    max_height = ceil_log2 n\<rparr>"
  from fill_loop_ids[OF n f le0, where t = ?t] obtain t where
    t: "fill_loop K (ceil_log2 n) (int (lowest n)) (map (\<lambda>i. (i, ?f i)) [0..<n]) (int (lowest n div 2)) ?t = Some t"
      "idArray t = map (leaf_id K n) [0..<n]" "hAddArray t = map ?ha [0..<n]" "aliasArray t = map ?al [0..<n]" "treeSize t = of_nat n"
      "hosts t = foldl (\<lambda>m i. snd (table_add oid_less (leaf_id K n i) (?ha i) m)) table_empty [0..<n]" by simp
  have fl: "filled K n ?ha t"
    using t hosts_table[OF n order_refl, of ?ha] by (auto simp: filled_def peers_table_def)
  have "\<exists>rt. routing_table_of t i = Some rt \<and> peers_table K n ?ha ({..<n} - {i}) rt \<and>
    (\<forall>b<K. K - leaf_len n i \<le> b \<longrightarrow>
      (\<forall>p. ToggleBitAtPosition (leaf_id K n i) (of_nat b) = Some p \<longrightarrow> known_best K n ?ha i p rt))" if "i < n" for i
    using routing_table_ok[OF n fl that] .
  then obtain rt where rt: "\<And>i. i < n \<Longrightarrow> routing_table_of t i = Some (rt i)"
    "\<And>i. i < n \<Longrightarrow> peers_table K n ?ha ({..<n} - {i}) (rt i)"
    "\<And>i b p. i < n \<Longrightarrow> b < K \<Longrightarrow> K - leaf_len n i \<le> b \<Longrightarrow>
      ToggleBitAtPosition (leaf_id K n i) (of_nat b) = Some p \<Longrightarrow> known_best K n ?ha i p (rt i)" by metis
  have those: "those (map (routing_table_of t) [0..<n]) = Some (map rt [0..<n])"
    using rt(1) by (intro those_map_Some) simp
  have "ceil_log2 n \<noteq> 0" "n \<noteq> 0" using leaf_bounds(1)[OF n(1)] n(1) by simp_all
  then have "execute K lines = Some (t\<lparr>rtArray := map rt [0..<n]\<rparr>)"
    unfolding execute_def Let_def a sz level_sizes[OF n(1)] using t(1) those by simp
  moreover have "tree_ok K n ?ha (t\<lparr>rtArray := map rt [0..<n]\<rparr>)"
    using fl rt by (simp add: tree_ok_def filled_def)
  ultimately show ?thesis using t(4,5) by auto
qed

lemma execute_ok:
  assumes "2 \<le> n" and "ceil_log2 n \<le> K" and "K \<le> 31" and "ceil_log2 n < 31" and "host_list n lines"
  shows "\<exists>T. execute K lines = Some T \<and> tree_ok K n (host_of lines) T"
  using execute_full[OF assms] by blast

lemma covers_tree:
  assumes "2 \<le> n" and "ceil_log2 n \<le> K" and "K \<le> 31" and "tree_ok K n ha T" and "i < n"
  shows "covers (idArray T ! i) t \<longleftrightarrow> leaf_covers K n i (val t)"
  using assms(4,5) covers_leaf[OF assms(1-3,5)] by (simp add: tree_ok_def filled_def)

text \<open>The best entry of a table that has a better one than \<open>m\<close>.\<close>

lemma best_entry_better:
  assumes "e \<in> set es" and "m < matched target (fst e)" and "0 \<le> m"
  shows "\<exists>k h. best_entry target es = Some (matched target k, k, h) \<and> (k, h) \<in> set es \<and> m < matched target k"
proof -
  let ?f = "\<lambda>e. matched target (fst e)" and ?mx = "Max (insert 0 ((\<lambda>e. matched target (fst e)) ` set es))"
  have "?f e \<le> ?mx" using assms(1) by (intro Max_ge) auto
  with assms(2,3) have mx: "m < ?mx" "?mx \<noteq> 0" by linarith+
  have "?mx \<in> insert 0 (?f ` set es)" by (intro Max_in) auto
  with mx(2) obtain e' where "e' \<in> set es" "?f e' = ?mx" by auto
  then have "find (\<lambda>e. ?f e = ?mx) es \<noteq> None" unfolding find_None_iff by blast
  then obtain k h where f: "find (\<lambda>e. ?f e = ?mx) es = Some (k, h)" by auto
  then have "matched target k = ?mx" "(k, h) \<in> set es" using find_SomeD[OF f] by simp_all
  with f mx show ?thesis by (simp add: best_entry_def Let_def)
qed

lemma tree_progress:
  assumes n: "2 \<le> n" "ceil_log2 n < K" "K \<le> 31" and T: "tree_ok K n ha T" and i: "i < n"
    and t: "pattern K t" and nc: "\<not> covers (idArray T ! i) t"
  shows "\<exists>k<n. best_entry t (rtArray T ! i) = Some (matched t (idArray T ! k), idArray T ! k, hAddArray T ! k) \<and>
    matched t (idArray T ! i) < matched t (idArray T ! k)"
proof -
  have hK: "ceil_log2 n \<le> K" using n(2) by simp
  have ids: "idArray T ! k = leaf_id K n k" "hAddArray T ! k = ha k" if "k < n" for k
    using T that by (simp_all add: tree_ok_def filled_def)
  have "\<not> leaf_covers K n i (val t)" using nc covers_tree[OF n(1) hK n(3) T i] by simp
  from progress[OF n i t this] obtain b where b: "b < K" "K - leaf_len n i \<le> b"
    "\<And>p k. pattern K p \<Longrightarrow> val p div 2 ^ Suc b = val (leaf_id K n i) div 2 ^ Suc b \<Longrightarrow>
      val p div 2 ^ b \<noteq> val (leaf_id K n i) div 2 ^ b \<Longrightarrow> best_for K n p k \<Longrightarrow>
      k \<noteq> i \<and> matched t (leaf_id K n i) < matched t (leaf_id K n k)" by blast
  obtain p where p: "ToggleBitAtPosition (leaf_id K n i) (of_nat b) = Some p" "pattern K p"
    "val p div 2 ^ Suc b = val (leaf_id K n i) div 2 ^ Suc b" "val p div 2 ^ b \<noteq> val (leaf_id K n i) div 2 ^ b"
    using toggle_div[OF leaf_pattern_ok[OF n(1) hK n(3) i] b(1) n(3)] by blast
  have "known_best K n ha i p (rtArray T ! i)" using T i b(1,2) p(1) by (simp add: tree_ok_def)
  then obtain k where k: "best_for K n p k" "k = i \<or> (leaf_id K n k, ha k) \<in> set (rtArray T ! i)"
    by (auto simp: known_best_def)
  with b(3)[OF p(2-4) k(1)] have "(leaf_id K n k, ha k) \<in> set (rtArray T ! i)"
    "matched t (leaf_id K n i) < matched t (leaf_id K n k)" by auto
  from best_entry_better[OF this(1), of "matched t (leaf_id K n i)" t] this(2) obtain o' h where
    e: "best_entry t (rtArray T ! i) = Some (matched t o', o', h)" "(o', h) \<in> set (rtArray T ! i)"
      "matched t (leaf_id K n i) < matched t o'" by auto
  have "peers_table K n ha ({..<n} - {i}) (rtArray T ! i)" using T i by (simp add: tree_ok_def)
  with e(2) obtain l where "l < n" "o' = leaf_id K n l" "h = ha l" by (auto simp: peers_table_def)
  with e ids i show ?thesis by auto
qed

section \<open>Properties of the overlay\<close>

text \<open>
  C10. For two or more hosts, a complete host list and a code of enough message bits, \<^verbatim>\<open>execute\<close> finishes;
  it gives each host one id, and every target of \<open>K\<close> bits has the prefix of exactly one of them.
\<close>

theorem overlay_partition:
  assumes "2 \<le> n" and "ceil_log2 n \<le> K" and "K \<le> 31" and "ceil_log2 n < 31" and "host_list n lines"
  shows "\<exists>T. execute K lines = Some T \<and> length (idArray T) = n \<and> length (rtArray T) = n \<and>
    hAddArray T = map (host_of lines) [0..<n] \<and>
    (\<forall>t. pattern K t \<longrightarrow> (\<exists>!i. i < n \<and> covers (idArray T ! i) t))"
proof -
  from execute_ok[OF assms] obtain T where T: "execute K lines = Some T" "tree_ok K n (host_of lines) T" by blast
  note cov = covers_tree[OF assms(1-3) T(2)]
  have "\<exists>!i. i < n \<and> covers (idArray T ! i) t" if "pattern K t" for t
  proof -
    have "val t < 2 ^ K" using that val_less by (simp add: pattern_def)
    from ex_leaf[OF assms(1,2) this] cov unique_leaf[OF assms(1,2)] show ?thesis by metis
  qed
  with T show ?thesis by (auto simp: tree_ok_def filled_def)
qed

text \<open>
  The routing tables \<^verbatim>\<open>execute\<close> builds are enough to route: for a target the id of a peer does not
  cover, the best entry of its table, which is what the search for the next hop finds in it, is another peer with
  its host, and shares a strictly longer prefix with the target.
\<close>

theorem routing_progress:
  assumes "2 \<le> n" and "ceil_log2 n < K" and "K \<le> 31" and "host_list n lines"
  shows "\<exists>T. execute K lines = Some T \<and>
    (\<forall>i<n. \<forall>t. pattern K t \<and> \<not> covers (idArray T ! i) t \<longrightarrow>
      (\<exists>k<n. best_entry t (rtArray T ! i) = Some (matched t (idArray T ! k), idArray T ! k, hAddArray T ! k) \<and>
        matched t (idArray T ! i) < matched t (idArray T ! k)))"
proof -
  have "ceil_log2 n \<le> K" "ceil_log2 n < 31" using assms(2,3) by simp_all
  from execute_ok[OF assms(1) this(1) assms(3) this(2) assms(4)] tree_progress[OF assms(1-3)] show ?thesis by blast
qed

text \<open>Following the best entries from peer to peer, for at most \<open>fuel\<close> hops, until the target is covered.\<close>

fun follow :: "BuildTree \<Rightarrow> OverlayID \<Rightarrow> nat \<Rightarrow> nat \<Rightarrow> nat option" where
  "follow T t fuel i =
     (if covers (idArray T ! i) t then Some i
      else case fuel of 0 \<Rightarrow> None
      | Suc fuel \<Rightarrow> (case best_entry t (rtArray T ! i) of None \<Rightarrow> None
          | Some (_, oid, _) \<Rightarrow>
              Option.bind (List.find (\<lambda>k. idArray T ! k = oid) [0..<length (idArray T)]) (follow T t fuel)))"

declare follow.simps [simp del]

lemma follow_reaches:
  assumes n: "2 \<le> n" "ceil_log2 n < K" "K \<le> 31" and T: "tree_ok K n ha T" and t: "pattern K t"
  shows "i < n \<Longrightarrow> int K \<le> matched t (idArray T ! i) + 1 + int fuel \<Longrightarrow>
    \<exists>k<n. follow T t fuel i = Some k \<and> covers (idArray T ! k) t"
proof (induction fuel arbitrary: i)
  case 0
  have hK: "ceil_log2 n \<le> K" using n(2) by simp
  show ?case
  proof (cases "covers (idArray T ! i) t")
    case True
    with 0 show ?thesis by (simp add: follow.simps)
  next
    case False
    from tree_progress[OF n T 0(1) t this] obtain k where "matched t (idArray T ! i) < matched t (idArray T ! k)" by blast
    moreover have "matched t (idArray T ! k) < int K"
      using GetMatchedPrefixLength_eq[of t K "idArray T ! k"] t n by (simp add: pattern_def matched_def)
    ultimately show ?thesis using 0(2) by linarith
  qed
next
  case (Suc fuel)
  show ?case
  proof (cases "covers (idArray T ! i) t")
    case True
    with Suc.prems show ?thesis by (subst follow.simps) auto
  next
    case False
    have hK: "ceil_log2 n \<le> K" using n(2) by simp
    from tree_progress[OF n T Suc.prems(1) t False] obtain k where
      k: "k < n" "best_entry t (rtArray T ! i) = Some (matched t (idArray T ! k), idArray T ! k, hAddArray T ! k)"
        "matched t (idArray T ! i) < matched t (idArray T ! k)" by blast
    have ids: "idArray T = map (leaf_id K n) [0..<n]" using T by (simp add: tree_ok_def filled_def)
    have "List.find (\<lambda>l. idArray T ! l = idArray T ! k) [0..<n] \<noteq> None" using k(1) by (auto simp: find_None_iff)
    then obtain l where l: "List.find (\<lambda>l. idArray T ! l = idArray T ! k) [0..<n] = Some l" by auto
    then have "l < n" "idArray T ! l = idArray T ! k" using find_SomeD[OF l] by auto
    with leaf_id_inj[OF n(1) hK n(3), of l k] k(1) ids have "l = k" by auto
    with l False k(2) ids have f: "follow T t (Suc fuel) i = follow T t fuel k" by (subst follow.simps) simp
    have "int K \<le> matched t (idArray T ! k) + 1 + int fuel" using k(3) Suc.prems(2) by linarith
    from Suc.IH[OF k(1) this] show ?thesis by (simp only: f)
  qed
qed

text \<open>
  C9. From every peer, following the best entries of the routing tables for fewer than \<open>K\<close> hops reaches the peer whose id
  covers the target.
\<close>

theorem routing_reaches:
  assumes "2 \<le> n" and "ceil_log2 n < K" and "K \<le> 31" and "host_list n lines"
  shows "\<exists>T. execute K lines = Some T \<and>
    (\<forall>i<n. \<forall>t. pattern K t \<longrightarrow> (\<exists>k<n. follow T t (K - 1) i = Some k \<and> covers (idArray T ! k) t))"
proof -
  have h: "ceil_log2 n \<le> K" "ceil_log2 n < 31" "0 < K" using assms(2,3) by simp_all
  from execute_ok[OF assms(1) h(1) assms(3) h(2) assms(4)] obtain T where
    T: "execute K lines = Some T" "tree_ok K n (host_of lines) T" by blast
  have "int K \<le> matched t (idArray T ! i) + 1 + int (K - 1)" for t i
    using matched_nonneg[of t "idArray T ! i"] h(3) by simp
  with T follow_reaches[OF assms(1-3) T(2)] show ?thesis by blast
qed

text \<open>A list of three hosts.\<close>

definition three_hosts :: "cstring list" where
  "three_hosts = [str ''3'', str ''a 5001 10.0.0.1 x'', str ''b 5002 10.0.0.2 y'', str ''c 5003 10.0.0.3 z'']"

lemma three_hosts_ok: "host_list 3 three_hosts" "ceil_log2 3 = 2"
  by code_simp+

lemma three_hosts_facts: "(2::nat) \<le> 3" "ceil_log2 3 < 12" "ceil_log2 3 \<le> 12" "(12::nat) \<le> 31" "ceil_log2 3 < 31"
  "host_list 3 three_hosts"
  by (simp_all add: three_hosts_ok)

definition example_target :: OverlayID where
  "example_target = OverlayID_new 0b110000000000 12 12"

lemma target_facts: "pattern 12 example_target"
  by (simp add: pattern_def example_target_def OverlayID_new_def fits_iff_unat)

lemma first_not_covering: "\<not> covers (idArray (the (execute 12 three_hosts)) ! 0) example_target"
  by code_simp

lemma overlay_partition_witness:
  "\<exists>T. execute 12 three_hosts = Some T \<and> length (rtArray T) = 3 \<and> (\<exists>!i. i < 3 \<and> covers (idArray T ! i) example_target)"
  using overlay_partition[OF three_hosts_facts(1,3,4,5,6)] target_facts by blast

lemma routing_progress_witness:
  "\<exists>T. execute 12 three_hosts = Some T \<and>
    (\<exists>k<3. best_entry example_target (rtArray T ! 0) =
      Some (matched example_target (idArray T ! k), idArray T ! k, hAddArray T ! k))"
proof -
  from routing_progress[OF three_hosts_facts(1,2,4,6)] obtain T where T: "execute 12 three_hosts = Some T"
    "\<forall>i<3. \<forall>t. pattern 12 t \<and> \<not> covers (idArray T ! i) t \<longrightarrow>
      (\<exists>k<3. best_entry t (rtArray T ! i) = Some (matched t (idArray T ! k), idArray T ! k, hAddArray T ! k) \<and>
        matched t (idArray T ! i) < matched t (idArray T ! k))" by blast
  have "\<not> covers (idArray T ! 0) example_target" using first_not_covering T(1) by simp
  with T(2) target_facts have "\<exists>k<3. best_entry example_target (rtArray T ! 0) =
      Some (matched example_target (idArray T ! k), idArray T ! k, hAddArray T ! k)" by force
  with T(1) show ?thesis by blast
qed

lemma routing_reaches_witness:
  "\<exists>T. execute 12 three_hosts = Some T \<and>
    (\<exists>k<3. follow T example_target 11 0 = Some k \<and> covers (idArray T ! k) example_target)"
  using routing_reaches[OF three_hosts_facts(1,2,4,6)] target_facts by force

end
