(* ===== verification/Dns_Message.thy ===== *)
theory Dns_Message
  imports Memory
begin

text \<open>
  The messages of the DNS gateway: \<^verbatim>\<open>src/shared/protocol_helper.hpp\<close>, \<^verbatim>\<open>src/dnsgw/dnsquery.hpp\<close>, the class
  \<^verbatim>\<open>dns_query_header\<close> of \<^verbatim>\<open>src/dnsgw/dnsspeaker.hpp\<close>, and the parser and composer of
  \<^verbatim>\<open>src/dnsgw/dnsspeaker.cpp\<close>. The bytes between \<^verbatim>\<open>buf\<close> and \<^verbatim>\<open>end\<close> are the list a parser takes and
  returns; a writer takes what has been written and the room that is left up to \<^verbatim>\<open>end\<close>.
\<close>

section \<open>Outcomes\<close>

text \<open>
  The exceptions: \<^verbatim>\<open>parse_error\<close>s by their texts, \<^verbatim>\<open>std::out_of_range\<close>, and the \<^verbatim>\<open>std::runtime_error\<close>s of a
  name without a suffix and of a duplicate id. A read or write outside of the array is \<open>Undefined\<close>.
\<close>

datatype exn =
  Unexpected_end | Invalid_label_length nat | Name_exceeds_255 | Invalid_name_length nat
| Invalid_string_format | Rdlength_too_long | Rdlength_beyond_rdata | Additional_data | Out_of_range | No_valid_suffix | Duplicate_sequence_number

datatype 'a outcome = Undefined | Throws exn | Returns 'a

primrec run_then :: "'a outcome \<Rightarrow> ('a \<Rightarrow> 'b outcome) \<Rightarrow> 'b outcome" where
  "run_then Undefined f = Undefined"
| "run_then (Throws e) f = Throws e"
| "run_then (Returns x) f = f x"

lemma run_then_cong [fundef_cong]:
  "m = m' \<Longrightarrow> (\<And>x. m' = Returns x \<Longrightarrow> f x = g x) \<Longrightarrow> run_then m f = run_then m' g"
  by (cases m') auto

lemma run_then_Returns: "run_then m f = Returns y \<longleftrightarrow> (\<exists>x. m = Returns x \<and> f x = Returns y)"
  by (cases m) auto

definition is_defined :: "'a outcome \<Rightarrow> bool" where
  "is_defined m \<longleftrightarrow> m \<noteq> Undefined"

lemma run_then_defined: "is_defined m \<Longrightarrow> (\<And>x. m = Returns x \<Longrightarrow> is_defined (f x)) \<Longrightarrow> is_defined (run_then m f)"
  by (cases m) (auto simp: is_defined_def)

definition throw_if :: "bool \<Rightarrow> exn \<Rightarrow> unit outcome" where
  "throw_if b e = (if b then Throws e else Returns ())"

lemma throw_if_simps [simp]: "throw_if True e = Throws e" "throw_if False e = Returns ()"
  by (simp_all add: throw_if_def)

section \<open>Parsing fields\<close>

type_synonym ushort = "16 word"
type_synonym bytes = "byte list"

definition next_byte :: "bytes \<Rightarrow> (byte \<times> bytes) outcome" where   \<comment> \<open>\<^verbatim>\<open>*(buf++)\<close>\<close>
  "next_byte buf = (case buf of [] \<Rightarrow> Undefined | b # buf \<Rightarrow> Returns (b, buf))"

definition next_bytes :: "nat \<Rightarrow> bytes \<Rightarrow> (bytes \<times> bytes) outcome" where   \<comment> \<open>\<^verbatim>\<open>memcpy\<close> from the buffer\<close>
  "next_bytes n buf = (if length buf < n then Undefined else Returns (take n buf, drop n buf))"

definition check_end :: "bytes \<Rightarrow> unit outcome" where
  "check_end buf = throw_if (buf = []) Unexpected_end"

definition check_end_len :: "nat \<Rightarrow> bytes \<Rightarrow> unit outcome" where
  "check_end_len len buf = throw_if (length buf < len) Unexpected_end"

text \<open>\<^verbatim>\<open>ntohs\<close> and \<^verbatim>\<open>ntohl\<close> of the bytes in memory: most significant byte first.\<close>

definition be_short :: "bytes \<Rightarrow> ushort" where
  "be_short bs = foldl (\<lambda>w b. push_bit 8 w OR ucast b) 0 bs"

definition be_ulong :: "bytes \<Rightarrow> cint" where
  "be_ulong bs = foldl (\<lambda>w b. push_bit 8 w OR ucast b) 0 bs"

definition short_be :: "ushort \<Rightarrow> bytes" where
  "short_be w = [ucast (drop_bit 8 w), ucast w]"

definition ulong_be :: "cint \<Rightarrow> bytes" where
  "ulong_be w = [ucast (drop_bit 24 w), ucast (drop_bit 16 w), ucast (drop_bit 8 w), ucast w]"

definition parse_short :: "bytes \<Rightarrow> (ushort \<times> bytes) outcome" where
  "parse_short buf =
     run_then (check_end_len 2 buf) (\<lambda>_. run_then (next_bytes 2 buf) (\<lambda>(bs, buf). Returns (be_short bs, buf)))"

definition parse_ulong :: "bytes \<Rightarrow> (cint \<times> bytes) outcome" where
  "parse_ulong buf =
     run_then (check_end_len 4 buf) (\<lambda>_. run_then (next_bytes 4 buf) (\<lambda>(bs, buf). Returns (be_ulong bs, buf)))"

section \<open>Parsing names\<close>

definition parse_label_len :: "bytes \<Rightarrow> (nat \<times> bytes) outcome" where
  "parse_label_len buf =
     run_then (check_end buf) (\<lambda>_. run_then (next_byte buf) (\<lambda>(len, buf).
     if unat len > 63 then Throws (Invalid_label_length (unat len)) else Returns (unat len, buf)))"

text \<open>The label and a dot are appended to the name.\<close>

fun parse_label :: "cstring \<Rightarrow> nat \<Rightarrow> bytes \<Rightarrow> (cstring \<times> bytes) outcome" where
  "parse_label name 0 buf = Returns (name @ [46], buf)"
| "parse_label name (Suc len) buf =
     run_then (check_end buf) (\<lambda>_. run_then (next_byte buf) (\<lambda>(c, buf). parse_label (name @ [c]) len buf))"

lemma parse_label_shrinks: "parse_label name len buf = Returns (name', buf') \<Longrightarrow> length buf = length buf' + len"
  by (induction len arbitrary: name buf)
     (auto simp: run_then_Returns next_byte_def split: list.splits)

lemma parse_label_len_shrinks: "parse_label_len buf = Returns (len, buf') \<Longrightarrow> length buf = Suc (length buf')"
  by (auto simp: parse_label_len_def run_then_Returns next_byte_def split: list.splits if_splits)

function parse_labels :: "cstring \<Rightarrow> nat \<Rightarrow> nat \<Rightarrow> bytes \<Rightarrow> (cstring \<times> bytes) outcome" where
  "parse_labels sname name_len label_len buf =
     (if label_len = 0 then Returns (sname, buf)
      else let name_len = name_len + label_len in
        if name_len > 255 then Throws Name_exceeds_255
        else run_then (parse_label sname label_len buf) (\<lambda>(sname, buf).
             run_then (parse_label_len buf) (\<lambda>(label_len, buf). parse_labels sname name_len label_len buf)))"
  by pat_completeness auto

termination parse_labels
  by (relation "measure (\<lambda>(_, _, _, buf). length buf)") (auto dest!: parse_label_shrinks parse_label_len_shrinks)

declare parse_labels.simps [simp del]

definition parse_name :: "bytes \<Rightarrow> (cstring \<times> bytes) outcome" where
  "parse_name buf = run_then (parse_label_len buf) (\<lambda>(label_len, buf). parse_labels [] 0 label_len buf)"

section \<open>Questions, resource records and queries\<close>

text \<open>\<^verbatim>\<open>qtype_t\<close> and \<^verbatim>\<open>qclass_t\<close> range over all 16-bit values; three of them are used by name.\<close>

abbreviation "T_A \<equiv> 1 :: ushort"
abbreviation "T_AAAA \<equiv> 28 :: ushort"
abbreviation "C_IN \<equiv> 1 :: ushort"

datatype opcode_t = O_QUERY | O_IQUERY | O_STATUS | O_RESERVED

datatype rcode_t = R_SUCCESS | R_FORMAT_ERROR | R_SERVER_FAILURE | R_NAME_ERROR | R_NOT_IMPLEMENTED | R_REFUSED | R_RESERVED

fun opcode_value :: "opcode_t \<Rightarrow> byte" where
  "opcode_value O_QUERY = 0" | "opcode_value O_IQUERY = 1" | "opcode_value O_STATUS = 2" | "opcode_value O_RESERVED = 3"

fun rcode_value :: "rcode_t \<Rightarrow> byte" where
  "rcode_value R_SUCCESS = 0" | "rcode_value R_FORMAT_ERROR = 1" | "rcode_value R_SERVER_FAILURE = 2"
| "rcode_value R_NAME_ERROR = 3" | "rcode_value R_NOT_IMPLEMENTED = 4" | "rcode_value R_REFUSED = 5"
| "rcode_value R_RESERVED = 6"

record dnsquestion =
  question_name :: cstring
  qtype :: ushort
  qclass :: ushort

record dnsrr =
  rr_name :: cstring
  rtype :: ushort
  rclass :: ushort
  ttl :: cint
  rdlength :: ushort
  rdata :: bytes

text \<open>Of the sender, an UDP endpoint or a TCP connection, its identity; of the metric, name and result.\<close>

datatype sender = Udp_endpoint nat | Tcp_connection nat

datatype result_t = SUCCESS | HA_CONNECTION_ERROR | HA_RETURNED_ERROR | TIMEOUT | INVALID_REQUEST | UNKNOWN

record dnsquery =
  query_id :: ushort
  query_rd :: bool
  query_rcode :: rcode_t
  query_sender :: sender
  questions :: "dnsquestion list"
  answers :: "dnsrr list"
  authorities :: "dnsrr list"
  additionals :: "dnsrr list"
  device_name :: cstring
  metric_result :: result_t

definition dnsquery_new :: "sender \<Rightarrow> dnsquery" where
  "dnsquery_new sndr = \<lparr>query_id = 0, query_rd = False, query_rcode = R_SUCCESS, query_sender = sndr, questions = [],
     answers = [], authorities = [], additionals = [], device_name = [], metric_result = UNKNOWN\<rparr>"

definition add_question :: "dnsquestion \<Rightarrow> dnsquery \<Rightarrow> dnsquery" where
  "add_question q query = query\<lparr>questions := questions query @ [q]\<rparr>"

definition add_answer :: "dnsrr \<Rightarrow> dnsquery \<Rightarrow> dnsquery" where
  "add_answer rr query = query\<lparr>answers := answers query @ [rr]\<rparr>"

definition add_authority :: "dnsrr \<Rightarrow> dnsquery \<Rightarrow> dnsquery" where
  "add_authority rr query = query\<lparr>authorities := authorities query @ [rr]\<rparr>"

section \<open>Parsing sections\<close>

definition parse_qtype :: "bytes \<Rightarrow> (ushort \<times> bytes) outcome" where
  "parse_qtype buf = parse_short buf"

definition parse_qclass :: "bytes \<Rightarrow> (ushort \<times> bytes) outcome" where
  "parse_qclass buf = parse_short buf"

definition parse_rr :: "bytes \<Rightarrow> (dnsrr \<times> bytes) outcome" where
  "parse_rr buf =
     run_then (parse_name buf) (\<lambda>(name, buf).
     run_then (parse_qtype buf) (\<lambda>(rtype, buf).
     run_then (parse_qclass buf) (\<lambda>(rclass, buf).
     run_then (parse_ulong buf) (\<lambda>(ttl, buf).
     run_then (parse_short buf) (\<lambda>(rdlength, buf).
     run_then (throw_if (unat rdlength > 1024) Rdlength_too_long) (\<lambda>_.
     run_then (check_end_len (unat rdlength) buf) (\<lambda>_.
     run_then (next_bytes (unat rdlength) buf) (\<lambda>(rdata, buf).
     Returns (\<lparr>rr_name = name, rtype = rtype, rclass = rclass, ttl = ttl, rdlength = rdlength, rdata = rdata\<rparr>, buf)))))))))"

definition parse_question :: "dnsquery \<Rightarrow> bytes \<Rightarrow> (dnsquery \<times> bytes) outcome" where
  "parse_question query buf =
     run_then (parse_name buf) (\<lambda>(name, buf).
     run_then (parse_qtype buf) (\<lambda>(qtype, buf).
     run_then (parse_qclass buf) (\<lambda>(qclass, buf).
     Returns (add_question \<lparr>question_name = name, qtype = qtype, qclass = qclass\<rparr> query, buf))))"

definition parse_answer :: "dnsquery \<Rightarrow> bytes \<Rightarrow> (dnsquery \<times> bytes) outcome" where
  "parse_answer query buf = run_then (parse_rr buf) (\<lambda>(rr, buf). Returns (add_answer rr query, buf))"

definition parse_authority :: "dnsquery \<Rightarrow> bytes \<Rightarrow> (dnsquery \<times> bytes) outcome" where
  "parse_authority query buf = run_then (parse_rr buf) (\<lambda>(rr, buf). Returns (add_authority rr query, buf))"

text \<open>Additional records are parsed and ignored.\<close>

definition parse_additional :: "dnsquery \<Rightarrow> bytes \<Rightarrow> (dnsquery \<times> bytes) outcome" where
  "parse_additional query buf = run_then (parse_rr buf) (\<lambda>(rr, buf). Returns (query, buf))"

primrec parse_times :: "nat \<Rightarrow> (dnsquery \<Rightarrow> bytes \<Rightarrow> (dnsquery \<times> bytes) outcome) \<Rightarrow> dnsquery \<Rightarrow> bytes \<Rightarrow> (dnsquery \<times> bytes) outcome" where
  "parse_times 0 p query buf = Returns (query, buf)"
| "parse_times (Suc n) p query buf = run_then (p query buf) (\<lambda>(query, buf). parse_times n p query buf)"

section \<open>\<^verbatim>\<open>dns_query_header\<close>\<close>

text \<open>The twelve bytes of the header. Bit fields are read and set in place.\<close>

definition HEADER_LENGTH :: nat where "HEADER_LENGTH = 12"

definition hdr_clear :: bytes where
  "hdr_clear = replicate HEADER_LENGTH 0"

definition get_bit :: "nat \<Rightarrow> byte \<Rightarrow> bytes \<Rightarrow> bool" where
  "get_bit i m h \<longleftrightarrow> h ! i AND m \<noteq> 0"

definition set_bit :: "nat \<Rightarrow> byte \<Rightarrow> bool \<Rightarrow> bytes \<Rightarrow> bytes" where
  "set_bit i m val h = (if val then h[i := h ! i OR m] else h[i := h ! i AND NOT m])"

definition read_short :: "nat \<Rightarrow> bytes \<Rightarrow> ushort" where
  "read_short offset h = be_short [h ! offset, h ! Suc offset]"

definition put_short :: "nat \<Rightarrow> ushort \<Rightarrow> bytes \<Rightarrow> bytes" where   \<comment> \<open>\<^verbatim>\<open>write_short\<close> of the header\<close>
  "put_short offset val h = h[offset := short_be val ! 0, Suc offset := short_be val ! 1]"

definition hdr_id :: "bytes \<Rightarrow> ushort" where "hdr_id h = read_short 0 h"
definition hdr_set_id :: "ushort \<Rightarrow> bytes \<Rightarrow> bytes" where "hdr_set_id i h = put_short 0 i h"
definition hdr_qr :: "bytes \<Rightarrow> bool" where "hdr_qr h = get_bit 2 0x80 h"
definition hdr_set_qr :: "bool \<Rightarrow> bytes \<Rightarrow> bytes" where "hdr_set_qr b h = set_bit 2 0x80 b h"

definition hdr_opcode :: "bytes \<Rightarrow> opcode_t" where
  "hdr_opcode h =
     (let val = drop_bit 3 (h ! 2 AND 0x78) in
      if val = 0 then O_QUERY else if val = 1 then O_IQUERY else if val = 2 then O_STATUS else O_RESERVED)"

definition hdr_set_opcode :: "opcode_t \<Rightarrow> bytes \<Rightarrow> bytes" where
  "hdr_set_opcode code h = h[2 := h ! 2 OR push_bit 3 (opcode_value code)]"

definition hdr_aa :: "bytes \<Rightarrow> bool" where "hdr_aa h = get_bit 2 0x04 h"
definition hdr_set_aa :: "bool \<Rightarrow> bytes \<Rightarrow> bytes" where "hdr_set_aa b h = set_bit 2 0x04 b h"
definition hdr_tc :: "bytes \<Rightarrow> bool" where "hdr_tc h = get_bit 2 0x02 h"
definition hdr_set_tc :: "bool \<Rightarrow> bytes \<Rightarrow> bytes" where "hdr_set_tc b h = set_bit 2 0x02 b h"
definition hdr_rd :: "bytes \<Rightarrow> bool" where "hdr_rd h = get_bit 2 0x01 h"
definition hdr_set_rd :: "bool \<Rightarrow> bytes \<Rightarrow> bytes" where "hdr_set_rd b h = set_bit 2 0x01 b h"
definition hdr_ra :: "bytes \<Rightarrow> bool" where "hdr_ra h = get_bit 3 0x80 h"
definition hdr_set_ra :: "bool \<Rightarrow> bytes \<Rightarrow> bytes" where "hdr_set_ra b h = set_bit 3 0x80 b h"
definition hdr_z :: "bytes \<Rightarrow> nat" where "hdr_z h = unat (drop_bit 6 (h ! 3 AND 0x40))"
definition hdr_ad_cd :: "bytes \<Rightarrow> nat" where "hdr_ad_cd h = unat (drop_bit 4 (h ! 3 AND 0x30))"

definition hdr_rcode :: "bytes \<Rightarrow> rcode_t" where
  "hdr_rcode h =
     (let val = h ! 3 AND 0x0F in
      if val = 0 then R_SUCCESS else if val = 1 then R_FORMAT_ERROR else if val = 2 then R_SERVER_FAILURE
      else if val = 3 then R_NAME_ERROR else if val = 4 then R_NOT_IMPLEMENTED else if val = 5 then R_REFUSED else R_RESERVED)"

definition hdr_set_rcode :: "rcode_t \<Rightarrow> bytes \<Rightarrow> bytes" where
  "hdr_set_rcode code h = h[3 := h ! 3 OR rcode_value code]"

definition hdr_qdcount :: "bytes \<Rightarrow> ushort" where "hdr_qdcount h = read_short 4 h"
definition hdr_set_qdcount :: "nat \<Rightarrow> bytes \<Rightarrow> bytes" where "hdr_set_qdcount n h = put_short 4 (of_nat n) h"
definition hdr_ancount :: "bytes \<Rightarrow> ushort" where "hdr_ancount h = read_short 6 h"
definition hdr_set_ancount :: "nat \<Rightarrow> bytes \<Rightarrow> bytes" where "hdr_set_ancount n h = put_short 6 (of_nat n) h"
definition hdr_nscount :: "bytes \<Rightarrow> ushort" where "hdr_nscount h = read_short 8 h"
definition hdr_set_nscount :: "nat \<Rightarrow> bytes \<Rightarrow> bytes" where "hdr_set_nscount n h = put_short 8 (of_nat n) h"
definition hdr_arcount :: "bytes \<Rightarrow> ushort" where "hdr_arcount h = read_short 10 h"
definition hdr_set_arcount :: "nat \<Rightarrow> bytes \<Rightarrow> bytes" where "hdr_set_arcount n h = put_short 10 (of_nat n) h"

section \<open>\<^verbatim>\<open>parse_dns_query\<close>\<close>

definition parse_dns_query :: "dnsquery \<Rightarrow> bytes \<Rightarrow> bytes \<Rightarrow> dnsquery outcome" where
  "parse_dns_query query header buf =
     (let query = query\<lparr>query_id := hdr_id header, query_rd := hdr_rd header\<rparr> in
      run_then (parse_times (unat (hdr_qdcount header)) parse_question query buf) (\<lambda>(query, buf).
      run_then (parse_times (unat (hdr_ancount header)) parse_answer query buf) (\<lambda>(query, buf).
      run_then (parse_times (unat (hdr_nscount header)) parse_authority query buf) (\<lambda>(query, buf).
      run_then (parse_times (unat (hdr_arcount header)) parse_additional query buf) (\<lambda>(query, buf).
      run_then (throw_if (buf \<noteq> []) Additional_data) (\<lambda>_. Returns query))))))"

section \<open>Writing\<close>

text \<open>What has been written, and the room left.\<close>

type_synonym writer = "bytes \<times> nat"

definition put_bytes :: "bytes \<Rightarrow> writer \<Rightarrow> writer outcome" where   \<comment> \<open>\<^verbatim>\<open>memcpy\<close> to the buffer\<close>
  "put_bytes bs w = (if snd w < length bs then Undefined else Returns (fst w @ bs, snd w - length bs))"

definition check_room :: "writer \<Rightarrow> unit outcome" where
  "check_room w = throw_if (snd w = 0) Unexpected_end"

definition check_room_len :: "nat \<Rightarrow> writer \<Rightarrow> unit outcome" where
  "check_room_len len w = throw_if (snd w < len) Unexpected_end"

definition write_short :: "ushort \<Rightarrow> writer \<Rightarrow> writer outcome" where
  "write_short val w = run_then (check_room_len 2 w) (\<lambda>_. put_bytes (short_be val) w)"

definition write_ulong :: "cint \<Rightarrow> writer \<Rightarrow> writer outcome" where
  "write_ulong val w = run_then (check_room_len 4 w) (\<lambda>_. put_bytes (ulong_be val) w)"

definition write_label_len :: "nat \<Rightarrow> writer \<Rightarrow> writer outcome" where
  "write_label_len len w =
     run_then (check_room w) (\<lambda>_. run_then (throw_if (len > 63) (Invalid_label_length len)) (\<lambda>_. put_bytes [of_nat len] w))"

definition write_label :: "cstring \<Rightarrow> writer \<Rightarrow> writer outcome" where
  "write_label label w =
     run_then (write_label_len (length label) w) (\<lambda>w.
     run_then (check_room_len (length label) w) (\<lambda>_. put_bytes label w))"

text \<open>\<^verbatim>\<open>boost::char_separator(".")\<close>: the parts between the dots, without the empty ones.\<close>

fun dot_split :: "cstring \<Rightarrow> cstring \<Rightarrow> cstring list" where
  "dot_split part [] = [part]"
| "dot_split part (c # s) = (if c = 46 then part # dot_split [] s else dot_split (part @ [c]) s)"

definition dot_tokens :: "cstring \<Rightarrow> cstring list" where
  "dot_tokens s = filter (\<lambda>t. t \<noteq> []) (dot_split [] s)"

primrec write_labels :: "cstring list \<Rightarrow> writer \<Rightarrow> writer outcome" where
  "write_labels [] w = Returns w"
| "write_labels (l # ls) w = run_then (write_label l w) (write_labels ls)"

definition write_name :: "cstring \<Rightarrow> writer \<Rightarrow> writer outcome" where
  "write_name name w =
     run_then (throw_if (length name > 255) (Invalid_name_length (length name))) (\<lambda>_.
     run_then (write_labels (dot_tokens name) w) (\<lambda>w.
     run_then (check_room w) (\<lambda>_. put_bytes [0] w)))"

definition write_question :: "dnsquestion \<Rightarrow> writer \<Rightarrow> writer outcome" where
  "write_question q w =
     run_then (write_name (question_name q) w) (\<lambda>w. run_then (write_short (qtype q) w) (write_short (qclass q)))"

definition write_rr :: "dnsrr \<Rightarrow> writer \<Rightarrow> writer outcome" where
  "write_rr rr w =
     run_then (write_name (rr_name rr) w) (\<lambda>w.
     run_then (write_short (rtype rr) w) (\<lambda>w.
     run_then (write_short (rclass rr) w) (\<lambda>w.
     run_then (write_ulong (ttl rr) w) (\<lambda>w.
     run_then (write_short (rdlength rr) w) (\<lambda>w.
     run_then (throw_if (unat (rdlength rr) > length (rdata rr)) Rdlength_beyond_rdata) (\<lambda>_.
     run_then (check_room_len (unat (rdlength rr)) w) (\<lambda>_. put_bytes (take (unat (rdlength rr)) (rdata rr)) w)))))))"

primrec write_all :: "('a \<Rightarrow> writer \<Rightarrow> writer outcome) \<Rightarrow> 'a list \<Rightarrow> writer \<Rightarrow> writer outcome" where
  "write_all f [] w = Returns w"
| "write_all f (x # xs) w = run_then (f x w) (write_all f xs)"

definition compose_dns_header :: "dnsquery \<Rightarrow> bytes" where
  "compose_dns_header query =
     (let h = hdr_clear; h = hdr_set_id (query_id query) h; h = hdr_set_qr True h; h = hdr_set_aa True h;
          h = hdr_set_rd (query_rd query) h; h = hdr_set_rcode (query_rcode query) h;
          h = hdr_set_qdcount (length (questions query)) h; h = hdr_set_ancount (length (answers query)) h;
          h = hdr_set_nscount (length (authorities query)) h
      in hdr_set_arcount (length (additionals query)) h)"

definition compose_dns_response :: "dnsquery \<Rightarrow> nat \<Rightarrow> bytes outcome" where
  "compose_dns_response query room =
     run_then (write_all write_question (questions query) ([], room)) (\<lambda>w.
     run_then (write_all write_rr (answers query) w) (\<lambda>w.
     run_then (write_all write_rr (authorities query) w) (\<lambda>w.
     run_then (write_all write_rr (additionals query) w) (\<lambda>w. Returns (fst w)))))"

end
