(* ===== verification/Dns_Roundtrip.thy ===== *)
theory Dns_Roundtrip
  imports Dns_Message
begin

text \<open>
  What the gateway writes it can read: the composer and the parser of DNS messages against the wire format of
  RFC 1035, as far as they implement it, and their safety on all inputs.
\<close>

section \<open>No access outside of a buffer\<close>

named_theorems defined_intros "outcomes that are not undefined"

lemma is_defined_if [defined_intros]: "(b \<Longrightarrow> is_defined m) \<Longrightarrow> (\<not> b \<Longrightarrow> is_defined m') \<Longrightarrow> is_defined (if b then m else m')"
  by simp

lemma is_defined_prod [defined_intros]: "(\<And>a b. p = (a, b) \<Longrightarrow> is_defined (f a b)) \<Longrightarrow> is_defined (case p of (a, b) \<Rightarrow> f a b)"
  by (cases p) simp

lemma defined_simple [defined_intros]:
  "is_defined (Throws e)" "is_defined (Returns x)" "is_defined (throw_if b e)" "is_defined (check_end buf)"
  "is_defined (check_end_len n buf)" "is_defined (check_room w)" "is_defined (check_room_len n w)"
  by (simp_all add: is_defined_def throw_if_def check_end_def check_end_len_def check_room_def check_room_len_def)

lemma next_defined [defined_intros]:
  "n \<le> length buf \<Longrightarrow> is_defined (next_bytes n buf)" "buf \<noteq> [] \<Longrightarrow> is_defined (next_byte buf)"
  "length bs \<le> snd w \<Longrightarrow> is_defined (put_bytes bs w)"
  by (auto simp: is_defined_def next_bytes_def next_byte_def put_bytes_def split: list.split)

lemma check_Returns [simp]:
  "throw_if b e = Returns u \<longleftrightarrow> \<not> b" "check_end buf = Returns u \<longleftrightarrow> buf \<noteq> []"
  "check_end_len n buf = Returns u \<longleftrightarrow> n \<le> length buf" "check_room w = Returns u \<longleftrightarrow> snd w \<noteq> 0"
  "check_room_len n w = Returns u \<longleftrightarrow> n \<le> snd w"
  by (auto simp: throw_if_def check_end_def check_end_len_def check_room_def check_room_len_def)

lemma parse_field_defined [defined_intros]:
  "is_defined (parse_short buf)" "is_defined (parse_ulong buf)" "is_defined (parse_qtype buf)"
  "is_defined (parse_qclass buf)" "is_defined (parse_label_len buf)"
  by (auto simp: parse_short_def parse_ulong_def parse_qtype_def parse_qclass_def parse_label_len_def
      intro!: run_then_defined defined_intros)

lemma parse_label_defined [defined_intros]: "is_defined (parse_label name len buf)"
  by (induction len arbitrary: name buf)
     (auto intro!: run_then_defined defined_intros)

lemma parse_labels_defined [defined_intros]: "is_defined (parse_labels sname name_len label_len buf)"
proof (induction sname name_len label_len buf rule: parse_labels.induct)
  case (1 sname name_len label_len buf)
  then show ?case
    by (subst parse_labels.simps) (auto simp: Let_def intro!: run_then_defined defined_intros)
qed

lemma parse_name_defined [defined_intros]: "is_defined (parse_name buf)"
  by (auto simp: parse_name_def intro!: run_then_defined defined_intros)

lemma parse_section_defined [defined_intros]:
  "is_defined (parse_rr buf)" "is_defined (parse_question query buf)" "is_defined (parse_answer query buf)"
  "is_defined (parse_authority query buf)" "is_defined (parse_additional query buf)"
proof -
  show rr: "is_defined (parse_rr buf)" for buf
    by (auto simp: parse_rr_def intro!: run_then_defined defined_intros)
  show "is_defined (parse_question query buf)" "is_defined (parse_answer query buf)"
    "is_defined (parse_authority query buf)" "is_defined (parse_additional query buf)"
    by (auto simp: parse_question_def parse_answer_def parse_authority_def parse_additional_def
        intro!: run_then_defined defined_intros rr)
qed

lemma parse_times_defined: "(\<And>query buf. is_defined (p query buf)) \<Longrightarrow> is_defined (parse_times n p query buf)"
  by (induction n arbitrary: query buf) (auto intro!: run_then_defined defined_intros)

lemma parse_query_defined: "is_defined (parse_dns_query query header buf)"
  by (auto simp: parse_dns_query_def Let_def intro!: run_then_defined parse_times_defined defined_intros)

lemma put_bytes_Returns: "put_bytes bs w = Returns w' \<longleftrightarrow> length bs \<le> snd w \<and> w' = (fst w @ bs, snd w - length bs)"
  by (auto simp: put_bytes_def)

lemma next_bytes_app: "length bs = n \<Longrightarrow> next_bytes n (bs @ rest) = Returns (bs, rest)"
  by (auto simp: next_bytes_def)

lemma check_end_app: "length bs = n \<Longrightarrow> check_end_len n (bs @ rest) = Returns ()"
  by simp

section \<open>Fields and their wire format\<close>

text \<open>A writer that appends the encoding of a value or throws, and a parser of this encoding.\<close>

locale dns_field =
  fixes wr :: "'a \<Rightarrow> writer \<Rightarrow> writer outcome"
    and ps :: "bytes \<Rightarrow> ('a \<times> bytes) outcome"
    and enc :: "'a \<Rightarrow> bytes"
    and ok :: "'a \<Rightarrow> bool"
  assumes wr_defined: "is_defined (wr x w)"
    and wr_enc: "wr x w = Returns w' \<Longrightarrow> w' = (fst w @ enc x, snd w - length (enc x)) \<and> length (enc x) \<le> snd w"
    and wr_fits: "ok x \<Longrightarrow> length (enc x) \<le> snd w \<Longrightarrow> \<exists>w'. wr x w = Returns w'"
    and ps_enc: "ok x \<Longrightarrow> ps (enc x @ rest) = Returns (x, rest)"
begin

lemma wr_ok: "ok x \<Longrightarrow> length (enc x) \<le> snd w \<Longrightarrow> wr x w = Returns (fst w @ enc x, snd w - length (enc x))"
  using wr_fits[of x w] wr_enc[of x w] by auto

lemma write_all_defined: "is_defined (write_all wr xs w)"
  by (induction xs arbitrary: w) (auto intro!: run_then_defined wr_defined defined_intros)

lemma write_all_enc:
  "write_all wr xs w = Returns w' \<Longrightarrow>
   w' = (fst w @ concat (map enc xs), snd w - length (concat (map enc xs))) \<and> length (concat (map enc xs)) \<le> snd w"
proof (induction xs arbitrary: w)
  case (Cons x xs)
  from Cons.prems obtain w1 where 1: "wr x w = Returns w1" "write_all wr xs w1 = Returns w'"
    by (auto simp: run_then_Returns)
  from wr_enc[OF 1(1)] Cons.IH[OF 1(2)] show ?case by auto
qed simp

lemma write_all_fits:
  "list_all ok xs \<Longrightarrow> length (concat (map enc xs)) \<le> snd w \<Longrightarrow>
   write_all wr xs w = Returns (fst w @ concat (map enc xs), snd w - length (concat (map enc xs)))"
  by (induction xs arbitrary: w) (auto simp: wr_ok)

text \<open>A section of a message: as many values as its count says, each added to the query.\<close>

lemma parse_times_enc:
  assumes "\<And>query buf. p query buf = run_then (ps buf) (\<lambda>(x, buf). Returns (add x query, buf))"
  shows "list_all ok xs \<Longrightarrow>
    parse_times (length xs) p query (concat (map enc xs) @ rest) = Returns (fold add xs query, rest)"
  by (induction xs arbitrary: query) (auto simp: assms ps_enc)

end

lemma be_short_be: "be_short (short_be w) = w"
proof -
  have "drop_bit 8 w = ucast (ucast (drop_bit 8 w) :: byte)"
    by (rule bit_word_eqI) (auto simp: bit_ucast_iff bit_drop_bit_eq dest: bit_imp_le_length)
  then have "be_short (short_be w) = push_bit 8 (drop_bit 8 w) OR ucast (ucast w :: byte)"
    by (simp add: be_short_def short_be_def)
  also have "\<dots> = w" by (simp add: join_low_byte or.commute)
  finally show ?thesis .
qed

lemma be_ulong_be: "be_ulong (ulong_be w) = w"
proof -
  have j: "push_bit 8 (drop_bit (n + 8) w) OR ucast (ucast (drop_bit n w) :: byte) = drop_bit n w" for n
    using join_low_byte[of "drop_bit n w"] by (simp add: or.commute add.commute)
  have "drop_bit 24 w = ucast (ucast (drop_bit 24 w) :: byte)"
    by (rule bit_word_eqI) (auto simp: bit_ucast_iff bit_drop_bit_eq dest: bit_imp_le_length)
  then show ?thesis using j[of 16] j[of 8] j[of 0] by (simp add: be_ulong_def ulong_be_def)
qed

lemma length_be [simp]: "length (short_be w) = 2" "length (ulong_be v) = 4"
  by (simp_all add: short_be_def ulong_be_def)

interpretation short_field: dns_field write_short parse_short short_be "\<lambda>_. True"
  by unfold_locales
     (auto simp: write_short_def parse_short_def be_short_be run_then_Returns put_bytes_Returns next_bytes_app check_end_app check_room_len_def put_bytes_def
       intro!: run_then_defined defined_intros)

interpretation ulong_field: dns_field write_ulong parse_ulong ulong_be "\<lambda>_. True"
  by unfold_locales
     (auto simp: write_ulong_def parse_ulong_def be_ulong_be run_then_Returns put_bytes_Returns next_bytes_app check_end_app check_room_len_def put_bytes_def
       intro!: run_then_defined defined_intros)

section \<open>Names\<close>

text \<open>A name is its labels, each with a dot; on the wire each has its length before it, and a zero ends the name.\<close>

definition labels_name :: "cstring list \<Rightarrow> cstring" where
  "labels_name ls = concat (map (\<lambda>l. l @ [46]) ls)"

definition labels_wire :: "cstring list \<Rightarrow> bytes" where
  "labels_wire ls = concat (map (\<lambda>l. of_nat (length l) # l) ls)"

definition name_wire :: "cstring \<Rightarrow> bytes" where
  "name_wire name = labels_wire (dot_tokens name) @ [0]"

definition label_ok :: "cstring \<Rightarrow> bool" where
  "label_ok l \<longleftrightarrow> l \<noteq> [] \<and> length l \<le> 63 \<and> 46 \<notin> set l"

text \<open>A name that both sides accept: proper labels, at most 255 octets with their dots.\<close>

definition name_ok :: "cstring \<Rightarrow> bool" where
  "name_ok name \<longleftrightarrow> name = labels_name (dot_tokens name) \<and> list_all label_ok (dot_tokens name) \<and> length name \<le> 255"

lemma dot_split_label: "46 \<notin> set l \<Longrightarrow> dot_split part (l @ 46 # s) = (part @ l) # dot_split [] s"
  by (induction l arbitrary: part) auto

lemma dot_tokens_labels: "list_all label_ok ls \<Longrightarrow> dot_tokens (labels_name ls) = ls"
  by (induction ls) (auto simp: dot_tokens_def labels_name_def label_ok_def dot_split_label)

lemma name_ok_labels:
  "list_all label_ok ls \<Longrightarrow> length (labels_name ls) \<le> 255 \<Longrightarrow> name_ok (labels_name ls)"
  by (simp add: name_ok_def dot_tokens_labels)

lemma write_label_defined [defined_intros]: "is_defined (write_label l w)"
  by (auto simp: write_label_def write_label_len_def intro!: run_then_defined defined_intros)

lemma write_labels_defined [defined_intros]: "is_defined (write_labels ls w)"
  by (induction ls arbitrary: w) (auto intro!: run_then_defined defined_intros)

lemma write_label_enc:
  "write_label l w = Returns w' \<Longrightarrow>
   length l \<le> 63 \<and> w' = (fst w @ of_nat (length l) # l, snd w - Suc (length l)) \<and> Suc (length l) \<le> snd w"
  by (auto simp: write_label_def write_label_len_def run_then_Returns put_bytes_Returns)

lemma write_labels_enc:
  "write_labels ls w = Returns w' \<Longrightarrow>
   w' = (fst w @ labels_wire ls, snd w - length (labels_wire ls)) \<and> length (labels_wire ls) \<le> snd w"
proof (induction ls arbitrary: w)
  case (Cons l ls)
  from Cons.prems obtain w1 where 1: "write_label l w = Returns w1" "write_labels ls w1 = Returns w'"
    by (auto simp: run_then_Returns)
  from write_label_enc[OF 1(1)] Cons.IH[OF 1(2)] show ?case by (auto simp: labels_wire_def)
qed (simp add: labels_wire_def)

lemma parse_label_enc: "parse_label name (length l) (l @ rest) = Returns (name @ l @ [46], rest)"
  by (induction l arbitrary: name) (simp_all add: check_end_def next_byte_def)

lemma parse_label_len_enc: "n \<le> 63 \<Longrightarrow> parse_label_len (of_nat n # rest) = Returns (n, rest)"
proof -
  assume n: "n \<le> 63"
  then have "unat (of_nat n :: byte) = n" by (simp add: unat_of_nat)
  with n show ?thesis by (simp add: parse_label_len_def check_end_def next_byte_def)
qed

lemma parse_labels_enc:
  assumes "list_all label_ok ls" and "name_len + length (concat ls) \<le> 255"
  shows "run_then (parse_label_len (labels_wire ls @ 0 # rest)) (\<lambda>(l, buf). parse_labels name name_len l buf) =
    Returns (name @ labels_name ls, rest)"
  using assms
proof (induction ls arbitrary: name name_len)
  case Nil
  then show ?case using parse_label_len_enc[of 0 rest]
    by (simp add: labels_wire_def labels_name_def parse_labels.simps)
next
  case (Cons l ls)
  then have l: "l \<noteq> []" "length l \<le> 63" "name_len + length l + length (concat ls) \<le> 255" by (auto simp: label_ok_def)
  have "labels_wire (l # ls) @ 0 # rest = of_nat (length l) # l @ labels_wire ls @ 0 # rest"
    by (simp add: labels_wire_def)
  then have "run_then (parse_label_len (labels_wire (l # ls) @ 0 # rest)) (\<lambda>(l, buf). parse_labels name name_len l buf) =
    run_then (parse_label name (length l) (l @ labels_wire ls @ 0 # rest)) (\<lambda>(sname, buf).
      run_then (parse_label_len buf) (\<lambda>(label_len, buf). parse_labels sname (name_len + length l) label_len buf))"
    using l by (simp add: parse_label_len_enc parse_labels.simps[of name name_len "length l"])
  also have "\<dots> = Returns (name @ labels_name (l # ls), rest)"
    using Cons.IH[of "name_len + length l" "name @ l @ [46]"] Cons.prems(1) l(3)
    by (simp add: parse_label_enc labels_name_def)
  finally show ?case .
qed

lemma length_labels_name: "length (concat ls) \<le> length (labels_name ls)"
  by (induction ls) (simp_all add: labels_name_def)

lemma parse_name_enc:
  assumes "name_ok name"
  shows "parse_name (name_wire name @ rest) = Returns (name, rest)"
proof -
  let ?ls = "dot_tokens name"
  have n: "name = labels_name ?ls" "list_all label_ok ?ls" "length name \<le> 255" using assms by (simp_all add: name_ok_def)
  have "length (concat ?ls) \<le> 255" using length_labels_name[of ?ls] n(1,3) by simp
  with parse_labels_enc[OF n(2), of 0 rest "[]"] n(1) show ?thesis by (simp add: parse_name_def name_wire_def)
qed

lemma write_labels_fits:
  "list_all label_ok ls \<Longrightarrow> length (labels_wire ls) \<le> snd w \<Longrightarrow> \<exists>w'. write_labels ls w = Returns w'"
proof (induction ls arbitrary: w)
  case (Cons l ls)
  then have "length l \<le> 63" "Suc (length l + length (labels_wire ls)) \<le> snd w" by (simp_all add: label_ok_def labels_wire_def)
  then have "write_label l w = Returns (fst w @ of_nat (length l) # l, snd w - Suc (length l))"
    by (auto simp: write_label_def write_label_len_def check_room_def check_room_len_def put_bytes_def)
  with Cons \<open>Suc _ \<le> snd w\<close> show ?case by simp
qed simp

interpretation name_field: dns_field write_name parse_name name_wire name_ok
proof
  show "is_defined (write_name name w)" for name w
    by (auto simp: write_name_def intro!: run_then_defined defined_intros)
next
  fix name w w'
  assume "write_name name w = Returns w'"
  then obtain w1 where "write_labels (dot_tokens name) w = Returns w1" "1 \<le> snd w1" "w' = (fst w1 @ [0], snd w1 - 1)"
    by (auto simp: write_name_def run_then_Returns put_bytes_Returns)
  with write_labels_enc[OF this(1)] show "w' = (fst w @ name_wire name, snd w - length (name_wire name)) \<and>
      length (name_wire name) \<le> snd w"
    by (auto simp: name_wire_def)
next
  fix name and w :: writer
  assume n: "name_ok name" and fits: "length (name_wire name) \<le> snd w"
  then obtain w1 where w1: "write_labels (dot_tokens name) w = Returns w1"
    using write_labels_fits[of "dot_tokens name" w] by (auto simp: name_ok_def name_wire_def)
  with write_labels_enc[OF w1] n fits show "\<exists>w'. write_name name w = Returns w'"
    by (auto simp: write_name_def name_ok_def name_wire_def check_room_def put_bytes_def)
qed (rule parse_name_enc)

section \<open>Questions and resource records\<close>

definition question_wire :: "dnsquestion \<Rightarrow> bytes" where
  "question_wire q = name_wire (question_name q) @ short_be (qtype q) @ short_be (qclass q)"

definition rr_wire :: "dnsrr \<Rightarrow> bytes" where
  "rr_wire rr = name_wire (rr_name rr) @ short_be (rtype rr) @ short_be (rclass rr) @ ulong_be (ttl rr)
     @ short_be (rdlength rr) @ take (unat (rdlength rr)) (rdata rr)"

definition question_ok :: "dnsquestion \<Rightarrow> bool" where
  "question_ok q \<longleftrightarrow> name_ok (question_name q)"

definition rr_ok :: "dnsrr \<Rightarrow> bool" where
  "rr_ok rr \<longleftrightarrow> name_ok (rr_name rr) \<and> unat (rdlength rr) = length (rdata rr) \<and> length (rdata rr) \<le> 1024"

text \<open>The parser of a question, apart from adding it to the query.\<close>

definition question_parser :: "bytes \<Rightarrow> (dnsquestion \<times> bytes) outcome" where
  "question_parser buf =
     run_then (parse_name buf) (\<lambda>(name, buf). run_then (parse_qtype buf) (\<lambda>(qtype, buf).
     run_then (parse_qclass buf) (\<lambda>(qclass, buf).
     Returns (\<lparr>question_name = name, qtype = qtype, qclass = qclass\<rparr>, buf))))"

lemmas field_defined [defined_intros] = short_field.wr_defined ulong_field.wr_defined name_field.wr_defined
lemmas field_enc = short_field.wr_enc ulong_field.wr_enc name_field.wr_enc
lemmas field_ok = short_field.wr_ok[OF TrueI] ulong_field.wr_ok[OF TrueI] name_field.wr_ok
lemmas field_dec = short_field.ps_enc[OF TrueI] ulong_field.ps_enc[OF TrueI] name_field.ps_enc

interpretation question_field: dns_field write_question question_parser question_wire question_ok
proof
  show "is_defined (write_question q w)" for q w
    by (auto simp: write_question_def intro!: run_then_defined defined_intros)
next
  show "write_question q w = Returns w' \<Longrightarrow>
      w' = (fst w @ question_wire q, snd w - length (question_wire q)) \<and> length (question_wire q) \<le> snd w" for q w w'
    by (auto simp: write_question_def run_then_Returns question_wire_def dest!: field_enc)
next
  show "question_ok q \<Longrightarrow> length (question_wire q) \<le> snd w \<Longrightarrow> \<exists>w'. write_question q w = Returns w'" for q w
    by (simp add: write_question_def question_wire_def question_ok_def field_ok)
next
  show "question_ok q \<Longrightarrow> question_parser (question_wire q @ rest) = Returns (q, rest)" for q rest
    by (simp add: question_parser_def question_wire_def question_ok_def parse_qtype_def parse_qclass_def field_dec)
qed

interpretation rr_field: dns_field write_rr parse_rr rr_wire rr_ok
proof
  show "is_defined (write_rr rr w)" for rr w
    by (auto simp: write_rr_def intro!: run_then_defined defined_intros)
next
  show "write_rr rr w = Returns w' \<Longrightarrow>
      w' = (fst w @ rr_wire rr, snd w - length (rr_wire rr)) \<and> length (rr_wire rr) \<le> snd w" for rr w w'
    by (auto simp: write_rr_def run_then_Returns rr_wire_def put_bytes_Returns dest!: field_enc)
next
  show "rr_ok rr \<Longrightarrow> length (rr_wire rr) \<le> snd w \<Longrightarrow> \<exists>w'. write_rr rr w = Returns w'" for rr w
    by (auto simp: write_rr_def rr_wire_def rr_ok_def field_ok check_room_len_def put_bytes_def)
next
  show "rr_ok rr \<Longrightarrow> parse_rr (rr_wire rr @ rest) = Returns (rr, rest)" for rr rest
    by (simp add: parse_rr_def rr_wire_def rr_ok_def parse_qtype_def parse_qclass_def field_dec check_end_len_def
        next_bytes_def)
qed

section \<open>Headers\<close>

lemma length_put_short [simp]: "length (put_short i v h) = length h"
  by (simp add: put_short_def)

lemma read_put_short [simp]: "Suc i < length h \<Longrightarrow> read_short i (put_short i v h) = v"
  using be_short_be[of v] by (simp add: read_short_def put_short_def short_be_def)

lemma read_put_short_other [simp]:
  "Suc i < length h \<Longrightarrow> Suc j < i \<or> Suc i < j \<Longrightarrow> read_short j (put_short i v h) = read_short j h"
  by (auto simp: read_short_def put_short_def)

lemma nth_put_short [simp]: "j \<noteq> i \<Longrightarrow> j \<noteq> Suc i \<Longrightarrow> put_short i v h ! j = h ! j"
  by (simp add: put_short_def)

lemma length_set_bit [simp]: "length (set_bit i m b h) = length h"
  by (simp add: set_bit_def)

lemma read_set_bit [simp]: "j \<noteq> i \<Longrightarrow> Suc j \<noteq> i \<Longrightarrow> read_short j (set_bit i m b h) = read_short j h"
  by (auto simp: read_short_def set_bit_def)

text \<open>The header of a reply as bytes.\<close>

definition flags_byte :: "bool \<Rightarrow> byte" where
  "flags_byte r = (if r then 0x85 else 0x84)"

lemma header_eq:
  "compose_dns_header q = short_be (query_id q) @ [flags_byte (query_rd q), rcode_value (query_rcode q)]
     @ short_be (of_nat (length (questions q))) @ short_be (of_nat (length (answers q)))
     @ short_be (of_nat (length (authorities q))) @ short_be (of_nat (length (additionals q)))"
  by (cases "query_rcode q")
     (simp_all add: compose_dns_header_def hdr_clear_def HEADER_LENGTH_def hdr_set_id_def hdr_set_qr_def hdr_set_aa_def hdr_set_rd_def
      hdr_set_rcode_def hdr_set_qdcount_def hdr_set_ancount_def hdr_set_nscount_def hdr_set_arcount_def put_short_def
      set_bit_def short_be_def flags_byte_def numeral_eq_Suc Let_def)

lemmas header_defs = hdr_id_def hdr_qr_def hdr_rd_def hdr_opcode_def hdr_rcode_def hdr_z_def hdr_qdcount_def hdr_ancount_def
  hdr_nscount_def hdr_arcount_def read_short_def get_bit_def

lemma header_fields:
  "hdr_id (compose_dns_header q) = query_id q" "hdr_qr (compose_dns_header q)" "hdr_rd (compose_dns_header q) = query_rd q"
  "hdr_opcode (compose_dns_header q) = O_QUERY" "hdr_rcode (compose_dns_header q) = query_rcode q"
  "hdr_qdcount (compose_dns_header q) = of_nat (length (questions q))"
  "hdr_ancount (compose_dns_header q) = of_nat (length (answers q))"
  "hdr_nscount (compose_dns_header q) = of_nat (length (authorities q))"
  "hdr_arcount (compose_dns_header q) = of_nat (length (additionals q))"
  "length (compose_dns_header q) = 12"
proof -
  have s: "be_short [ucast (drop_bit 8 w), ucast w] = w" for w using be_short_be[of w] by (simp add: short_be_def)
  note h = header_eq short_be_def header_defs flags_byte_def s
  show "hdr_id (compose_dns_header q) = query_id q" "hdr_rd (compose_dns_header q) = query_rd q" "hdr_qr (compose_dns_header q)"
    "hdr_opcode (compose_dns_header q) = O_QUERY" by (simp_all add: h)
  show "hdr_rcode (compose_dns_header q) = query_rcode q"
    by (cases "query_rcode q") (simp_all add: h)
  show "hdr_qdcount (compose_dns_header q) = of_nat (length (questions q))"
    "hdr_ancount (compose_dns_header q) = of_nat (length (answers q))"
    "hdr_nscount (compose_dns_header q) = of_nat (length (authorities q))"
    "hdr_arcount (compose_dns_header q) = of_nat (length (additionals q))"
    by (simp_all add: h)
  show "length (compose_dns_header q) = 12" by (simp add: header_eq)
qed

section \<open>Composing and parsing\<close>

text \<open>A query whose names and records are proper, and whose sections can be counted.\<close>

definition query_ok :: "dnsquery \<Rightarrow> bool" where
  "query_ok q \<longleftrightarrow> list_all question_ok (questions q) \<and> list_all rr_ok (answers q) \<and> list_all rr_ok (authorities q) \<and>
     list_all rr_ok (additionals q) \<and> length (questions q) < 2 ^ 16 \<and> length (answers q) < 2 ^ 16 \<and>
     length (authorities q) < 2 ^ 16 \<and> length (additionals q) < 2 ^ 16"

definition body_wire :: "dnsquery \<Rightarrow> bytes" where
  "body_wire q = concat (map question_wire (questions q)) @ concat (map rr_wire (answers q))
     @ concat (map rr_wire (authorities q)) @ concat (map rr_wire (additionals q))"

lemma compose_defined: "is_defined (compose_dns_response q room)"
  by (auto simp: compose_dns_response_def intro!: run_then_defined defined_intros question_field.write_all_defined
      rr_field.write_all_defined)

lemma compose_enc: "compose_dns_response q room = Returns body \<Longrightarrow> body = body_wire q \<and> length body \<le> room"
  unfolding compose_dns_response_def run_then_Returns
  by (elim exE conjE) (drule question_field.write_all_enc, (drule rr_field.write_all_enc)+, auto simp: body_wire_def)

lemma compose_fits:
  assumes "query_ok q" and "length (body_wire q) \<le> room"
  shows "compose_dns_response q room = Returns (body_wire q)"
  using assms by (simp add: compose_dns_response_def body_wire_def query_ok_def question_field.write_all_fits
      rr_field.write_all_fits)

lemma fold_add:
  "fold add_question qs q = q\<lparr>questions := questions q @ qs\<rparr>" "fold add_answer rs q = q\<lparr>answers := answers q @ rs\<rparr>"
  "fold add_authority rs q = q\<lparr>authorities := authorities q @ rs\<rparr>" "fold (\<lambda>_ q. q) rs q = q"
proof -
  show "fold add_question qs q = q\<lparr>questions := questions q @ qs\<rparr>" by (induction qs arbitrary: q) (simp_all add: add_question_def)
  show "fold add_answer rs q = q\<lparr>answers := answers q @ rs\<rparr>" by (induction rs arbitrary: q) (simp_all add: add_answer_def)
  show "fold add_authority rs q = q\<lparr>authorities := authorities q @ rs\<rparr>" by (induction rs arbitrary: q) (simp_all add: add_authority_def)
  show "fold (\<lambda>_ q. q) rs q = q" by (induction rs) simp_all
qed

lemma parse_question_eq: "parse_question query buf = run_then (question_parser buf) (\<lambda>(q, buf). Returns (add_question q query, buf))"
proof -
  have a: "run_then (run_then m f) g = run_then m (\<lambda>x. run_then (f x) g)" for m f g by (cases m) simp_all
  show ?thesis by (simp add: parse_question_def question_parser_def a case_prod_unfold)
qed

lemmas section_enc = question_field.parse_times_enc[OF parse_question_eq] rr_field.parse_times_enc[OF parse_answer_def]
  rr_field.parse_times_enc[OF parse_authority_def] rr_field.parse_times_enc[OF parse_additional_def]

lemma parse_body:
  assumes "query_ok q"
  shows "parse_dns_query q0 (compose_dns_header q) (body_wire q) =
    Returns (q0\<lparr>query_id := query_id q, query_rd := query_rd q, questions := questions q0 @ questions q,
      answers := answers q0 @ answers q, authorities := authorities q0 @ authorities q\<rparr>)"
proof -
  have n: "unat (of_nat (length xs) :: ushort) = length xs" if "length xs < 2 ^ 16" for xs :: "'a list"
    using that by (simp add: unat_of_nat)
  have add: "parse_times (length (additionals q)) parse_additional query (concat (map rr_wire (additionals q))) =
      Returns (query, [])" for query
    using section_enc(4)[where xs = "additionals q" and query = query and rest = "[]"] assms by (simp add: query_ok_def fold_add)
  with assms show ?thesis
    by (simp add: parse_dns_query_def body_wire_def query_ok_def header_fields n add section_enc(1-3) fold_add Let_def)
qed

section \<open>What the parser accepts\<close>

text \<open>Parsed names can be longer than what \<^verbatim>\<open>write_name\<close> takes: their dots are not counted.\<close>

definition parsed_name :: "cstring \<Rightarrow> bool" where
  "parsed_name name \<longleftrightarrow> length name \<le> 510 \<and> (name = [] \<or> last name = 46)"

definition parsed_rr :: "dnsrr \<Rightarrow> bool" where
  "parsed_rr rr \<longleftrightarrow> parsed_name (rr_name rr) \<and> unat (rdlength rr) = length (rdata rr) \<and> length (rdata rr) \<le> 1024"

lemma parse_label_name: "parse_label name len buf = Returns (name', buf') \<Longrightarrow> length name' = length name + Suc len \<and> last name' = 46"
  by (induction len arbitrary: name buf) (fastforce simp: run_then_Returns next_byte_def split: list.splits)+

lemma parse_labels_name:
  "parse_labels sname name_len label_len buf = Returns (name, rest) \<Longrightarrow> length sname \<le> 2 * name_len \<Longrightarrow> name_len \<le> 255 \<Longrightarrow>
   sname = [] \<or> last sname = 46 \<Longrightarrow> parsed_name name"
proof (induction sname name_len label_len buf rule: parse_labels.induct)
  case (1 sname name_len label_len buf)
  show ?case
  proof (cases "label_len = 0")
    case True
    with "1.prems" show ?thesis by (auto simp: parse_labels.simps parsed_name_def)
  next
    case False
    with "1.prems"(1) obtain s1 b1 l2 b2 where
      s: "name_len + label_len \<le> 255" "parse_label sname label_len buf = Returns (s1, b1)"
        "parse_label_len b1 = Returns (l2, b2)" "parse_labels s1 (name_len + label_len) l2 b2 = Returns (name, rest)"
      by (subst (asm) parse_labels.simps) (auto simp: Let_def run_then_Returns split: if_splits)
    from parse_label_name[OF s(2)] have "length s1 \<le> 2 * (name_len + label_len)" "last s1 = 46"
      using "1.prems"(2) False by auto
    with "1.IH"[OF False refl _ s(2) refl s(3) refl s(4)] s(1) show ?thesis by simp
  qed
qed

lemma parse_name_name: "parse_name buf = Returns (name, rest) \<Longrightarrow> parsed_name name"
  by (auto simp: parse_name_def run_then_Returns dest: parse_labels_name)

lemma parse_rr_rr: "parse_rr buf = Returns (rr, rest) \<Longrightarrow> parsed_rr rr"
  by (auto simp: parse_rr_def run_then_Returns parsed_rr_def next_bytes_def not_less dest!: parse_name_name split: if_splits)

text \<open>A section adds as many entries as it has, of the right shape.\<close>

lemma parse_times_count:
  assumes "\<And>q buf q' buf'. p q buf = Returns (q', buf') \<Longrightarrow> \<exists>x. ok x \<and> q' = add x q"
  shows "parse_times n p q buf = Returns (q', buf') \<Longrightarrow> \<exists>xs. length xs = n \<and> list_all ok xs \<and> q' = fold add xs q"
proof (induction n arbitrary: q buf)
  case (Suc n)
  then obtain q1 b1 where 1: "p q buf = Returns (q1, b1)" "parse_times n p q1 b1 = Returns (q', buf')"
    by (auto simp: run_then_Returns)
  from assms[OF 1(1)] Suc.IH[OF 1(2)] obtain x xs where "ok x" "q1 = add x q" "length xs = n" "list_all ok xs" "q' = fold add xs q1"
    by blast
  then show ?case by (intro exI[of _ "x # xs"]) simp
qed simp

lemma parse_section_Returns:
  "parse_question q buf = Returns (q', buf') \<Longrightarrow> \<exists>x. parsed_name (question_name x) \<and> q' = add_question x q"
  "parse_answer q buf = Returns (q', buf') \<Longrightarrow> \<exists>rr. parsed_rr rr \<and> q' = add_answer rr q"
  "parse_authority q buf = Returns (q', buf') \<Longrightarrow> \<exists>rr. parsed_rr rr \<and> q' = add_authority rr q"
  "parse_additional q buf = Returns (q', buf') \<Longrightarrow> q' = q"
proof -
  show "\<exists>x. parsed_name (question_name x) \<and> q' = add_question x q" if "parse_question q buf = Returns (q', buf')"
  proof -
    from that obtain name b t c where "parse_name buf = Returns (name, b)"
      "q' = add_question \<lparr>question_name = name, qtype = t, qclass = c\<rparr> q" by (auto simp: parse_question_def run_then_Returns)
    with parse_name_name show ?thesis by (metis dnsquestion.select_convs(1))
  qed
  show "parse_answer q buf = Returns (q', buf') \<Longrightarrow> \<exists>rr. parsed_rr rr \<and> q' = add_answer rr q"
    "parse_authority q buf = Returns (q', buf') \<Longrightarrow> \<exists>rr. parsed_rr rr \<and> q' = add_authority rr q"
    by (auto simp: parse_answer_def parse_authority_def run_then_Returns dest!: parse_rr_rr)
  show "parse_additional q buf = Returns (q', buf') \<Longrightarrow> q' = q"
    by (auto simp: parse_additional_def run_then_Returns)
qed

definition parsed_query :: "sender \<Rightarrow> bytes \<Rightarrow> dnsquery \<Rightarrow> bool" where
  "parsed_query sndr h q \<longleftrightarrow> query_id q = hdr_id h \<and> query_rd q = hdr_rd h \<and> query_sender q = sndr \<and>
     length (questions q) = unat (hdr_qdcount h) \<and> list_all (\<lambda>x. parsed_name (question_name x)) (questions q) \<and>
     length (answers q) = unat (hdr_ancount h) \<and> list_all parsed_rr (answers q) \<and>
     length (authorities q) = unat (hdr_nscount h) \<and> list_all parsed_rr (authorities q) \<and>
     additionals q = [] \<and> query_rcode q = R_SUCCESS \<and> metric_result q = UNKNOWN \<and> device_name q = []"

lemma parse_query_parsed:
  assumes "parse_dns_query (dnsquery_new sndr) h buf = Returns q"
  shows "parsed_query sndr h q"
proof -
  let ?q0 = "(dnsquery_new sndr)\<lparr>query_id := hdr_id h, query_rd := hdr_rd h\<rparr>"
  from assms obtain q1 b1 q2 b2 q3 b3 b4 where
    p: "parse_times (unat (hdr_qdcount h)) parse_question ?q0 buf = Returns (q1, b1)"
      "parse_times (unat (hdr_ancount h)) parse_answer q1 b1 = Returns (q2, b2)"
      "parse_times (unat (hdr_nscount h)) parse_authority q2 b2 = Returns (q3, b3)"
      "parse_times (unat (hdr_arcount h)) parse_additional q3 b3 = Returns (q, b4)"
    by (auto simp: parse_dns_query_def Let_def run_then_Returns)
  from parse_times_count[where add = add_question and ok = "\<lambda>x. parsed_name (question_name x)", OF _ p(1)] parse_section_Returns(1)
  obtain qs where 1: "length qs = unat (hdr_qdcount h)" "list_all (\<lambda>x. parsed_name (question_name x)) qs" "q1 = fold add_question qs ?q0"
    by blast
  from parse_times_count[where add = add_answer and ok = parsed_rr, OF _ p(2)] parse_section_Returns(2)
  obtain rs where 2: "length rs = unat (hdr_ancount h)" "list_all parsed_rr rs" "q2 = fold add_answer rs q1" by blast
  from parse_times_count[where add = add_authority and ok = parsed_rr, OF _ p(3)] parse_section_Returns(3)
  obtain ts where 3: "length ts = unat (hdr_nscount h)" "list_all parsed_rr ts" "q3 = fold add_authority ts q2" by blast
  from parse_times_count[where add = "\<lambda>_ q. q" and ok = "\<lambda>_::dnsrr. True", OF _ p(4)] parse_section_Returns(4)
  obtain us :: "dnsrr list" where "q = fold (\<lambda>_ q. q) us q3" by blast
  then have 4: "q = q3" by (simp only: fold_add(4))
  have "q = ?q0\<lparr>questions := qs, answers := rs, authorities := ts\<rparr>"
    unfolding 4 3(3) 2(3) 1(3) fold_add(1-3) by (simp add: dnsquery_new_def)
  with 1(1,2) 2(1,2) 3(1,2) show ?thesis by (simp add: parsed_query_def dnsquery_new_def)
qed

section \<open>Properties\<close>

text \<open>
  C4. A query the gateway can encode, with proper names and records and countable sections, is composed exactly when
  its encoding fits into the buffer; header and body are then parsed back to the same id, flag and sections. Only
  the additional records are dropped.
\<close>

theorem dns_roundtrip:
  assumes "query_ok q" and "length (body_wire q) \<le> room"
  shows "\<exists>body. compose_dns_response q room = Returns body \<and> length body \<le> room \<and>
    parse_dns_query q0 (compose_dns_header q) body =
      Returns (q0\<lparr>query_id := query_id q, query_rd := query_rd q, questions := questions q0 @ questions q,
        answers := answers q0 @ answers q, authorities := authorities q0 @ authorities q\<rparr>) \<and>
    hdr_qr (compose_dns_header q) \<and> hdr_rcode (compose_dns_header q) = query_rcode q"
  using compose_fits[OF assms] assms(2) parse_body[OF assms(1)] header_fields(2,5) by simp

definition example_name :: cstring where
  "example_name = labels_name [[119, 119, 119], [112, 119], [110, 101, 116]]"   \<comment> \<open>\<^verbatim>\<open>www.pw.net.\<close>\<close>

definition example_query :: dnsquery where
  "example_query = (dnsquery_new (Udp_endpoint 1))\<lparr>query_id := 0x1234, query_rd := True,
     questions := [\<lparr>question_name = example_name, qtype = T_A, qclass = C_IN\<rparr>],
     answers := [\<lparr>rr_name = example_name, rtype = T_A, rclass = C_IN, ttl = 60, rdlength = 4, rdata = [10, 0, 0, 1]\<rparr>]\<rparr>"

lemma example_name_ok: "name_ok example_name" "dot_tokens example_name = [[119, 119, 119], [112, 119], [110, 101, 116]]"
proof -
  have l: "list_all label_ok [[119, 119, 119], [112, 119], [110, 101, 116]]" by (simp add: label_ok_def)
  then show "name_ok example_name" unfolding example_name_def by (rule name_ok_labels) (simp add: labels_name_def)
  from l show "dot_tokens example_name = [[119, 119, 119], [112, 119], [110, 101, 116]]"
    unfolding example_name_def by (rule dot_tokens_labels)
qed

lemma example_query_ok: "query_ok example_query" "length (body_wire example_query) \<le> 500"
  using example_name_ok
  by (simp_all add: query_ok_def example_query_def dnsquery_new_def question_ok_def rr_ok_def body_wire_def question_wire_def
      rr_wire_def name_wire_def labels_wire_def)

lemma example_query_eq: "(dnsquery_new (Udp_endpoint 1))\<lparr>query_id := query_id example_query, query_rd := query_rd example_query,
    questions := questions (dnsquery_new (Udp_endpoint 1)) @ questions example_query,
    answers := answers (dnsquery_new (Udp_endpoint 1)) @ answers example_query,
    authorities := authorities (dnsquery_new (Udp_endpoint 1)) @ authorities example_query\<rparr> = example_query"
  by (simp add: example_query_def dnsquery_new_def)

lemma dns_roundtrip_witness:
  "\<exists>body. compose_dns_response example_query 500 = Returns body \<and>
    parse_dns_query (dnsquery_new (Udp_endpoint 1)) (compose_dns_header example_query) body = Returns example_query"
  using dns_roundtrip[OF example_query_ok, of "dnsquery_new (Udp_endpoint 1)"]
  unfolding example_query_eq by blast

text \<open>
  C5. Whatever header and bytes arrive, the parser ends without reading outside of the buffer, and whatever a query contains, the
  composer ends without writing outside of it: it throws or returns what fits.
\<close>

theorem dns_memory_safe:
  "parse_dns_query q h buf \<noteq> Undefined \<and>
   (case compose_dns_response q room of Undefined \<Rightarrow> False | Throws _ \<Rightarrow> True | Returns body \<Rightarrow> length body \<le> room)"
  using parse_query_defined[of q h buf] compose_defined[of q room] compose_enc[of q room]
  by (auto simp: is_defined_def split: outcome.split)



end
