(* ===== verification/Dns_Speaker.thy ===== *)
theory Dns_Speaker
  imports Dns_Roundtrip "HOL-Library.Sublist" "HOL-Library.Multiset"
begin

text \<open>
  \<^verbatim>\<open>udp_dnsspeaker\<close> and \<^verbatim>\<open>dns_connection\<close> of \<^verbatim>\<open>src/dnsgw/dnsspeaker.cpp\<close>: how DNS messages are received over UDP and TCP, and how
  replies are sent one after the other. The sockets are the list of what is given to them; a send is outstanding until its
  completion handler runs.
\<close>

section \<open>Receiving\<close>

text \<open>What \<^verbatim>\<open>handle_datagram_received\<close> and \<^verbatim>\<open>handle_query_read\<close> do with a message.\<close>

datatype received = Malformed_header | Parse_failed exn | Accepted dnsquery

definition header_valid :: "bytes \<Rightarrow> bool" where
  "header_valid h \<longleftrightarrow> \<not> hdr_qr h \<and> hdr_opcode h = O_QUERY \<and> hdr_z h = 0"

definition receive_query :: "sender \<Rightarrow> bytes \<Rightarrow> received option" where
  "receive_query sndr message =
     (if HEADER_LENGTH \<le> length message \<and> header_valid (take HEADER_LENGTH message) then
        (case parse_dns_query (dnsquery_new sndr) (take HEADER_LENGTH message) (drop HEADER_LENGTH message) of
           Undefined \<Rightarrow> None | Throws e \<Rightarrow> Some (Parse_failed e) | Returns q \<Rightarrow> Some (Accepted q))
      else Some Malformed_header)"

text \<open>A datagram fills the header and a buffer of 500 bytes; what is longer is cut off.\<close>

definition handle_datagram_received :: "sender \<Rightarrow> bytes \<Rightarrow> received option" where
  "handle_datagram_received sndr datagram = receive_query sndr (take (HEADER_LENGTH + 500) datagram)"

text \<open>
  How many bytes \<^verbatim>\<open>handle_msg_len_read\<close> asks for: the header, and a buffer of the length minus that of the header, computed in
  \<^verbatim>\<open>size_t\<close>, but at most the 1024 bytes of the array. Longer messages close the connection.
\<close>

definition handle_msg_len_read :: "ushort \<Rightarrow> nat option" where
  "handle_msg_len_read recv_msg_len =
     (if unat recv_msg_len > HEADER_LENGTH + 1024 then None
      else Some (HEADER_LENGTH + min 1024 (unat (ucast recv_msg_len - of_nat HEADER_LENGTH :: clong))))"

text \<open>A connection, on the bytes the client sends until it closes it: the queries that are processed.\<close>

function dns_connection_read :: "sender \<Rightarrow> bytes \<Rightarrow> dnsquery list" where
  "dns_connection_read sndr stream =
     (if length stream < 2 then []
      else case handle_msg_len_read (be_short (take 2 stream)) of
        None \<Rightarrow> []
      | Some n \<Rightarrow>
          if length stream < 2 + n then []
          else case receive_query sndr (take n (drop 2 stream)) of
            Some (Accepted q) \<Rightarrow> q # dns_connection_read sndr (drop (2 + n) stream)
          | _ \<Rightarrow> [])"
  by pat_completeness auto

termination dns_connection_read
  by (relation "measure (\<lambda>(_, stream). length stream)") auto

declare dns_connection_read.simps [simp del]

section \<open>Sending\<close>

text \<open>
  The state of a speaker, with the replies it has given to the socket, their queries, the sends that have not completed, and the
  replies it has dropped with a warning.
\<close>

record 'd speaker =
  send_in_progress :: bool
  reply_buf :: "dnsquery list"
  sent :: "'d list"
  answered :: "dnsquery list"
  outstanding :: nat
  dropped :: "dnsquery list"

definition speaker_new :: "'d speaker" where
  "speaker_new = \<lparr>send_in_progress = False, reply_buf = [], sent = [], answered = [], outstanding = 0, dropped = []\<rparr>"

text \<open>
  \<^verbatim>\<open>send_reply_\<close>, for a circular buffer of \<open>cap\<close> queries, a send buffer of \<open>room\<close> bytes and the way header and body are framed. The
  flag is set before the reply is composed, which may throw: then the exception is returned.
\<close>

definition send_reply_in :: "nat \<Rightarrow> nat \<Rightarrow> (dnsquery \<Rightarrow> bytes \<Rightarrow> 'd) \<Rightarrow> dnsquery \<Rightarrow> 'd speaker \<Rightarrow> (exn option \<times> 'd speaker) option" where
  "send_reply_in cap room frame query s =
     (if send_in_progress s then
        if length (reply_buf s) = cap then Some (None, s\<lparr>dropped := dropped s @ [query]\<rparr>)
        else Some (None, s\<lparr>reply_buf := reply_buf s @ [query]\<rparr>)
      else
        let s = s\<lparr>send_in_progress := True\<rparr> in
        case compose_dns_response query room of
          Undefined \<Rightarrow> None
        | Throws e \<Rightarrow> Some (Some e, s)
        | Returns body \<Rightarrow> Some (None, s\<lparr>sent := sent s @ [frame query body], answered := answered s @ [query],
            outstanding := outstanding s + 1\<rparr>))"

text \<open>The completion handler of a send, whether it succeeded or not.\<close>

definition handle_send_reply_in :: "nat \<Rightarrow> nat \<Rightarrow> (dnsquery \<Rightarrow> bytes \<Rightarrow> 'd) \<Rightarrow> 'd speaker \<Rightarrow> (exn option \<times> 'd speaker) option" where
  "handle_send_reply_in cap room frame s =
     (let s = s\<lparr>outstanding := outstanding s - 1, send_in_progress := False\<rparr> in
      case reply_buf s of [] \<Rightarrow> Some (None, s)
      | query # queries \<Rightarrow> send_reply_in cap room frame query (s\<lparr>reply_buf := queries\<rparr>))"

text \<open>A datagram has the header and the body; a message on a connection has its length before it.\<close>

definition udp_frame :: "dnsquery \<Rightarrow> bytes \<Rightarrow> sender \<times> bytes" where
  "udp_frame query body = (query_sender query, compose_dns_header query @ body)"

definition tcp_frame :: "dnsquery \<Rightarrow> bytes \<Rightarrow> bytes" where
  "tcp_frame query body = short_be (of_nat (length body + HEADER_LENGTH)) @ compose_dns_header query @ body"

definition udp_send_reply :: "dnsquery \<Rightarrow> (sender \<times> bytes) speaker \<Rightarrow> (exn option \<times> (sender \<times> bytes) speaker) option" where
  "udp_send_reply = send_reply_in 50 500 udp_frame"

definition udp_handle_send_reply :: "(sender \<times> bytes) speaker \<Rightarrow> (exn option \<times> (sender \<times> bytes) speaker) option" where
  "udp_handle_send_reply = handle_send_reply_in 50 500 udp_frame"

definition tcp_send_reply :: "dnsquery \<Rightarrow> bytes speaker \<Rightarrow> (exn option \<times> bytes speaker) option" where
  "tcp_send_reply = send_reply_in 5 1024 tcp_frame"

definition tcp_handle_send_reply :: "bytes speaker \<Rightarrow> (exn option \<times> bytes speaker) option" where
  "tcp_handle_send_reply = handle_send_reply_in 5 1024 tcp_frame"

text \<open>
  Runs of a speaker: requests to reply, and completions of sends, which happen only while a send is outstanding. An exception
  leaves the speaker as it is.
\<close>

datatype speaker_event = Reply dnsquery | Sent

fun speaker_step ::
    "(dnsquery \<Rightarrow> 'd speaker \<Rightarrow> (exn option \<times> 'd speaker) option) \<Rightarrow> ('d speaker \<Rightarrow> (exn option \<times> 'd speaker) option) \<Rightarrow>
     speaker_event \<Rightarrow> 'd speaker \<Rightarrow> 'd speaker option" where
  "speaker_step send handle (Reply q) s = map_option snd (send q s)"
| "speaker_step send handle Sent s = (if outstanding s = 0 then Some s else map_option snd (handle s))"

fun speaker_run ::
    "(dnsquery \<Rightarrow> 'd speaker \<Rightarrow> (exn option \<times> 'd speaker) option) \<Rightarrow> ('d speaker \<Rightarrow> (exn option \<times> 'd speaker) option) \<Rightarrow>
     speaker_event list \<Rightarrow> 'd speaker \<Rightarrow> 'd speaker option" where
  "speaker_run send handle [] s = Some s"
| "speaker_run send handle (e # es) s = Option.bind (speaker_step send handle e s) (speaker_run send handle es)"

end
