(* ===== verification/Dns_Replies.thy ===== *)
theory Dns_Replies
  imports Dns_Speaker
begin

text \<open>
  How the speakers of the gateway deliver replies, proved once over the locale \<open>reply_speaker\<close> and used for UDP and TCP: in
  order and one at a time, as long as every reply can be composed; and what one reply that cannot does to all later ones.
\<close>

section \<open>A speaker\<close>

text \<open>\<open>render\<close> is what a query puts on the wire, if it can be composed.\<close>

locale reply_speaker =
  fixes send :: "dnsquery \<Rightarrow> 'd speaker \<Rightarrow> (exn option \<times> 'd speaker) option"
    and handle :: "'d speaker \<Rightarrow> (exn option \<times> 'd speaker) option"
    and render :: "dnsquery \<Rightarrow> 'd option"
    and cap :: nat
  assumes send_busy: "send_in_progress s \<Longrightarrow> send q s = Some (None,
      if length (reply_buf s) = cap then s\<lparr>dropped := dropped s @ [q]\<rparr> else s\<lparr>reply_buf := reply_buf s @ [q]\<rparr>)"
    and send_idle: "\<not> send_in_progress s \<Longrightarrow> render q = Some d \<Longrightarrow> send q s = Some (None,
      s\<lparr>send_in_progress := True, sent := sent s @ [d], answered := answered s @ [q], outstanding := outstanding s + 1\<rparr>)"
    and send_throws: "\<not> send_in_progress s \<Longrightarrow> render q = None \<Longrightarrow> \<exists>e. send q s = Some (Some e, s\<lparr>send_in_progress := True\<rparr>)"
    and handle_last: "reply_buf s = [] \<Longrightarrow>
      handle s = Some (None, s\<lparr>outstanding := outstanding s - 1, send_in_progress := False\<rparr>)"
    and handle_next: "reply_buf s = q # qs \<Longrightarrow>
      handle s = send q (s\<lparr>outstanding := outstanding s - 1, send_in_progress := False, reply_buf := qs\<rparr>)"
begin

text \<open>The state after some requests, as long as all of them can be composed.\<close>

definition in_order :: "dnsquery list \<Rightarrow> 'd speaker \<Rightarrow> bool" where
  "in_order requests s \<longleftrightarrow> outstanding s = (if send_in_progress s then 1 else 0) \<and> (\<not> send_in_progress s \<longrightarrow> reply_buf s = []) \<and>
     length (reply_buf s) \<le> cap \<and> map Some (sent s) = map render (answered s) \<and>
     subseq (answered s @ reply_buf s) requests \<and> mset requests = mset (answered s @ reply_buf s @ dropped s) \<and>
     (\<forall>q\<in>set (reply_buf s). render q \<noteq> None)"

lemma in_order_reply:
  assumes "in_order requests s" and "render q \<noteq> None"
  shows "\<exists>s'. speaker_step send handle (Reply q) s = Some s' \<and> in_order (requests @ [q]) s'"
proof (cases "send_in_progress s")
  case True
  have sub: "subseq (answered s @ reply_buf s @ [q]) (requests @ [q])"
    using assms(1) list_emb_append_mono[of "(=)" "answered s @ reply_buf s" requests "[q]" "[q]"] by (simp add: in_order_def)
  have "subseq (answered s @ reply_buf s) (requests @ [q])" using assms(1) by (auto simp: in_order_def intro: subseq_rev_drop_many)
  with True sub assms send_busy[OF True] show ?thesis by (auto simp: in_order_def)
next
  case False
  obtain d where d: "render q = Some d" using assms(2) by blast
  have "reply_buf s = []" using assms(1) False by (simp add: in_order_def)
  then have "subseq (answered s @ [q]) (requests @ [q])"
    using assms(1) list_emb_append_mono[of "(=)" "answered s" requests "[q]" "[q]"] by (simp add: in_order_def)
  with False assms d send_idle[OF False d] show ?thesis by (auto simp: in_order_def)
qed

lemma in_order_sent:
  assumes "in_order requests s"
  shows "\<exists>s'. speaker_step send handle Sent s = Some s' \<and> in_order requests s'"
proof (cases "reply_buf s")
  case Nil
  with assms handle_last[OF Nil] show ?thesis by (auto simp: in_order_def)
next
  case (Cons q qs)
  let ?s = "s\<lparr>outstanding := outstanding s - 1, send_in_progress := False, reply_buf := qs\<rparr>"
  obtain d where d: "render q = Some d" using assms Cons by (auto simp: in_order_def)
  have b: "send_in_progress s" using assms Cons by (auto simp: in_order_def)
  with assms Cons d handle_next[OF Cons] send_idle[of ?s q d] show ?thesis by (auto simp: in_order_def)
qed

fun requests_of :: "speaker_event list \<Rightarrow> dnsquery list" where
  "requests_of [] = []"
| "requests_of (Reply q # es) = q # requests_of es"
| "requests_of (Sent # es) = requests_of es"

lemma in_order_run:
  "in_order requests s \<Longrightarrow> list_all (\<lambda>q. render q \<noteq> None) (requests_of es) \<Longrightarrow>
   \<exists>s'. speaker_run send handle es s = Some s' \<and> in_order (requests @ requests_of es) s'"
proof (induction es arbitrary: requests s)
  case (Cons e es)
  show ?case
  proof (cases e)
    case (Reply q)
    with Cons.prems(2) have q: "render q \<noteq> None" "list_all (\<lambda>q. render q \<noteq> None) (requests_of es)" by simp_all
    from in_order_reply[OF Cons.prems(1) q(1)] obtain s1 where
      1: "speaker_step send handle (Reply q) s = Some s1" "in_order (requests @ [q]) s1" by blast
    from Cons.IH[OF 1(2) q(2)] 1(1) Reply show ?thesis by auto
  next
    case Sent
    from in_order_sent[OF Cons.prems(1)] obtain s1 where
      1: "speaker_step send handle Sent s = Some s1" "in_order requests s1" by blast
    with Cons.IH[OF 1(2)] Cons.prems(2) Sent show ?thesis by auto
  qed
qed simp

lemma in_order_new: "in_order [] speaker_new"
  by (simp add: in_order_def speaker_new_def)

text \<open>A speaker whose flag is set although no send is outstanding.\<close>

definition blocked :: "'d speaker \<Rightarrow> bool" where
  "blocked s \<longleftrightarrow> send_in_progress s \<and> outstanding s = 0 \<and> length (reply_buf s) \<le> cap"

lemma blocks: "\<not> send_in_progress s \<Longrightarrow> render q = None \<Longrightarrow> outstanding s = 0 \<Longrightarrow> reply_buf s = [] \<Longrightarrow>
    \<exists>e s'. send q s = Some (Some e, s') \<and> blocked s' \<and> sent s' = sent s"
  using send_throws[of s q] by (auto simp: blocked_def)

lemma blocked_run:
  "blocked s \<Longrightarrow> \<exists>s'. speaker_run send handle es s = Some s' \<and> blocked s' \<and> sent s' = sent s \<and>
     (\<exists>ds. dropped s' = dropped s @ ds \<and> reply_buf s' @ ds = reply_buf s @ requests_of es) \<and>
     length (reply_buf s') = min cap (length (reply_buf s) + length (requests_of es))"
proof (induction es arbitrary: s)
  case Nil
  then show ?case by (simp add: blocked_def)
next
  case (Cons e es)
  show ?case
  proof (cases e)
    case (Reply q)
    let ?s = "if length (reply_buf s) = cap then s\<lparr>dropped := dropped s @ [q]\<rparr> else s\<lparr>reply_buf := reply_buf s @ [q]\<rparr>"
    have "blocked ?s" using Cons.prems by (auto simp: blocked_def)
    from Cons.IH[OF this] obtain s' where s': "speaker_run send handle es ?s = Some s'" "blocked s'" "sent s' = sent s"
      "\<exists>ds. dropped s' = dropped ?s @ ds \<and> reply_buf s' @ ds = reply_buf ?s @ requests_of es"
      "length (reply_buf s') = min cap (length (reply_buf ?s) + length (requests_of es))" by auto
    then obtain ds where ds: "dropped s' = dropped ?s @ ds" "reply_buf s' @ ds = reply_buf ?s @ requests_of es" by blast
    have "\<exists>ds. dropped s' = dropped s @ ds \<and> reply_buf s' @ ds = reply_buf s @ requests_of (e # es)"
    proof (cases "length (reply_buf s) = cap")
      case True
      with ds(2) s'(5) have "reply_buf s' = reply_buf s" "ds = requests_of es" by (auto dest: append_eq_append_conv[THEN iffD1, rotated])
      with ds(1) True Reply show ?thesis by simp
    next
      case False
      with ds Reply show ?thesis by simp
    qed
    with s' Cons.prems Reply send_busy[of s q] show ?thesis by (auto simp: blocked_def)
  next
    case Sent
    with Cons show ?thesis by (auto simp: blocked_def)
  qed
qed

end

section \<open>UDP and TCP\<close>

definition render_in :: "nat \<Rightarrow> (dnsquery \<Rightarrow> bytes \<Rightarrow> 'd) \<Rightarrow> dnsquery \<Rightarrow> 'd option" where
  "render_in room frame q = (case compose_dns_response q room of Returns body \<Rightarrow> Some (frame q body) | _ \<Rightarrow> None)"

lemma reply_speaker_in: "reply_speaker (send_reply_in cap room frame) (handle_send_reply_in cap room frame) (render_in room frame) cap"
proof (unfold_locales, goal_cases)
  case (3 s q)
  then show ?case using compose_defined[of q room]
    by (auto simp: render_in_def send_reply_in_def Let_def is_defined_def split: outcome.splits)
qed (auto simp: render_in_def send_reply_in_def handle_send_reply_in_def Let_def split: outcome.splits)

interpretation udp: reply_speaker udp_send_reply udp_handle_send_reply "render_in 500 udp_frame" 50
  unfolding udp_send_reply_def udp_handle_send_reply_def by (rule reply_speaker_in)

interpretation tcp: reply_speaker tcp_send_reply tcp_handle_send_reply "render_in 1024 tcp_frame" 5
  unfolding tcp_send_reply_def tcp_handle_send_reply_def by (rule reply_speaker_in)

text \<open>Which requests there were.\<close>

fun replies :: "speaker_event list \<Rightarrow> dnsquery list" where
  "replies [] = []"
| "replies (Reply q # es) = q # replies es"
| "replies (Sent # es) = replies es"

lemma requests_of_replies: "udp.requests_of es = replies es" "tcp.requests_of es = replies es"
  by (induction es rule: replies.induct) simp_all

lemma render_ok:
  "query_ok q \<Longrightarrow> length (body_wire q) \<le> room \<Longrightarrow> render_in room frame q = Some (frame q (body_wire q))"
  by (simp add: render_in_def compose_fits)

lemma rendered: "list_all (\<lambda>q. query_ok q \<and> length (body_wire q) \<le> room) qs \<Longrightarrow> list_all (\<lambda>q. render_in room frame q \<noteq> None) qs"
  by (auto simp: list_all_iff render_ok)

section \<open>Properties\<close>



text \<open>A reply that cannot be composed blocks its speaker.\<close>

lemma udp_reply_blocks:
  assumes "compose_dns_response q 500 = Throws e" and "\<not> send_in_progress s" and "outstanding s = 0" and "reply_buf s = []"
  shows "\<exists>e s1 s2 ds. udp_send_reply q s = Some (Some e, s1) \<and>
    speaker_run udp_send_reply udp_handle_send_reply es s1 = Some s2 \<and> sent s2 = sent s \<and>
    reply_buf s2 @ ds = replies es \<and> dropped s2 = dropped s1 @ ds \<and> length (reply_buf s2) = min 50 (length (replies es))"
proof -
  have "render_in 500 udp_frame q = None" using assms(1) by (simp add: render_in_def)
  from udp.blocks[OF assms(2) this assms(3,4)] udp.send_throws[OF assms(2) this] obtain e s1 where
    1: "udp_send_reply q s = Some (Some e, s1)" "udp.blocked s1" "sent s1 = sent s" "reply_buf s1 = []"
    using assms(4) by auto
  from udp.blocked_run[OF 1(2), of es] obtain s2 ds where
    "speaker_run udp_send_reply udp_handle_send_reply es s1 = Some s2" "sent s2 = sent s1" "dropped s2 = dropped s1 @ ds"
    "reply_buf s2 @ ds = replies es" "length (reply_buf s2) = min 50 (length (replies es))"
    using 1(4) by (auto simp: requests_of_replies)
  with 1 show ?thesis by auto
qed

text \<open>A query for a name, as a datagram.\<close>

definition query_header :: "ushort \<Rightarrow> bytes" where
  "query_header i = short_be i @ [0, 0, 0, 1, 0, 0, 0, 0, 0, 0]"

definition query_datagram :: "ushort \<Rightarrow> cstring list \<Rightarrow> ushort \<Rightarrow> bytes" where
  "query_datagram i ls t = query_header i @ labels_wire ls @ [0] @ short_be t @ short_be C_IN"

lemma query_header_fields:
  "hdr_id (query_header i) = i" "\<not> hdr_rd (query_header i)" "header_valid (query_header i)" "hdr_qdcount (query_header i) = 1"
  "hdr_ancount (query_header i) = 0" "hdr_nscount (query_header i) = 0" "hdr_arcount (query_header i) = 0"
  "length (query_header i) = 12"
  using be_short_be[of i] by (simp_all add: query_header_def header_valid_def header_defs short_be_def be_short_def)

lemma length_labels_wire: "length (labels_wire ls) = length (labels_name ls)"
  by (induction ls) (simp_all add: labels_wire_def labels_name_def)

lemma query_datagram_accepted:
  assumes "list_all label_ok ls" and "length (concat ls) \<le> 255" and "length (labels_name ls) \<le> 495"
  shows "handle_datagram_received sndr (query_datagram i ls t) = Some (Accepted ((dnsquery_new sndr)\<lparr>query_id := i,
    questions := [\<lparr>question_name = labels_name ls, qtype = t, qclass = C_IN\<rparr>]\<rparr>))"
proof -
  have "take (HEADER_LENGTH + 500) (query_datagram i ls t) = query_datagram i ls t"
    using assms(3) by (simp add: query_datagram_def query_header_fields length_labels_wire HEADER_LENGTH_def)
  moreover have "take 12 (query_datagram i ls t) = query_header i"
    "drop 12 (query_datagram i ls t) = labels_wire ls @ [0] @ short_be t @ short_be C_IN"
    by (simp_all add: query_datagram_def query_header_fields)
  moreover have "parse_name (labels_wire ls @ 0 # rest) = Returns (labels_name ls, rest)" for rest
    using parse_labels_enc[OF assms(1), of 0 rest "[]"] assms(2) by (simp add: parse_name_def)
  moreover have "parse_short (short_be C_IN) = Returns (C_IN, [])" using field_dec(1)[of C_IN "[]"] by simp
  ultimately show ?thesis
    by (simp add: handle_datagram_received_def receive_query_def HEADER_LENGTH_def query_header_fields parse_dns_query_def
        parse_question_def parse_qtype_def parse_qclass_def field_dec add_question_def dnsquery_new_def Let_def)
       (simp add: query_datagram_def query_header_fields)
qed

text \<open>
  C26. One datagram can silence the gateway. A query whose labels have at most 255 octets but whose name, with its dots, has more is
  accepted by the parser; a reply to it, with whatever code, cannot be composed, and if it is requested from an idle UDP
  speaker, the exception leaves the flag set with no send outstanding. After that no event makes the speaker send anything again:
  the next 50 replies are kept and all others dropped.
\<close>

theorem long_name_blocks_udp:
  assumes "list_all label_ok ls" and "length (concat ls) \<le> 255" and "255 < length (labels_name ls)" and "length (labels_name ls) \<le> 495"
    and "\<not> send_in_progress s" and "outstanding s = 0" and "reply_buf s = []"
  shows "\<exists>q e s1 s2 ds. handle_datagram_received sndr (query_datagram i ls t) = Some (Accepted q) \<and>
    udp_send_reply (q\<lparr>query_rcode := r\<rparr>) s = Some (Some e, s1) \<and>
    speaker_run udp_send_reply udp_handle_send_reply es s1 = Some s2 \<and> sent s2 = sent s \<and>
    reply_buf s2 @ ds = replies es \<and> dropped s2 = dropped s1 @ ds \<and> length (reply_buf s2) = min 50 (length (replies es))"
proof -
  let ?q = "(dnsquery_new sndr)\<lparr>query_id := i, questions := [\<lparr>question_name = labels_name ls, qtype = t, qclass = C_IN\<rparr>]\<rparr>"
  have "compose_dns_response (?q\<lparr>query_rcode := r\<rparr>) 500 = Throws (Invalid_name_length (length (labels_name ls)))"
    using assms(3) by (simp add: compose_dns_response_def write_question_def write_name_def dnsquery_new_def)
  from udp_reply_blocks[OF this assms(5-7)] query_datagram_accepted[OF assms(1,2,4)] show ?thesis by blast
qed

lemma long_labels:
  "list_all label_ok (replicate 4 (replicate 63 97))" "length (concat (replicate 4 (replicate 63 97 :: cstring))) = 252"
  "length (labels_name (replicate 4 (replicate 63 97))) = 256"
  by (simp_all add: label_ok_def list_all_iff labels_name_def map_replicate_const length_concat sum_list_replicate)

lemma long_name_blocks_udp_witness:
  "\<exists>q e s1 s2. handle_datagram_received (Udp_endpoint 7) (query_datagram 1 (replicate 4 (replicate 63 97)) 16) = Some (Accepted q) \<and>
    udp_send_reply (q\<lparr>query_rcode := R_NOT_IMPLEMENTED\<rparr>) speaker_new = Some (Some e, s1) \<and>
    speaker_run udp_send_reply udp_handle_send_reply [Reply example_query] s1 = Some s2 \<and> sent s2 = []"
proof -
  let ?s = "speaker_new :: (sender \<times> bytes) speaker"
  have n: "length (concat (replicate 4 (replicate 63 97 :: cstring))) \<le> 255"
    "255 < length (labels_name (replicate 4 (replicate 63 97)))" "length (labels_name (replicate 4 (replicate 63 97))) \<le> 495"
    unfolding long_labels by simp_all
  have s: "\<not> send_in_progress ?s" "outstanding ?s = 0" "reply_buf ?s = []" "sent ?s = []" by (simp_all add: speaker_new_def)
  from long_name_blocks_udp[OF long_labels(1) n s(1-3), of "Udp_endpoint 7" 1 16 R_NOT_IMPLEMENTED "[Reply example_query]"]
  show ?thesis unfolding s(4) by blast
qed

end
