(* ===== verification/Dns_Stream.thy ===== *)
theory Dns_Stream
  imports Dns_Replies
begin

text \<open>
  What a client reaches over TCP: the queries of a stream of messages, each after its length, and what a length does that no
  message has.
\<close>

definition tcp_message :: "bytes \<Rightarrow> bytes" where
  "tcp_message message = short_be (of_nat (length message)) @ message"

definition accepts :: "sender \<Rightarrow> bytes \<Rightarrow> dnsquery \<Rightarrow> bool" where
  "accepts sndr message q \<longleftrightarrow> HEADER_LENGTH \<le> length message \<and> length message \<le> HEADER_LENGTH + 1024 \<and>
     receive_query sndr message = Some (Accepted q)"

lemma unat_short: "n < 65536 \<Longrightarrow> unat (of_nat n :: ushort) = n"
  by (simp add: unat_of_nat take_bit_nat_eq_self)

lemma short_long: "(ucast w :: clong) = of_nat (unat w)" for w :: ushort
  by simp

lemma asked_for:
  assumes "HEADER_LENGTH \<le> n" and "n \<le> HEADER_LENGTH + 1024"
  shows "handle_msg_len_read (of_nat n) = Some n"
proof -
  have u: "unat (of_nat n :: ushort) = n" using assms(2) by (intro unat_short) (simp add: HEADER_LENGTH_def)
  have "(ucast (of_nat n :: ushort) - of_nat HEADER_LENGTH :: clong) = of_nat (n - HEADER_LENGTH)"
    unfolding short_long u using assms(1) by (simp only: of_nat_diff)
  moreover have "unat (of_nat (n - HEADER_LENGTH) :: clong) = n - HEADER_LENGTH"
    using assms(2) unfolding unat_of_nat by (intro mod_less) (simp add: HEADER_LENGTH_def)
  ultimately show ?thesis using assms unfolding handle_msg_len_read_def u by simp
qed

lemma asked_for_short:
  assumes "unat len < HEADER_LENGTH"
  shows "handle_msg_len_read len = Some (HEADER_LENGTH + 1024)"
proof -
  have eq: "(ucast len - of_nat HEADER_LENGTH :: clong) = - of_nat (HEADER_LENGTH - unat len)"
    unfolding short_long using assms by (simp add: of_nat_diff)
  have big: "1024 \<le> unat (- of_nat k :: clong)" if "0 < k" "k \<le> 12" for k
  proof -
    from that have "k = 1 \<or> k = 2 \<or> k = 3 \<or> k = 4 \<or> k = 5 \<or> k = 6 \<or> k = 7 \<or> k = 8 \<or> k = 9 \<or> k = 10 \<or> k = 11 \<or> k = 12"
      by presburger
    then show ?thesis by (auto simp: unsigned_minus_1_eq_mask mask_eq_exp_minus_1)
  qed
  have "1024 \<le> unat (- of_nat (HEADER_LENGTH - unat len) :: clong)"
    by (rule big) (use assms in \<open>simp_all add: HEADER_LENGTH_def\<close>)
  then have "1024 \<le> unat (ucast len - of_nat HEADER_LENGTH :: clong)" unfolding eq .
  then show ?thesis using assms by (simp add: handle_msg_len_read_def)
qed

lemma read_message:
  assumes "accepts sndr m q"
  shows "dns_connection_read sndr (tcp_message m @ rest) = q # dns_connection_read sndr rest"
proof -
  have "handle_msg_len_read (of_nat (length m)) = Some (length m)" using assms by (intro asked_for) (simp_all add: accepts_def)
  then show ?thesis
    using assms by (subst dns_connection_read.simps) (simp add: tcp_message_def accepts_def be_short_be)
qed



end
