(* ===== verification/Ha_Protocol.thy ===== *)
theory Ha_Protocol
  imports Receive Dns_Message
begin

text \<open>
  \<^verbatim>\<open>src/dnsgw/haproxy.cpp\<close>, the protocol of the gateway with the home agents: the request it composes for a query, and how it
  reads a reply from a connection. The home agents' side of the protocol are the message classes of \<^verbatim>\<open>klink\<close>.
\<close>

section \<open>Device names\<close>

definition to_lower :: "byte \<Rightarrow> byte" where   \<comment> \<open>\<^verbatim>\<open>tolower\<close> in the C locale\<close>
  "to_lower c = (if 65 \<le> c \<and> c \<le> 90 then c + 32 else c)"

text \<open>\<^verbatim>\<open>name.substr(name.length() - i->length())\<close> throws when the suffix is longer than the name.\<close>

fun remove_suffix :: "cstring \<Rightarrow> cstring list \<Rightarrow> cstring outcome" where
  "remove_suffix name [] = Throws No_valid_suffix"
| "remove_suffix name (i # suffixes) =
     (if length name < length i then Throws Out_of_range
      else if map to_lower (drop (length name - length i) name) = i then Returns (take (length name - length i) name)
      else remove_suffix name suffixes)"

section \<open>The request\<close>

abbreviation "ABS_GET \<equiv> 5 :: byte"
abbreviation "ABS_REPLY \<equiv> 43 :: byte"

text \<open>Integers are copied as they are in memory. A length is converted to \<^verbatim>\<open>absint_t\<close>.\<close>

definition write_abs_int :: "cint \<Rightarrow> writer \<Rightarrow> writer outcome" where
  "write_abs_int val w = run_then (check_room_len 4 w) (\<lambda>_. put_bytes (int_bytes val) w)"

definition write_abs_chars :: "cstring \<Rightarrow> writer \<Rightarrow> writer outcome" where
  "write_abs_chars s w = run_then (check_room_len (length s) w) (\<lambda>_. put_bytes s w)"

definition write_abs_string :: "cstring \<Rightarrow> writer \<Rightarrow> writer outcome" where
  "write_abs_string s w = run_then (write_abs_int (of_nat (length s)) w) (write_abs_chars s)"

definition write_abs_zero :: "nat \<Rightarrow> writer \<Rightarrow> writer outcome" where
  "write_abs_zero len w = run_then (check_room_len len w) (\<lambda>_. put_bytes (replicate len 0) w)"

definition unused_abs_header_len :: nat where
  "unused_abs_header_len = 1 + 1 + 4 + 8 + 4 + 4 + 4 + 4 + 4 + 4"

definition abs_reply_len_before_hostname :: nat where
  "abs_reply_len_before_hostname = 4 + 4 + 4 + 8 + 4 + 4 + 4 + 4 + 4"

definition write_abs_header ::
    "byte \<Rightarrow> cint \<Rightarrow> cstring \<Rightarrow> ushort \<Rightarrow> cstring \<Rightarrow> ushort \<Rightarrow> writer \<Rightarrow> writer outcome" where
  "write_abs_header msgid sequence hahostname haport nshostname nsport w =
     run_then (check_room w) (\<lambda>_.
     run_then (put_bytes [msgid] w) (\<lambda>w.
     run_then (write_abs_int sequence w) (\<lambda>w.
     run_then (write_abs_string hahostname w) (\<lambda>w.
     run_then (write_abs_int (ucast haport) w) (\<lambda>w.
     run_then (write_abs_string nshostname w) (\<lambda>w.
     run_then (write_abs_int (ucast nsport) w) (write_abs_zero unused_abs_header_len)))))))"

text \<open>Only the first question counts; its device name is noted in the metric of the query, even if there is no room for it.\<close>

definition write_abs_get :: "dnsquery \<Rightarrow> cstring list \<Rightarrow> writer \<Rightarrow> dnsquery \<times> writer outcome" where
  "write_abs_get query suffixes w =
     (case questions query of [] \<Rightarrow> (query, Returns w)
      | question # _ \<Rightarrow>
        (case remove_suffix (question_name question) suffixes of
           Undefined \<Rightarrow> (query, Undefined)
         | Throws e \<Rightarrow> (query, Throws e)
         | Returns devicename \<Rightarrow> (query\<lparr>device_name := devicename\<rparr>, write_abs_string devicename w)))"

text \<open>What the constructor of \<^verbatim>\<open>hasendconnection\<close> puts into its array of 256 bytes.\<close>

definition compose_request :: "cstring \<Rightarrow> ushort \<Rightarrow> cstring \<Rightarrow> ushort \<Rightarrow> cstring list \<Rightarrow> dnsquery \<Rightarrow> dnsquery \<times> bytes outcome" where
  "compose_request hahostname haport nshostname nsport suffixes query =
     (case write_abs_header ABS_GET (ucast (query_id query)) hahostname haport nshostname nsport ([], 256) of
        Undefined \<Rightarrow> (query, Undefined)
      | Throws e \<Rightarrow> (query, Throws e)
      | Returns w \<Rightarrow> map_prod id (\<lambda>m. run_then m (\<lambda>w. Returns (fst w))) (write_abs_get query suffixes w))"

section \<open>The reply\<close>

text \<open>
  A read of \<open>len + k\<close> bytes, computed in \<^verbatim>\<open>size_t\<close>, into the array of 256 bytes; asio reads no more than fit.
\<close>

definition read_size :: "cint \<Rightarrow> nat \<Rightarrow> nat" where
  "read_size len k = min 256 (unat (scast len + of_nat k :: clong))"

definition read_abs_int :: "bytes \<Rightarrow> cint" where
  "read_abs_int bs = bytes_int bs"

text \<open>The integer in the last four bytes read; with fewer, this is before the array.\<close>

definition last_int :: "bytes \<Rightarrow> cint option" where
  "last_int got = (if length got < 4 then None else Some (read_abs_int (drop (length got - 4) got)))"

text \<open>
  What a connection from a home agent leads to: nothing, an error while the address is read, or a reply with the sequence number,
  the length of the address as \<^verbatim>\<open>size_t\<close> and the array. A failing read is the end of the stream.
\<close>

datatype reply_read = Ignored | Body_error ushort | Reply_for ushort nat bytes

definition handle_read_to_devicenamelen :: "ushort \<Rightarrow> cint \<Rightarrow> bytes \<Rightarrow> reply_read option" where
  "handle_read_to_devicenamelen sequence hostlen stream =
     (let n = read_size hostlen 8; got = take n stream in
      if length stream < n then Some (Body_error sequence)
      else Option.bind (last_int got) (\<lambda>devicenamelen. Some (Reply_for sequence (unat (scast hostlen :: clong)) got)))"

definition handle_read_to_replyhostlen :: "ushort \<Rightarrow> bytes \<Rightarrow> reply_read option" where
  "handle_read_to_replyhostlen sequence stream =
     (let n = abs_reply_len_before_hostname; got = take n stream in
      if length stream < n then Some Ignored
      else Option.bind (last_int got) (\<lambda>hostlen. handle_read_to_devicenamelen sequence hostlen (drop n stream)))"

definition handle_absheader_read :: "ushort \<Rightarrow> cint \<Rightarrow> bytes \<Rightarrow> reply_read option" where
  "handle_absheader_read sequence srchostlen stream =
     (let n = read_size srchostlen (4 + unused_abs_header_len) in
      if length stream < n then Some Ignored else handle_read_to_replyhostlen sequence (drop n stream))"

definition handle_read_to_srchostlen :: "ushort \<Rightarrow> cint \<Rightarrow> bytes \<Rightarrow> reply_read option" where
  "handle_read_to_srchostlen sequence desthostlen stream =
     (let n = read_size desthostlen 8; got = take n stream in
      if length stream < n then Some Ignored
      else Option.bind (last_int got) (\<lambda>srchostlen. handle_absheader_read sequence srchostlen (drop n stream)))"

text \<open>A sequence number above 65535 is logged, and the number of the connection stays 0.\<close>

definition handle_read_to_desthostlen :: "bytes \<Rightarrow> reply_read option" where
  "handle_read_to_desthostlen stream =
     (let got = take 9 stream in
      if length stream < 9 \<or> hd got \<noteq> ABS_REPLY then Some Ignored
      else
        let sequence = read_abs_int (take 4 (drop 1 got)) in
        Option.bind (last_int got) (\<lambda>desthostlen.
        handle_read_to_srchostlen (if sint sequence \<le> 65535 then ucast sequence else 0) desthostlen (drop 9 stream)))"

end
