(* ===== verification/Gateway.thy ===== *)
theory Gateway
  imports Ha_Protocol "HOL-Library.Signed_Division"
begin

text \<open>
  The gateway between its speakers and the home agents: \<^verbatim>\<open>src/dnsgw/haloadbalancer.cpp\<close>, and the query map, the connections and
  the proxies of \<^verbatim>\<open>src/dnsgw/haproxy.cpp\<close>. The handlers that asio runs are the steps of a state; a query object is its
  index in the list of all queries. \<^verbatim>\<open>complete_query\<close> hands a query to its speaker, which \<open>Dns_Speaker\<close> models.
\<close>

section \<open>The state\<close>

record agent =
  enabled :: bool
  hahostname :: cstring
  haport :: ushort

text \<open>
  \<open>query_map\<close> is \<^verbatim>\<open>querymap\<close>; \<open>waits\<close> are the queries whose timer has a pending wait, and \<open>aborted\<close> those whose wait was
  cancelled and whose handler, which asio still runs, has not run yet. \<open>connecting\<close> and \<open>sending\<close> are the connections to home
  agents that wait for the connection or for the request to be written, with agent and request.
\<close>

record gateway =
  queries :: "dnsquery list"
  query_map :: "ushort \<Rightarrow> nat option"
  waits :: "nat list"
  aborted :: "nat list"
  connecting :: "(nat \<times> nat \<times> bytes) list"
  sending :: "(nat \<times> nat \<times> bytes) list"
  requested :: "(nat \<times> nat \<times> bytes) list"
  completed :: "(nat \<times> dnsquery) list"
  lb_offset :: clong
  agents :: "agent list"

datatype ip_address = V4 cint | V6 "128 word"

text \<open>The configuration, and \<^verbatim>\<open>ip::address::from_string\<close> of asio.\<close>

record gateway_env =
  nshostname :: cstring
  nsport :: ushort
  suffixes :: "cstring list"
  answer_ttl :: ushort
  address_from_string :: "cstring \<Rightarrow> ip_address option"

definition gateway_new :: "agent list \<Rightarrow> gateway" where
  "gateway_new as = \<lparr>queries = [], query_map = (\<lambda>_. None), waits = [], aborted = [], connecting = [], sending = [],
     requested = [], completed = [], lb_offset = 0, agents = as\<rparr>"

section \<open>Completing queries\<close>

definition update_query :: "nat \<Rightarrow> (dnsquery \<Rightarrow> dnsquery) \<Rightarrow> gateway \<Rightarrow> gateway" where
  "update_query i f s = s\<lparr>queries := (queries s)[i := f (queries s ! i)]\<rparr>"

definition complete_query :: "nat \<Rightarrow> rcode_t \<Rightarrow> result_t \<Rightarrow> gateway \<Rightarrow> gateway" where
  "complete_query i rcode result s =
     (let s = update_query i (\<lambda>q. q\<lparr>query_rcode := rcode, metric_result := result\<rparr>) s in
      s\<lparr>completed := completed s @ [(i, queries s ! i)]\<rparr>)"

section \<open>\<^verbatim>\<open>querymap\<close>\<close>

definition querymap_insert :: "nat \<Rightarrow> gateway \<Rightarrow> bool \<times> gateway" where
  "querymap_insert i s =
     (let k = query_id (queries s ! i) in
      case query_map s k of Some _ \<Rightarrow> (False, s)
      | None \<Rightarrow> (True, s\<lparr>query_map := (query_map s)(k \<mapsto> i), waits := waits s @ [i]\<rparr>))"

text \<open>A cancelled wait still calls its handler, later.\<close>

definition cancel_timer :: "nat \<Rightarrow> gateway \<Rightarrow> gateway" where
  "cancel_timer i s = (if i \<in> set (waits s) then s\<lparr>waits := remove1 i (waits s), aborted := aborted s @ [i]\<rparr> else s)"

definition querymap_remove :: "ushort \<Rightarrow> gateway \<Rightarrow> nat option \<times> gateway" where
  "querymap_remove k s =
     (case query_map s k of None \<Rightarrow> (None, s)
      | Some i \<Rightarrow> (Some i, cancel_timer i (s\<lparr>query_map := (query_map s)(k := None)\<rparr>)))"

text \<open>The handler of the timer, bound to the id; it does not look at the error code.\<close>

definition expire :: "ushort \<Rightarrow> gateway \<Rightarrow> gateway" where
  "expire k s = (case querymap_remove k s of (None, s) \<Rightarrow> s | (Some i, s) \<Rightarrow> complete_query i R_NAME_ERROR TIMEOUT s)"

section \<open>Sending requests\<close>

text \<open>
  \<^verbatim>\<open>hasendproxy::process_query\<close> with the constructor of \<^verbatim>\<open>hasendconnection\<close>; both exceptions, that of the composer and that of
  a duplicate id, end here.
\<close>

definition agent_process_query :: "gateway_env \<Rightarrow> nat \<Rightarrow> nat \<Rightarrow> gateway \<Rightarrow> gateway option" where
  "agent_process_query env a i s =
     (let ha = agents s ! a;
          (query, request) = compose_request (hahostname ha) (haport ha) (nshostname env) (nsport env) (suffixes env) (queries s ! i);
          s = update_query i (\<lambda>_. query) s in
      case request of
        Undefined \<Rightarrow> None
      | Throws e \<Rightarrow> Some (complete_query i R_NAME_ERROR INVALID_REQUEST s)
      | Returns bs \<Rightarrow>
        (case querymap_insert i s of
           (False, s) \<Rightarrow> Some s
         | (True, s) \<Rightarrow> Some (s\<lparr>connecting := connecting s @ [(i, a, bs)]\<rparr>)))"

definition sanity_check :: "nat \<Rightarrow> gateway \<Rightarrow> bool \<times> gateway" where
  "sanity_check i s =
     (case questions (queries s ! i) of
        question # _ \<Rightarrow>
          if qtype question \<noteq> T_A \<or> qclass question \<noteq> C_IN then (False, complete_query i R_NOT_IMPLEMENTED INVALID_REQUEST s)
          else (True, s)
      | [] \<Rightarrow> (False, complete_query i R_SERVER_FAILURE HA_CONNECTION_ERROR s))"

text \<open>The loop over the agents, from the selected one on and around; \<open>cnt\<close> counts down from the number of agents.\<close>

fun balance_loop :: "nat \<Rightarrow> nat \<Rightarrow> agent list \<Rightarrow> nat option" where
  "balance_loop 0 hs as = None"
| "balance_loop (Suc cnt) hs as =
     (if enabled (as ! hs) then Some hs else balance_loop cnt (if Suc hs = length as then 0 else Suc hs) as)"

text \<open>
  The offset is a signed counter; its remainder modulo the number of agents is truncated. Without agents this is a division by zero, a
  negative remainder would point before the first agent.
\<close>

definition lb_process_query :: "gateway_env \<Rightarrow> nat \<Rightarrow> gateway \<Rightarrow> gateway option" where
  "lb_process_query env i s =
     (case sanity_check i s of (False, s) \<Rightarrow> Some s
      | (True, s) \<Rightarrow>
        let n = length (agents s); my_offset = sint (lb_offset s); s = s\<lparr>lb_offset := lb_offset s + 1\<rparr>;
            hs = my_offset smod int n in
        if n = 0 \<or> hs < 0 then None else
        case balance_loop n (nat hs) (agents s) of
          Some a \<Rightarrow> agent_process_query env a i s
        | None \<Rightarrow> Some (complete_query i R_SERVER_FAILURE HA_CONNECTION_ERROR s))"

text \<open>A query from a speaker is a new object.\<close>

definition process_query :: "gateway_env \<Rightarrow> dnsquery \<Rightarrow> gateway \<Rightarrow> gateway option" where
  "process_query env q s = lb_process_query env (length (queries s)) (s\<lparr>queries := queries s @ [q]\<rparr>)"

text \<open>The handlers of a connection to a home agent.\<close>

definition connection_failed :: "nat \<Rightarrow> gateway \<Rightarrow> gateway" where
  "connection_failed i s =
     complete_query i R_SERVER_FAILURE HA_CONNECTION_ERROR (snd (querymap_remove (query_id (queries s ! i)) s))"

definition handle_connect :: "bool \<Rightarrow> nat \<times> nat \<times> bytes \<Rightarrow> gateway \<Rightarrow> gateway" where
  "handle_connect ec c s =
     (let s = s\<lparr>connecting := remove1 c (connecting s)\<rparr> in
      if \<not> ec then s\<lparr>sending := sending s @ [c]\<rparr> else connection_failed (fst c) s)"

definition handle_query_sent :: "bool \<Rightarrow> nat \<times> nat \<times> bytes \<Rightarrow> gateway \<Rightarrow> gateway" where
  "handle_query_sent ec c s =
     (let s = s\<lparr>sending := remove1 c (sending s)\<rparr> in
      if \<not> ec then s\<lparr>requested := requested s @ [c]\<rparr> else connection_failed (fst c) s)"

section \<open>Receiving replies\<close>

definition v6_bytes :: "128 word \<Rightarrow> bytes" where
  "v6_bytes w = map (\<lambda>i. ucast (drop_bit (8 * i) w)) (rev [0..<16])"

definition answer_rr :: "gateway_env \<Rightarrow> cstring \<Rightarrow> ip_address \<Rightarrow> dnsrr" where
  "answer_rr env name addr =
     (case addr of
        V4 a \<Rightarrow> \<lparr>rr_name = name, rtype = T_A, rclass = C_IN, ttl = ucast (answer_ttl env), rdlength = 4, rdata = ulong_be a\<rparr>
      | V6 a \<Rightarrow> \<lparr>rr_name = name, rtype = T_AAAA, rclass = C_IN, ttl = ucast (answer_ttl env), rdlength = 16, rdata = v6_bytes a\<rparr>)"

text \<open>The end of \<^verbatim>\<open>handle_read_to_devicenamelen\<close>, with the length of the address and the array.\<close>

definition answer_query :: "gateway_env \<Rightarrow> ushort \<Rightarrow> nat \<Rightarrow> bytes \<Rightarrow> gateway \<Rightarrow> gateway" where
  "answer_query env sequence hostlen buf s =
     (case querymap_remove sequence s of (None, s) \<Rightarrow> s
      | (Some i, s) \<Rightarrow>
        let name = question_name (hd (questions (queries s ! i))) in
        if hostlen = 0 then complete_query i R_NAME_ERROR HA_RETURNED_ERROR s
        else if 256 > hostlen then
          (case address_from_string env (takeWhile (\<lambda>c. c \<noteq> 0) (take hostlen buf)) of
             Some addr \<Rightarrow> complete_query i R_SUCCESS SUCCESS (update_query i (add_answer (answer_rr env name addr)) s)
           | None \<Rightarrow> complete_query i R_SERVER_FAILURE UNKNOWN s)
        else complete_query i R_SERVER_FAILURE UNKNOWN s)"

definition home_agent_reply :: "gateway_env \<Rightarrow> bytes \<Rightarrow> gateway \<Rightarrow> gateway option" where
  "home_agent_reply env stream s =
     (case handle_read_to_desthostlen stream of
        None \<Rightarrow> None
      | Some Ignored \<Rightarrow> Some s
      | Some (Body_error sequence) \<Rightarrow>
        (case querymap_remove sequence s of (None, s) \<Rightarrow> Some s
         | (Some i, s) \<Rightarrow> Some (complete_query i R_SERVER_FAILURE UNKNOWN s))
      | Some (Reply_for sequence hostlen buf) \<Rightarrow> Some (answer_query env sequence hostlen buf s))"

section \<open>Steps\<close>

text \<open>
  An event that the state does not allow changes nothing: a handler runs only for a connection or a timer that waits for it.
\<close>

datatype gateway_event =
  Query dnsquery | Resolved nat | Connected "nat \<times> nat \<times> bytes" bool | Query_sent "nat \<times> nat \<times> bytes" bool
| Home_agent bytes | Timer nat | Cancelled nat

fun gateway_step :: "gateway_env \<Rightarrow> gateway_event \<Rightarrow> gateway \<Rightarrow> gateway option" where
  "gateway_step env (Query q) s = process_query env q s"
| "gateway_step env (Resolved a) s =
     Some (if a < length (agents s) then s\<lparr>agents := (agents s)[a := (agents s ! a)\<lparr>enabled := True\<rparr>]\<rparr> else s)"
| "gateway_step env (Connected c ec) s = Some (if c \<in> set (connecting s) then handle_connect ec c s else s)"
| "gateway_step env (Query_sent c ec) s = Some (if c \<in> set (sending s) then handle_query_sent ec c s else s)"
| "gateway_step env (Home_agent stream) s = home_agent_reply env stream s"
| "gateway_step env (Timer i) s =
     Some (if i \<in> set (waits s) then expire (query_id (queries s ! i)) (s\<lparr>waits := remove1 i (waits s)\<rparr>) else s)"
| "gateway_step env (Cancelled i) s =
     Some (if i \<in> set (aborted s) then expire (query_id (queries s ! i)) (s\<lparr>aborted := remove1 i (aborted s)\<rparr>) else s)"

fun gateway_run :: "gateway_env \<Rightarrow> gateway_event list \<Rightarrow> gateway \<Rightarrow> gateway option" where
  "gateway_run env [] s = Some s"
| "gateway_run env (e # es) s = Option.bind (gateway_step env e s) (gateway_run env es)"

end
