(* ===== verification/Ha_Interop.thy ===== *)
theory Ha_Interop
  imports Ha_Protocol Dns_Roundtrip
begin

text \<open>
  The gateway and the home agents understand each other: a request of the gateway is received by a home agent as a GET to
  initiate, and the GET reply of a home agent is read by the gateway.
\<close>

section \<open>The request on the wire\<close>

lemma abs_writers_defined [defined_intros]:
  "is_defined (write_abs_int v w)" "is_defined (write_abs_chars s w)" "is_defined (write_abs_zero n w)"
  by (auto simp: write_abs_int_def write_abs_chars_def write_abs_zero_def intro!: run_then_defined defined_intros)

lemma write_abs_Returns:
  "write_abs_int v w = Returns w' \<Longrightarrow> w' = (fst w @ int_bytes v, snd w - 4) \<and> 4 \<le> snd w"
  "write_abs_chars s w = Returns w' \<Longrightarrow> w' = (fst w @ s, snd w - length s) \<and> length s \<le> snd w"
  "write_abs_zero n w = Returns w' \<Longrightarrow> w' = (fst w @ replicate n 0, snd w - n) \<and> n \<le> snd w"
  by (auto simp: write_abs_int_def write_abs_chars_def write_abs_zero_def run_then_Returns put_bytes_Returns)

lemma write_abs_string_Returns:
  "write_abs_string s w = Returns w' \<Longrightarrow>
   w' = (fst w @ concat (string_chunks s), snd w - (4 + length s)) \<and> 4 + length s \<le> snd w"
  by (auto simp: write_abs_string_def run_then_Returns string_chunks_def dest!: write_abs_Returns)

text \<open>The message a home agent makes of a request.\<close>

definition request_message :: "cstring \<Rightarrow> ushort \<Rightarrow> cstring \<Rightarrow> ushort \<Rightarrow> ushort \<Rightarrow> cstring \<Rightarrow> PeerInitiateGET" where
  "request_message hahostname haport nshostname nsport i devicename =
     ABSMessage.extend \<lparr>messageType = MSG_PEER_INITIATE_GET, sequence_no = ucast i, dest_host = hahostname, dest_port = ucast haport,
       source_host = nshostname, source_port = ucast nsport, overlay_hops = 0, overlay_ttl = 0, ip_hops = 0, latency = 0,
       dst_oid = raw_oid, src_oid = raw_oid\<rparr> (PeerInitiateGET.fields devicename)"

lemma zeros: "concat ([[0], [0], int_bytes 0, double_bytes 0] @ oid_chunks raw_oid @ oid_chunks raw_oid) = replicate 38 0"
  by (simp add: oid_chunks_def raw_oid_def OverlayID_new_def GetOverlay_id_def int_bytes_def double_bytes_def numeral_eq_Suc)

lemma request_wire:
  assumes "compose_request hahostname haport nshostname nsport suffixes query = (query', Returns bs)"
    and "questions query = question # qs"
  shows "\<exists>devicename. remove_suffix (question_name question) suffixes = Returns devicename \<and>
    query' = query\<lparr>device_name := devicename\<rparr> \<and> length bs \<le> 256 \<and>
    length hahostname + length nshostname + length devicename + 63 = length bs \<and>
    bs = concat (base_chunks (request_message hahostname haport nshostname nsport (query_id query) devicename))
      @ concat (string_chunks devicename)"
proof -
  from assms obtain w devicename w' where
    h: "write_abs_header ABS_GET (ucast (query_id query)) hahostname haport nshostname nsport ([], 256) = Returns w"
    and d: "remove_suffix (question_name question) suffixes = Returns devicename" "query' = query\<lparr>device_name := devicename\<rparr>"
    and w': "write_abs_string devicename w = Returns w'" "bs = fst w'"
    by (auto simp: compose_request_def write_abs_get_def run_then_Returns split: outcome.splits)
  have w: "fst w = [5] @ int_bytes (ucast (query_id query)) @ concat (string_chunks hahostname) @ int_bytes (ucast haport)
      @ concat (string_chunks nshostname) @ int_bytes (ucast nsport) @ replicate 38 0"
    "snd w + length (fst w) = 256"
    using h by (auto simp: write_abs_header_def run_then_Returns put_bytes_Returns unused_abs_header_len_def
        dest!: write_abs_Returns write_abs_string_Returns)
  have "bs = concat (base_chunks (request_message hahostname haport nshostname nsport (query_id query) devicename))
      @ concat (string_chunks devicename)"
    unfolding w'(2) using write_abs_string_Returns[OF w'(1)] w(1)
    by (simp add: base_chunks_def request_message_def ABSMessage.defs zeros[symmetric])
  moreover have "length bs \<le> 256" "length hahostname + length nshostname + length devicename + 63 = length bs"
    unfolding w'(2) using write_abs_string_Returns[OF w'(1)] w by auto
  ultimately show ?thesis using d by blast
qed

text \<open>What a home agent receives.\<close>

lemma request_received_by:
  assumes "compose_request hahostname haport nshostname nsport suffixes query = (query', Returns bs)"
    and "questions query = question # qs"
  shows "\<exists>devicename. remove_suffix (question_name question) suffixes = Returns devicename \<and>
    receive fill network_size gen (map Some bs) =
      Some (Some (gen + 1, Msg_INITIATE_GET (request_message hahostname haport nshostname nsport (query_id query) devicename)))"
proof -
  from request_wire[OF assms] obtain devicename where
    d: "remove_suffix (question_name question) suffixes = Returns devicename" "length bs \<le> 256"
      "length hahostname + length nshostname + length devicename + 63 = length bs"
      "bs = concat (base_chunks (request_message hahostname haport nshostname nsport (query_id query) devicename))
        @ concat (string_chunks devicename)" by blast
  let ?m = "request_message hahostname haport nshostname nsport (query_id query) devicename"
  have b: "base_ok ?m" "string_ok devicename"
    using d(2,3) by (simp_all add: base_ok_def string_ok_def request_message_def ABSMessage.defs int_key_def raw_oid_def
        OverlayID_new_def GetOverlay_id_def)
  have ty: "rd_char (map Some bs) = Some (MSG_PEER_INITIATE_GET, drop 1 (map Some bs))"
    unfolding d(4) by (simp add: base_chunks_def request_message_def ABSMessage.defs rd_char_Cons)
  have "PeerInitiateGET_deserialize (map Some bs) m0 = Some ?m" for m0
  proof -
    have l: "drop (getBaseSize (copy_base ?m m0)) (map Some (concat (base_chunks ?m)) @ map Some (concat (string_chunks devicename))) =
        map Some (concat (string_chunks devicename))"
      using drop_base[of ?m "map Some (concat (string_chunks devicename))"] by simp
    have "PeerInitiateGET_deserialize (map Some bs) m0 = Some ((copy_base ?m m0)\<lparr>ig_device_name := devicename\<rparr>)"
      unfolding d(4) map_append PeerInitiateGET_deserialize_def base_decode[OF b(1)] Let_def bind.bind_lunit l
      using string_field.dec_enc_end[OF b(2)] by simp
    also have "(copy_base ?m m0)\<lparr>ig_device_name := devicename\<rparr> = ?m"
      by (simp add: copy_base_def request_message_def ABSMessage.defs PeerInitiateGET.defs PeerInitiateGET.equality)
    finally show ?thesis .
  qed
  then have "receive fill network_size gen (map Some bs) = Some (Some (gen + 1, Msg_INITIATE_GET ?m))"
    by (simp add: receive_def ty)
  with d(1) show ?thesis by blast
qed

section \<open>The reply on the wire\<close>

lemma last_int_app: "last_int (bs @ int_bytes v) = Some v"
  by (simp add: last_int_def read_abs_int_def)

lemma read_size_small: "l + k \<le> 256 \<Longrightarrow> read_size (of_nat l) k = l + k"
proof -
  assume l: "l + k \<le> 256"
  then have "(scast (of_nat l :: cint) :: clong) + of_nat k = of_nat (l + k)" using scast_small[of l] by simp
  moreover have "unat (of_nat (l + k) :: clong) = l + k" using l by (subst unat_of_nat) simp
  ultimately show ?thesis using l by (simp add: read_size_def)
qed

text \<open>The reads, one after the other.\<close>

lemma read_desthostlen:
  "handle_read_to_desthostlen (ABS_REPLY # int_bytes v @ int_bytes l @ rest) =
    handle_read_to_srchostlen (if sint v \<le> 65535 then ucast v else 0) l rest"
  using last_int_app[of "ABS_REPLY # int_bytes v" l]
  by (simp add: handle_read_to_desthostlen_def Let_def read_abs_int_def)

lemma read_srchostlen:
  "length h + 8 \<le> 256 \<Longrightarrow>
   handle_read_to_srchostlen i (of_nat (length h)) (h @ int_bytes p @ int_bytes v @ rest) = handle_absheader_read i v rest"
  using last_int_app[of "h @ int_bytes p" v] by (simp add: handle_read_to_srchostlen_def Let_def read_size_small)

lemma read_absheader:
  "length h + 42 \<le> 256 \<Longrightarrow> length x = 38 \<Longrightarrow>
   handle_absheader_read i (of_nat (length h)) (h @ int_bytes p @ x @ rest) = handle_read_to_replyhostlen i rest"
  by (simp add: handle_absheader_read_def Let_def read_size_small unused_abs_header_len_def)

lemma read_replyhostlen:
  "length x = 36 \<Longrightarrow> handle_read_to_replyhostlen i (x @ int_bytes v @ rest) = handle_read_to_devicenamelen i v rest"
  using last_int_app[of x v] by (simp add: handle_read_to_replyhostlen_def Let_def abs_reply_len_before_hostname_def)

lemma read_devicenamelen:
  assumes "length h + 8 \<le> 256"
  shows "handle_read_to_devicenamelen i (of_nat (length h)) (h @ int_bytes p @ int_bytes v @ rest) =
    Some (Reply_for i (length h) (h @ int_bytes p @ int_bytes v))"
proof -
  have "unat (scast (of_nat (length h) :: cint) :: clong) = length h"
    using assms scast_small[of "length h"] by (simp add: unat_of_nat)
  then show ?thesis using assms last_int_app[of "h @ int_bytes p" v]
    by (simp add: handle_read_to_devicenamelen_def Let_def read_size_small)
qed

definition reply_chunks :: "MessageGET_REPLY \<Rightarrow> byte list list" where
  "reply_chunks m = [int_bytes (gr_status m), int_bytes (gr_hops m), int_bytes (gr_ip_hops m),
     double_bytes (gr_latency m), int_bytes (gr_origin_seq_no m)] @ oid_chunks (gr_target_oid m)
     @ string_chunks (hostName (gr_host_address m)) @ [int_bytes (hostPort (gr_host_address m))] @ string_chunks (gr_device_name m)"

lemma reply_serialized: "MessageGET_REPLY_serialize True m = Some (map Some (concat (base_chunks m) @ concat (reply_chunks m)))"
  by (simp add: MessageGET_REPLY_serialize_def temp_chars_def serialize_with_eq MessageGET_REPLY_getSize_def reply_chunks_def)

lemma reply_read_by:
  assumes "messageType m = MSG_PLEXUS_GET_REPLY" and "0 \<le> sint (sequence_no m)" and "sint (sequence_no m) \<le> 65535"
    and "length (dest_host m) \<le> 248" and "length (source_host m) \<le> 214" and "length (hostName (gr_host_address m)) \<le> 248"
  shows "\<exists>buf. handle_read_to_desthostlen (concat (base_chunks m) @ concat (reply_chunks m)) =
      Some (Reply_for (ucast (sequence_no m)) (length (hostName (gr_host_address m))) buf) \<and>
    take (length (hostName (gr_host_address m))) buf = hostName (gr_host_address m)"
proof -
  let ?h = "hostName (gr_host_address m)"
  define x where "x = [overlay_hops m, overlay_ttl m] @ int_bytes (ip_hops m) @ double_bytes (latency m)
    @ concat (oid_chunks (dst_oid m)) @ concat (oid_chunks (src_oid m))"
  define y where "y = int_bytes (gr_status m) @ int_bytes (gr_hops m) @ int_bytes (gr_ip_hops m) @ double_bytes (gr_latency m)
    @ int_bytes (gr_origin_seq_no m) @ concat (oid_chunks (gr_target_oid m))"
  have l: "length x = 38" "length y = 36" by (simp_all add: x_def y_def del: length_concat)
  have "concat (base_chunks m) @ concat (reply_chunks m) =
    ABS_REPLY # int_bytes (sequence_no m) @ int_bytes (of_nat (length (dest_host m))) @ dest_host m @ int_bytes (dest_port m)
    @ int_bytes (of_nat (length (source_host m))) @ source_host m @ int_bytes (source_port m) @ x @ y
    @ int_bytes (of_nat (length ?h)) @ ?h @ int_bytes (hostPort (gr_host_address m))
    @ int_bytes (of_nat (length (gr_device_name m))) @ gr_device_name m"
    using assms(1) by (simp add: base_chunks_def reply_chunks_def x_def y_def string_chunks_def)
  then show ?thesis
    using assms l by (simp add: read_desthostlen read_srchostlen read_absheader read_replyhostlen read_devicenamelen)
qed

section \<open>Properties\<close>

text \<open>
  C14. The bytes the gateway composes for a query are a message that a home agent receives as the request to initiate a GET: of the
  device name, the name of the question without its suffix, with the id of the query as sequence number, and the gateway as the source
  to reply to.
\<close>

theorem request_received:
  assumes "compose_request hahostname haport nshostname nsport suffixes query = (query', Returns bs)"
    and "questions query = question # qs"
  shows "\<exists>devicename. remove_suffix (question_name question) suffixes = Returns devicename \<and>
    receive fill network_size gen (map Some bs) =
      Some (Some (gen + 1, Msg_INITIATE_GET (request_message hahostname haport nshostname nsport (query_id query) devicename)))"
  by (rule request_received_by[OF assms])

lemma example_request:
  "remove_suffix (question_name (hd (questions example_query))) [[112, 119, 46, 110, 101, 116, 46]] = Returns [119, 119, 119, 46]"
  by (simp add: example_query_def example_name_def labels_name_def to_lower_def)

lemma request_received_witness:
  "\<exists>query' bs. compose_request [104] 80 [103] 53 [[112, 119, 46, 110, 101, 116, 46]] example_query = (query', Returns bs) \<and>
    receive None 4 0 (map Some bs) = Some (Some (1, Msg_INITIATE_GET (request_message [104] 80 [103] 53 0x1234 [119, 119, 119, 46])))"
proof -
  obtain q where "questions example_query = [q]" unfolding example_query_def by simp
  with example_request have q: "questions example_query = [q]"
    "remove_suffix (question_name q) [[112, 119, 46, 110, 101, 116, 46]] = Returns [119, 119, 119, 46]"
    by (simp_all del: remove_suffix.simps)
  have "\<exists>query' bs. compose_request [104] 80 [103] 53 [[112, 119, 46, 110, 101, 116, 46]] example_query = (query', Returns bs)"
    by (simp add: compose_request_def write_abs_header_def write_abs_get_def q write_abs_int_def write_abs_string_def
        write_abs_chars_def write_abs_zero_def check_room_def check_room_len_def put_bytes_def unused_abs_header_len_def
        del: remove_suffix.simps)
  then obtain query' bs where r: "compose_request [104] 80 [103] 53 [[112, 119, 46, 110, 101, 116, 46]] example_query = (query', Returns bs)"
    by blast
  from request_received[OF r q(1), of None 4 0] q(2) have
    "receive None 4 0 (map Some bs) = Some (Some (1, Msg_INITIATE_GET (request_message [104] 80 [103] 53 (query_id example_query) [119, 119, 119, 46])))"
    by auto
  with r show ?thesis by (simp add: example_query_def)
qed

text \<open>
  C15. A GET reply that a home agent writes, with strings that fit into the array of the gateway and a sequence number that is an id,
  is read by the gateway as the reply for this id, and the array starts with the address.
\<close>

theorem reply_understood:
  assumes "messageType m = MSG_PLEXUS_GET_REPLY" and "0 \<le> sint (sequence_no m)" and "sint (sequence_no m) \<le> 65535"
    and "length (dest_host m) \<le> 248" and "length (source_host m) \<le> 214" and "length (hostName (gr_host_address m)) \<le> 248"
  shows "\<exists>bs buf. serialize True rv (Msg_GET_REPLY m) = Some (map Some bs) \<and>
    handle_read_to_desthostlen bs = Some (Reply_for (ucast (sequence_no m)) (length (hostName (gr_host_address m))) buf) \<and>
    take (length (hostName (gr_host_address m))) buf = hostName (gr_host_address m)"
  using reply_read_by[OF assms] reply_serialized[of m] unfolding serialize.simps by blast

lemma reply_understood_witness:
  "\<exists>bs buf. serialize True 0 (Msg_GET_REPLY (ABSMessage.extend (raw_base\<lparr>messageType := 43, sequence_no := 7\<rparr>)
      (MessageGET_REPLY.fields 0 0 0 0 0 raw_oid (HostAddress_new [49, 48] 80) [100]))) = Some (map Some bs) \<and>
    handle_read_to_desthostlen bs = Some (Reply_for 7 2 buf)"
  using reply_understood[of "ABSMessage.extend (raw_base\<lparr>messageType := 43, sequence_no := 7\<rparr>)
      (MessageGET_REPLY.fields 0 0 0 0 0 raw_oid (HostAddress_new [49, 48] 80) [100])" 0]
  by (auto simp: ABSMessage.defs MessageGET_REPLY.defs raw_base_def HostAddress_new_def)

end
