(* ===== verification/Gateway_Behaviour.thy ===== *)
theory Gateway_Behaviour
  imports Gateway Ha_Interop
begin

text \<open>
  What the gateway does with queries: an invariant of its state while no two queries have the same id, from which every query is
  answered, or still has a timer that will answer it; and what goes wrong when an id is used again.
\<close>

section \<open>The invariant\<close>

definition in_map :: "gateway \<Rightarrow> nat \<Rightarrow> bool" where
  "in_map s i \<longleftrightarrow> query_map s (query_id (queries s ! i)) = Some i"

definition times_completed :: "gateway \<Rightarrow> nat \<Rightarrow> nat" where
  "times_completed s i = count_list (map fst (completed s)) i"

definition connections :: "gateway \<Rightarrow> nat list" where
  "connections s = map fst (connecting s @ sending s)"

text \<open>
  \<open>A\<close> are the queries that are being completed. Every other query is in the map, with a timer, or has been completed; a
  connection can complete its query a second time.
\<close>

definition count_ok :: "nat set \<Rightarrow> gateway \<Rightarrow> nat \<Rightarrow> bool" where
  "count_ok A s i \<longleftrightarrow> (if i \<in> A then \<not> in_map s i \<and> times_completed s i + of_bool (i \<in> set (connections s)) \<le> 1
     else times_completed s i + of_bool (i \<in> set (connections s)) + of_bool (in_map s i) \<le> 2 \<and>
       (in_map s i \<longleftrightarrow> times_completed s i = 0))"

definition gateway_inv :: "nat set \<Rightarrow> gateway \<Rightarrow> bool" where
  "gateway_inv A s \<longleftrightarrow> distinct (map query_id (queries s)) \<and>
     (\<forall>k i. query_map s k = Some i \<longrightarrow> i < length (queries s) \<and> query_id (queries s ! i) = k \<and> questions (queries s ! i) \<noteq> []) \<and>
     distinct (waits s) \<and> (\<forall>i. i \<in> set (waits s) \<longleftrightarrow> i < length (queries s) \<and> in_map s i) \<and>
     (\<forall>i. i \<in> set (aborted s) \<longrightarrow> i < length (queries s) \<and> \<not> in_map s i) \<and>
     distinct (connections s) \<and> (\<forall>i. i \<in> set (connections s) \<longrightarrow> i < length (queries s)) \<and>
     (\<forall>i. i < length (queries s) \<longrightarrow> count_ok A s i) \<and>
     (\<forall>i. i \<in> A \<longrightarrow> i < length (queries s)) \<and> (\<forall>i. i \<in> fst ` set (completed s) \<longrightarrow> i < length (queries s))"

lemma gateway_invD:
  assumes "gateway_inv A s"
  shows "distinct (map query_id (queries s))" "query_map s k = Some i \<Longrightarrow> i < length (queries s)"
    "query_map s k = Some i \<Longrightarrow> query_id (queries s ! i) = k" "query_map s k = Some i \<Longrightarrow> questions (queries s ! i) \<noteq> []"
    "query_map s k = Some i \<Longrightarrow> in_map s i" "distinct (waits s)" "i \<in> set (waits s) \<longleftrightarrow> i < length (queries s) \<and> in_map s i"
    "i \<in> set (aborted s) \<Longrightarrow> i < length (queries s) \<and> \<not> in_map s i"
  using assms by (auto simp: gateway_inv_def in_map_def)

lemma gateway_invD2:
  assumes "gateway_inv A s"
  shows "distinct (connections s)" "i \<in> set (connections s) \<Longrightarrow> i < length (queries s)" "i \<in> A \<Longrightarrow> i < length (queries s)"
    "i \<in> fst ` set (completed s) \<Longrightarrow> i < length (queries s)" "i < length (queries s) \<Longrightarrow> count_ok A s i"
  using assms unfolding gateway_inv_def by blast+

lemma gateway_invI:
  assumes "distinct (map query_id (queries s))"
    and "\<And>k i. query_map s k = Some i \<Longrightarrow> i < length (queries s) \<and> query_id (queries s ! i) = k \<and> questions (queries s ! i) \<noteq> []"
    and "distinct (waits s)" and "\<And>i. i \<in> set (waits s) \<longleftrightarrow> i < length (queries s) \<and> in_map s i"
    and "\<And>i. i \<in> set (aborted s) \<Longrightarrow> i < length (queries s) \<and> \<not> in_map s i"
    and "distinct (connections s)" and "\<And>i. i \<in> set (connections s) \<Longrightarrow> i < length (queries s)"
    and "\<And>i. i < length (queries s) \<Longrightarrow> count_ok A s i"
    and "\<And>i. i \<in> A \<Longrightarrow> i < length (queries s)" and "\<And>i. i \<in> fst ` set (completed s) \<Longrightarrow> i < length (queries s)"
  shows "gateway_inv A s"
  using assms unfolding gateway_inv_def by blast

text \<open>Two queries with the same id are the same query.\<close>

lemma same_id:
  "gateway_inv A s \<Longrightarrow> i < length (queries s) \<Longrightarrow> j < length (queries s) \<Longrightarrow>
   query_id (queries s ! i) = query_id (queries s ! j) \<Longrightarrow> i = j"
  using nth_eq_iff_index_eq[of "map query_id (queries s)" i j] by (simp add: gateway_inv_def)

text \<open>Changing what no part of the invariant depends on.\<close>

lemma update_query_inv:
  assumes "query_id (f (queries s ! i)) = query_id (queries s ! i)" and "questions (f (queries s ! i)) = questions (queries s ! i)"
  shows "gateway_inv A (update_query i f s) \<longleftrightarrow> gateway_inv A s"
proof -
  have n: "query_id ((queries s)[i := f (queries s ! i)] ! j) = query_id (queries s ! j)"
    "questions ((queries s)[i := f (queries s ! i)] ! j) = questions (queries s ! j)" for j
    using assms by (cases "i < length (queries s)"; cases "i = j"; simp add: list_update_beyond)+
  have m: "map query_id ((queries s)[i := f (queries s ! i)]) = map query_id (queries s)"
    using n(1) by (simp add: list_eq_iff_nth_eq)
  have u: "in_map (update_query i f s) = in_map s" "times_completed (update_query i f s) = times_completed s"
    "connections (update_query i f s) = connections s"
    using n(1) by (auto simp: in_map_def times_completed_def connections_def update_query_def fun_eq_iff)
  from n m show ?thesis unfolding gateway_inv_def count_ok_def u by (simp add: update_query_def)
qed

section \<open>Completing a query\<close>

lemma complete_inv:
  assumes "gateway_inv {i} s"
  shows "gateway_inv {} (complete_query i rcode result s)"
proof -
  let ?f = "\<lambda>q. q\<lparr>query_rcode := rcode, metric_result := result\<rparr>"
  let ?s = "update_query i ?f s"
  have inv: "gateway_inv {i} ?s" using assms by (simp add: update_query_inv)
  have c: "complete_query i rcode result s = ?s\<lparr>completed := completed ?s @ [(i, queries ?s ! i)]\<rparr>"
    by (simp add: complete_query_def Let_def)
  let ?t = "?s\<lparr>completed := completed ?s @ [(i, queries ?s ! i)]\<rparr>"
  have u: "in_map ?t = in_map ?s" "connections ?t = connections ?s"
    "times_completed ?t j = times_completed ?s j + of_bool (i = j)" for j
    by (auto simp: in_map_def connections_def times_completed_def fun_eq_iff)
  have "gateway_inv {} ?t"
  proof (rule gateway_invI)
    show "count_ok {} ?t j" if "j < length (queries ?t)" for j
      using that gateway_invD2(5)[OF inv, of j] by (auto simp: count_ok_def u split: if_splits)
    show "k < length (queries ?t) \<and> query_id (queries ?t ! k) = n \<and> questions (queries ?t ! k) \<noteq> []"
      if "query_map ?t n = Some k" for k n
      using that gateway_invD(2-4)[OF inv, of n k] by simp
    show "j < length (queries ?t)" if "j \<in> fst ` set (completed ?t)" for j
      using that gateway_invD2(3)[OF inv, of i] gateway_invD2(4)[OF inv, of j] by auto
  qed (use gateway_invD(1,6-8)[OF inv] gateway_invD2(1,2)[OF inv] in \<open>simp_all add: u\<close>)
  then show ?thesis by (simp only: c)
qed

lemma remove_none: "query_map s k = None \<Longrightarrow> querymap_remove k s = (None, s)"
  by (simp add: querymap_remove_def)

lemma remove_nothing: "querymap_remove k s = (None, t) \<Longrightarrow> t = s"
  by (auto simp: querymap_remove_def split: option.splits)

lemma remove_some:
  assumes "gateway_inv {} s" and "query_map s k = Some i"
  shows "querymap_remove k s = (Some i, s\<lparr>query_map := (query_map s)(k := None), waits := remove1 i (waits s),
      aborted := aborted s @ [i]\<rparr>)"
proof -
  have "i \<in> set (waits s)" using gateway_invD(2,5,7)[OF assms(1)] assms(2) by blast
  then show ?thesis using assms(2) by (simp add: querymap_remove_def cancel_timer_def)
qed

text \<open>The state after a query has left the map, whatever happened to its timer.\<close>

lemma removed_inv:
  assumes "gateway_inv {} s" and "query_map s k = Some i" and "set ab \<subseteq> insert i (set (aborted s))"
  shows "gateway_inv {i} (s\<lparr>query_map := (query_map s)(k := None), waits := remove1 i (waits s), aborted := ab\<rparr>)"
proof -
  let ?t = "s\<lparr>query_map := (query_map s)(k := None), waits := remove1 i (waits s), aborted := ab\<rparr>"
  have i: "i < length (queries s)" "query_id (queries s ! i) = k" "in_map s i" using gateway_invD(2,3,5)[OF assms(1,2)] .
  have other: "in_map ?t j \<longleftrightarrow> in_map s j \<and> j \<noteq> i" if "j < length (queries s)" for j
    using same_id[OF assms(1) that i(1)] i(2,3) by (auto simp: in_map_def)
  have u: "connections ?t = connections s" "times_completed ?t = times_completed s"
    by (auto simp: connections_def times_completed_def fun_eq_iff)
  have ab: "j < length (queries s) \<and> \<not> in_map ?t j" if "j \<in> set ab" for j
    using that assms(3) gateway_invD(8)[OF assms(1), of j] i(1) other[of j] by auto
  have w: "set (remove1 i (waits s)) = set (waits s) - {i}" using gateway_invD(6)[OF assms(1)] by simp
  show ?thesis
  proof (rule gateway_invI)
    show "j \<in> set (waits ?t) \<longleftrightarrow> j < length (queries ?t) \<and> in_map ?t j" for j
      using w other[of j] gateway_invD(7)[OF assms(1), of j] by auto
    show "m < length (queries ?t) \<and> query_id (queries ?t ! m) = n \<and> questions (queries ?t ! m) \<noteq> []"
      if "query_map ?t n = Some m" for m n
      using that gateway_invD(2-4)[OF assms(1), of n m] by (simp split: if_splits)
    show "j < length (queries ?t) \<and> \<not> in_map ?t j" if "j \<in> set (aborted ?t)" for j using that ab[of j] by simp
    show "count_ok {i} ?t j" if "j < length (queries ?t)" for j
      using that gateway_invD2(5)[OF assms(1), of j] other[of j] i(3) by (auto simp: count_ok_def u split: if_splits)
  qed (use i gateway_invD(1,6)[OF assms(1)] gateway_invD2(1-4)[OF assms(1)] in \<open>auto simp: u distinct_remove1\<close>)
qed

text \<open>A query that is not in the map is completed when its connection fails; only then is it completed for the second time.\<close>

lemma connection_failed_inv:
  assumes "gateway_inv {} s" and "i < length (queries s)" and "times_completed s i + of_bool (i \<in> set (connections s)) \<le> 1"
  shows "gateway_inv {} (connection_failed i s)"
proof (cases "query_map s (query_id (queries s ! i))")
  case None
  then have "\<not> in_map s i" by (simp add: in_map_def)
  with assms(3) have "count_ok {i} s j" if "j < length (queries s)" for j
    using gateway_invD2(5)[OF assms(1) that] by (simp add: count_ok_def)
  then have "gateway_inv {i} s"
    using assms(2) gateway_invD[OF assms(1)] gateway_invD2[OF assms(1)] by (intro gateway_invI) blast+
  then show ?thesis using None by (simp add: connection_failed_def remove_none complete_inv)
next
  case (Some j)
  then have "j = i" using same_id[OF assms(1) _ assms(2)] gateway_invD(2,3)[OF assms(1)] by blast
  with Some removed_inv[OF assms(1), of _ i "aborted s @ [i]"] show ?thesis
    by (simp add: connection_failed_def remove_some[OF assms(1) Some] complete_inv)
qed

lemma expire_inv:
  assumes "gateway_inv {} s" and "i \<in> set (waits s)"
  shows "gateway_inv {} (expire (query_id (queries s ! i)) (s\<lparr>waits := remove1 i (waits s)\<rparr>))"
proof -
  let ?k = "query_id (queries s ! i)"
  have i: "query_map s ?k = Some i" using gateway_invD(7)[OF assms(1), of i] assms(2) by (simp add: in_map_def)
  have "i \<notin> set (remove1 i (waits s))" using gateway_invD(6)[OF assms(1)] by simp
  then have "querymap_remove ?k (s\<lparr>waits := remove1 i (waits s)\<rparr>) =
      (Some i, s\<lparr>query_map := (query_map s)(?k := None), waits := remove1 i (waits s), aborted := aborted s\<rparr>)"
    using i by (simp add: querymap_remove_def cancel_timer_def)
  then show ?thesis using complete_inv[OF removed_inv[OF assms(1) i subset_insertI]] by (simp add: expire_def)
qed

text \<open>While no id is used twice, the handler of a cancelled timer finds nothing.\<close>

lemma expire_cancelled:
  assumes "gateway_inv {} s" and "i \<in> set (aborted s)"
  shows "expire (query_id (queries s ! i)) (s\<lparr>aborted := ab\<rparr>) = s\<lparr>aborted := ab\<rparr>"
proof -
  have "query_map s (query_id (queries s ! i)) = None"
  proof (rule ccontr)
    assume "query_map s (query_id (queries s ! i)) \<noteq> None"
    then obtain j where j: "query_map s (query_id (queries s ! i)) = Some j" by blast
    then have "j = i" using same_id[OF assms(1)] gateway_invD(2,3,8)[OF assms(1)] assms(2) by blast
    with j show False using gateway_invD(8)[OF assms] by (simp add: in_map_def)
  qed
  then show ?thesis by (simp add: expire_def remove_none)
qed

lemma aborted_inv:
  assumes "gateway_inv A s" and "set ab \<subseteq> set (aborted s)"
  shows "gateway_inv A (s\<lparr>aborted := ab\<rparr>)"
proof -
  have u: "in_map (s\<lparr>aborted := ab\<rparr>) = in_map s" "connections (s\<lparr>aborted := ab\<rparr>) = connections s"
    "times_completed (s\<lparr>aborted := ab\<rparr>) = times_completed s"
    by (simp_all add: in_map_def connections_def times_completed_def fun_eq_iff)
  from assms(2) have "\<forall>i. i \<in> set ab \<longrightarrow> i < length (queries s) \<and> \<not> in_map s i" using gateway_invD(8)[OF assms(1)] by blast
  moreover have "count_ok A (s\<lparr>aborted := ab\<rparr>) = count_ok A s" by (simp add: count_ok_def u fun_eq_iff)
  ultimately show ?thesis using assms(1) unfolding gateway_inv_def u by simp
qed

section \<open>A new query\<close>

lemma new_query_inv:
  assumes "gateway_inv {} s" and "query_id q \<notin> query_id ` set (queries s)"
  shows "gateway_inv {length (queries s)} (s\<lparr>queries := queries s @ [q]\<rparr>)"
    "times_completed (s\<lparr>queries := queries s @ [q]\<rparr>) (length (queries s)) = 0"
    "length (queries s) \<notin> set (connections (s\<lparr>queries := queries s @ [q]\<rparr>))" "length (queries s) \<notin> set (aborted s)"
proof -
  let ?t = "s\<lparr>queries := queries s @ [q]\<rparr>" and ?n = "length (queries s)"
  have t: "times_completed ?t = times_completed s" "connections ?t = connections s"
    by (simp_all add: times_completed_def connections_def fun_eq_iff)
  have "?n \<notin> fst ` set (completed s)" and c: "?n \<notin> set (connections s)"
    using gateway_invD2(2,4)[OF assms(1), of ?n] by auto
  then have z: "times_completed s ?n = 0" by (simp add: times_completed_def count_list_0_iff)
  then show "times_completed ?t ?n = 0" "?n \<notin> set (connections ?t)" using c by (simp_all add: t)
  show "?n \<notin> set (aborted s)" using gateway_invD(8)[OF assms(1)] by blast
  have m: "query_map s (query_id q) = None"
  proof (rule ccontr)
    assume "query_map s (query_id q) \<noteq> None"
    then obtain j where j: "query_map s (query_id q) = Some j" by blast
    from gateway_invD(2,3)[OF assms(1) j] assms(2) show False by (metis image_eqI nth_mem)
  qed
  have q: "queries ?t ! j = queries s ! j" "in_map ?t j = in_map s j" if "j < ?n" for j
    using that by (simp_all add: nth_append in_map_def)
  have new: "\<not> in_map ?t ?n" using m by (simp add: in_map_def)
  show "gateway_inv {?n} ?t"
  proof (rule gateway_invI)
    show "distinct (map query_id (queries ?t))" using gateway_invD(1)[OF assms(1)] assms(2) by auto
    show "k < length (queries ?t) \<and> query_id (queries ?t ! k) = n \<and> questions (queries ?t ! k) \<noteq> []"
      if "query_map ?t n = Some k" for k n
      using that gateway_invD(2-4)[OF assms(1), of n k] q(1)[of k] by simp
    show "j \<in> set (waits ?t) \<longleftrightarrow> j < length (queries ?t) \<and> in_map ?t j" for j
      using q(2)[of j] new gateway_invD(7)[OF assms(1), of j] by (auto simp: less_Suc_eq)
    show "j < length (queries ?t) \<and> \<not> in_map ?t j" if "j \<in> set (aborted ?t)" for j
      using that gateway_invD(8)[OF assms(1), of j] q(2)[of j] by simp
    show "count_ok {?n} ?t j" if "j < length (queries ?t)" for j
      using that gateway_invD2(5)[OF assms(1), of j] q(2)[of j] new z c by (auto simp: count_ok_def t less_Suc_eq)
  qed (use gateway_invD(6)[OF assms(1)] gateway_invD2(1-4)[OF assms(1)] in \<open>fastforce simp: t less_Suc_eq\<close>)+
qed

lemma insert_inv:
  assumes "gateway_inv {i} s" and "times_completed s i = 0" and "i \<notin> set (connections s)" and "i \<notin> set (aborted s)"
    and "questions (queries s ! i) \<noteq> []"
  obtains t where "querymap_insert i s = (True, t)" and "queries t = queries s"
    and "gateway_inv {} (t\<lparr>connecting := connecting t @ [(i, c)]\<rparr>)"
proof -
  let ?k = "query_id (queries s ! i)"
  have i: "i < length (queries s)" "\<not> in_map s i" using gateway_invD2(3,5)[OF assms(1), of i] by (simp_all add: count_ok_def)
  have m: "query_map s ?k = None"
  proof (rule ccontr)
    assume "query_map s ?k \<noteq> None"
    then obtain j where j: "query_map s ?k = Some j" by blast
    have "j = i" using same_id[OF assms(1) _ i(1)] gateway_invD(2,3)[OF assms(1) j] by blast
    with j i(2) show False by (simp add: in_map_def)
  qed
  let ?t = "s\<lparr>query_map := (query_map s)(?k \<mapsto> i), waits := waits s @ [i]\<rparr>"
  let ?u = "s\<lparr>query_map := (query_map s)(?k \<mapsto> i), waits := waits s @ [i], connecting := connecting s @ [(i, c)]\<rparr>"
  have other: "in_map ?u j \<longleftrightarrow> in_map s j \<or> j = i" if "j < length (queries s)" for j
    using same_id[OF assms(1) that i(1)] by (auto simp: in_map_def)
  have t: "times_completed ?u = times_completed s" by (simp add: times_completed_def fun_eq_iff)
  have c: "set (connections ?u) = insert i (set (connections s))" "distinct (connections ?u)"
    using gateway_invD2(1)[OF assms(1)] assms(3) by (auto simp: connections_def)
  have "gateway_inv {} ?u"
  proof (rule gateway_invI)
    show "distinct (map query_id (queries ?u))" using gateway_invD(1)[OF assms(1)] by simp
    show "j < length (queries ?u) \<and> query_id (queries ?u ! j) = k \<and> questions (queries ?u ! j) \<noteq> []"
      if "query_map ?u k = Some j" for k j
      using that gateway_invD(2-4)[OF assms(1), of k j] i(1) assms(5) by (simp split: if_splits)
    show "distinct (waits ?u)" using gateway_invD(6,7)[OF assms(1)] i(2) by simp
    show "j \<in> set (waits ?u) \<longleftrightarrow> j < length (queries ?u) \<and> in_map ?u j" for j
      using other[of j] gateway_invD(7)[OF assms(1), of j] i(1) by auto
    show "j < length (queries ?u) \<and> \<not> in_map ?u j" if "j \<in> set (aborted ?u)" for j
      using that gateway_invD(8)[OF assms(1), of j] other[of j] assms(4) by auto
    show "j < length (queries ?u)" if "j \<in> set (connections ?u)" for j
      using that gateway_invD2(2)[OF assms(1), of j] i(1) unfolding c by auto
    show "count_ok {} ?u j" if "j < length (queries ?u)" for j
      using that gateway_invD2(5)[OF assms(1), of j] other[of j] assms(2,3) by (auto simp: count_ok_def t c(1) split: if_splits)
  qed (use c(2) gateway_invD2(4)[OF assms(1)] in \<open>auto\<close>)
  moreover have "querymap_insert i s = (True, ?t)" using m by (simp add: querymap_insert_def)
  ultimately show thesis by (intro that[of ?t]) simp_all
qed

section \<open>Steps\<close>

abbreviation query_ids :: "gateway \<Rightarrow> ushort list" where
  "query_ids s \<equiv> map query_id (queries s)"

fun event_ids :: "gateway_event list \<Rightarrow> ushort list" where
  "event_ids [] = []"
| "event_ids (Query q # es) = query_id q # event_ids es"
| "event_ids (e # es) = event_ids es"

lemma compose_request_device: "compose_request h p n m suf q = (q', r) \<Longrightarrow> \<exists>d. q' = q\<lparr>device_name := d\<rparr>"
  by (auto simp: compose_request_def write_abs_get_def split: outcome.splits list.splits intro: exI[of _ "device_name q"])

lemma compose_request_query:
  "compose_request h p n m suf q = (q', r) \<Longrightarrow> query_id q' = query_id q \<and> questions q' = questions q"
  using compose_request_device by fastforce

lemma update_query_ids: "query_id (f (queries s ! i)) = query_id (queries s ! i) \<Longrightarrow> query_ids (update_query i f s) = query_ids s"
proof (rule nth_equalityI)
  fix j assume "query_id (f (queries s ! i)) = query_id (queries s ! i)" and "j < length (query_ids (update_query i f s))"
  then show "query_ids (update_query i f s) ! j = query_ids s ! j" by (cases "i = j") (simp_all add: update_query_def)
qed (simp add: update_query_def)

lemma complete_query_ids [simp]: "query_ids (complete_query i r m s) = query_ids s"
  by (simp add: complete_query_def Let_def update_query_ids)

lemma remove_queries [simp]: "queries (snd (querymap_remove k s)) = queries s"
  by (simp add: querymap_remove_def cancel_timer_def split: option.splits)

lemma remove_queries' : "querymap_remove k s = (r, t) \<Longrightarrow> queries t = queries s"
  using remove_queries[of k s] by simp

lemma expire_ids [simp]: "query_ids (expire k s) = query_ids s"
  by (auto simp: expire_def remove_queries' split: prod.splits option.splits)

lemma connection_failed_ids [simp]: "query_ids (connection_failed i s) = query_ids s"
  by (simp add: connection_failed_def)

text \<open>A query that came from a speaker ends in the map or completed.\<close>

lemma agent_process_query_inv:
  assumes "gateway_inv {i} s" and "times_completed s i = 0" and "i \<notin> set (connections s)" and "i \<notin> set (aborted s)"
    and "questions (queries s ! i) \<noteq> []" and "agent_process_query env a i s = Some t"
  shows "gateway_inv {} t \<and> query_ids t = query_ids s"
proof -
  obtain query request where c: "compose_request (hahostname (agents s ! a)) (haport (agents s ! a)) (nshostname env) (nsport env)
      (suffixes env) (queries s ! i) = (query, request)" by fastforce
  let ?s = "update_query i (\<lambda>_. query) s"
  have q: "query_id query = query_id (queries s ! i)" "questions query = questions (queries s ! i)"
    using compose_request_query[OF c] by simp_all
  have i: "i < length (queries s)" using gateway_invD2(3)[OF assms(1)] by simp
  have inv: "gateway_inv {i} ?s" using assms(1) q by (simp add: update_query_inv)
  have ids: "query_ids ?s = query_ids s" using q(1) by (rule update_query_ids)
  have s: "times_completed ?s i = 0" "i \<notin> set (connections ?s)" "i \<notin> set (aborted ?s)" "questions (queries ?s ! i) \<noteq> []"
    using assms(2-5) q(2) i by (simp_all add: update_query_def times_completed_def connections_def)
  show ?thesis
  proof (cases request)
    case (Returns bs)
    obtain u where u: "querymap_insert i ?s = (True, u)" "queries u = queries ?s"
      and "gateway_inv {} (u\<lparr>connecting := connecting u @ [(i, a, bs)]\<rparr>)"
      using insert_inv[OF inv s] by blast
    moreover have "t = u\<lparr>connecting := connecting u @ [(i, a, bs)]\<rparr>"
      using assms(6) u(1) by (simp add: agent_process_query_def Let_def c Returns)
    ultimately show ?thesis using ids by simp
  qed (use assms(6) ids complete_inv[OF inv] in \<open>auto simp: agent_process_query_def Let_def c\<close>)
qed

lemma lb_offset_inv: "gateway_inv A (s\<lparr>lb_offset := k\<rparr>) = gateway_inv A s"
  by (simp add: gateway_inv_def count_ok_def in_map_def connections_def times_completed_def)

lemma lb_process_query_inv:
  assumes "gateway_inv {i} s" and "times_completed s i = 0" and "i \<notin> set (connections s)" and "i \<notin> set (aborted s)"
    and "lb_process_query env i s = Some t"
  shows "gateway_inv {} t \<and> query_ids t = query_ids s"
proof (cases "questions (queries s ! i) \<noteq> [] \<and> qtype (hd (questions (queries s ! i))) = T_A \<and>
    qclass (hd (questions (queries s ! i))) = C_IN")
  case False
  then obtain r m where "sanity_check i s = (False, complete_query i r m s)"
    by (cases "questions (queries s ! i)") (auto simp: sanity_check_def)
  with assms(5) complete_inv[OF assms(1), of r m] show ?thesis by (auto simp: lb_process_query_def)
next
  case True
  then have sc: "sanity_check i s = (True, s)" by (auto simp: sanity_check_def split: list.splits)
  let ?s = "s\<lparr>lb_offset := lb_offset s + 1\<rparr>"
  have inv: "gateway_inv {i} ?s" using assms(1) by (simp add: lb_offset_inv)
  have p: "times_completed ?s i = 0" "i \<notin> set (connections ?s)" "i \<notin> set (aborted ?s)" "questions (queries ?s ! i) \<noteq> []"
    using assms(2-4) True by (simp_all add: times_completed_def connections_def)
  show ?thesis
    using assms(5) sc complete_inv[OF inv] agent_process_query_inv[OF inv p]
    by (auto simp: lb_process_query_def Let_def split: if_splits option.splits)
qed

lemma process_query_inv:
  assumes "gateway_inv {} s" and "query_id q \<notin> set (query_ids s)" and "process_query env q s = Some t"
  shows "gateway_inv {} t \<and> query_ids t = query_ids s @ [query_id q]"
  using lb_process_query_inv[OF new_query_inv(1-3)[OF assms(1)]] new_query_inv(4)[OF assms(1)] assms(2,3)
  by (simp add: process_query_def)

text \<open>A connection may go, and the rest of the state is as before.\<close>

lemma moved_inv:
  assumes "gateway_inv A s" and "set (connections t) \<subseteq> set (connections s)" and "distinct (connections t)"
    and "queries t = queries s" and "query_map t = query_map s"
    and "waits t = waits s" and "aborted t = aborted s" and "completed t = completed s"
  shows "gateway_inv A t"
proof -
  have u: "in_map t = in_map s" "times_completed t = times_completed s"
    using assms(4,5,8) by (simp_all add: in_map_def times_completed_def fun_eq_iff)
  show ?thesis
  proof (rule gateway_invI)
    show "count_ok A t j" if "j < length (queries t)" for j
      using that gateway_invD2(5)[OF assms(1), of j] assms(2,4) unfolding count_ok_def u
      by (cases "j \<in> set (connections s)"; auto split: if_splits)
    show "j < length (queries t)" if "j \<in> set (connections t)" for j
      using that gateway_invD2(2)[OF assms(1), of j] assms(2,4) by auto
  qed (use gateway_invD[OF assms(1)] gateway_invD2(3,4)[OF assms(1)] assms(3-8) in \<open>auto simp: u\<close>)
qed

text \<open>When the connection of a query fails, the query has been completed at most once.\<close>

lemma lost_connection:
  assumes "gateway_inv {} s" and "connections t = remove1 i (connections s)" and "i \<in> set (connections s)"
    and "queries t = queries s" and "query_map t = query_map s"
    and "waits t = waits s" and "aborted t = aborted s" and "completed t = completed s"
  shows "gateway_inv {} (connection_failed i t)"
proof -
  have c: "set (connections t) = set (connections s) - {i}" "distinct (connections t)"
    using gateway_invD2(1)[OF assms(1)] assms(2) by (simp_all add: distinct_remove1)
  have i: "i < length (queries s)" using gateway_invD2(2)[OF assms(1,3)] .
  have "gateway_inv {} t" using c(1) by (intro moved_inv[OF assms(1) _ c(2) assms(4-8)]) blast
  moreover have "times_completed t i + of_bool (i \<in> set (connections t)) \<le> 1"
    using gateway_invD2(5)[OF assms(1) i] assms(3,8) unfolding c(1) by (auto simp: count_ok_def times_completed_def split: if_splits)
  ultimately show ?thesis using i assms(4) by (intro connection_failed_inv) simp_all
qed

lemma connection_part:
  assumes "gateway_inv A s" and "c \<in> set (connecting s) \<or> c \<in> set (sending s)"
  shows "fst c \<in> set (connections s)"
    "c \<in> set (connecting s) \<Longrightarrow> map fst (remove1 c (connecting s) @ sending s) = remove1 (fst c) (connections s)"
    "c \<in> set (sending s) \<Longrightarrow> map fst (connecting s @ remove1 c (sending s)) = remove1 (fst c) (connections s)"
proof -
  have d: "distinct (connections s)" using gateway_invD2(1)[OF assms(1)] .
  have r: "map fst (remove1 c cs) = remove1 (fst c) (map fst cs)" if "distinct (map fst cs)" "c \<in> set cs" for c :: "nat \<times> nat \<times> bytes" and cs
    using that by (induction cs) (auto simp: rev_image_eqI)
  show "fst c \<in> set (connections s)" using assms(2) by (auto simp: connections_def)
  show "map fst (remove1 c (connecting s) @ sending s) = remove1 (fst c) (connections s)" if "c \<in> set (connecting s)"
    using that d r[of "connecting s" c] by (auto simp: connections_def remove1_append)
  show "map fst (connecting s @ remove1 c (sending s)) = remove1 (fst c) (connections s)" if "c \<in> set (sending s)"
  proof -
    have "fst c \<notin> set (map fst (connecting s))" using d that by (auto simp: connections_def)
    with that d r[of "sending s" c] show ?thesis by (simp add: connections_def remove1_append)
  qed
qed

text \<open>What a reply of a home agent does, whatever it holds.\<close>

lemma removed_query:
  assumes "gateway_inv {} s" and "querymap_remove k s = (Some i, t)"
  shows "gateway_inv {i} t" "query_ids t = query_ids s"
proof -
  obtain j where j: "query_map s k = Some j" using assms(2) by (auto simp: querymap_remove_def split: option.splits)
  with assms(2) remove_some[OF assms(1) j] removed_inv[OF assms(1) j, of "aborted s @ [j]"] show "gateway_inv {i} t" by auto
  show "query_ids t = query_ids s" using remove_queries'[OF assms(2)] by simp
qed

lemma answer_query_inv:
  assumes "gateway_inv {} s"
  shows "gateway_inv {} (answer_query env k n buf s) \<and> query_ids (answer_query env k n buf s) = query_ids s"
proof (cases "querymap_remove k s")
  case (Pair r t)
  show ?thesis
  proof (cases r)
    case None
    with Pair have "t = s" by (simp add: remove_nothing)
    with None Pair assms show ?thesis by (simp add: answer_query_def)
  next
    case (Some i)
    note t = removed_query[OF assms Pair[unfolded Some]]
    have a: "gateway_inv {i} (update_query i (add_answer rr) t)" "query_ids (update_query i (add_answer rr) t) = query_ids s" for rr
      using t by (simp_all add: update_query_inv update_query_ids add_answer_def)
    show ?thesis
      using complete_inv[OF t(1)] t(2) complete_inv[OF a(1)] a(2)
      by (simp add: answer_query_def Some Pair Let_def split: option.split)
  qed
qed

lemma home_agent_reply_inv:
  assumes "gateway_inv {} s" and "home_agent_reply env stream s = Some t"
  shows "gateway_inv {} t \<and> query_ids t = query_ids s"
  using assms answer_query_inv[OF assms(1)] complete_inv removed_query[OF assms(1)] remove_nothing
  by (fastforce simp: home_agent_reply_def split: option.splits reply_read.splits prod.splits)

lemma handle_connect_inv:
  assumes "gateway_inv {} s" and "c \<in> set (connecting s)"
  shows "gateway_inv {} (handle_connect ec c s) \<and> query_ids (handle_connect ec c s) = query_ids s"
proof (cases ec)
  case True
  have "gateway_inv {} (connection_failed (fst c) (s\<lparr>connecting := remove1 c (connecting s)\<rparr>))"
    using connection_part(1,2)[OF assms(1)] assms(2) by (intro lost_connection[OF assms(1)]) (simp_all add: connections_def)
  with True show ?thesis by (simp add: handle_connect_def Let_def)
next
  case False
  let ?t = "s\<lparr>connecting := remove1 c (connecting s), sending := sending s @ [c]\<rparr>"
  have "connections ?t = remove1 (fst c) (connections s) @ [fst c]"
    using connection_part(2)[OF assms(1) disjI1[OF assms(2)] assms(2), symmetric] by (simp add: connections_def)
  then have "gateway_inv {} ?t"
    using gateway_invD2(1)[OF assms(1)] connection_part(1)[OF assms(1) disjI1[OF assms(2)]]
    by (intro moved_inv[OF assms(1)]) (auto simp: distinct_remove1)
  with False show ?thesis by (simp add: handle_connect_def)
qed

lemma handle_query_sent_inv:
  assumes "gateway_inv {} s" and "c \<in> set (sending s)"
  shows "gateway_inv {} (handle_query_sent ec c s) \<and> query_ids (handle_query_sent ec c s) = query_ids s"
proof (cases ec)
  case True
  have "gateway_inv {} (connection_failed (fst c) (s\<lparr>sending := remove1 c (sending s)\<rparr>))"
    using connection_part(1,3)[OF assms(1)] assms(2) by (intro lost_connection[OF assms(1)]) (simp_all add: connections_def)
  with True show ?thesis by (simp add: handle_query_sent_def Let_def)
next
  case False
  let ?t = "s\<lparr>sending := remove1 c (sending s), requested := requested s @ [c]\<rparr>"
  have "connections ?t = remove1 (fst c) (connections s)"
    using connection_part(3)[OF assms(1) disjI2[OF assms(2)] assms(2)] by (simp add: connections_def)
  then have "gateway_inv {} ?t"
    using gateway_invD2(1)[OF assms(1)] set_remove1_subset by (intro moved_inv[OF assms(1)]) (simp_all add: distinct_remove1)
  with False show ?thesis by (simp add: handle_query_sent_def)
qed

lemma gateway_step_inv:
  assumes "gateway_inv {} s" and "distinct (query_ids s @ event_ids [e])" and "gateway_step env e s = Some t"
  shows "gateway_inv {} t \<and> query_ids t = query_ids s @ event_ids [e]"
proof (cases e)
  case (Query q)
  with assms process_query_inv[of s q env t] show ?thesis by auto
next
  case (Resolved a)
  have "gateway_inv {} (s\<lparr>agents := as\<rparr>)" for as
    using gateway_invD2(1)[OF assms(1)] by (intro moved_inv[OF assms(1)]) (simp_all add: connections_def)
  with Resolved assms show ?thesis by auto
next
  case (Connected c ec)
  with assms handle_connect_inv[OF assms(1), of c ec] show ?thesis by (auto split: if_splits)
next
  case (Query_sent c ec)
  with assms handle_query_sent_inv[OF assms(1), of c ec] show ?thesis by (auto split: if_splits)
next
  case (Home_agent stream)
  with assms home_agent_reply_inv[OF assms(1)] show ?thesis by auto
next
  case (Timer i)
  with assms expire_inv[OF assms(1)] show ?thesis by (auto split: if_splits)
next
  case (Cancelled i)
  have "gateway_inv {} (s\<lparr>aborted := remove1 i (aborted s)\<rparr>)" by (intro aborted_inv[OF assms(1)]) (rule set_remove1_subset)
  with Cancelled assms expire_cancelled[OF assms(1)] show ?thesis by (auto split: if_splits)
qed

lemma event_ids_Cons: "event_ids (e # es) = event_ids [e] @ event_ids es"
  by (cases e) simp_all

lemma gateway_run_inv:
  assumes "gateway_inv {} s" and "distinct (query_ids s @ event_ids es)" and "gateway_run env es s = Some t"
  shows "gateway_inv {} t \<and> query_ids t = query_ids s @ event_ids es"
  using assms
proof (induction es arbitrary: s)
  case (Cons e es)
  then obtain u where u: "gateway_step env e s = Some u" "gateway_run env es u = Some t" by (auto split: bind_splits)
  have d: "distinct (query_ids s @ event_ids [e])" "distinct ((query_ids s @ event_ids [e]) @ event_ids es)"
    using Cons.prems(2) unfolding event_ids_Cons[of e es] by auto
  from gateway_step_inv[OF Cons.prems(1) d(1) u(1)] have "gateway_inv {} u" and i: "query_ids u = query_ids s @ event_ids [e]"
    by simp_all
  from Cons.IH[OF this(1) _ u(2)] d(2) show ?case unfolding i event_ids_Cons[of e es] by simp
qed simp

lemma gateway_new_inv: "gateway_inv {} (gateway_new as)"
  by (rule gateway_invI) (simp_all add: gateway_new_def connections_def)

text \<open>When time passes, all pending timers fire, and then nothing is in the map.\<close>

lemma timers_fire:
  assumes "gateway_inv {} s"
  shows "\<exists>t. gateway_run env (map Timer (waits s)) s = Some t \<and> gateway_inv {} t \<and> query_ids t = query_ids s \<and> waits t = []"
  using assms
proof (induction "waits s" arbitrary: s)
  case Nil
  then show ?case by simp
next
  case (Cons i ts)
  let ?t = "expire (query_id (queries s ! i)) (s\<lparr>waits := remove1 i (waits s)\<rparr>)"
  have i: "i \<in> set (waits s)" "i \<notin> set ts" "remove1 i (waits s) = ts"
    using Cons.hyps(2) gateway_invD(6)[OF Cons.prems] by (auto simp: Cons.hyps(2)[symmetric])
  have w: "waits (complete_query j r m u) = waits u" for j r m u by (simp add: complete_query_def Let_def update_query_def)
  have m: "query_map s (query_id (queries s ! i)) = Some i"
    using gateway_invD(7)[OF Cons.prems, of i] i(1) by (simp add: in_map_def)
  have "waits ?t = ts"
    using m i(2) by (simp add: expire_def querymap_remove_def i(3) cancel_timer_def w)
  moreover have "gateway_inv {} ?t" using expire_inv[OF Cons.prems i(1)] .
  ultimately obtain t where "gateway_run env (map Timer ts) ?t = Some t" "gateway_inv {} t" "query_ids t = query_ids ?t" "waits t = []"
    using Cons.hyps(1)[of ?t] by auto
  then show ?case unfolding Cons.hyps(2)[symmetric] using i(1,3) by (simp add: Cons.hyps(2)[symmetric])
qed

lemma no_timers:
  assumes "gateway_inv {} s" and "waits s = []" and "i < length (queries s)"
  shows "query_map s k = None" "times_completed s i = 1 \<or> times_completed s i = 2"
proof -
  have "\<not> in_map s j" if "j < length (queries s)" for j using gateway_invD(7)[OF assms(1), of j] that assms(2) by simp
  then show "query_map s k = None" using gateway_invD(2,5)[OF assms(1)] by (cases "query_map s k") auto
  show "times_completed s i = 1 \<or> times_completed s i = 2"
    using gateway_invD2(5)[OF assms(1,3)] gateway_invD(7)[OF assms(1), of i] assms(2,3) by (auto simp: count_ok_def)
qed

text \<open>
  C12. While no two queries have the same id, no query is lost and none is answered without end: whatever connections, home agents and
  timers do, a query is in the map exactly while it has not been completed, and then its timer is pending; and once the pending timers
  have fired, every query of a speaker has been completed, at least once and at most twice.
\<close>

theorem queries_answered:
  assumes "gateway_run env es (gateway_new as) = Some s" and "distinct (event_ids es)"
  shows "query_ids s = event_ids es \<and>
    (\<forall>i<length (queries s). (query_map s (query_id (queries s ! i)) = Some i \<longleftrightarrow> times_completed s i = 0) \<and>
       (i \<in> set (waits s) \<longleftrightarrow> times_completed s i = 0)) \<and>
    (\<exists>t. gateway_run env (map Timer (waits s)) s = Some t \<and> query_ids t = event_ids es \<and>
       (\<forall>i<length (queries t). times_completed t i = 1 \<or> times_completed t i = 2))"
proof -
  have new: "query_ids (gateway_new as) = []" by (simp add: gateway_new_def)
  have s: "gateway_inv {} s" "query_ids s = event_ids es"
    using gateway_run_inv[OF gateway_new_inv _ assms(1)] assms(2) unfolding new by simp_all
  have "query_map s (query_id (queries s ! i)) = Some i \<longleftrightarrow> times_completed s i = 0"
    "i \<in> set (waits s) \<longleftrightarrow> times_completed s i = 0" if "i < length (queries s)" for i
    using gateway_invD2(5)[OF s(1) that] gateway_invD(7)[OF s(1), of i] that by (auto simp: count_ok_def in_map_def)
  moreover obtain t where "gateway_run env (map Timer (waits s)) s = Some t" "gateway_inv {} t" "query_ids t = query_ids s" "waits t = []"
    using timers_fire[OF s(1)] by blast
  ultimately show ?thesis using s(2) no_timers(2) by (metis (no_types, lifting))
qed

section \<open>An accepted query\<close>

definition answerable :: "dnsquery \<Rightarrow> bool" where
  "answerable q \<longleftrightarrow> (case questions q of [] \<Rightarrow> False | x # _ \<Rightarrow> qtype x = T_A \<and> qclass x = C_IN)"

text \<open>With one home agent, a query that can be sent to it enters the map and gets a timer and a connection.\<close>

lemma query_accepted:
  assumes "answerable q" and "agents s = [ha]" and "enabled ha"
    and "compose_request (hahostname ha) (haport ha) (nshostname env) (nsport env) (suffixes env) q = (q', Returns bs)"
    and "query_map s (query_id q) = None"
  shows "gateway_step env (Query q) s = Some (s\<lparr>queries := queries s @ [q'], query_map := (query_map s)(query_id q \<mapsto> length (queries s)),
    waits := waits s @ [length (queries s)], connecting := connecting s @ [(length (queries s), 0, bs)],
    lb_offset := lb_offset s + 1\<rparr>)"
proof -
  let ?s = "s\<lparr>queries := queries s @ [q]\<rparr>"
  have sc: "sanity_check (length (queries s)) ?s = (True, ?s)"
    using assms(1) by (auto simp: sanity_check_def answerable_def split: list.splits)
  have id: "query_id q' = query_id q" using compose_request_query[OF assms(4)] by simp
  have off: "sint (lb_offset s) smod 1 = 0" by (simp add: signed_modulo_int_def)
  show ?thesis
    unfolding gateway_step.simps process_query_def lb_process_query_def sc
    using assms(2-5) id off
    by (simp add: Let_def agent_process_query_def update_query_def querymap_insert_def)
qed

definition example_env :: gateway_env where
  "example_env = \<lparr>nshostname = [103], nsport = 53, suffixes = [[112, 119, 46, 110, 101, 116, 46]], answer_ttl = 60,
     address_from_string = (\<lambda>s. if s = [49, 48, 46, 48, 46, 48, 46, 49] then Some (V4 0x0A000001) else None)\<rparr>"

definition example_agent :: agent where
  "example_agent = \<lparr>enabled = True, hahostname = [104], haport = 80\<rparr>"

lemma example_sent_with:
  "\<exists>q bs. compose_request (hahostname example_agent) (haport example_agent) (nshostname example_env) (nsport example_env)
     (suffixes example_env) (example_query\<lparr>answers := as\<rparr>) = (q, Returns bs)"
proof -
  obtain q where q: "questions example_query = [q]" unfolding example_query_def by simp
  with example_request have r: "remove_suffix (question_name q) [[112, 119, 46, 110, 101, 116, 46]] = Returns [119, 119, 119, 46]"
    by (simp del: remove_suffix.simps)
  show ?thesis
    by (simp add: compose_request_def write_abs_header_def write_abs_get_def q r write_abs_int_def write_abs_string_def
        write_abs_chars_def write_abs_zero_def check_room_def check_room_len_def put_bytes_def unused_abs_header_len_def
        example_env_def example_agent_def del: remove_suffix.simps)
qed

lemma example_sent:
  "\<exists>q bs. compose_request (hahostname example_agent) (haport example_agent) (nshostname example_env) (nsport example_env)
     (suffixes example_env) example_query = (q, Returns bs)"
  using example_sent_with[of "answers example_query"] by simp

lemma example_answerable: "answerable example_query"
  by (simp add: answerable_def example_query_def)

lemma queries_answered_witness:
  "\<exists>s t. gateway_run example_env [Query example_query] (gateway_new [example_agent]) = Some s \<and> waits s = [0] \<and>
    gateway_run example_env (map Timer (waits s)) s = Some t \<and> length (queries t) = 1 \<and>
    (times_completed t 0 = 1 \<or> times_completed t 0 = 2)"
proof -
  let ?s = "gateway_new [example_agent]"
  obtain q bs where c: "compose_request (hahostname example_agent) (haport example_agent) (nshostname example_env) (nsport example_env)
     (suffixes example_env) example_query = (q, Returns bs)" using example_sent by blast
  have s: "agents ?s = [example_agent]" "enabled example_agent" "query_map ?s (query_id example_query) = None" "queries ?s = []" "waits ?s = []"
    by (simp_all add: gateway_new_def example_agent_def)
  obtain u where u: "gateway_run example_env [Query example_query] ?s = Some u" "waits u = [0]"
    using query_accepted[OF example_answerable s(1,2) c s(3)] s(4,5) by (simp del: gateway_step.simps)
  have "distinct (event_ids [Query example_query])" by simp
  from queries_answered[OF u(1) this] obtain t where t: "gateway_run example_env (map Timer (waits u)) u = Some t"
    "query_ids t = [query_id example_query]" "\<forall>i<length (queries t). times_completed t i = 1 \<or> times_completed t i = 2"
    by auto
  have "length (queries t) = 1" using arg_cong[OF t(2), of length] by simp
  with t u show ?thesis by (metis less_one)
qed

section \<open>When an id is used again\<close>

lemma complete_query_eq:
  "i < length (queries s) \<Longrightarrow> complete_query i r m (update_query i f s) =
   s\<lparr>queries := (queries s)[i := (f (queries s ! i))\<lparr>query_rcode := r, metric_result := m\<rparr>],
     completed := completed s @ [(i, (f (queries s ! i))\<lparr>query_rcode := r, metric_result := m\<rparr>)]\<rparr>"
  by (simp add: complete_query_def update_query_def Let_def)

lemma update_query_id: "update_query i (\<lambda>q. q) s = s"
  by (simp add: update_query_def)

lemma remove_pending:
  "query_map s k = Some i \<Longrightarrow> i \<in> set (waits s) \<Longrightarrow> querymap_remove k s =
   (Some i, s\<lparr>query_map := (query_map s)(k := None), waits := remove1 i (waits s), aborted := aborted s @ [i]\<rparr>)"
  by (simp add: querymap_remove_def cancel_timer_def)

lemma expire_pending:
  assumes "query_map s k = Some i" and "i \<in> set (waits s)" and "i < length (queries s)"
  shows "expire k s = (let q = (queries s ! i)\<lparr>query_rcode := R_NAME_ERROR, metric_result := TIMEOUT\<rparr> in
    s\<lparr>query_map := (query_map s)(k := None), waits := remove1 i (waits s), aborted := aborted s @ [i],
      queries := (queries s)[i := q], completed := completed s @ [(i, q)]\<rparr>)"
  using complete_query_eq[of i "s\<lparr>query_map := (query_map s)(k := None), waits := remove1 i (waits s), aborted := aborted s @ [i]\<rparr>"
      _ _ "\<lambda>q. q"] assms(3)
  by (simp add: expire_def remove_pending[OF assms(1,2)] update_query_id Let_def)

lemma expire_fired:
  assumes "query_map s k = Some i" and "i \<notin> set (waits s)" and "i < length (queries s)"
  shows "expire k s = (let q = (queries s ! i)\<lparr>query_rcode := R_NAME_ERROR, metric_result := TIMEOUT\<rparr> in
    s\<lparr>query_map := (query_map s)(k := None), queries := (queries s)[i := q], completed := completed s @ [(i, q)]\<rparr>)"
  using complete_query_eq[of i "s\<lparr>query_map := (query_map s)(k := None)\<rparr>" _ _ "\<lambda>q. q"] assms
  by (simp add: expire_def querymap_remove_def cancel_timer_def update_query_id Let_def)

lemma timer_completes:
  assumes "gateway_inv {} s" and "query_map s k = Some i"
  obtains a where "gateway_step env (Timer i) s = Some (s\<lparr>query_map := (query_map s)(k := None), waits := remove1 i (waits s),
      queries := (queries s)[i := a], completed := completed s @ [(i, a)]\<rparr>)"
    and "query_id a = k" and "query_rcode a = R_NAME_ERROR"
proof -
  let ?a = "(queries s ! i)\<lparr>query_rcode := R_NAME_ERROR, metric_result := TIMEOUT\<rparr>"
  have i: "i < length (queries s)" "query_id (queries s ! i) = k" "i \<in> set (waits s)" "i \<notin> set (remove1 i (waits s))"
    using gateway_invD(2,3,5-7)[OF assms(1)] assms(2) by simp_all
  then have "gateway_step env (Timer i) s = Some (s\<lparr>query_map := (query_map s)(k := None), waits := remove1 i (waits s),
      queries := (queries s)[i := ?a], completed := completed s @ [(i, ?a)]\<rparr>)"
    using expire_fired[of "s\<lparr>waits := remove1 i (waits s)\<rparr>" k i] assms(2) by (simp add: Let_def)
  then show thesis using i(2) by (intro that[of ?a]) simp_all
qed

text \<open>However the reply is, the query it is for leaves the map and is completed.\<close>

lemma answer_completes:
  assumes "query_map s k = Some i" and "i \<in> set (waits s)" and "i < length (queries s)"
  obtains x where "query_id x = query_id (queries s ! i)"
    and "answer_query env k hostlen buf s = s\<lparr>query_map := (query_map s)(k := None), waits := remove1 i (waits s),
      aborted := aborted s @ [i], queries := (queries s)[i := x], completed := completed s @ [(i, x)]\<rparr>"
proof -
  let ?t = "s\<lparr>query_map := (query_map s)(k := None), waits := remove1 i (waits s), aborted := aborted s @ [i]\<rparr>"
  have "\<exists>r m f. answer_query env k hostlen buf s = complete_query i r m (update_query i f ?t) \<and>
      query_id (f (queries s ! i)) = query_id (queries s ! i)"
  proof -
    have "(\<exists>r m. answer_query env k hostlen buf s = complete_query i r m ?t) \<or>
        (\<exists>r m rr. answer_query env k hostlen buf s = complete_query i r m (update_query i (add_answer rr) ?t))"
      unfolding answer_query_def remove_pending[OF assms(1,2)] by (simp add: Let_def split: option.split) blast
    then show ?thesis
    proof
      assume "\<exists>r m. answer_query env k hostlen buf s = complete_query i r m ?t"
      then obtain r m where "answer_query env k hostlen buf s = complete_query i r m (update_query i (\<lambda>q. q) ?t)"
        unfolding update_query_id by blast
      then show ?thesis by blast
    qed (fastforce simp: add_answer_def)
  qed
  then obtain r m f where f: "answer_query env k hostlen buf s = complete_query i r m (update_query i f ?t)"
    "query_id (f (queries s ! i)) = query_id (queries s ! i)" by blast
  show thesis using f(2) complete_query_eq[of i ?t r m f] assms(3)
    by (intro that[of "(f (queries s ! i))\<lparr>query_rcode := r, metric_result := m\<rparr>"]) (simp_all add: f(1))
qed

text \<open>
  C35. The handler of a cancelled timer is bound to an id and does not see that it was cancelled. When a query has been answered and
  a query with the same id comes before that handler has run, the new query is completed by it with a name error and the result
  of a timeout, though its own timer has just been started and no home agent has been asked for it.
\<close>

theorem stale_timer_kills:
  assumes "answerable q" and "agents s = [ha]" and "enabled ha"
    and "compose_request (hahostname ha) (haport ha) (nshostname env) (nsport env) (suffixes env) q = (q', Returns bs)"
    and "query_map s (query_id q) = None"
    and "handle_read_to_desthostlen stream = Some (Reply_for (query_id q) hostlen buf)"
  shows "\<exists>t a. gateway_run env [Query q, Home_agent stream, Query q, Cancelled (length (queries s))] s = Some t \<and>
    completed t = completed s @ [(length (queries s), a),
      (Suc (length (queries s)), q'\<lparr>query_rcode := R_NAME_ERROR, metric_result := TIMEOUT\<rparr>)] \<and>
    query_map t (query_id q) = None \<and> requested t = requested s"
proof -
  let ?k = "query_id q" and ?n = "length (queries s)"
  let ?s1 = "s\<lparr>queries := queries s @ [q'], query_map := (query_map s)(?k \<mapsto> ?n), waits := waits s @ [?n],
    connecting := connecting s @ [(?n, 0, bs)], lb_offset := lb_offset s + 1\<rparr>"
  have id: "query_id q' = ?k" using compose_request_query[OF assms(4)] by simp
  have one: "gateway_step env (Query q) s = Some ?s1" by (rule query_accepted[OF assms(1-5)])
  obtain x where x: "query_id x = query_id (queries ?s1 ! ?n)" "answer_query env ?k hostlen buf ?s1 =
      ?s1\<lparr>query_map := (query_map ?s1)(?k := None), waits := remove1 ?n (waits ?s1), aborted := aborted ?s1 @ [?n],
        queries := (queries ?s1)[?n := x], completed := completed ?s1 @ [(?n, x)]\<rparr>" (is "_ = ?s2")
    by (rule answer_completes[of ?s1 ?k ?n env hostlen buf]) simp_all
  have two: "gateway_step env (Home_agent stream) ?s1 = Some ?s2"
    using assms(6) x(2) by (simp add: home_agent_reply_def)
  let ?s3 = "?s2\<lparr>queries := queries ?s2 @ [q'], query_map := (query_map ?s2)(?k \<mapsto> Suc ?n), waits := waits ?s2 @ [Suc ?n],
    connecting := connecting ?s2 @ [(Suc ?n, 0, bs)], lb_offset := lb_offset ?s2 + 1\<rparr>"
  have three: "gateway_step env (Query q) ?s2 = Some ?s3"
    using query_accepted[OF assms(1) _ assms(3,4), of ?s2] assms(2) by (simp del: gateway_step.simps)
  have e: "query_map (?s3\<lparr>aborted := as\<rparr>) ?k = Some (Suc ?n)" "Suc ?n \<in> set (waits (?s3\<lparr>aborted := as\<rparr>))"
    "Suc ?n < length (queries (?s3\<lparr>aborted := as\<rparr>))" for as by simp_all
  have m: "?n \<in> set (aborted ?s3)" "query_id (queries ?s3 ! ?n) = ?k" using x(1) id by (simp_all add: nth_append)
  have four: "gateway_step env (Cancelled ?n) ?s3 = Some (expire ?k (?s3\<lparr>aborted := remove1 ?n (aborted ?s3)\<rparr>))"
    using m by (simp only: gateway_step.simps if_True)
  show ?thesis
    unfolding gateway_run.simps one bind.bind_lunit two three four expire_pending[OF e]
    by (simp add: Let_def nth_append)
qed

lemma example_reply: "handle_read_to_desthostlen ([43, 0x34, 0x12] @ replicate 104 0) = Some (Reply_for 0x1234 0 (replicate 8 0))"
proof -
  have l: "replicate 2 x = [x, x]" for x :: byte by (simp add: numeral_2_eq_2)
  have "int_bytes 0 = [0, 0, 0, 0]" "int_bytes 0x1234 = 0x34 # 0x12 # replicate 2 0" unfolding l by (simp_all add: int_bytes_def)
  then have n: "read_abs_int [0, 0, 0, 0] = 0" "read_abs_int (0x34 # 0x12 # replicate 2 0) = 0x1234"
    unfolding read_abs_int_def by (metis bytes_int_bytes)+
  have z: "last_int (replicate k 0) = Some 0" if "4 \<le> k" for k
    using that n(1) by (simp add: last_int_def numeral_eq_Suc)
  have r: "read_size 0 8 = 8" "read_size 0 42 = 42" by (simp_all add: read_size_def)
  show ?thesis
    using n(2) r z[of 8] z[of 40]
    by (simp add: handle_read_to_desthostlen_def handle_read_to_srchostlen_def handle_absheader_read_def
        handle_read_to_replyhostlen_def handle_read_to_devicenamelen_def unused_abs_header_len_def abs_reply_len_before_hostname_def
        last_int_def n)
qed

lemma stale_timer_kills_witness:
  "\<exists>t a b. gateway_run example_env [Query example_query, Home_agent ([43, 0x34, 0x12] @ replicate 104 0), Query example_query, Cancelled 0]
      (gateway_new [example_agent]) = Some t \<and>
    completed t = [(0, a), (1, b)] \<and> query_rcode b = R_NAME_ERROR \<and> requested t = []"
proof -
  let ?s = "gateway_new [example_agent]"
  obtain q bs where c: "compose_request (hahostname example_agent) (haport example_agent) (nshostname example_env) (nsport example_env)
     (suffixes example_env) example_query = (q, Returns bs)" using example_sent by blast
  have s: "agents ?s = [example_agent]" "enabled example_agent" "query_map ?s (query_id example_query) = None" "queries ?s = []"
    "completed ?s = []" "requested ?s = []"
    by (simp_all add: gateway_new_def example_agent_def)
  have r: "handle_read_to_desthostlen ([43, 0x34, 0x12] @ replicate 104 0) = Some (Reply_for (query_id example_query) 0 (replicate 8 0))"
    using example_reply by (simp add: example_query_def)
  from stale_timer_kills[OF example_answerable s(1,2) c s(3) r] show ?thesis unfolding s(4-6) by fastforce
qed

text \<open>
  C37. The connection of a query outlives the query. If it fails after the timer has fired, the query is completed for the second time;
  and if by then a query with the same id has come, that query is taken out of the map and its timer cancelled, but it is
  not completed: unless its own connection fails too, nobody answers it.
\<close>

theorem late_connection_failure:
  assumes "gateway_inv {} s" and "c \<in> set (connecting s)" and "query_map s (query_id q) = Some (fst c)"
    and "answerable q" and "agents s = [ha]" and "enabled ha"
    and "compose_request (hahostname ha) (haport ha) (nshostname env) (nsport env) (suffixes env) q = (q', Returns bs)"
  shows "(\<exists>t a b. gateway_run env [Timer (fst c), Connected c True] s = Some t \<and>
      completed t = completed s @ [(fst c, a), (fst c, b)] \<and> query_rcode a = R_NAME_ERROR \<and> query_rcode b = R_SERVER_FAILURE) \<and>
    (\<exists>t a b. gateway_run env [Timer (fst c), Query q, Connected c True] s = Some t \<and>
      length (queries t) = Suc (length (queries s)) \<and> completed t = completed s @ [(fst c, a), (fst c, b)] \<and>
      query_map t (query_id q) = None \<and> length (queries s) \<notin> set (waits t) \<and> times_completed t (length (queries s)) = 0)"
proof -
  let ?k = "query_id q" and ?i = "fst c" and ?n = "length (queries s)"
  have i: "?i < ?n" using gateway_invD(2)[OF assms(1,3)] .
  obtain a where one: "gateway_step env (Timer ?i) s = Some (s\<lparr>query_map := (query_map s)(?k := None), waits := remove1 ?i (waits s),
      queries := (queries s)[?i := a], completed := completed s @ [(?i, a)]\<rparr>)" (is "_ = Some ?s1")
    and a: "query_id a = ?k" "query_rcode a = R_NAME_ERROR"
    by (rule timer_completes[OF assms(1,3)])
  let ?s2 = "?s1\<lparr>queries := queries ?s1 @ [q'], query_map := (query_map ?s1)(?k \<mapsto> ?n), waits := waits ?s1 @ [?n],
    connecting := connecting ?s1 @ [(?n, 0, bs)], lb_offset := lb_offset ?s1 + 1\<rparr>"
  have two: "gateway_step env (Query q) ?s1 = Some ?s2"
    using query_accepted[OF assms(4) _ assms(6,7), of ?s1] assms(5) by (simp del: gateway_step.simps)
  have f: "gateway_step env (Connected c True) t = Some (connection_failed ?i (t\<lparr>connecting := remove1 c (connecting t)\<rparr>))"
    if "c \<in> set (connecting t)" for t using that by (simp add: handle_connect_def)
  have ids: "query_id (queries ?s1 ! ?i) = ?k" "query_id (queries ?s2 ! ?i) = ?k" using a(1) i by (simp_all add: nth_append)
  define b where "b = a\<lparr>query_rcode := R_SERVER_FAILURE, metric_result := HA_CONNECTION_ERROR\<rparr>"
  have "connection_failed ?i (?s1\<lparr>connecting := cs\<rparr>) = ?s1\<lparr>connecting := cs, queries := (queries ?s1)[?i := b],
      completed := completed ?s1 @ [(?i, b)]\<rparr> \<and> query_rcode b = R_SERVER_FAILURE" for cs
    using i a(1) complete_query_eq[of ?i "?s1\<lparr>connecting := cs\<rparr>" _ _ "\<lambda>q. q"]
    by (simp add: connection_failed_def remove_none update_query_id b_def)
  then have first: "\<exists>t a b. gateway_run env [Timer (fst c), Connected c True] s = Some t \<and>
      completed t = completed s @ [(fst c, a), (fst c, b)] \<and> query_rcode a = R_NAME_ERROR \<and> query_rcode b = R_SERVER_FAILURE"
    using f[of ?s1] assms(2) a(2) unfolding gateway_run.simps one bind.bind_lunit by fastforce
  have "connection_failed ?i (?s2\<lparr>connecting := cs\<rparr>) = ?s2\<lparr>connecting := cs, query_map := (query_map ?s2)(?k := None),
      waits := remove1 ?n (waits ?s2), aborted := aborted ?s2 @ [?n], queries := (queries ?s2)[?i := b],
      completed := completed ?s2 @ [(?i, b)]\<rparr>" for cs
    using i ids(2) remove_pending[of "?s2\<lparr>connecting := cs\<rparr>" ?k ?n]
      complete_query_eq[of ?i "?s2\<lparr>connecting := cs, query_map := (query_map ?s2)(?k := None),
        waits := remove1 ?n (waits ?s2), aborted := aborted ?s2 @ [?n]\<rparr>" _ _ "\<lambda>q. q"]
    by (simp add: connection_failed_def update_query_id b_def nth_append)
  moreover have "c \<in> set (connecting ?s2)" using assms(2) by simp
  moreover have "?n \<notin> fst ` set (completed s)" "?n \<notin> set (waits s)"
    using gateway_invD2(4)[OF assms(1), of ?n] gateway_invD(7)[OF assms(1), of ?n] by auto
  then have "?n \<notin> set (remove1 ?n (remove1 ?i (waits s) @ [?n]))" "count_list (map fst (completed s)) ?n = 0"
    by (auto simp: remove1_append count_list_0_iff dest: notin_set_remove1)
  ultimately have "\<exists>t a b. gateway_run env [Timer (fst c), Query q, Connected c True] s = Some t \<and>
      length (queries t) = Suc (length (queries s)) \<and> completed t = completed s @ [(fst c, a), (fst c, b)] \<and>
      query_map t (query_id q) = None \<and> length (queries s) \<notin> set (waits t) \<and> times_completed t (length (queries s)) = 0"
    using f[of ?s2] i unfolding gateway_run.simps one two bind.bind_lunit
    by (fastforce simp: times_completed_def)
  with first show ?thesis ..
qed

lemma example_gateway_run:
  obtains q bs s where "compose_request (hahostname example_agent) (haport example_agent) (nshostname example_env) (nsport example_env)
      (suffixes example_env) example_query = (q, Returns bs)"
    and "gateway_run example_env [Query example_query] (gateway_new [example_agent]) = Some s"
    and "gateway_inv {} s" and "(0, 0, bs) \<in> set (connecting s)" and "query_map s (query_id example_query) = Some 0"
    and "agents s = [example_agent]" and "completed s = []" and "queries s = [q]"
proof -
  let ?s = "gateway_new [example_agent]"
  obtain q bs where c: "compose_request (hahostname example_agent) (haport example_agent) (nshostname example_env) (nsport example_env)
     (suffixes example_env) example_query = (q, Returns bs)" using example_sent by blast
  have s: "agents ?s = [example_agent]" "enabled example_agent" "query_map ?s (query_id example_query) = None" "queries ?s = []"
    "completed ?s = []" "query_ids ?s = []"
    by (simp_all add: gateway_new_def example_agent_def)
  note r = query_accepted[OF example_answerable s(1,2) c s(3)]
  then obtain u where u: "gateway_run example_env [Query example_query] ?s = Some u" "(0, 0, bs) \<in> set (connecting u)"
    "query_map u (query_id example_query) = Some 0" "agents u = [example_agent]" "completed u = []" "queries u = [q]"
    using s(1,4,5) by (simp del: gateway_step.simps)
  have "gateway_inv {} u" using gateway_run_inv[OF gateway_new_inv _ u(1)] unfolding s(6) by simp
  from that[OF c u(1) this u(2-6)] show thesis .
qed

lemma gateway_run_append: "gateway_run env (es @ fs) s = Option.bind (gateway_run env es s) (gateway_run env fs)"
  by (induction es arbitrary: s) (auto split: bind_splits)

lemma late_connection_failure_witness:
  "\<exists>t bs a b. gateway_run example_env ([Query example_query] @ [Timer 0, Query example_query, Connected (0, 0, bs) True])
      (gateway_new [example_agent]) = Some t \<and>
    length (queries t) = 2 \<and> completed t = [(0, a), (0, b)] \<and> query_map t (query_id example_query) = None \<and> times_completed t 1 = 0"
proof -
  obtain q bs s where s: "compose_request (hahostname example_agent) (haport example_agent) (nshostname example_env) (nsport example_env)
      (suffixes example_env) example_query = (q, Returns bs)"
    "gateway_run example_env [Query example_query] (gateway_new [example_agent]) = Some s"
    "gateway_inv {} s" "(0, 0, bs) \<in> set (connecting s)" "query_map s (query_id example_query) = Some 0"
    "agents s = [example_agent]" "completed s = []" "queries s = [q]"
    by (rule example_gateway_run)
  have e: "enabled example_agent" "query_map s (query_id example_query) = Some (fst (0 :: nat, 0 :: nat, bs))"
    using s(5) by (simp_all add: example_agent_def)
  from late_connection_failure[OF s(3,4) e(2) example_answerable s(6) e(1) s(1)] show ?thesis
    unfolding gateway_run_append s(2,7,8) bind.bind_lunit by (auto simp del: gateway_run.simps)
qed

section \<open>The load balancer\<close>

lemma balance_loop_first:
  "hs < length as \<Longrightarrow> balance_loop cnt hs as =
   (case filter (\<lambda>a. enabled (as ! a)) (map (\<lambda>j. (hs + j) mod length as) [0..<cnt]) of a # _ \<Rightarrow> Some a | [] \<Rightarrow> None)"
proof (induction cnt arbitrary: hs)
  case (Suc cnt)
  let ?h = "if Suc hs = length as then 0 else Suc hs"
  have "(hs + Suc j) mod length as = (?h + j) mod length as" for j
  proof (cases "Suc hs = length as")
    case True
    then have "hs + Suc j = length as + j" by simp
    then have "(hs + Suc j) mod length as = j mod length as" by (simp only: mod_add_self1)
    with True show ?thesis by simp
  qed simp
  then have m: "map (\<lambda>j. (hs + j) mod length as) [0..<Suc cnt] = hs # map (\<lambda>j. (?h + j) mod length as) [0..<cnt]"
    using Suc.prems by (simp add: upt_conv_Cons map_Suc_upt[symmetric] del: upt_Suc)
  have "?h < length as" using Suc.prems by auto
  from Suc.IH[OF this] show ?case unfolding m by simp
qed simp

lemma rotate_upt: "m < n \<Longrightarrow> rotate m [0..<n] = map (\<lambda>j. (m + j) mod n) [0..<n]"
  by (rule nth_equalityI) (simp_all add: nth_rotate)

text \<open>
  C34. The load balancer asks the agents in the order of the list, from the position of its counter on and around, and takes
  the first one that is enabled; if there is none the query is completed with a server failure. The counter goes up by one with every
  query that passes the sanity check.
\<close>

theorem load_balancer:
  assumes "answerable (queries s ! i)" and "0 \<le> sint (lb_offset s)" and "agents s \<noteq> []"
  shows "lb_process_query env i s =
    (let n = length (agents s); t = s\<lparr>lb_offset := lb_offset s + 1\<rparr> in
     case filter (\<lambda>a. enabled (agents s ! a)) (rotate (nat (sint (lb_offset s)) mod n) [0..<n]) of
       a # _ \<Rightarrow> agent_process_query env a i t
     | [] \<Rightarrow> Some (complete_query i R_SERVER_FAILURE HA_CONNECTION_ERROR t))"
proof -
  let ?n = "length (agents s)" and ?h = "nat (sint (lb_offset s)) mod length (agents s)"
  have sc: "sanity_check i s = (True, s)" using assms(1) by (auto simp: sanity_check_def answerable_def split: list.splits)
  have "sint (lb_offset s) smod int ?n = int ?h"
    using assms(2,3) by (auto simp: signed_modulo_int_def sgn_if zmod_int)
  moreover have h: "?h < ?n" using assms(3) by simp
  ultimately show ?thesis
    using assms(3) unfolding lb_process_query_def sc
    by (simp add: Let_def balance_loop_first[OF h] rotate_upt[OF h] split: list.split)
qed

lemma load_balancer_witness:
  "\<exists>t. lb_process_query example_env 0 ((gateway_new [example_agent\<lparr>enabled := False\<rparr>])\<lparr>queries := [example_query]\<rparr>) = Some t \<and>
    length (completed t) = 1"
proof -
  let ?s = "(gateway_new [example_agent\<lparr>enabled := False\<rparr>])\<lparr>queries := [example_query]\<rparr>"
  have s: "answerable (queries ?s ! 0)" "0 \<le> sint (lb_offset ?s)" "agents ?s \<noteq> []"
    using example_answerable by (simp_all add: gateway_new_def)
  show ?thesis unfolding load_balancer[OF s]
    by (simp add: gateway_new_def complete_query_def update_query_def Let_def)
qed

section \<open>From a home agent to the client\<close>

lemma complete_answer_eq:
  assumes "query_map s k = Some i" and "i \<in> set (waits s)" and "i < length (queries s)"
    and "n = length addr" and "n \<noteq> 0" and "n < 256" and "take n buf = addr" and "0 \<notin> set addr" and "address_from_string env addr = Some ip"
  shows "answer_query env k n buf s = (let q = (queries s ! i)\<lparr>answers := answers (queries s ! i) @
      [answer_rr env (question_name (hd (questions (queries s ! i)))) ip], query_rcode := R_SUCCESS, metric_result := SUCCESS\<rparr> in
    s\<lparr>query_map := (query_map s)(k := None), waits := remove1 i (waits s), aborted := aborted s @ [i],
      queries := (queries s)[i := q], completed := completed s @ [(i, q)]\<rparr>)"
proof -
  have "takeWhile (\<lambda>c. c \<noteq> 0) (take (length addr) buf) = addr" using assms(4,7,8) by (auto simp: takeWhile_eq_all_conv)
  then show ?thesis
    using assms(3-6,9) complete_query_eq[of i "s\<lparr>query_map := (query_map s)(k := None), waits := remove1 i (waits s), aborted := aborted s @ [i]\<rparr>"]
    by (simp add: answer_query_def remove_pending[OF assms(1,2)] Let_def add_answer_def assms(4))
qed

text \<open>The reply of a home agent for an outstanding query, as a step.\<close>

lemma answer_step:
  assumes "gateway_inv {} s" and "query_map s (ucast (sequence_no m)) = Some i"
    and "messageType m = MSG_PLEXUS_GET_REPLY" and "0 \<le> sint (sequence_no m)" and "sint (sequence_no m) \<le> 65535"
    and "length (dest_host m) \<le> 248" and "length (source_host m) \<le> 214" and "hostName (gr_host_address m) = addr"
    and "addr \<noteq> []" and "length addr \<le> 248" and "0 \<notin> set addr" and "address_from_string env addr = Some ip"
  obtains bs t where "serialize True rv (Msg_GET_REPLY m) = Some (map Some bs)" and "gateway_step env (Home_agent bs) s = Some t"
    and "completed t = completed s @ [(i, (queries s ! i)\<lparr>answers := answers (queries s ! i) @
      [answer_rr env (question_name (hd (questions (queries s ! i)))) ip], query_rcode := R_SUCCESS, metric_result := SUCCESS\<rparr>)]"
    and "query_map t (ucast (sequence_no m)) = None" and "i \<notin> set (waits t)"
    and "query_id (queries s ! i) = ucast (sequence_no m)" and "questions (queries s ! i) \<noteq> []"
proof -
  have i: "i < length (queries s)" "query_id (queries s ! i) = ucast (sequence_no m)" "questions (queries s ! i) \<noteq> []" "i \<in> set (waits s)"
    using gateway_invD(2-5,7)[OF assms(1)] assms(2) by blast+
  obtain bs buf where r: "serialize True rv (Msg_GET_REPLY m) = Some (map Some bs)"
    "handle_read_to_desthostlen bs = Some (Reply_for (ucast (sequence_no m)) (length addr) buf)" "take (length addr) buf = addr"
    using reply_read_by[OF assms(3-7)] reply_serialized[of m] assms(8,10) unfolding serialize.simps by blast
  have "gateway_step env (Home_agent bs) s = Some (answer_query env (ucast (sequence_no m)) (length addr) buf s)"
    using r(2) by (simp add: home_agent_reply_def)
  moreover have "i \<notin> set (remove1 i (waits s))" using gateway_invD(6)[OF assms(1)] by simp
  ultimately show thesis
    using that[OF r(1), of "answer_query env (ucast (sequence_no m)) (length addr) buf s"] r(3) i assms(9-12)
    by (simp add: complete_answer_eq[OF assms(2) i(4,1) refl] Let_def)
qed

lemma answered_ok:
  assumes "query_ok q" and "length (answers q) < 65535" and "questions q \<noteq> []"
  shows "query_ok (q\<lparr>answers := answers q @ [answer_rr env (question_name (hd (questions q))) ip], query_rcode := r, metric_result := m\<rparr>)"
  using assms
  by (cases "questions q"; cases ip) (auto simp: query_ok_def question_ok_def rr_ok_def answer_rr_def ulong_be_def v6_bytes_def)

text \<open>
  C13. The path of an answer: when the home agent sends its GET reply with the sequence number of an outstanding query and the text of an
  IPv4 address, the query leaves the map with its timer cancelled and is completed with success; to its answers is added one
  address record, with the name of the question and the four bytes of the address, most significant first. The completed query is one
  that the client reads back from the reply of the speaker.
\<close>

theorem answer_delivered:
  assumes "gateway_inv {} s" and "query_map s (ucast (sequence_no m)) = Some i"
    and "query_ok (queries s ! i)" and "length (answers (queries s ! i)) < 65535"
    and "messageType m = MSG_PLEXUS_GET_REPLY" and "0 \<le> sint (sequence_no m)" and "sint (sequence_no m) \<le> 65535"
    and "length (dest_host m) \<le> 248" and "length (source_host m) \<le> 214" and "hostName (gr_host_address m) = addr"
    and "addr \<noteq> []" and "length addr \<le> 248" and "0 \<notin> set addr" and "address_from_string env addr = Some (V4 ip)"
  shows "\<exists>bs t q. serialize True rv (Msg_GET_REPLY m) = Some (map Some bs) \<and> gateway_step env (Home_agent bs) s = Some t \<and>
    completed t = completed s @ [(i, q)] \<and> query_map t (query_id q) = None \<and> i \<notin> set (waits t) \<and>
    query_rcode q = R_SUCCESS \<and> questions q = questions (queries s ! i) \<and> query_id q = ucast (sequence_no m) \<and>
    answers q = answers (queries s ! i) @ [\<lparr>rr_name = question_name (hd (questions (queries s ! i))), rtype = T_A, rclass = C_IN,
      ttl = ucast (answer_ttl env), rdlength = 4, rdata = ulong_be ip\<rparr>] \<and> query_ok q"
proof -
  obtain bs t where "serialize True rv (Msg_GET_REPLY m) = Some (map Some bs)" "gateway_step env (Home_agent bs) s = Some t"
    "completed t = completed s @ [(i, (queries s ! i)\<lparr>answers := answers (queries s ! i) @
      [answer_rr env (question_name (hd (questions (queries s ! i)))) (V4 ip)], query_rcode := R_SUCCESS, metric_result := SUCCESS\<rparr>)]"
    "query_map t (ucast (sequence_no m)) = None" "i \<notin> set (waits t)"
    "query_id (queries s ! i) = ucast (sequence_no m)" "questions (queries s ! i) \<noteq> []"
    by (rule answer_step[OF assms(1,2) assms(5-14)])
  moreover from answered_ok[OF assms(3,4) this(7), where env = env and ip = "V4 ip" and r = R_SUCCESS and m = SUCCESS] have
    "query_ok ((queries s ! i)\<lparr>answers := answers (queries s ! i) @ [answer_rr env (question_name (hd (questions (queries s ! i)))) (V4 ip)],
      query_rcode := R_SUCCESS, metric_result := SUCCESS\<rparr>)" .
  ultimately show ?thesis by (simp add: answer_rr_def)
qed

lemma answer_delivered_witness:
  "\<exists>s bs t q. gateway_run example_env [Query example_query] (gateway_new [example_agent]) = Some s \<and>
    gateway_step example_env (Home_agent bs) s = Some t \<and> completed t = [(0, q)] \<and> query_rcode q = R_SUCCESS \<and>
    rdata (last (answers q)) = [10, 0, 0, 1]"
proof -
  let ?addr = "[49, 48, 46, 48, 46, 48, 46, 49] :: cstring"
  let ?m = "ABSMessage.extend (raw_base\<lparr>messageType := 43, sequence_no := 0x1234\<rparr>)
      (MessageGET_REPLY.fields 0 0 0 0 0 raw_oid (HostAddress_new ?addr 80) [100])"
  obtain q bs s where s: "compose_request (hahostname example_agent) (haport example_agent) (nshostname example_env) (nsport example_env)
      (suffixes example_env) example_query = (q, Returns bs)"
    "gateway_run example_env [Query example_query] (gateway_new [example_agent]) = Some s"
    "gateway_inv {} s" "(0, 0, bs) \<in> set (connecting s)" "query_map s (query_id example_query) = Some 0"
    "agents s = [example_agent]" "completed s = []" "queries s = [q]"
    by (rule example_gateway_run)
  obtain d where d: "q = example_query\<lparr>device_name := d\<rparr>" using compose_request_device[OF s(1)] by blast
  have q: "query_ok (queries s ! 0)" "length (answers (queries s ! 0)) < 65535"
    using example_query_ok(1) unfolding s(8) d by (simp_all add: query_ok_def example_query_def)
  have m: "query_map s (ucast (sequence_no ?m)) = Some 0" "messageType ?m = MSG_PLEXUS_GET_REPLY" "0 \<le> sint (sequence_no ?m)"
    "sint (sequence_no ?m) \<le> 65535" "length (dest_host ?m) \<le> 248" "length (source_host ?m) \<le> 214"
    "hostName (gr_host_address ?m) = ?addr" "?addr \<noteq> []" "length ?addr \<le> 248" "0 \<notin> set ?addr"
    "address_from_string example_env ?addr = Some (V4 0x0A000001)"
    using s(5) by (simp_all add: ABSMessage.defs MessageGET_REPLY.defs raw_base_def HostAddress_new_def example_query_def example_env_def)
  from answer_delivered[OF s(3) m(1) q m(2-11)] obtain bs t x where "gateway_step example_env (Home_agent bs) s = Some t"
    "completed t = [(0, x)]" "query_rcode x = R_SUCCESS" "rdata (last (answers x)) = ulong_be 0x0A000001"
    unfolding s(7) by fastforce
  moreover have "ulong_be 0x0A000001 = [10, 0, 0, 1]" by (simp add: ulong_be_def)
  ultimately show ?thesis using s(2) by metis
qed

end
