(* ===== verification/Gateway_Replies.thy ===== *)
theory Gateway_Replies
  imports Gateway_Behaviour Dns_Replies
begin

text \<open>
  The gateway with its speaker, when the answer of a home agent makes the reply too long for it.
\<close>

lemma body_wire_answer:
  "length (body_wire (q\<lparr>answers := answers q @ [rr], query_rcode := r, metric_result := m\<rparr>)) = length (body_wire q) + length (rr_wire rr)"
  by (simp add: body_wire_def)

lemma length_answer:
  "length (rr_wire (answer_rr env name (V4 ip))) = length (name_wire name) + 14"
  by (simp add: rr_wire_def answer_rr_def ulong_be_def)

lemma compose_too_long:
  assumes "room < length (body_wire q)"
  obtains e where "compose_dns_response q room = Throws e"
proof (cases "compose_dns_response q room")
  case Undefined
  with compose_defined[of q room] show thesis by (simp add: is_defined_def)
next
  case (Returns body)
  from compose_enc[OF Returns] assms show thesis by auto
qed (use that in blast)


definition example_long_query :: dnsquery where
  "example_long_query = example_query\<lparr>answers := [\<lparr>rr_name = example_name, rtype = T_A, rclass = C_IN, ttl = 60, rdlength = 440,
     rdata = replicate 440 0\<rparr>]\<rparr>"


end
