(* ===== verification/Home_Agent_Db.thy ===== *)
theory Home_Agent_Db
  imports Lookup_Table
begin

text \<open>
  \<^verbatim>\<open>src/crawler_manager/homeagentdb.cpp\<close>: the manager's assignment of home agents to pollers. All its functions run in one strand, so
  each is a step. A poller connection is a number that stands for its pointer, by which \<^verbatim>\<open>pollerdb_\<close> is ordered. The lists of
  \<^verbatim>\<open>pollerdb_\<close> hold pointers to the strings of \<^verbatim>\<open>hadb_\<close>; here they hold the strings, and following one that is not
  in \<^verbatim>\<open>hadb_\<close> is None, as is a failing assertion.
\<close>

section \<open>The operations\<close>

record homeagentdb =
  pollerq :: "cstring list"
  hadb :: "cstring set"
  pollerdb :: "(nat, cstring list) table"
  assigned :: "(nat \<times> cstring) list"   \<comment> \<open>the calls of \<^verbatim>\<open>pollerconnection::assign_home_agent\<close>\<close>

definition homeagentdb_new :: homeagentdb where
  "homeagentdb_new = \<lparr>pollerq = [], hadb = {}, pollerdb = [], assigned = []\<rparr>"

fun min_poller :: "nat \<times> cstring list \<Rightarrow> (nat \<times> cstring list) list \<Rightarrow> nat \<times> cstring list" where
  "min_poller m [] = m"
| "min_poller m (i # rest) = min_poller (if length (snd i) < length (snd m) then i else m) rest"

definition assign_home_agent :: "cstring \<Rightarrow> homeagentdb \<Rightarrow> homeagentdb option" where
  "assign_home_agent hahostname s =
     (if hahostname \<in> hadb s then Some s
      else case pollerdb s of [] \<Rightarrow> None
      | first # _ \<Rightarrow>
        let (p, halist) = min_poller first (pollerdb s) in
        Some (s\<lparr>hadb := insert hahostname (hadb s), pollerdb := map_assign (<) p (halist @ [hahostname]) (pollerdb s),
          assigned := assigned s @ [(p, hahostname)]\<rparr>))"

function process_queue :: "homeagentdb \<Rightarrow> homeagentdb option" where
  "process_queue s =
     (case pollerq s of [] \<Rightarrow> Some s
      | front # q \<Rightarrow>
        if pollerdb s = [] then Some s
        else Option.bind (assign_home_agent front s) (\<lambda>s. process_queue (s\<lparr>pollerq := q\<rparr>)))"
  by pat_completeness auto

termination process_queue
  by (relation "measure (\<lambda>s. length (pollerq s))") auto

declare process_queue.simps [simp del]

definition poller_connected :: "nat \<Rightarrow> homeagentdb \<Rightarrow> homeagentdb option" where
  "poller_connected p s =
     process_queue (if map_find (<) p (pollerdb s) = None then s\<lparr>pollerdb := map_insert (<) p [] (pollerdb s)\<rparr> else s)"

fun requeue :: "cstring list \<Rightarrow> homeagentdb \<Rightarrow> homeagentdb option" where
  "requeue [] s = Some s"
| "requeue (i # rest) s =
     (if i \<in> hadb s then requeue rest (s\<lparr>pollerq := pollerq s @ [i], hadb := hadb s - {i}\<rparr>) else None)"

definition poller_disconnected :: "nat \<Rightarrow> homeagentdb \<Rightarrow> homeagentdb option" where
  "poller_disconnected p s =
     (case map_find (<) p (pollerdb s) of None \<Rightarrow> None
      | Some halist \<Rightarrow> Option.bind (requeue halist s) (\<lambda>s. process_queue (s\<lparr>pollerdb := map_erase (<) p (pollerdb s)\<rparr>)))"

definition add_home_agent :: "cstring \<Rightarrow> homeagentdb \<Rightarrow> homeagentdb option" where
  "add_home_agent hahostname s =
     (if pollerdb s \<noteq> [] then assign_home_agent hahostname s else Some (s\<lparr>pollerq := pollerq s @ [hahostname]\<rparr>))"

datatype manager_event = Poller_connected nat | Poller_disconnected nat | Discovered cstring

fun manager_step :: "manager_event \<Rightarrow> homeagentdb \<Rightarrow> homeagentdb option" where
  "manager_step (Poller_connected p) s = poller_connected p s"
| "manager_step (Poller_disconnected p) s = poller_disconnected p s"
| "manager_step (Discovered h) s = add_home_agent h s"

fun manager_run :: "manager_event list \<Rightarrow> homeagentdb \<Rightarrow> homeagentdb option" where
  "manager_run [] s = Some s"
| "manager_run (e # es) s = Option.bind (manager_step e s) (manager_run es)"

end
