(* ===== verification/Crawler_Protocol.thy ===== *)
theory Crawler_Protocol
  imports Dns_Message
begin

text \<open>
  The protocol between the manager and the pollers of the crawler: \<^verbatim>\<open>messages.hpp\<close> and \<^verbatim>\<open>bufreadwrite.cpp\<close> of
  \<^verbatim>\<open>src/crawler_protocol\<close>, with \<^verbatim>\<open>parse_string\<close> and \<^verbatim>\<open>write_string\<close> of \<^verbatim>\<open>src/shared/protocol_helper.hpp\<close>. A message is a
  type and a string; a writer sends messages one after the other, a reader calls a handler for each.
\<close>

section \<open>Headers\<close>

datatype message_type = NOT_A_MESSAGE | HOME_AGENT_DISCOVERED | HOME_AGENT_ASSIGNMENT

fun message_type_value :: "message_type \<Rightarrow> byte" where
  "message_type_value NOT_A_MESSAGE = 0" | "message_type_value HOME_AGENT_DISCOVERED = 1"
| "message_type_value HOME_AGENT_ASSIGNMENT = 2"

text \<open>The three bytes of a header; a new one holds anything.\<close>

definition header_set_type :: "message_type \<Rightarrow> bytes \<Rightarrow> bytes" where
  "header_set_type t h = h[0 := message_type_value t]"

definition header_type :: "bytes \<Rightarrow> message_type" where
  "header_type h = (if h ! 0 = 1 then HOME_AGENT_DISCOVERED else if h ! 0 = 2 then HOME_AGENT_ASSIGNMENT else NOT_A_MESSAGE)"

definition header_set_length :: "ushort \<Rightarrow> bytes \<Rightarrow> bytes" where
  "header_set_length n h = h[1 := short_be n ! 0, 2 := short_be n ! 1]"

definition header_length :: "bytes \<Rightarrow> ushort" where
  "header_length h = be_short [h ! 1, h ! 2]"

section \<open>Strings in a buffer\<close>

definition parse_string :: "nat \<Rightarrow> bytes \<Rightarrow> (cstring \<times> bytes) outcome" where
  "parse_string len buf =
     run_then (check_end_len len buf) (\<lambda>_.
     if len = 0 then Undefined
     else if buf ! (len - 1) \<noteq> 0 then Throws Invalid_string_format
     else Returns (takeWhile (\<lambda>c. c \<noteq> 0) buf, drop len buf))"

definition write_string :: "cstring \<Rightarrow> writer \<Rightarrow> writer outcome" where
  "write_string s w = run_then (check_room_len (length s + 1) w) (\<lambda>_. put_bytes (s @ [0]) w)"

section \<open>\<^verbatim>\<open>bufwrite\<close>\<close>

text \<open>
  \<open>bw_writing\<close> is what the socket is writing, \<open>bw_wire\<close> what it has been given, and \<open>bw_outcomes\<close> the calls of the success and the
  error handler, if there are such.
\<close>

type_synonym bufitem = "bytes \<times> cstring"

record bufwrite =
  bw_connected :: bool
  bw_queue :: "bufitem list"
  bw_in_progress :: bool
  bw_succb :: bool
  bw_errcb :: bool
  bw_writing :: "bufitem list"
  bw_wire :: "bufitem list"
  bw_outcomes :: "(bool \<times> message_type \<times> cstring) list"

definition bufwrite_new :: "bool \<Rightarrow> bool \<Rightarrow> bufwrite" where
  "bufwrite_new succb errcb = \<lparr>bw_connected = False, bw_queue = [], bw_in_progress = False, bw_succb = succb, bw_errcb = errcb,
     bw_writing = [], bw_wire = [], bw_outcomes = []\<rparr>"

definition item_of :: "bytes \<Rightarrow> message_type \<Rightarrow> cstring \<Rightarrow> bufitem" where
  "item_of raw t msg = (header_set_length (of_nat (length msg)) (header_set_type t raw), msg)"

definition send_bufitem :: "bufitem \<Rightarrow> bufwrite \<Rightarrow> bufwrite" where
  "send_bufitem item w =
     (if bw_connected w \<and> \<not> bw_in_progress w
      then w\<lparr>bw_in_progress := True, bw_writing := bw_writing w @ [item], bw_wire := bw_wire w @ [item]\<rparr>
      else w\<lparr>bw_queue := bw_queue w @ [item]\<rparr>)"

definition sendmsg :: "bytes \<Rightarrow> message_type \<Rightarrow> cstring \<Rightarrow> bufwrite \<Rightarrow> bufwrite" where
  "sendmsg raw t msg w = send_bufitem (item_of raw t msg) w"

definition send_next_bufitem :: "bufwrite \<Rightarrow> bufwrite" where
  "send_next_bufitem w = (case bw_queue w of [] \<Rightarrow> w | item # q \<Rightarrow> send_bufitem item (w\<lparr>bw_queue := q\<rparr>))"

definition bw_set_connected :: "bufwrite \<Rightarrow> bufwrite" where
  "bw_set_connected w = send_next_bufitem (w\<lparr>bw_connected := True\<rparr>)"

definition report :: "bool \<Rightarrow> bufitem \<Rightarrow> bool \<times> message_type \<times> cstring" where
  "report ok item = (ok, header_type (fst item), snd item)"

definition handle_bufitem_sent :: "bool \<Rightarrow> bufitem \<Rightarrow> bufwrite \<Rightarrow> bufwrite" where
  "handle_bufitem_sent ec item w =
     (let w = w\<lparr>bw_in_progress := False\<rparr> in
      if \<not> ec then send_next_bufitem (if bw_succb w then w\<lparr>bw_outcomes := bw_outcomes w @ [report True item]\<rparr> else w)
      else (if bw_errcb w then w\<lparr>bw_outcomes := bw_outcomes w @ map (report False) (item # bw_queue w)\<rparr> else w)\<lparr>bw_queue := []\<rparr>)"

text \<open>Runs of a writer: messages, the connection, and completions of the write that is outstanding.\<close>

datatype writer_event = Send bytes message_type cstring | Connect | Written bool

fun writer_step :: "writer_event \<Rightarrow> bufwrite \<Rightarrow> bufwrite" where
  "writer_step (Send raw t msg) w = sendmsg raw t msg w"
| "writer_step Connect w = bw_set_connected w"
| "writer_step (Written ec) w =
     (case bw_writing w of [] \<Rightarrow> w | item # rest \<Rightarrow> handle_bufitem_sent ec item (w\<lparr>bw_writing := rest\<rparr>))"

primrec writer_run :: "writer_event list \<Rightarrow> bufwrite \<Rightarrow> bufwrite" where
  "writer_run [] w = w"
| "writer_run (e # es) w = writer_run es (writer_step e w)"

section \<open>\<^verbatim>\<open>bufread\<close>\<close>

text \<open>
  The body is read into the array of 256 bytes and followed by a null character.
\<close>

definition handle_body :: "bytes \<Rightarrow> bytes \<Rightarrow> cstring outcome \<times> bytes" where
  "handle_body body buf =
     (let buf = body @ [0] @ drop (length body + 1) buf in
      (run_then (parse_string (length body + 1) buf) (\<lambda>(msg, _). Returns msg), buf))"

text \<open>
  What a reader with handlers for the types \<open>hs\<close> calls, for the bytes that arrive until the connection ends; it then calls its
  error handler, as it does at the first message it does not accept.
\<close>

function bufread_run :: "message_type list \<Rightarrow> bytes \<Rightarrow> bytes \<Rightarrow> (message_type \<times> cstring) list" where
  "bufread_run hs buf stream =
     (let h = take 3 stream; n = unat (header_length h) in
      if length stream < 3 then []
      else if n > 255 then []
      else if header_type h \<in> set hs then
        if length stream < 3 + n then []
        else (case handle_body (take n (drop 3 stream)) buf of
            (Returns msg, buf) \<Rightarrow> (header_type h, msg) # bufread_run hs buf (drop (3 + n) stream)
          | _ \<Rightarrow> [])
      else [])"
  by pat_completeness auto

termination bufread_run
  by (relation "measure (\<lambda>(_, _, stream). length stream)") auto

declare bufread_run.simps [simp del]

end
