(* ===== verification/Manager_Process.thy ===== *)
theory Manager_Process
  imports Home_Agent_Db Crawler_Protocol
begin

text \<open>
  The manager process: \<^verbatim>\<open>pollerconnection\<close> of \<^verbatim>\<open>src/crawler_manager/pollerconnector.cpp\<close>, the signals that join the connections to the
  database of home agents, and the start in \<^verbatim>\<open>main.cpp\<close>. None is an exception that leaves a handler, which stops the process, or a
  failing assertion.
\<close>

section \<open>Connections\<close>

text \<open>
  \<open>cn_open\<close> says that the socket has not been closed, \<open>cn_reading\<close> that the reader waits for data. A connection is known to the database
  by its position. \<open>raw\<close> are the bytes of a new header.
\<close>

record connection =
  cn_connected :: bool
  cn_open :: bool
  cn_reading :: bool
  cn_writer :: bufwrite

definition connection_new :: connection where
  "connection_new = \<lparr>cn_connected = True, cn_open = True, cn_reading = False, cn_writer = bufwrite_new True True\<rparr>"

record manager =
  mg_db :: homeagentdb
  mg_conns :: "connection list"

definition update_conn :: "nat \<Rightarrow> (connection \<Rightarrow> connection) \<Rightarrow> manager \<Rightarrow> manager" where
  "update_conn i f m = m\<lparr>mg_conns := (mg_conns m)[i := f (mg_conns m ! i)]\<rparr>"

text \<open>
  \<^verbatim>\<open>pollerconnection::assign_home_agent\<close>. On a connection that is not connected it calls \<^verbatim>\<open>send_failure\<close>, and that \<^verbatim>\<open>disconnect\<close>,
  which throws because the socket is closed.
\<close>

definition conn_assign :: "bytes \<Rightarrow> nat \<times> cstring \<Rightarrow> manager \<Rightarrow> manager option" where
  "conn_assign raw a m =
     (if cn_connected (mg_conns m ! fst a)
      then Some (update_conn (fst a) (\<lambda>c. c\<lparr>cn_writer := sendmsg raw HOME_AGENT_ASSIGNMENT (snd a) (cn_writer c)\<rparr>) m)
      else None)"

fun conn_assign_all :: "bytes \<Rightarrow> (nat \<times> cstring) list \<Rightarrow> manager \<Rightarrow> manager option" where
  "conn_assign_all raw [] m = Some m"
| "conn_assign_all raw (a # as) m = Option.bind (conn_assign raw a m) (conn_assign_all raw as)"

text \<open>An operation of the database, with the assignments that it makes.\<close>

definition with_db :: "bytes \<Rightarrow> (homeagentdb \<Rightarrow> homeagentdb option) \<Rightarrow> manager \<Rightarrow> manager option" where
  "with_db raw f m =
     (case f (mg_db m) of
        None \<Rightarrow> None
      | Some d \<Rightarrow> conn_assign_all raw (drop (length (assigned (mg_db m))) (assigned d)) (m\<lparr>mg_db := d\<rparr>))"

text \<open>\<open>shut\<close> says that \<^verbatim>\<open>shutdown\<close> succeeds on an open socket; on a closed one it throws.\<close>

definition disconnect :: "bytes \<Rightarrow> bool \<Rightarrow> nat \<Rightarrow> manager \<Rightarrow> manager option" where
  "disconnect raw shut i m =
     (let m = update_conn i (\<lambda>c. c\<lparr>cn_connected := False\<rparr>) m in
      if shut \<and> cn_open (mg_conns m ! i)
      then with_db raw (poller_disconnected i) (update_conn i (\<lambda>c. c\<lparr>cn_open := False\<rparr>) m) else None)"

definition send_failure :: "bytes \<Rightarrow> bool \<Rightarrow> nat \<Rightarrow> message_type \<Rightarrow> cstring \<Rightarrow> manager \<Rightarrow> manager option" where
  "send_failure raw shut i t s m =
     Option.bind (disconnect raw shut i m) (\<lambda>m. if t = HOME_AGENT_ASSIGNMENT then with_db raw (add_home_agent s) m else Some m)"

fun report_all :: "bytes \<Rightarrow> bool \<Rightarrow> nat \<Rightarrow> (bool \<times> message_type \<times> cstring) list \<Rightarrow> manager \<Rightarrow> manager option" where
  "report_all raw shut i [] m = Some m"
| "report_all raw shut i ((ok, t, s) # rs) m =
     Option.bind (if ok then Some m else send_failure raw shut i t s m) (report_all raw shut i rs)"

section \<open>The process\<close>

text \<open>
  Events: a connection is accepted and started; a home agent is reported by a poller; a read fails; a write ends, with its error.
\<close>

datatype process_event = Accepted | Reported cstring | Read_failed nat bool | Write_ended nat bool bool

definition accept :: "bytes \<Rightarrow> manager \<Rightarrow> manager option" where
  "accept raw m =
     (let i = length (mg_conns m);
          c = connection_new\<lparr>cn_reading := True, cn_writer := bw_set_connected (cn_writer connection_new)\<rparr>
      in with_db raw (poller_connected i) (m\<lparr>mg_conns := mg_conns m @ [c]\<rparr>))"

fun process_step :: "bytes \<Rightarrow> process_event \<Rightarrow> manager \<Rightarrow> manager option" where
  "process_step raw Accepted m = accept raw m"
| "process_step raw (Reported h) m = with_db raw (add_home_agent h) m"
| "process_step raw (Read_failed i shut) m =
     (if i < length (mg_conns m) \<and> cn_reading (mg_conns m ! i)
      then disconnect raw shut i (update_conn i (\<lambda>c. c\<lparr>cn_reading := False\<rparr>) m) else Some m)"
| "process_step raw (Write_ended i ec shut) m =
     (if i < length (mg_conns m) \<and> bw_writing (cn_writer (mg_conns m ! i)) \<noteq> []
      then let w = cn_writer (mg_conns m ! i); w' = writer_step (Written ec) w
        in report_all raw shut i (drop (length (bw_outcomes w)) (bw_outcomes w')) (update_conn i (\<lambda>c. c\<lparr>cn_writer := w'\<rparr>) m)
      else Some m)"

fun process_run :: "bytes \<Rightarrow> process_event list \<Rightarrow> manager \<Rightarrow> manager option" where
  "process_run raw [] m = Some m"
| "process_run raw (e # es) m = Option.bind (process_step raw e m) (process_run raw es)"

definition process_start :: "cstring list \<Rightarrow> manager option" where
  "process_start home_agents =
     map_option (\<lambda>d. \<lparr>mg_db = d, mg_conns = []\<rparr>) (manager_run (map Discovered home_agents) homeagentdb_new)"

end
