(* ===== verification/Crawler_Link.thy ===== *)
theory Crawler_Link
  imports Crawler_Protocol Dns_Roundtrip
begin

text \<open>
  What the writer and the reader of the crawler's protocol promise: every message is accounted for, in order, and what a writer
  puts on the wire is what the reader's handlers are called with; and the messages for which this fails.
\<close>

section \<open>The writer\<close>

definition message_of :: "bufitem \<Rightarrow> message_type \<times> cstring" where
  "message_of item = (header_type (fst item), snd item)"

fun messages_of :: "writer_event list \<Rightarrow> (message_type \<times> cstring) list" where
  "messages_of [] = []"
| "messages_of (Send raw t s # es) = message_of (item_of raw t s) # messages_of es"
| "messages_of (e # es) = messages_of es"

text \<open>The messages given to a writer so far are those it has reported, the one it writes and those that wait.\<close>

definition accounts :: "(message_type \<times> cstring) list \<Rightarrow> bufwrite \<Rightarrow> bool" where
  "accounts ms w \<longleftrightarrow> bw_succb w \<and> bw_errcb w \<and> map snd (bw_outcomes w) @ map message_of (bw_writing w @ bw_queue w) = ms \<and>
     length (bw_writing w) = (if bw_in_progress w then 1 else 0) \<and>
     (\<not> bw_in_progress w \<longrightarrow> bw_connected w \<longrightarrow> bw_queue w = []) \<and>
     (\<not> bw_connected w \<longrightarrow> \<not> bw_in_progress w)"

lemma snd_report: "snd (report ok item) = message_of item"
  by (simp add: report_def message_of_def)

lemma send_accounts: "accounts ms w \<Longrightarrow> accounts (ms @ [message_of item]) (send_bufitem item w)"
  by (auto simp: accounts_def send_bufitem_def split: if_splits)

text \<open>The next message that waits, when nothing is being written.\<close>

lemma send_next_accounts:
  assumes "bw_succb w" and "bw_errcb w" and "map snd (bw_outcomes w) @ map message_of (bw_queue w) = ms"
    and "bw_writing w = []" and "\<not> bw_in_progress w" and "bw_connected w"
  shows "accounts ms (send_next_bufitem w)"
  using assms by (auto simp: accounts_def send_next_bufitem_def send_bufitem_def split: list.split)

lemma written_accounts:
  assumes "accounts ms w"
  shows "accounts ms (writer_step (Written ec) w)"
proof (cases "bw_writing w")
  case (Cons item rest)
  then have r: "rest = []" "bw_connected w" using assms by (auto simp: accounts_def split: if_splits)
  show ?thesis
  proof (cases ec)
    case True
    with Cons r assms show ?thesis by (simp add: handle_bufitem_sent_def Let_def accounts_def snd_report comp_def)
  next
    case False
    have "accounts ms (send_next_bufitem (w\<lparr>bw_writing := [], bw_in_progress := False,
        bw_outcomes := bw_outcomes w @ [report True item]\<rparr>))"
      using assms Cons r by (intro send_next_accounts) (simp_all add: accounts_def snd_report)
    then show ?thesis using Cons r(1) False assms by (simp add: handle_bufitem_sent_def Let_def accounts_def)
  qed
qed (use assms in simp)

lemma connect_accounts: "accounts ms w \<Longrightarrow> \<not> bw_connected w \<Longrightarrow> accounts ms (bw_set_connected w)"
  unfolding bw_set_connected_def by (intro send_next_accounts) (auto simp: accounts_def)

lemma step_connected: "bw_connected (writer_step e w) \<longleftrightarrow> bw_connected w \<or> e = Connect"
  by (cases e) (auto simp: sendmsg_def send_bufitem_def bw_set_connected_def send_next_bufitem_def handle_bufitem_sent_def Let_def
      split: list.split)

lemma writer_run_accounts:
  assumes "accounts ms w" and "length (filter (\<lambda>e. e = Connect) es) \<le> (if bw_connected w then 0 else 1)"
  shows "accounts (ms @ messages_of es) (writer_run es w)"
  using assms
proof (induction es arbitrary: ms w)
  case (Cons e es)
  have n: "length (filter (\<lambda>e. e = Connect) es) \<le> (if bw_connected (writer_step e w) then 0 else 1)"
    using Cons.prems(2) by (auto simp: step_connected split: if_splits)
  show ?case
  proof (cases e)
    case (Send raw t s)
    have "accounts (ms @ [message_of (item_of raw t s)]) (writer_step e w)"
      using send_accounts[OF Cons.prems(1)] Send by (simp add: sendmsg_def)
    from Cons.IH[OF this n] Send show ?thesis by simp
  next
    case Connect
    with Cons.prems have "accounts ms (writer_step e w)" by (auto intro: connect_accounts split: if_splits)
    with Cons.IH[OF _ n] Connect show ?thesis by simp
  next
    case (Written ec)
    from Cons.IH[OF _ n] written_accounts[OF Cons.prems(1), of ec] Written show ?thesis by simp
  qed
qed simp

lemma bufwrite_new_accounts: "accounts [] (bufwrite_new True True)"
  by (simp add: accounts_def bufwrite_new_def)

text \<open>
  As long as the writer is told once that it is connected, every message given to it is accounted for, in the order in which they
  were given: the calls of the success and error handlers are for the first messages, then comes the message that is being
  written, if any, then those that wait; and when the writer is connected and idle, none waits.
\<close>

theorem writer_accounts:
  assumes "length (filter (\<lambda>e. e = Connect) es) \<le> 1"
  shows "let w = writer_run es (bufwrite_new True True) in
    map snd (bw_outcomes w) @ map message_of (bw_writing w @ bw_queue w) = messages_of es \<and>
    length (bw_writing w) \<le> 1 \<and> (bw_connected w \<and> bw_writing w = [] \<longrightarrow> bw_queue w = [])"
  using writer_run_accounts[OF bufwrite_new_accounts, of es] assms
  by (auto simp: accounts_def bufwrite_new_def Let_def split: if_splits)

lemma writer_accounts_witness:
  "let w = writer_run [Send [0, 0, 0] HOME_AGENT_DISCOVERED [104], Connect, Send [0, 0, 0] HOME_AGENT_DISCOVERED [105], Written True]
      (bufwrite_new True True) in
    map snd (bw_outcomes w) @ map message_of (bw_writing w @ bw_queue w) = [(HOME_AGENT_DISCOVERED, [104]), (HOME_AGENT_DISCOVERED, [105])]"
proof -
  let ?es = "[Send [0, 0, 0] HOME_AGENT_DISCOVERED [104], Connect, Send [0, 0, 0] HOME_AGENT_DISCOVERED [105], Written True]"
  have "messages_of ?es = [(HOME_AGENT_DISCOVERED, [104]), (HOME_AGENT_DISCOVERED, [105])]"
    by (simp add: message_of_def item_of_def header_set_length_def header_set_type_def header_type_def)
  moreover have "length (filter (\<lambda>e. e = Connect) ?es) \<le> 1" by simp
  note writer_accounts[OF this]
  ultimately show ?thesis unfolding Let_def by simp
qed

section \<open>The reader\<close>

definition item_bytes :: "bufitem \<Rightarrow> bytes" where
  "item_bytes item = fst item @ snd item"

lemma handle_body_eq: "handle_body body buf = (Returns (takeWhile (\<lambda>c. c \<noteq> 0) body), body @ 0 # drop (length body + 1) buf)"
proof -
  have "takeWhile (\<lambda>c. c \<noteq> 0) (body @ 0 # x) = takeWhile (\<lambda>c. c \<noteq> 0) body" for x :: bytes
    by (induction body) auto
  then show ?thesis by (simp add: handle_body_def parse_string_def check_end_len_def Let_def)
qed

lemma bufread_buf: "bufread_run hs buf stream = bufread_run hs buf' stream"
proof (induction stream arbitrary: buf buf' rule: measure_induct_rule[where f = length])
  case (less stream)
  have r: "bufread_run hs b (drop (3 + n) stream) = bufread_run hs b' (drop (3 + n) stream)" if "\<not> length stream < 3" for n b b'
    using that by (intro less.IH) auto
  then show ?case
    unfolding bufread_run.simps[of hs buf stream] bufread_run.simps[of hs buf' stream] handle_body_eq Let_def by (auto intro!: r)
qed

definition deliverable :: "message_type list \<Rightarrow> bytes \<Rightarrow> message_type \<Rightarrow> cstring \<Rightarrow> bool" where
  "deliverable hs raw t s \<longleftrightarrow> length raw = 3 \<and> t \<in> set hs \<and> t \<noteq> NOT_A_MESSAGE \<and> length s \<le> 255 \<and> 0 \<notin> set s"

lemma item_header:
  assumes "length raw = 3" and "t \<noteq> NOT_A_MESSAGE"
  shows "header_type (fst (item_of raw t s)) = t" "header_length (fst (item_of raw t s)) = of_nat (length s)"
    "length (fst (item_of raw t s)) = 3"
proof -
  obtain a b c where raw: "raw = [a, b, c]" using assms(1) by (auto simp: numeral_3_eq_3 length_Suc_conv)
  show "header_type (fst (item_of raw t s)) = t" using assms(2) raw
    by (cases t) (simp_all add: item_of_def header_type_def header_set_length_def header_set_type_def)
  have "header_length (fst (item_of raw t s)) = be_short (short_be (of_nat (length s)))"
    by (simp add: item_of_def header_length_def header_set_length_def header_set_type_def raw short_be_def)
  then show "header_length (fst (item_of raw t s)) = of_nat (length s)" by (simp add: be_short_be)
  show "length (fst (item_of raw t s)) = 3" by (simp add: item_of_def header_set_length_def header_set_type_def raw)
qed

lemma read_item:
  assumes "deliverable hs raw t s"
  shows "bufread_run hs buf (item_bytes (item_of raw t s) @ rest) = (t, s) # bufread_run hs buf rest"
proof -
  have d: "length raw = 3" "t \<noteq> NOT_A_MESSAGE" "t \<in> set hs" "length s \<le> 255" "takeWhile (\<lambda>c. c \<noteq> 0) s = s"
    using assms by (auto simp: deliverable_def takeWhile_eq_all_conv)
  note h = item_header[OF d(1,2), of s]
  have n: "unat (of_nat (length s) :: ushort) = length s" using d(4) by (simp add: unat_of_nat)
  have s: "snd (item_of raw t s) = s" by (simp add: item_of_def)
  show ?thesis
    using d(3-5) h n s bufread_buf[of hs "s @ 0 # drop (length s + 1) buf" rest buf]
    by (subst bufread_run.simps) (simp add: item_bytes_def handle_body_eq Let_def)
qed

section \<open>From a writer to a reader\<close>

definition good :: "message_type list \<Rightarrow> bufitem \<Rightarrow> bool" where
  "good hs item \<longleftrightarrow> (\<exists>raw t s. item = item_of raw t s \<and> deliverable hs raw t s)"

lemma read_wire: "list_all (good hs) items \<Longrightarrow> bufread_run hs buf (concat (map item_bytes items)) = map message_of items"
proof (induction items)
  case (Cons item items)
  then obtain raw t s where i: "item = item_of raw t s" "deliverable hs raw t s" by (auto simp: good_def)
  have "message_of item = (t, s)"
    using i item_header(1)[of raw t s] by (simp add: message_of_def deliverable_def) (simp add: item_of_def)
  with Cons i show ?case by (simp add: read_item)
qed (simp add: bufread_run.simps)

fun smooth :: "message_type list \<Rightarrow> writer_event \<Rightarrow> bool" where
  "smooth hs (Send raw t s) \<longleftrightarrow> deliverable hs raw t s"
| "smooth hs Connect \<longleftrightarrow> True"
| "smooth hs (Written ec) \<longleftrightarrow> \<not> ec"

definition linked :: "message_type list \<Rightarrow> bufwrite \<Rightarrow> bool" where
  "linked hs w \<longleftrightarrow> bw_succb w \<and> list_all (good hs) (bw_queue w @ bw_wire w) \<and>
     map snd (bw_outcomes w) @ map message_of (bw_writing w) = map message_of (bw_wire w)"

lemma send_linked: "linked hs w \<Longrightarrow> good hs item \<Longrightarrow> linked hs (send_bufitem item w)"
  by (auto simp: linked_def send_bufitem_def)

lemma send_next_linked: "linked hs w \<Longrightarrow> linked hs (send_next_bufitem w)"
  by (auto simp: linked_def send_next_bufitem_def send_bufitem_def split: list.split)

lemma step_linked:
  assumes "linked hs w" and "smooth hs e"
  shows "linked hs (writer_step e w)"
proof (cases e)
  case (Send raw t s)
  with assms have "good hs (item_of raw t s)" by (auto simp: good_def)
  with send_linked[OF assms(1)] Send show ?thesis by (simp add: sendmsg_def)
next
  case Connect
  have "linked hs (w\<lparr>bw_connected := True\<rparr>)" using assms(1) by (simp add: linked_def)
  with Connect send_next_linked show ?thesis by (simp add: bw_set_connected_def)
next
  case (Written ec)
  show ?thesis
  proof (cases "bw_writing w")
    case (Cons item rest)
    have "linked hs (send_next_bufitem (w\<lparr>bw_writing := rest, bw_in_progress := False,
        bw_outcomes := bw_outcomes w @ [report True item]\<rparr>))"
      using assms(1) Cons by (intro send_next_linked) (simp add: linked_def snd_report)
    moreover have "bw_succb w" "\<not> ec" using assms Written by (simp_all add: linked_def)
    ultimately show ?thesis using Cons Written by (simp add: handle_bufitem_sent_def Let_def)
  qed (use Written assms in simp)
qed

lemma run_linked: "linked hs w \<Longrightarrow> list_all (smooth hs) es \<Longrightarrow> linked hs (writer_run es w)"
  by (induction es arbitrary: w) (simp_all add: step_linked)

lemma linked_received:
  assumes "linked hs w" and "accounts ms w"
  shows "bufread_run hs buf (concat (map item_bytes (bw_wire w))) = take (length (bw_wire w)) ms"
    and "bw_queue w = [] \<Longrightarrow> bufread_run hs buf (concat (map item_bytes (bw_wire w))) = ms"
proof -
  have m: "ms = map message_of (bw_wire w) @ map message_of (bw_queue w)"
    using assms by (simp add: accounts_def linked_def) (metis append.assoc)
  have r: "bufread_run hs buf (concat (map item_bytes (bw_wire w))) = map message_of (bw_wire w)"
    using assms(1) by (intro read_wire) (simp add: linked_def)
  then show "bufread_run hs buf (concat (map item_bytes (bw_wire w))) = take (length (bw_wire w)) ms"
    and "bw_queue w = [] \<Longrightarrow> bufread_run hs buf (concat (map item_bytes (bw_wire w))) = ms"
    by (simp_all add: m)
qed

text \<open>A writer that has been given the messages of type \<open>t\<close> in \<open>hs\<close>, with no failure.\<close>

definition host_ok :: "cstring \<Rightarrow> bool" where
  "host_ok h \<longleftrightarrow> length h \<le> 255 \<and> 0 \<notin> set h"

definition sends :: "message_type \<Rightarrow> cstring list \<Rightarrow> bufwrite \<Rightarrow> bool" where
  "sends t hs w \<longleftrightarrow> accounts (map (Pair t) hs) w \<and> linked [t] w"

lemma sends_received:
  assumes "sends t hs w"
  shows "bufread_run [t] buf (concat (map item_bytes (bw_wire w))) = take (length (bw_wire w)) (map (Pair t) hs)"
    and "bw_queue w = [] \<Longrightarrow> bufread_run [t] buf (concat (map item_bytes (bw_wire w))) = map (Pair t) hs"
  using assms linked_received unfolding sends_def by blast+

lemma sends_sendmsg:
  assumes "sends t hs w" and "length raw = 3" and "t \<noteq> NOT_A_MESSAGE" and "host_ok h"
  shows "sends t (hs @ [h]) (sendmsg raw t h w)"
proof -
  let ?item = "item_of raw t h"
  have m: "message_of ?item = (t, h)"
    using item_header(1)[OF assms(2,3), of h] by (simp add: message_of_def) (simp add: item_of_def)
  have "good [t] ?item"
    unfolding good_def using assms(2-4) by (intro exI[of _ raw] exI[of _ t] exI[of _ h]) (simp add: deliverable_def host_ok_def)
  then show ?thesis
    using assms(1) send_linked[of "[t]" w ?item] send_accounts[of _ w ?item] m by (simp add: sends_def sendmsg_def)
qed

lemma sends_written: "sends t hs w \<Longrightarrow> sends t hs (writer_step (Written False) w)"
  using written_accounts[of _ w False] step_linked[of "[t]" w "Written False"] by (simp add: sends_def del: writer_step.simps)

lemma sends_connect:
  assumes "sends t hs w" and "\<not> bw_connected w"
  shows "sends t hs (bw_set_connected w)"
  using connect_accounts[of _ w] step_linked[of "[t]" w Connect] assms by (simp add: sends_def)

lemma bufwrite_new_sends: "sends t [] (bufwrite_new True True)"
  using bufwrite_new_accounts by (simp add: sends_def bufwrite_new_def linked_def)

lemma sends_outcomes:
  assumes "sends t hs w" and "bw_writing w = item # rest"
  shows "bw_outcomes (writer_step (Written False) w) = bw_outcomes w @ [report True item]"
  using assms
  by (auto simp: sends_def accounts_def handle_bufitem_sent_def send_next_bufitem_def send_bufitem_def Let_def split: list.split)

text \<open>
  While no write fails, what a writer has put on the wire makes the reader at the other end call its handlers with the messages that
  were given to the writer, in their order and without any missing in between, as long as the messages are at most 255 bytes without a
  null character and of a type the reader handles; and all of them have been put there once none waits.
\<close>

theorem link_delivers:
  assumes "list_all (smooth hs) es" and "length (filter (\<lambda>e. e = Connect) es) \<le> 1"
  shows "let w = writer_run es (bufwrite_new True True); received = bufread_run hs buf (concat (map item_bytes (bw_wire w))) in
    received = take (length (bw_wire w)) (messages_of es) \<and> (bw_queue w = [] \<longrightarrow> received = messages_of es)"
proof -
  let ?w = "writer_run es (bufwrite_new True True)"
  have "linked hs ?w" using assms(1) by (intro run_linked) (simp_all add: linked_def bufwrite_new_def)
  moreover have "accounts (messages_of es) ?w"
    using writer_run_accounts[OF bufwrite_new_accounts, of es] assms(2) by (simp add: bufwrite_new_def)
  ultimately show ?thesis using linked_received unfolding Let_def by blast
qed

lemma link_delivers_witness:
  "\<exists>w. w = writer_run [Send [0, 0, 0] HOME_AGENT_DISCOVERED [104], Connect] (bufwrite_new True True) \<and>
    bufread_run [HOME_AGENT_DISCOVERED] (replicate 256 0) (concat (map item_bytes (bw_wire w))) = [(HOME_AGENT_DISCOVERED, [104])]"
proof -
  let ?es = "[Send [0, 0, 0] HOME_AGENT_DISCOVERED [104], Connect]"
  have a: "list_all (smooth [HOME_AGENT_DISCOVERED]) ?es" "length (filter (\<lambda>e. e = Connect) ?es) \<le> 1" by (simp_all add: deliverable_def)
  have "messages_of ?es = [(HOME_AGENT_DISCOVERED, [104])]"
    by (simp add: message_of_def item_of_def header_set_length_def header_set_type_def header_type_def)
  moreover have "bw_queue (writer_run ?es (bufwrite_new True True)) = []"
    by (simp add: bufwrite_new_def sendmsg_def send_bufitem_def bw_set_connected_def send_next_bufitem_def)
  ultimately show ?thesis using link_delivers[OF a, of "replicate 256 0"] unfolding Let_def by metis
qed

text \<open>
  A message of 256 bytes or more is sent, but not received: the reader gives up at a length that does not fit into its array, and
  nothing that comes after it is seen. From 65536 bytes on the length in the header wraps around, and the reader takes
  the rest of the string for further messages: whoever chooses the string chooses them.
\<close>

theorem long_message_not_received:
  assumes "length raw = 3" and "t \<noteq> NOT_A_MESSAGE"
  shows "(256 \<le> length s \<and> length s < 65536 \<longrightarrow> bufread_run hs buf (item_bytes (item_of raw t s) @ rest) = []) \<and>
    (s = x @ forged \<and> length forged = 65536 \<and> deliverable hs raw t x \<longrightarrow>
      bufread_run hs buf (item_bytes (item_of raw t s) @ rest) = (t, x) # bufread_run hs buf (forged @ rest))"
proof (intro conjI impI)
  note h = item_header[OF assms, of s]
  assume "256 \<le> length s \<and> length s < 65536"
  then have "unat (of_nat (length s) :: ushort) > 255" by (simp add: unat_of_nat take_bit_nat_eq_self)
  with h show "bufread_run hs buf (item_bytes (item_of raw t s) @ rest) = []"
    by (subst bufread_run.simps) (simp add: item_bytes_def Let_def)
next
  assume s: "s = x @ forged \<and> length forged = 65536 \<and> deliverable hs raw t x"
  have "(of_nat (length x + 65536) :: ushort) = of_nat (length x)" by simp
  with s have "item_bytes (item_of raw t s) = item_bytes (item_of raw t x) @ forged"
    by (simp add: item_bytes_def item_of_def del: of_nat_add)
  with s read_item show "bufread_run hs buf (item_bytes (item_of raw t s) @ rest) = (t, x) # bufread_run hs buf (forged @ rest)"
    by simp
qed

lemma long_message_not_received_witness:
  "bufread_run [HOME_AGENT_ASSIGNMENT] buf (item_bytes (item_of [0, 0, 0] HOME_AGENT_ASSIGNMENT (replicate 300 97)) @ rest) = []"
  using long_message_not_received[of "[0, 0, 0]" HOME_AGENT_ASSIGNMENT "replicate 300 97" "[HOME_AGENT_ASSIGNMENT]" buf rest] by simp

end
