(* ===== verification/Crawler_Manager.thy ===== *)
theory Crawler_Manager
  imports Home_Agent_Db
begin

text \<open>
  What the manager's database promises: no home agent is lost and none is polled twice, whatever pollers come and go; and
  the pollers are loaded evenly.
\<close>

interpretation poller_order: key_order "(<) :: nat \<Rightarrow> nat \<Rightarrow> bool" "\<lambda>p. p"
  by unfold_locales auto

section \<open>The table of pollers\<close>

definition loads :: "homeagentdb \<Rightarrow> cstring list" where
  "loads s = concat (map snd (pollerdb s))"

lemma concat_insert: "concat (map snd (map_insert (<) p [] t)) = concat (map snd (t :: (nat, cstring list) table))"
  by (induction t) auto

lemma fst_insert: "fst ` set (map_insert (<) p v t) = insert p (fst ` set t)" for p :: nat
proof (induction t)
  case (Cons e t)
  obtain k w where "e = (k, w)" by fastforce
  with Cons show ?case by (cases p k rule: linorder_cases) auto
qed simp

lemma split_entry:
  assumes "poller_order.wf_table t" and "t = A @ (p, l) # B"
  shows "map_assign (<) p v t = A @ (p, v) # B" "map_erase (<) p t = A @ B" "p \<notin> fst ` set (A @ B)" "map_find (<) p t = Some l"
proof -
  have w: "\<forall>x\<in>set A. fst x < p" "\<forall>x\<in>set B. p < fst x"
    using assms by (auto simp: poller_order.wf_table_def sorted_wrt_append)
  have b: "map_assign (<) p v B = B" if "\<forall>x\<in>set B. p < fst x" for B :: "(nat \<times> 'a) list"
    using that by (induction B) auto
  show "map_assign (<) p v t = A @ (p, v) # B" "map_erase (<) p t = A @ B" "map_find (<) p t = Some l"
    unfolding assms(2) using w(1) by (induction A) auto
  show "p \<notin> fst ` set (A @ B)" using w by auto
qed

lemma find_split: "map_find (<) p t = Some l \<Longrightarrow> \<exists>A B. t = A @ (p, l) # B" for p :: nat
proof (induction t)
  case (Cons e t)
  show ?case
  proof (cases "fst e = p")
    case True
    with Cons.prems show ?thesis by (cases e) (auto intro: exI[of _ "[]"])
  next
    case False
    with Cons obtain A B where "t = A @ (p, l) # B" by (cases e) (auto split: if_splits)
    then have "e # t = (e # A) @ (p, l) # B" by simp
    then show ?thesis by blast
  qed
qed simp

lemma min_poller_least:
  "min_poller m es \<in> insert m (set es) \<and> (\<forall>x\<in>insert m (set es). length (snd (min_poller m es)) \<le> length (snd x))"
proof (induction es arbitrary: m)
  case (Cons e es)
  show ?case
    using Cons.IH[of e] Cons.IH[of m] by (cases "length (snd e) < length (snd m)") (auto intro: order.trans less_imp_le)
qed simp

section \<open>The invariant\<close>

text \<open>
  The pollers' lists are disjoint and hold exactly the home agents of the set, and the last assignment of each was to its poller.
\<close>

definition polled_by :: "homeagentdb \<Rightarrow> nat \<Rightarrow> cstring \<Rightarrow> bool" where
  "polled_by s p h \<longleftrightarrow> (\<exists>l. (p, l) \<in> set (pollerdb s) \<and> h \<in> set l)"

definition last_assigned :: "homeagentdb \<Rightarrow> nat \<Rightarrow> cstring \<Rightarrow> bool" where
  "last_assigned s p h \<longleftrightarrow> (\<exists>xs ys. assigned s = xs @ (p, h) # ys \<and> h \<notin> snd ` set ys)"

definition db_core :: "homeagentdb \<Rightarrow> bool" where
  "db_core s \<longleftrightarrow> poller_order.wf_table (pollerdb s) \<and> distinct (loads s) \<and> set (loads s) = hadb s \<and>
     (\<forall>p h. polled_by s p h \<longrightarrow> last_assigned s p h)"

lemma assign_core:
  assumes "db_core s" and "pollerdb s \<noteq> []"
  shows "\<exists>t. assign_home_agent h s = Some t \<and> db_core t \<and> hadb t = insert h (hadb s) \<and> pollerq t = pollerq s \<and>
    map fst (pollerdb t) = map fst (pollerdb s)"
proof (cases "h \<in> hadb s")
  case True
  then show ?thesis using assms(1) by (auto simp: assign_home_agent_def)
next
  case False
  obtain f r where f: "pollerdb s = f # r" using assms(2) by (cases "pollerdb s") auto
  obtain p l where m: "min_poller f (pollerdb s) = (p, l)" by fastforce
  have "(p, l) \<in> set (pollerdb s)" using min_poller_least[of f "pollerdb s"] m f by (metis insert_iff list.set_intros(1))
  then obtain A B where s: "pollerdb s = A @ (p, l) # B" by (meson split_list)
  have wf: "poller_order.wf_table (pollerdb s)" using assms(1) by (simp add: db_core_def)
  let ?t = "s\<lparr>hadb := insert h (hadb s), pollerdb := A @ (p, l @ [h]) # B, assigned := assigned s @ [(p, h)]\<rparr>"
  have t: "assign_home_agent h s = Some ?t"
    using False f m split_entry(1)[OF wf s] by (simp add: assign_home_agent_def)
  have fresh: "h \<notin> set (loads s)" using False assms(1) by (simp add: db_core_def)
  have "poller_order.wf_table (pollerdb ?t)" using wf s by (simp add: poller_order.wf_table_def)
  moreover have "distinct (loads ?t)" "set (loads ?t) = insert h (hadb s)"
    using assms(1) fresh s by (auto simp: db_core_def loads_def)
  moreover have "last_assigned ?t q k" if "polled_by ?t q k" for q k
  proof (cases "k = h")
    case True
    have "\<not> polled_by s q h" using fresh by (auto simp: polled_by_def loads_def)
    with that True s have "q = p" by (auto simp: polled_by_def)
    then have "assigned ?t = assigned s @ (q, k) # []" using True by simp
    then show ?thesis unfolding last_assigned_def by fastforce
  next
    case False
    then have "polled_by s q k" using that unfolding polled_by_def s by fastforce
    with assms(1) have "last_assigned s q k" by (simp add: db_core_def)
    then obtain xs ys where "assigned s = xs @ (q, k) # ys" "k \<notin> snd ` set ys" by (auto simp: last_assigned_def)
    with False have "assigned ?t = xs @ (q, k) # (ys @ [(p, h)])" "k \<notin> snd ` set (ys @ [(p, h)])" by auto
    then show ?thesis unfolding last_assigned_def by blast
  qed
  ultimately show ?thesis using t s by (auto simp: db_core_def)
qed

lemma queue_core: "db_core (s\<lparr>pollerq := q\<rparr>) = db_core s"
  by (simp add: db_core_def loads_def polled_by_def last_assigned_def)

lemma process_queue_core:
  assumes "db_core s" and "pollerdb s \<noteq> []"
  shows "\<exists>t. process_queue s = Some t \<and> db_core t \<and> hadb t = hadb s \<union> set (pollerq s) \<and> pollerq t = [] \<and>
    map fst (pollerdb t) = map fst (pollerdb s)"
  using assms
proof (induction "pollerq s" arbitrary: s)
  case Nil
  then show ?case by (subst process_queue.simps) auto
next
  case (Cons h q)
  obtain u where u: "assign_home_agent h s = Some u" "db_core u" "hadb u = insert h (hadb s)" "map fst (pollerdb u) = map fst (pollerdb s)"
    using assign_core[OF Cons.prems] by blast
  have "pollerdb u \<noteq> []" using u(4) Cons.prems(2) by auto
  then obtain t where "process_queue (u\<lparr>pollerq := q\<rparr>) = Some t" "db_core t" "hadb t = hadb u \<union> set q" "pollerq t = []"
    "map fst (pollerdb t) = map fst (pollerdb u)"
    using Cons.hyps(1)[of "u\<lparr>pollerq := q\<rparr>"] u(2) queue_core by auto
  then show ?case using u Cons.prems(2) Cons.hyps(2)[symmetric] by (subst process_queue.simps) auto
qed

lemma requeue_ok:
  "set l \<subseteq> hadb s \<Longrightarrow> distinct l \<Longrightarrow>
   requeue l s = Some (s\<lparr>pollerq := pollerq s @ l, hadb := hadb s - set l\<rparr>)"
proof (induction l arbitrary: s)
  case (Cons h l)
  have "set l \<subseteq> hadb s - {h}" using Cons.prems by auto
  with Cons.IH[of "s\<lparr>pollerq := pollerq s @ [h], hadb := hadb s - {h}\<rparr>"] Cons.prems show ?case
    by (simp add: Diff_insert2[symmetric] insert_commute)
qed simp

section \<open>Steps\<close>

text \<open>\<open>ps\<close> are the pollers that are connected, \<open>hs\<close> the home agents discovered so far.\<close>

definition db_inv :: "nat set \<Rightarrow> cstring set \<Rightarrow> homeagentdb \<Rightarrow> bool" where
  "db_inv ps hs s \<longleftrightarrow> db_core s \<and> fst ` set (pollerdb s) = ps \<and> hadb s \<union> set (pollerq s) = hs \<and> (ps \<noteq> {} \<longrightarrow> pollerq s = [])"

lemma settled_inv:
  assumes "db_core s" and "fst ` set (pollerdb s) = ps" and "hadb s \<union> set (pollerq s) = hs"
  shows "\<exists>t. process_queue s = Some t \<and> db_inv ps hs t"
proof (cases "pollerdb s = []")
  case True
  then show ?thesis using assms by (subst process_queue.simps) (auto simp: db_inv_def split: list.split)
next
  case False
  obtain t where "process_queue s = Some t" "db_core t" "hadb t = hadb s \<union> set (pollerq s)" "pollerq t = []"
    "map fst (pollerdb t) = map fst (pollerdb s)"
    using process_queue_core[OF assms(1) False] by blast
  moreover from this have "fst ` set (pollerdb t) = fst ` set (pollerdb s)" by (metis set_map)
  ultimately show ?thesis using assms by (simp add: db_inv_def)
qed

lemma insert_poller_core:
  assumes "db_core s" and "map_find (<) p (pollerdb s) = None"
  shows "db_core (s\<lparr>pollerdb := map_insert (<) p [] (pollerdb s)\<rparr>)"
proof -
  let ?s = "s\<lparr>pollerdb := map_insert (<) p [] (pollerdb s)\<rparr>"
  have "polled_by ?s = polled_by s" using set_map_insert[OF assms(2)] by (auto simp: polled_by_def fun_eq_iff)
  moreover have "last_assigned ?s = last_assigned s" "loads ?s = loads s"
    by (simp_all add: last_assigned_def fun_eq_iff loads_def concat_insert)
  moreover have "poller_order.wf_table (pollerdb ?s)" using assms(1) by (simp add: db_core_def poller_order.wf_map_insert)
  ultimately show ?thesis using assms(1) by (simp add: db_core_def)
qed

lemma connected_inv:
  assumes "db_inv ps hs s"
  shows "\<exists>t. poller_connected p s = Some t \<and> db_inv (insert p ps) hs t"
proof (cases "map_find (<) p (pollerdb s)")
  case None
  have "db_core (s\<lparr>pollerdb := map_insert (<) p [] (pollerdb s)\<rparr>)"
    using assms None by (intro insert_poller_core) (simp_all add: db_inv_def)
  from settled_inv[OF this, of "insert p ps" hs] None assms show ?thesis by (simp add: poller_connected_def db_inv_def fst_insert)
next
  case (Some l)
  then have "p \<in> ps" using assms find_split[OF Some] by (force simp: db_inv_def)
  then show ?thesis using settled_inv[of s ps hs] assms Some by (auto simp: poller_connected_def db_inv_def insert_absorb)
qed

text \<open>A poller is taken out of the database, before the queue is processed.\<close>

lemma remove_poller:
  assumes "db_inv ps hs s" and "p \<in> ps"
  obtains A l B where "pollerdb s = A @ (p, l) # B"
    and "poller_disconnected p s = process_queue (s\<lparr>pollerq := pollerq s @ l, hadb := hadb s - set l, pollerdb := A @ B\<rparr>)"
    and "db_core (s\<lparr>pollerq := pollerq s @ l, hadb := hadb s - set l, pollerdb := A @ B\<rparr>)"
    and "set l \<subseteq> hadb s" and "fst ` set (A @ B) = ps - {p}"
proof -
  have core: "db_core s" using assms(1) by (simp add: db_inv_def)
  have wf: "poller_order.wf_table (pollerdb s)" using core by (simp add: db_core_def)
  obtain l where "(p, l) \<in> set (pollerdb s)" using assms by (auto simp: db_inv_def)
  then obtain A B where s: "pollerdb s = A @ (p, l) # B" by (meson split_list)
  note e = split_entry[OF wf s]
  let ?t = "s\<lparr>pollerq := pollerq s @ l, hadb := hadb s - set l, pollerdb := A @ B\<rparr>"
  have l: "set l \<subseteq> hadb s" "distinct l" using core s by (auto simp: db_core_def loads_def)
  have "poller_order.wf_table (pollerdb ?t)" using wf s by (auto simp: poller_order.wf_table_def sorted_wrt_append)
  moreover have "distinct (loads ?t)" "set (loads ?t) = hadb ?t" using core s by (auto simp: db_core_def loads_def)
  moreover have "polled_by ?t q h \<Longrightarrow> polled_by s q h" for q h using s by (auto simp: polled_by_def)
  moreover have "last_assigned ?t = last_assigned s" by (simp add: last_assigned_def fun_eq_iff)
  ultimately have c: "db_core ?t" using core by (simp add: db_core_def)
  have "fst ` set (A @ B) = ps - {p}" using assms(1) s e(3) by (auto simp: db_inv_def)
  moreover have "poller_disconnected p s = process_queue ?t"
    using e(2,4) by (simp add: poller_disconnected_def requeue_ok[OF l] s)
  ultimately show thesis using that s c l(1) by blast
qed

lemma disconnected_inv:
  assumes "db_inv ps hs s" and "p \<in> ps"
  shows "\<exists>t. poller_disconnected p s = Some t \<and> db_inv (ps - {p}) hs t"
proof -
  obtain A l B where t: "poller_disconnected p s = process_queue (s\<lparr>pollerq := pollerq s @ l, hadb := hadb s - set l, pollerdb := A @ B\<rparr>)"
    "db_core (s\<lparr>pollerq := pollerq s @ l, hadb := hadb s - set l, pollerdb := A @ B\<rparr>)" "set l \<subseteq> hadb s" "fst ` set (A @ B) = ps - {p}"
    by (rule remove_poller[OF assms])
  have "(hadb s - set l) \<union> set (pollerq s @ l) = hs" using assms(1) t(3) by (auto simp: db_inv_def)
  with settled_inv[OF t(2), of "ps - {p}" hs] t(1,4) show ?thesis by simp
qed

lemma discovered_inv:
  assumes "db_inv ps hs s"
  shows "\<exists>t. add_home_agent h s = Some t \<and> db_inv ps (insert h hs) t"
proof (cases "pollerdb s = []")
  case True
  then show ?thesis using assms by (auto simp: add_home_agent_def db_inv_def queue_core)
next
  case False
  obtain t where "assign_home_agent h s = Some t" "db_core t" "hadb t = insert h (hadb s)" "pollerq t = pollerq s"
    "map fst (pollerdb t) = map fst (pollerdb s)"
    using assign_core[OF _ False] assms by (auto simp: db_inv_def)
  moreover from this have "fst ` set (pollerdb t) = fst ` set (pollerdb s)" by (metis set_map)
  ultimately show ?thesis using assms False by (auto simp: db_inv_def add_home_agent_def)
qed

text \<open>A poller is disconnected only while it is connected.\<close>

fun legal :: "nat set \<Rightarrow> manager_event list \<Rightarrow> bool" where
  "legal ps [] \<longleftrightarrow> True"
| "legal ps (Poller_connected p # es) \<longleftrightarrow> legal (insert p ps) es"
| "legal ps (Poller_disconnected p # es) \<longleftrightarrow> p \<in> ps \<and> legal (ps - {p}) es"
| "legal ps (Discovered h # es) \<longleftrightarrow> legal ps es"

fun pollers_after :: "nat set \<Rightarrow> manager_event list \<Rightarrow> nat set" where
  "pollers_after ps [] = ps"
| "pollers_after ps (Poller_connected p # es) = pollers_after (insert p ps) es"
| "pollers_after ps (Poller_disconnected p # es) = pollers_after (ps - {p}) es"
| "pollers_after ps (Discovered h # es) = pollers_after ps es"

definition discovered :: "manager_event list \<Rightarrow> cstring set" where
  "discovered es = {h. Discovered h \<in> set es}"

lemma discovered_simps [simp]:
  "discovered [] = {}" "discovered (Discovered h # es) = insert h (discovered es)"
  "discovered (Poller_connected p # es) = discovered es" "discovered (Poller_disconnected p # es) = discovered es"
  by (auto simp: discovered_def)

lemma run_inv:
  "db_inv ps hs s \<Longrightarrow> legal ps es \<Longrightarrow>
   \<exists>t. manager_run es s = Some t \<and> db_inv (pollers_after ps es) (hs \<union> discovered es) t"
proof (induction es arbitrary: ps hs s)
  case (Cons e es)
  show ?case
  proof (cases e)
    case (Poller_connected p)
    with Cons.prems Cons.IH connected_inv[OF Cons.prems(1), of p] show ?thesis by fastforce
  next
    case (Poller_disconnected p)
    with Cons.prems Cons.IH disconnected_inv[OF Cons.prems(1), of p] show ?thesis by fastforce
  next
    case (Discovered h)
    obtain t where "add_home_agent h s = Some t" "db_inv ps (insert h hs) t" using discovered_inv[OF Cons.prems(1)] by blast
    with Cons.IH[of ps "insert h hs" t] Cons.prems(2) Discovered show ?thesis by simp
  qed
qed simp

lemma new_inv: "db_inv {} {} homeagentdb_new"
  by (simp add: db_inv_def db_core_def homeagentdb_new_def poller_order.wf_table_def loads_def polled_by_def)

text \<open>
  C19. Whatever pollers connect and disconnect, in any order with the discoveries, no assertion of the manager fails and no dangling
  pointer is followed; while a poller is connected every home agent discovered so far is polled by exactly one connected poller,
  and the last time the home agent was assigned it was assigned to that poller; while none is connected all of them wait.
\<close>

theorem home_agents_assigned:
  assumes "legal {} es"
  shows "\<exists>s. manager_run es homeagentdb_new = Some s \<and> fst ` set (pollerdb s) = pollers_after {} es \<and>
    (if pollers_after {} es = {} then set (pollerq s) = discovered es
     else pollerq s = [] \<and> set (loads s) = discovered es \<and> distinct (loads s)) \<and>
    (\<forall>p h. polled_by s p h \<longrightarrow> last_assigned s p h)"
proof -
  obtain s where s: "manager_run es homeagentdb_new = Some s" "db_inv (pollers_after {} es) (discovered es) s"
    using run_inv[OF new_inv assms] by auto
  moreover have "hadb s = {}" if "pollers_after {} es = {}" using s(2) that by (auto simp: db_inv_def db_core_def loads_def)
  ultimately show ?thesis by (auto simp: db_inv_def db_core_def)
qed

lemma home_agents_assigned_witness:
  "\<exists>s. manager_run [Discovered [97], Poller_connected 1, Poller_connected 2, Discovered [98], Discovered [97], Poller_disconnected 1]
      homeagentdb_new = Some s \<and> fst ` set (pollerdb s) = {2} \<and> set (loads s) = {[97], [98]} \<and> distinct (loads s)"
proof -
  let ?es = "[Discovered [97], Poller_connected 1, Poller_connected 2, Discovered [98], Discovered [97], Poller_disconnected 1]"
  have "legal {} ?es" by simp
  from home_agents_assigned[OF this] show ?thesis by (auto simp: insert_commute)
qed

section \<open>Even loads\<close>

definition balanced :: "homeagentdb \<Rightarrow> bool" where
  "balanced s \<longleftrightarrow> (\<forall>x\<in>set (pollerdb s). \<forall>y\<in>set (pollerdb s). length (snd x) \<le> length (snd y) + 1)"

lemma assign_balanced:
  assumes "poller_order.wf_table (pollerdb s)" and "balanced s" and "assign_home_agent h s = Some t"
  shows "balanced t"
proof (cases "h \<in> hadb s")
  case True
  with assms show ?thesis by (simp add: assign_home_agent_def)
next
  case False
  then obtain f r where f: "pollerdb s = f # r" using assms(3) by (cases "pollerdb s") (auto simp: assign_home_agent_def)
  obtain p l where m: "min_poller f (pollerdb s) = (p, l)" by fastforce
  have least: "length l \<le> length (snd x)" if "x \<in> set (pollerdb s)" for x
    using min_poller_least[of f "pollerdb s"] that unfolding m by auto
  have "(p, l) \<in> set (pollerdb s)" using min_poller_least[of f "pollerdb s"] m f by (metis insert_iff list.set_intros(1))
  then obtain A B where s: "pollerdb s = A @ (p, l) # B" by (meson split_list)
  have t: "pollerdb t = A @ (p, l @ [h]) # B"
    using False assms(3) f m split_entry(1)[OF assms(1) s] by (auto simp: assign_home_agent_def)
  have "length (snd x) \<le> length l + 1" if "x \<in> set (pollerdb s)" for x
    using assms(2) that \<open>(p, l) \<in> set (pollerdb s)\<close> unfolding balanced_def by fastforce
  then show ?thesis using least assms(2) unfolding balanced_def t s by fastforce
qed

lemma manager_run_append: "manager_run (es @ fs) s = Option.bind (manager_run es s) (manager_run fs)"
  by (induction es arbitrary: s) (auto split: bind_splits)

lemma connects:
  "legal qs (map Poller_connected ps) \<and> pollers_after qs (map Poller_connected ps) = qs \<union> set ps \<and>
   discovered (map Poller_connected ps) = {}"
  by (induction ps arbitrary: qs) auto

lemma discoveries_balanced:
  assumes "db_inv ps ks s" and "ps \<noteq> {}" and "balanced s"
  shows "\<exists>t. manager_run (map Discovered hs) s = Some t \<and> db_inv ps (ks \<union> set hs) t \<and> balanced t"
  using assms
proof (induction hs arbitrary: ks s)
  case (Cons h hs)
  obtain t where t: "add_home_agent h s = Some t" "db_inv ps (insert h ks) t" using discovered_inv[OF Cons.prems(1)] by blast
  have "pollerdb s \<noteq> []" "poller_order.wf_table (pollerdb s)" using Cons.prems(1,2) by (auto simp: db_inv_def db_core_def)
  with t(1) have "balanced t" by (auto simp: add_home_agent_def intro: assign_balanced[OF _ Cons.prems(3)])
  from Cons.IH[OF t(2) Cons.prems(2) this] t(1) show ?case by simp
qed simp

text \<open>
  When pollers connect before home agents are discovered, the home agents are spread evenly: each is given to one poller, and
  the numbers of home agents of any two pollers differ by at most one.
\<close>

theorem loads_even:
  assumes "ps \<noteq> []"
  shows "\<exists>s. manager_run (map Poller_connected ps @ map Discovered hs) homeagentdb_new = Some s \<and>
    fst ` set (pollerdb s) = set ps \<and> balanced s \<and> length (loads s) = card (set hs)"
proof -
  obtain u where u: "manager_run (map Poller_connected ps) homeagentdb_new = Some u" "db_inv (set ps) {} u"
    using run_inv[OF new_inv, of "map Poller_connected ps"] connects[of "{}" ps] by auto
  then have "loads u = []" by (auto simp: db_inv_def db_core_def)
  then have "balanced u" by (auto simp: balanced_def loads_def)
  moreover have "set ps \<noteq> {}" using assms by simp
  ultimately obtain s where s: "manager_run (map Discovered hs) u = Some s" "db_inv (set ps) (set hs) s" "balanced s"
    using discoveries_balanced[OF u(2)] by fastforce
  have "distinct (loads s)" "set (loads s) = set hs" using s(2) assms by (auto simp: db_inv_def db_core_def)
  then have "length (loads s) = card (set hs)" using distinct_card by metis
  with s u(1) show ?thesis by (simp add: manager_run_append db_inv_def)
qed

lemma loads_even_witness:
  "\<exists>s. manager_run (map Poller_connected [1, 2] @ map Discovered [[97], [98], [99]]) homeagentdb_new = Some s \<and> balanced s \<and>
    length (loads s) = 3"
  using loads_even[of "[1, 2]" "[[97], [98], [99]]"] by auto

text \<open>
  A poller that is reported disconnected twice, as when both a read and a write of its connection fail, makes the manager's
  assertion fail.
\<close>

theorem second_disconnect_asserts:
  assumes "legal {} es" and "p \<in> pollers_after {} es"
  shows "\<exists>s. manager_run (es @ [Poller_disconnected p]) homeagentdb_new = Some s \<and>
    manager_run (es @ [Poller_disconnected p, Poller_disconnected p]) homeagentdb_new = None"
proof -
  obtain s where s: "manager_run es homeagentdb_new = Some s" "db_inv (pollers_after {} es) (discovered es) s"
    using run_inv[OF new_inv assms(1)] by auto
  obtain t where t: "poller_disconnected p s = Some t" "db_inv (pollers_after {} es - {p}) (discovered es) t"
    using disconnected_inv[OF s(2) assms(2)] by blast
  have "map_find (<) p (pollerdb t) = None"
  proof (rule ccontr)
    assume "map_find (<) p (pollerdb t) \<noteq> None"
    then obtain l where "map_find (<) p (pollerdb t) = Some l" by blast
    with find_split have "p \<in> fst ` set (pollerdb t)" by force
    with t(2) show False by (simp add: db_inv_def)
  qed
  then show ?thesis using s(1) t(1) by (simp add: manager_run_append poller_disconnected_def)
qed

lemma second_disconnect_asserts_witness:
  "\<exists>s. manager_run ([Poller_connected 1] @ [Poller_disconnected 1]) homeagentdb_new = Some s \<and>
    manager_run ([Poller_connected 1] @ [Poller_disconnected 1, Poller_disconnected 1]) homeagentdb_new = None"
  using second_disconnect_asserts[of "[Poller_connected 1]" 1] by simp

end
