(* ===== verification/Manager_Behaviour.thy ===== *)
theory Manager_Behaviour
  imports Manager_Process Crawler_Link Crawler_Manager
begin

text \<open>
  The database of home agents and the connections to the pollers together: a poller receives what the database holds for it, and
  what a failing write does.
\<close>

section \<open>The database and its assignments\<close>

definition own :: "nat \<Rightarrow> homeagentdb \<Rightarrow> cstring list" where
  "own p d = map snd (filter (\<lambda>a. fst a = p) (assigned d))"

definition lists_own :: "homeagentdb \<Rightarrow> bool" where
  "lists_own d \<longleftrightarrow> (\<forall>(p, l) \<in> set (pollerdb d). l = own p d)"

text \<open>An operation adds assignments to pollers that are connected afterwards, and keeps the lists.\<close>

definition assigns :: "cstring set \<Rightarrow> homeagentdb \<Rightarrow> homeagentdb \<Rightarrow> bool" where
  "assigns hs d d' \<longleftrightarrow> lists_own d' \<and>
     (\<exists>as. assigned d' = assigned d @ as \<and> fst ` set as \<subseteq> fst ` set (pollerdb d') \<and> snd ` set as \<subseteq> hs)"

lemma assigns_refl: "lists_own d \<Longrightarrow> assigns hs d d"
  by (simp add: assigns_def)

lemma assign_assigns:
  assumes "db_core d" and "lists_own d" and "assign_home_agent h d = Some d'"
  shows "assigns {h} d d'"
proof (cases "h \<in> hadb d")
  case True
  with assms show ?thesis by (simp add: assign_home_agent_def assigns_refl)
next
  case False
  then obtain f r where f: "pollerdb d = f # r" using assms(3) by (cases "pollerdb d") (auto simp: assign_home_agent_def)
  obtain p l where m: "min_poller f (pollerdb d) = (p, l)" by fastforce
  have wf: "poller_order.wf_table (pollerdb d)" using assms(1) by (simp add: db_core_def)
  have "(p, l) \<in> set (pollerdb d)" using min_poller_least[of f "pollerdb d"] m f by (metis insert_iff list.set_intros(1))
  then obtain A B where s: "pollerdb d = A @ (p, l) # B" by (meson split_list)
  have d': "pollerdb d' = A @ (p, l @ [h]) # B" "assigned d' = assigned d @ [(p, h)]"
    using False assms(3) f m split_entry(1)[OF wf s] by (auto simp: assign_home_agent_def)
  have p: "p \<notin> fst ` set (A @ B)" using split_entry(3)[OF wf s] .
  have o: "own q d' = own q d @ (if q = p then [h] else [])" for q by (simp add: own_def d')
  have l: "k = own q d" if "(q, k) \<in> set (pollerdb d)" for q k using assms(2) that by (auto simp: lists_own_def)
  have "lists_own d'" unfolding lists_own_def d'
  proof (intro ballI, clarify)
    fix q k
    assume "(q, k) \<in> set (A @ (p, l @ [h]) # B)"
    then consider "q = p" "k = l @ [h]" | "(q, k) \<in> set (A @ B)" by auto
    then show "k = own q d'"
    proof cases
      case 1
      then show ?thesis using o[of p] l[of p] s by simp
    next
      case 2
      then have "q \<noteq> p" using p by force
      with 2 l[of q k] o[of q] s show ?thesis by auto
    qed
  qed
  with d' show ?thesis by (simp add: assigns_def)
qed

lemma assigns_trans:
  assumes "assigns hs d d'" and "assigns ks d' d''" and "fst ` set (pollerdb d') \<subseteq> fst ` set (pollerdb d'')"
  shows "assigns (hs \<union> ks) d d''"
proof -
  obtain as where a: "assigned d' = assigned d @ as" "fst ` set as \<subseteq> fst ` set (pollerdb d')" "snd ` set as \<subseteq> hs"
    using assms(1) unfolding assigns_def by blast
  obtain bs where b: "assigned d'' = assigned d' @ bs" "fst ` set bs \<subseteq> fst ` set (pollerdb d'')" "snd ` set bs \<subseteq> ks"
    using assms(2) unfolding assigns_def by blast
  have "assigned d'' = assigned d @ (as @ bs)" using a b by simp
  moreover have "fst ` set (as @ bs) \<subseteq> fst ` set (pollerdb d'')" unfolding set_append image_Un using a(2) b(2) assms(3) by blast
  moreover have "snd ` set (as @ bs) \<subseteq> hs \<union> ks" unfolding set_append image_Un using a(3) b(3) by blast
  ultimately show ?thesis using assms(2) unfolding assigns_def by blast
qed

lemma assigns_mono:
  assumes "assigns hs d d'" and "hs \<subseteq> ks"
  shows "assigns ks d d'"
proof -
  obtain as where "assigned d' = assigned d @ as" "fst ` set as \<subseteq> fst ` set (pollerdb d')" "snd ` set as \<subseteq> hs"
    using assms(1) unfolding assigns_def by blast
  with assms show ?thesis unfolding assigns_def by (intro conjI exI[of _ as]) auto
qed

lemma process_queue_assigns:
  assumes "db_core d" and "lists_own d" and "process_queue d = Some d'"
  shows "assigns (set (pollerq d)) d d'"
  using assms
proof (induction "pollerq d" arbitrary: d)
  case Nil
  from Nil.prems(3) have "d' = d" unfolding process_queue.simps[of d] Nil.hyps[symmetric] by simp
  with Nil show ?case by (simp add: assigns_refl)
next
  case (Cons h q)
  show ?case
  proof (cases "pollerdb d = []")
    case True
    with Cons.prems(3) have "d' = d" unfolding process_queue.simps[of d] Cons.hyps(2)[symmetric] by simp
    with Cons.prems(2) show ?thesis by (simp add: assigns_refl)
  next
    case False
    obtain u where u: "assign_home_agent h d = Some u" "db_core u" "map fst (pollerdb u) = map fst (pollerdb d)"
      using assign_core[OF Cons.prems(1) False] by blast
    have 1: "assigns {h} d u" by (rule assign_assigns[OF Cons.prems(1,2) u(1)])
    let ?u = "u\<lparr>pollerq := q\<rparr>"
    have p: "process_queue ?u = Some d'" using Cons.prems(3) False u(1)
      unfolding process_queue.simps[of d] Cons.hyps(2)[symmetric] by simp
    have o: "lists_own ?u" "db_core ?u" using 1 u(2) by (simp_all add: assigns_def lists_own_def own_def queue_core)
    have "assigns (set q) ?u d'" using Cons.hyps(1)[of ?u] o p by simp
    then have 2: "assigns (set q) u d'" by (simp add: assigns_def)
    have "pollerdb ?u \<noteq> []" using u(3) False by auto
    then have "map fst (pollerdb d') = map fst (pollerdb u)" using process_queue_core[OF o(2)] p by auto
    then have "fst ` set (pollerdb u) \<subseteq> fst ` set (pollerdb d')" by (metis list.set_map order_refl)
    from assigns_trans[OF 1 2 this] show ?thesis using Cons.hyps(2)[symmetric] by simp
  qed
qed

lemma connected_assigns:
  assumes "db_inv ps hs d" and "lists_own d" and "p \<notin> ps" and "p \<notin> fst ` set (assigned d)" and "poller_connected p d = Some d'"
  shows "assigns hs d d'"
proof -
  have n: "map_find (<) p (pollerdb d) = None" using assms(1,3) find_split[of p "pollerdb d"]
    by (cases "map_find (<) p (pollerdb d)") (force simp: db_inv_def)+
  let ?d = "d\<lparr>pollerdb := map_insert (<) p [] (pollerdb d)\<rparr>"
  have c: "db_core ?d" using assms(1) by (intro insert_poller_core[OF _ n]) (simp add: db_inv_def)
  have "own p d = []" using assms(4) by (auto simp: own_def filter_empty_conv)
  then have "lists_own ?d" using assms(2) set_map_insert[OF n, of "[]"] by (auto simp: lists_own_def own_def)
  from process_queue_assigns[OF c this] assms(5) n have "assigns (set (pollerq d)) ?d d'" by (simp add: poller_connected_def)
  then have "assigns (set (pollerq d)) d d'" by (simp add: assigns_def)
  then show ?thesis by (rule assigns_mono) (use assms(1) in \<open>auto simp: db_inv_def\<close>)
qed

lemma disconnected_assigns:
  assumes "db_inv ps hs d" and "lists_own d" and "p \<in> ps" and "poller_disconnected p d = Some d'"
  shows "assigns hs d d'"
proof -
  obtain A l B where s: "pollerdb d = A @ (p, l) # B"
    and t: "poller_disconnected p d = process_queue (d\<lparr>pollerq := pollerq d @ l, hadb := hadb d - set l, pollerdb := A @ B\<rparr>)"
      "db_core (d\<lparr>pollerq := pollerq d @ l, hadb := hadb d - set l, pollerdb := A @ B\<rparr>)" "set l \<subseteq> hadb d"
    by (rule remove_poller[OF assms(1,3)])
  let ?t = "d\<lparr>pollerq := pollerq d @ l, hadb := hadb d - set l, pollerdb := A @ B\<rparr>"
  have o: "lists_own ?t" using assms(2) s by (auto simp: lists_own_def own_def)
  have "assigns (set (pollerq d @ l)) ?t d'" using process_queue_assigns[OF t(2) o] assms(4) t(1) by simp
  then have "assigns (set (pollerq d @ l)) d d'" by (simp add: assigns_def)
  then show ?thesis by (rule assigns_mono) (use assms(1) t(3) in \<open>auto simp: db_inv_def\<close>)
qed

lemma added_assigns:
  assumes "db_inv ps hs d" and "lists_own d" and "add_home_agent h d = Some d'"
  shows "assigns {h} d d'"
proof (cases "pollerdb d = []")
  case True
  then have "d' = d\<lparr>pollerq := pollerq d @ [h]\<rparr>" using assms(3) by (simp add: add_home_agent_def)
  then show ?thesis using assms(2) by (simp add: assigns_def lists_own_def own_def)
next
  case False
  with assms show ?thesis by (intro assign_assigns) (simp_all add: add_home_agent_def db_inv_def)
qed

section \<open>Connections\<close>

text \<open>A connection that has been given the assignments of \<open>hs\<close>, with no failure.\<close>

definition conn_ok :: "cstring list \<Rightarrow> connection \<Rightarrow> bool" where
  "conn_ok hs c \<longleftrightarrow> bw_connected (cn_writer c) \<and> sends HOME_AGENT_ASSIGNMENT hs (cn_writer c)"

lemma conn_ok_send:
  assumes "conn_ok hs c" and "length raw = 3" and "host_ok h"
  shows "conn_ok (hs @ [h]) (c\<lparr>cn_writer := sendmsg raw HOME_AGENT_ASSIGNMENT h (cn_writer c)\<rparr>)"
  using assms sends_sendmsg[of HOME_AGENT_ASSIGNMENT hs "cn_writer c" raw h]
  by (simp add: conn_ok_def) (simp add: sendmsg_def send_bufitem_def)

lemma conn_ok_written:
  assumes "conn_ok hs c"
  shows "conn_ok hs (c\<lparr>cn_writer := writer_step (Written False) (cn_writer c)\<rparr>)"
  using assms step_connected sends_written by (simp add: conn_ok_def del: writer_step.simps)

lemma written_outcomes:
  assumes "conn_ok hs c" and "bw_writing (cn_writer c) = item # rest"
  shows "bw_outcomes (writer_step (Written False) (cn_writer c)) = bw_outcomes (cn_writer c) @ [report True item]"
  using assms sends_outcomes unfolding conn_ok_def by blast

lemma new_conn_ok: "conn_ok [] (connection_new\<lparr>cn_reading := r, cn_writer := bw_set_connected (cn_writer connection_new)\<rparr>)"
proof -
  have "\<not> bw_connected (bufwrite_new True True)" by (simp add: bufwrite_new_def)
  from sends_connect[OF bufwrite_new_sends this] show ?thesis
    by (simp add: conn_ok_def connection_new_def) (simp add: bw_set_connected_def send_next_bufitem_def bufwrite_new_def)
qed

definition same_flags :: "manager \<Rightarrow> manager \<Rightarrow> bool" where
  "same_flags m m' \<longleftrightarrow> length (mg_conns m') = length (mg_conns m) \<and>
     (\<forall>p < length (mg_conns m). cn_connected (mg_conns m' ! p) = cn_connected (mg_conns m ! p) \<and>
        cn_open (mg_conns m' ! p) = cn_open (mg_conns m ! p) \<and> cn_reading (mg_conns m' ! p) = cn_reading (mg_conns m ! p))"

lemma update_conn_simps [simp]:
  "p < length (mg_conns m) \<Longrightarrow> mg_conns (update_conn i f m) ! p = (if p = i then f (mg_conns m ! p) else mg_conns m ! p)"
  "length (mg_conns (update_conn i f m)) = length (mg_conns m)" "mg_db (update_conn i f m) = mg_db m"
  by (cases "p = i") (simp_all add: update_conn_def)

lemma conn_assign_flags: "conn_assign raw a m = Some m' \<Longrightarrow> same_flags m m' \<and> mg_db m' = mg_db m"
  by (auto simp: conn_assign_def same_flags_def split: if_splits)

lemma conn_assign_all_flags: "conn_assign_all raw as m = Some m' \<Longrightarrow> same_flags m m' \<and> mg_db m' = mg_db m"
proof (induction as arbitrary: m)
  case (Cons a as)
  then obtain u where u: "conn_assign raw a m = Some u" "conn_assign_all raw as u = Some m'" by (auto split: bind_splits)
  from Cons.IH[OF u(2)] conn_assign_flags[OF u(1)] show ?case by (auto simp: same_flags_def)
qed (simp add: same_flags_def)

lemma conn_assign_all_ok:
  assumes "length raw = 3" and "\<forall>a\<in>set as. fst a < length (mg_conns m) \<and> cn_connected (mg_conns m ! fst a) \<and> host_ok (snd a)"
    and "\<forall>p < length (mg_conns m). conn_ok (f p) (mg_conns m ! p)"
  shows "\<exists>m'. conn_assign_all raw as m = Some m' \<and>
    (\<forall>p < length (mg_conns m). conn_ok (f p @ map snd (filter (\<lambda>a. fst a = p) as)) (mg_conns m' ! p))"
  using assms(2,3)
proof (induction as arbitrary: m f)
  case Nil
  then show ?case by simp
next
  case (Cons a as)
  let ?c = "mg_conns m ! fst a"
  let ?u = "update_conn (fst a) (\<lambda>c. c\<lparr>cn_writer := sendmsg raw HOME_AGENT_ASSIGNMENT (snd a) (cn_writer c)\<rparr>) m"
  have u: "conn_assign raw a m = Some ?u" using Cons.prems(1) by (simp add: conn_assign_def)
  have fl: "same_flags m ?u" using conn_assign_flags[OF u] by simp
  have ok: "conn_ok ((f(fst a := f (fst a) @ [snd a])) p) (mg_conns ?u ! p)" if "p < length (mg_conns m)" for p
    using that Cons.prems conn_ok_send[OF _ assms(1), of "f (fst a)" ?c "snd a"] by (cases "p = fst a") auto
  obtain m' where m: "conn_assign_all raw as ?u = Some m'"
    "\<forall>p < length (mg_conns ?u). conn_ok ((f(fst a := f (fst a) @ [snd a])) p @ map snd (filter (\<lambda>a. fst a = p) as)) (mg_conns m' ! p)"
    using Cons.IH[of ?u "f(fst a := f (fst a) @ [snd a])"] Cons.prems(1) ok fl by (auto simp: same_flags_def)
  have "conn_ok (f p @ map snd (filter (\<lambda>a. fst a = p) (a # as))) (mg_conns m' ! p)" if "p < length (mg_conns m)" for p
    using m(2) that fl by (cases "p = fst a") (auto simp: same_flags_def)
  with u m(1) show ?case by auto
qed

section \<open>The process\<close>

definition opens :: "manager \<Rightarrow> nat set" where
  "opens m = {p. p < length (mg_conns m) \<and> cn_open (mg_conns m ! p)}"

text \<open>What holds of the connections, whatever the database does.\<close>

definition conns_inv :: "manager \<Rightarrow> bool" where
  "conns_inv m \<longleftrightarrow> (\<forall>p < length (mg_conns m). cn_connected (mg_conns m ! p) = cn_open (mg_conns m ! p) \<and>
       (cn_reading (mg_conns m ! p) \<longrightarrow> cn_open (mg_conns m ! p)) \<and> conn_ok (own p (mg_db m)) (mg_conns m ! p)) \<and>
     (\<forall>a \<in> set (assigned (mg_db m)). fst a < length (mg_conns m))"

definition mg_inv :: "cstring set \<Rightarrow> manager \<Rightarrow> bool" where
  "mg_inv hs m \<longleftrightarrow> conns_inv m \<and> db_inv (opens m) hs (mg_db m) \<and> lists_own (mg_db m) \<and> (\<forall>h\<in>hs. host_ok h)"

lemma same_flags_opens: "same_flags m m' \<Longrightarrow> opens m' = opens m"
  by (auto simp: same_flags_def opens_def)

lemma with_db_inv:
  assumes "conns_inv m" and "length raw = 3" and "\<forall>h\<in>hs. host_ok h"
    and "f (mg_db m) = Some d" and "assigns hs (mg_db m) d" and "db_inv (opens m) hs d"
  shows "\<exists>m'. with_db raw f m = Some m' \<and> mg_inv hs m' \<and> mg_db m' = d \<and> same_flags m m'"
proof -
  obtain as where as: "assigned d = assigned (mg_db m) @ as" "fst ` set as \<subseteq> fst ` set (pollerdb d)" "snd ` set as \<subseteq> hs"
    using assms(5) unfolding assigns_def by blast
  have k: "fst ` set (pollerdb d) = opens m" using assms(6) by (simp add: db_inv_def)
  let ?m = "m\<lparr>mg_db := d\<rparr>"
  have "\<forall>a\<in>set as. fst a < length (mg_conns ?m) \<and> cn_connected (mg_conns ?m ! fst a) \<and> host_ok (snd a)"
  proof
    fix a
    assume "a \<in> set as"
    then have "fst a \<in> opens m" "snd a \<in> hs" using as(2,3) k by auto
    then show "fst a < length (mg_conns ?m) \<and> cn_connected (mg_conns ?m ! fst a) \<and> host_ok (snd a)"
      using assms(1,3) by (simp add: opens_def conns_inv_def)
  qed
  moreover have "\<forall>p < length (mg_conns ?m). conn_ok (own p (mg_db m)) (mg_conns ?m ! p)" using assms(1) by (simp add: conns_inv_def)
  ultimately obtain m' where m': "conn_assign_all raw as ?m = Some m'"
    "\<forall>p < length (mg_conns ?m). conn_ok (own p (mg_db m) @ map snd (filter (\<lambda>a. fst a = p) as)) (mg_conns m' ! p)"
    using conn_assign_all_ok[OF assms(2), of as ?m "\<lambda>p. own p (mg_db m)"] by blast
  have fl: "same_flags ?m m'" "mg_db m' = d" using conn_assign_all_flags[OF m'(1)] by simp_all
  have "own p d = own p (mg_db m) @ map snd (filter (\<lambda>a. fst a = p) as)" for p by (simp add: own_def as(1))
  moreover have "fst a < length (mg_conns m)" if "a \<in> set (assigned d)" for a
    using that assms(1) as(2) k unfolding as(1) by (auto simp: conns_inv_def opens_def)
  ultimately have "conns_inv m'" using m'(2) fl assms(1) by (simp add: conns_inv_def same_flags_def)
  moreover have "opens m' = opens m" using same_flags_opens[OF fl(1)] by (simp add: opens_def)
  ultimately have "mg_inv hs m'" using assms(3,5,6) fl(2) by (simp add: mg_inv_def assigns_def)
  moreover have "with_db raw f m = Some m'" using assms(4) as(1) m'(1) by (simp add: with_db_def)
  ultimately show ?thesis using fl by (auto simp: same_flags_def)
qed

lemma accepted_inv:
  assumes "mg_inv hs m" and "length raw = 3"
  shows "\<exists>m'. process_step raw Accepted m = Some m' \<and> mg_inv hs m'"
proof -
  let ?i = "length (mg_conns m)"
  let ?c = "connection_new\<lparr>cn_reading := True, cn_writer := bw_set_connected (cn_writer connection_new)\<rparr>"
  let ?m = "m\<lparr>mg_conns := mg_conns m @ [?c]\<rparr>"
  have i: "conns_inv m" "db_inv (opens m) hs (mg_db m)" "lists_own (mg_db m)" "\<forall>h\<in>hs. host_ok h"
    using assms(1) by (simp_all add: mg_inv_def)
  have n: "?i \<notin> opens m" "?i \<notin> fst ` set (assigned (mg_db m))" using i(1) by (auto simp: opens_def conns_inv_def)
  have "own ?i (mg_db m) = []" unfolding own_def using n(2) by (auto simp: filter_empty_conv image_iff)
  then have c: "conns_inv ?m" using i(1) new_conn_ok[of True] by (auto simp: conns_inv_def nth_append connection_new_def less_Suc_eq)
  have o: "opens ?m = insert ?i (opens m)" by (auto simp: opens_def nth_append connection_new_def)
  obtain d where d: "poller_connected ?i (mg_db m) = Some d" "db_inv (insert ?i (opens m)) hs d"
    using connected_inv[OF i(2)] by blast
  have "assigns hs (mg_db m) d" by (rule connected_assigns[OF i(2,3) n d(1)])
  with with_db_inv[OF c assms(2) i(4), of "poller_connected ?i" d] d o show ?thesis by (auto simp: accept_def Let_def)
qed

lemma reported_inv:
  assumes "mg_inv hs m" and "length raw = 3" and "host_ok h"
  shows "\<exists>m'. process_step raw (Reported h) m = Some m' \<and> mg_inv (insert h hs) m'"
proof -
  have i: "conns_inv m" "db_inv (opens m) hs (mg_db m)" "lists_own (mg_db m)" "\<forall>h\<in>insert h hs. host_ok h"
    using assms(1,3) by (simp_all add: mg_inv_def)
  obtain d where d: "add_home_agent h (mg_db m) = Some d" "db_inv (opens m) (insert h hs) d" using discovered_inv[OF i(2)] by blast
  have "assigns (insert h hs) (mg_db m) d" by (rule assigns_mono[OF added_assigns[OF i(2,3) d(1)]]) simp
  with with_db_inv[OF i(1) assms(2) i(4), of "add_home_agent h" d] d show ?thesis by auto
qed

lemma disconnect_inv:
  assumes "mg_inv hs m" and "length raw = 3" and "p \<in> opens m"
  shows "\<exists>m'. disconnect raw True p (update_conn p (\<lambda>c. c\<lparr>cn_reading := False\<rparr>) m) = Some m' \<and> mg_inv hs m'"
proof -
  have i: "conns_inv m" "db_inv (opens m) hs (mg_db m)" "lists_own (mg_db m)" "\<forall>h\<in>hs. host_ok h"
    using assms(1) by (simp_all add: mg_inv_def)
  have p: "p < length (mg_conns m)" "cn_open (mg_conns m ! p)" using assms(3) by (simp_all add: opens_def)
  let ?m = "update_conn p (\<lambda>c. c\<lparr>cn_open := False\<rparr>) (update_conn p (\<lambda>c. c\<lparr>cn_connected := False\<rparr>)
    (update_conn p (\<lambda>c. c\<lparr>cn_reading := False\<rparr>) m))"
  have c: "conns_inv ?m" using i(1) by (simp add: conns_inv_def conn_ok_def)
  have o: "opens ?m = opens m - {p}" by (auto simp: opens_def split: if_splits)
  obtain d where d: "poller_disconnected p (mg_db m) = Some d" "db_inv (opens m - {p}) hs d"
    using disconnected_inv[OF i(2) assms(3)] by blast
  have "assigns hs (mg_db m) d" by (rule disconnected_assigns[OF i(2,3) assms(3) d(1)])
  with with_db_inv[OF c assms(2) i(4), of "poller_disconnected p" d] d o p show ?thesis by (auto simp: disconnect_def Let_def)
qed

text \<open>Runs in which no write fails and sockets can be shut down.\<close>

fun calm :: "process_event \<Rightarrow> bool" where
  "calm (Read_failed i shut) = shut"
| "calm (Write_ended i ec shut) = (\<not> ec)"
| "calm _ = True"

definition heard :: "process_event list \<Rightarrow> cstring set" where
  "heard es = {h. Reported h \<in> set es}"

lemma process_step_inv:
  assumes "mg_inv hs m" and "length raw = 3" and "calm e" and "\<forall>h\<in>heard [e]. host_ok h"
  shows "\<exists>m'. process_step raw e m = Some m' \<and> mg_inv (hs \<union> heard [e]) m'"
proof (cases e)
  case Accepted
  with accepted_inv[OF assms(1,2)] show ?thesis by (simp add: heard_def)
next
  case (Reported h)
  with reported_inv[OF assms(1,2), of h] assms(4) show ?thesis by (simp add: heard_def)
next
  case (Read_failed i shut)
  show ?thesis
  proof (cases "i < length (mg_conns m) \<and> cn_reading (mg_conns m ! i)")
    case True
    then have "i \<in> opens m" using assms(1) by (simp add: mg_inv_def conns_inv_def opens_def)
    with disconnect_inv[OF assms(1,2), of i] True Read_failed assms(3) show ?thesis by (simp add: heard_def)
  next
    case False
    then have "process_step raw e m = Some m" unfolding Read_failed by (simp only: process_step.simps if_False)
    with assms(1) Read_failed show ?thesis by (simp add: heard_def)
  qed
next
  case (Write_ended i ec shut)
  show ?thesis
  proof (cases "i < length (mg_conns m) \<and> bw_writing (cn_writer (mg_conns m ! i)) \<noteq> []")
    case True
    let ?c = "mg_conns m ! i"
    obtain item rest where w: "bw_writing (cn_writer ?c) = item # rest" using True by (cases "bw_writing (cn_writer ?c)") auto
    have ok: "conn_ok (own i (mg_db m)) ?c" using assms(1) True by (simp add: mg_inv_def conns_inv_def)
    let ?m = "update_conn i (\<lambda>c. c\<lparr>cn_writer := writer_step (Written False) (cn_writer ?c)\<rparr>) m"
    have "process_step raw e m = Some ?m"
      using True Write_ended assms(3) written_outcomes[OF ok w] by (simp add: report_def Let_def del: writer_step.simps)
    moreover have "opens ?m = opens m" by (auto simp: opens_def split: if_splits)
    moreover have "conns_inv ?m" using assms(1) conn_ok_written[OF ok] by (simp add: mg_inv_def conns_inv_def del: writer_step.simps)
    ultimately show ?thesis using assms(1) Write_ended by (auto simp: mg_inv_def heard_def simp del: writer_step.simps)
  next
    case False
    then have "process_step raw e m = Some m" unfolding Write_ended by (simp only: process_step.simps if_False)
    with assms(1) Write_ended show ?thesis by (simp add: heard_def)
  qed
qed

lemma process_run_inv:
  assumes "mg_inv hs m" and "length raw = 3" and "list_all calm es" and "\<forall>h\<in>heard es. host_ok h"
  shows "\<exists>m'. process_run raw es m = Some m' \<and> mg_inv (hs \<union> heard es) m'"
  using assms(1,3,4)
proof (induction es arbitrary: hs m)
  case (Cons e es)
  have h: "heard (e # es) = heard [e] \<union> heard es" by (auto simp: heard_def)
  have "calm e" "\<forall>h\<in>heard [e]. host_ok h" using Cons.prems(2,3) h by auto
  then obtain u where u: "process_step raw e m = Some u" "mg_inv (hs \<union> heard [e]) u"
    using process_step_inv[OF Cons.prems(1) assms(2)] by blast
  from Cons.IH[OF u(2)] Cons.prems(2,3) h obtain m' where "process_run raw es u = Some m'" "mg_inv ((hs \<union> heard [e]) \<union> heard es) m'" by auto
  with u(1) h show ?case by (auto simp: Un_assoc)
qed (simp add: heard_def)

lemma waiting_discovered:
  "pollerdb d = [] \<Longrightarrow> manager_run (map Discovered hs) d = Some (d\<lparr>pollerq := pollerq d @ hs\<rparr>)"
  by (induction hs arbitrary: d) (simp_all add: add_home_agent_def)

lemma process_start_inv:
  assumes "\<forall>h\<in>set seeds. host_ok h"
  shows "\<exists>m. process_start seeds = Some m \<and> mg_inv (set seeds) m"
proof -
  let ?d = "homeagentdb_new\<lparr>pollerq := seeds\<rparr>"
  have "process_start seeds = Some \<lparr>mg_db = ?d, mg_conns = []\<rparr>"
    using waiting_discovered[of homeagentdb_new seeds] by (simp add: process_start_def homeagentdb_new_def)
  moreover have "db_inv {} (set seeds) ?d"
    by (simp add: db_inv_def db_core_def homeagentdb_new_def poller_order.wf_table_def loads_def polled_by_def)
  ultimately show ?thesis using assms
    by (auto simp: mg_inv_def conns_inv_def opens_def lists_own_def homeagentdb_new_def)
qed

lemma process_inv:
  assumes "length raw = 3" and "list_all calm es" and "\<forall>h \<in> set seeds \<union> heard es. host_ok h"
  shows "\<exists>m. Option.bind (process_start seeds) (process_run raw es) = Some m \<and> mg_inv (set seeds \<union> heard es) m"
proof -
  obtain m where m: "process_start seeds = Some m" "mg_inv (set seeds) m" using process_start_inv[of seeds] assms(3) by auto
  with process_run_inv[OF m(2) assms(1,2)] assms(3) show ?thesis by simp
qed



section \<open>A write that fails\<close>

lemma with_db_flags: "with_db raw f m = Some m' \<Longrightarrow> same_flags m m'"
  using conn_assign_all_flags by (fastforce simp: with_db_def same_flags_def split: option.splits)

text \<open>A connection that has been closed while its reader waits.\<close>

definition cut_off :: "nat \<Rightarrow> manager \<Rightarrow> bool" where
  "cut_off i m \<longleftrightarrow> i < length (mg_conns m) \<and> cn_reading (mg_conns m ! i) \<and> \<not> cn_open (mg_conns m ! i)"

lemma same_flags_cut_off: "same_flags m m' \<Longrightarrow> cut_off i m \<Longrightarrow> cut_off i m'"
  by (auto simp: same_flags_def cut_off_def)

lemma disconnect_cut_off:
  assumes "i < length (mg_conns m)" and "cn_reading (mg_conns m ! i)" and "disconnect raw shut i m = Some m'"
  shows "cut_off i m'"
proof -
  let ?m = "update_conn i (\<lambda>c. c\<lparr>cn_open := False\<rparr>) (update_conn i (\<lambda>c. c\<lparr>cn_connected := False\<rparr>) m)"
  have "with_db raw (poller_disconnected i) ?m = Some m'" using assms by (auto simp: disconnect_def Let_def split: if_splits)
  moreover have "cut_off i ?m" using assms(1,2) by (simp add: cut_off_def)
  ultimately show ?thesis using with_db_flags same_flags_cut_off by blast
qed

lemma cut_off_disconnect: "cut_off i m \<Longrightarrow> disconnect raw shut i m = None"
  by (simp add: disconnect_def cut_off_def Let_def)

lemma send_failure_cut_off:
  assumes "i < length (mg_conns m)" and "cn_reading (mg_conns m ! i)" and "send_failure raw shut i t s m = Some m'"
  shows "cut_off i m'"
proof -
  obtain u where u: "disconnect raw shut i m = Some u" "(if t = HOME_AGENT_ASSIGNMENT then with_db raw (add_home_agent s) u else Some u) = Some m'"
    using assms(3) by (auto simp: send_failure_def split: bind_splits)
  have c: "cut_off i u" by (rule disconnect_cut_off[OF assms(1,2) u(1)])
  show ?thesis
  proof (cases "t = HOME_AGENT_ASSIGNMENT")
    case True
    then have "with_db raw (add_home_agent s) u = Some m'" using u(2) by simp
    from same_flags_cut_off[OF with_db_flags[OF this] c] show ?thesis .
  qed (use u(2) c in simp)
qed

lemma report_all_cut_off: "cut_off i m \<Longrightarrow> report_all raw shut i rs m = Some m' \<Longrightarrow> cut_off i m'"
proof (induction rs)
  case (Cons r rs)
  obtain ok t s where "r = (ok, t, s)" by (cases r)
  with Cons show ?case by (cases ok) (simp_all add: send_failure_def cut_off_disconnect)
qed simp

text \<open>
  C33. A failed write on one connection stops the manager. The failure is reported by disconnecting; that closes the socket, so that the read
  which waits on it fails as well, and this disconnects a second time: shutting down the closed socket throws, the exception
  leaves the handler, and the process ends with all its other pollers.
\<close>

theorem write_failure_stops_manager:
  assumes "length raw = 3" and "list_all calm es" and "\<forall>h \<in> set seeds \<union> heard es. host_ok h"
    and "Option.bind (process_start seeds) (process_run raw es) = Some m" and "i < length (mg_conns m)"
    and "cn_reading (mg_conns m ! i)" and "bw_writing (cn_writer (mg_conns m ! i)) \<noteq> []"
  shows "process_run raw [Write_ended i True shut, Read_failed i shut'] m = None"
proof -
  have "mg_inv (set seeds \<union> heard es) m" using process_inv[OF assms(1-3)] assms(4) by auto
  then have ok: "conn_ok (own i (mg_db m)) (mg_conns m ! i)" using assms(5) by (simp add: mg_inv_def conns_inv_def)
  let ?w = "cn_writer (mg_conns m ! i)"
  obtain item rest where w: "bw_writing ?w = item # rest" using assms(7) by (cases "bw_writing ?w") auto
  have r: "drop (length (bw_outcomes ?w)) (bw_outcomes (writer_step (Written True) ?w)) = map (report False) (item # bw_queue ?w)"
    using ok w by (simp add: conn_ok_def sends_def accounts_def handle_bufitem_sent_def Let_def)
  let ?m = "update_conn i (\<lambda>c. c\<lparr>cn_writer := writer_step (Written True) ?w\<rparr>) m"
  have s: "process_step raw (Write_ended i True shut) m = report_all raw shut i (map (report False) (item # bw_queue ?w)) ?m"
    using assms(5,7) r by (simp add: Let_def del: writer_step.simps)
  have "cut_off i m'" if m': "process_step raw (Write_ended i True shut) m = Some m'" for m'
  proof -
    from m' s obtain u where u: "send_failure raw shut i (header_type (fst item)) (snd item) ?m = Some u"
      "report_all raw shut i (map (report False) (bw_queue ?w)) u = Some m'"
      by (auto simp: report_def split: bind_splits simp del: writer_step.simps)
    have "cut_off i u" using u(1) assms(5,6) by (intro send_failure_cut_off[of i ?m]) (simp_all del: writer_step.simps)
    then show ?thesis using u(2) by (rule report_all_cut_off)
  qed
  moreover have "process_step raw (Read_failed i shut') m' = None" if "cut_off i m'" for m'
    using that by (simp add: cut_off_def disconnect_def Let_def)
  ultimately show ?thesis by (cases "process_step raw (Write_ended i True shut) m") (simp_all del: process_step.simps)
qed

lemma write_failure_stops_manager_witness:
  "\<exists>m. Option.bind (process_start [[97]]) (process_run [0, 0, 0] [Accepted]) = Some m \<and>
    process_run [0, 0, 0] [Write_ended 0 True True, Read_failed 0 False] m = None"
proof -
  have a: "length [0 :: byte, 0, 0] = 3" "list_all calm [Accepted]" "\<forall>h \<in> set [[97]] \<union> heard [Accepted]. host_ok h"
    by (simp_all add: heard_def host_ok_def)
  have "\<exists>m. Option.bind (process_start [[97]]) (process_run [0, 0, 0] [Accepted]) = Some m \<and> 0 < length (mg_conns m) \<and>
      cn_reading (mg_conns m ! 0) \<and> bw_writing (cn_writer (mg_conns m ! 0)) \<noteq> []"
    by (simp add: process_start_def add_home_agent_def homeagentdb_new_def accept_def with_db_def poller_connected_def process_queue.simps
      assign_home_agent_def connection_new_def bufwrite_new_def bw_set_connected_def send_next_bufitem_def conn_assign_def update_conn_def
      sendmsg_def send_bufitem_def Let_def)
  then obtain m where m: "Option.bind (process_start [[97]]) (process_run [0, 0, 0] [Accepted]) = Some m" "0 < length (mg_conns m)"
    "cn_reading (mg_conns m ! 0)" "bw_writing (cn_writer (mg_conns m ! 0)) \<noteq> []" by blast
  from write_failure_stops_manager[OF a m, of True False] m(1) show ?thesis by blast
qed

end
