(* ===== verification/Poller_Database.thy ===== *)
theory Poller_Database
  imports Overlay_ID
begin

text \<open>
  The database of \<^verbatim>\<open>src/crawler_poller/instrumentation.cpp\<close>, which a poller process keeps of the home agents it monitors, and its
  text for the clients that ask for it. The functions run in a strand, so each is a step. A time point is a number of nanoseconds.
\<close>

section \<open>Records\<close>

datatype query_result = QR_SUCCESS | QR_NETWORK_ERROR | QR_TIMEOUT | QR_PARSE_ERROR | QR_NA

fun query_result_str :: "query_result \<Rightarrow> cstring" where
  "query_result_str QR_SUCCESS = str ''Success''"
| "query_result_str QR_NETWORK_ERROR = str ''Network Error''"
| "query_result_str QR_TIMEOUT = str ''Timeout''"
| "query_result_str QR_PARSE_ERROR = str ''Parse Error''"
| "query_result_str QR_NA = str ''Not Applicable''"

record agent_record =
  rec_name :: cstring
  rec_description :: cstring
  lastfailure_msg :: cstring
  discovered_ts :: clong
  lastsuccess_ts :: clong
  lastfailure_ts :: clong
  lastpoll_result :: query_result

definition agent_record_new :: "clong \<Rightarrow> agent_record" where
  "agent_record_new now = \<lparr>rec_name = [], rec_description = [], lastfailure_msg = [], discovered_ts = now, lastsuccess_ts = 0,
     lastfailure_ts = 0, lastpoll_result = QR_NA\<rparr>"

section \<open>The operations\<close>

type_synonym database = "(cstring, agent_record) table"

definition insert_record :: "cstring \<Rightarrow> clong \<Rightarrow> database \<Rightarrow> database" where
  "insert_record hostname now db = map_insert str_less hostname (agent_record_new now) db"

definition update_record :: "cstring \<Rightarrow> query_result \<Rightarrow> cstring \<Rightarrow> clong \<Rightarrow> database \<Rightarrow> database" where
  "update_record hostname result msg now db =
     (case map_find str_less hostname db of
        None \<Rightarrow> db
      | Some r \<Rightarrow>
          let r = (if result = QR_SUCCESS then r\<lparr>lastsuccess_ts := now, rec_name := msg\<rparr>
                   else r\<lparr>lastfailure_ts := now, lastfailure_msg := msg\<rparr>)
          in map_assign str_less hostname (r\<lparr>lastpoll_result := result\<rparr>) db)"

definition set_description :: "cstring \<Rightarrow> cstring \<Rightarrow> database \<Rightarrow> database" where
  "set_description hostname description db =
     (case map_find str_less hostname db of
        None \<Rightarrow> db
      | Some r \<Rightarrow> map_assign str_less hostname (r\<lparr>rec_description := description\<rparr>) db)"

text \<open>\<^verbatim>\<open>duration_cast\<close> to milliseconds, and the cast to \<^verbatim>\<open>unsigned long long\<close>.\<close>

definition ms_since_epoch :: "clong \<Rightarrow> clong" where
  "ms_since_epoch t = word_of_int (sgn (sint t) * (\<bar>sint t\<bar> div 1000000))"

definition json_member :: "char list \<Rightarrow> cstring \<Rightarrow> cstring" where
  "json_member k v = [9, 34] @ str k @ [34, 58, 34] @ v @ [34]"

definition json_entry :: "cstring \<times> agent_record \<Rightarrow> cstring" where
  "json_entry e =
     [123, 10] @
     json_member ''name'' (rec_name (snd e)) @ [44, 10] @
     json_member ''hostname'' (fst e) @ [44, 10] @
     json_member ''description'' (rec_description (snd e)) @ [44, 10] @
     json_member ''lastpoll_result'' (query_result_str (lastpoll_result (snd e))) @ [44, 10] @
     json_member ''discovered_ts'' (print_nat (unat (ms_since_epoch (discovered_ts (snd e))))) @ [44, 10] @
     json_member ''lastsuccess_ts'' (print_nat (unat (ms_since_epoch (lastsuccess_ts (snd e))))) @ [44, 10] @
     json_member ''lastfailure_ts'' (print_nat (unat (ms_since_epoch (lastfailure_ts (snd e))))) @ [44, 10] @
     json_member ''lastfailure_msg'' (lastfailure_msg (snd e)) @ [10] @
     [125, 44, 10]"

definition serialize_as_json :: "database \<Rightarrow> cstring" where
  "serialize_as_json db = [91, 10] @ concat (map json_entry db) @ [93, 10]"

section \<open>What is in the database\<close>

datatype db_event = Insert cstring | Update cstring query_result cstring | Describe cstring cstring

fun db_step :: "db_event \<times> clong \<Rightarrow> database \<Rightarrow> database" where
  "db_step (Insert h, now) db = insert_record h now db"
| "db_step (Update h result msg, now) db = update_record h result msg now db"
| "db_step (Describe h d, now) db = set_description h d db"

definition db_run :: "(db_event \<times> clong) list \<Rightarrow> database \<Rightarrow> database" where
  "db_run es db = fold db_step es db"

text \<open>The events that count for a home agent: those from its first insertion on; and what they say.\<close>

fun own_events :: "cstring \<Rightarrow> (db_event \<times> clong) list \<Rightarrow> (db_event \<times> clong) list" where
  "own_events h [] = []"
| "own_events h (e # es) = (if fst e = Insert h then e # es else own_events h es)"

definition results_of :: "cstring \<Rightarrow> (db_event \<times> clong) list \<Rightarrow> (query_result \<times> cstring \<times> clong) list" where
  "results_of h es = concat (map (\<lambda>e. case e of (Update k r m, now) \<Rightarrow> if k = h then [(r, m, now)] else [] | _ \<Rightarrow> []) es)"

definition descriptions_of :: "cstring \<Rightarrow> (db_event \<times> clong) list \<Rightarrow> cstring list" where
  "descriptions_of h es = concat (map (\<lambda>e. case e of (Describe k d, now) \<Rightarrow> if k = h then [d] else [] | _ \<Rightarrow> []) es)"

definition successes :: "cstring \<Rightarrow> (db_event \<times> clong) list \<Rightarrow> (cstring \<times> clong) list" where
  "successes h es = map snd (filter (\<lambda>r. fst r = QR_SUCCESS) (results_of h es))"

definition failures :: "cstring \<Rightarrow> (db_event \<times> clong) list \<Rightarrow> (cstring \<times> clong) list" where
  "failures h es = map snd (filter (\<lambda>r. fst r \<noteq> QR_SUCCESS) (results_of h es))"

definition record_of :: "cstring \<Rightarrow> (db_event \<times> clong) list \<Rightarrow> agent_record option" where
  "record_of h es =
     (case own_events h es of [] \<Rightarrow> None
      | first # own \<Rightarrow> Some \<lparr>
          rec_name = fst (last (([], 0) # successes h own)),
          rec_description = last ([] # descriptions_of h own),
          lastfailure_msg = fst (last (([], 0) # failures h own)),
          discovered_ts = snd first,
          lastsuccess_ts = snd (last (([], 0) # successes h own)),
          lastfailure_ts = snd (last (([], 0) # failures h own)),
          lastpoll_result = last (QR_NA # map fst (results_of h own))\<rparr>)"


lemma own_events_append:
  "own_events h (es @ [e]) =
     (if own_events h es \<noteq> [] then own_events h es @ [e] else if fst e = Insert h then [e] else [])"
  by (induction es) simp_all

lemmas reports_defs = results_of_def descriptions_of_def successes_def failures_def

lemma abs_map_key: "name.abs_map t k \<noteq> None \<Longrightarrow> k \<in> fst ` set t"
  by (induction t) (auto split: if_splits)

lemma map_insert_present:
  "name.wf_table t \<Longrightarrow> name.abs_map t k \<noteq> None \<Longrightarrow> map_insert str_less k v t = t"
proof (induction t)
  case (Cons e t)
  obtain k' w where e: "e = (k', w)" by fastforce
  show ?case
  proof (cases "k = k'")
    case True
    then show ?thesis using e by (simp add: str_less_irrefl)
  next
    case False
    with Cons.prems e have p: "name.wf_table t" "name.abs_map t k \<noteq> None" by (auto simp: name.wf_Cons)
    then have "str_less k' k" using Cons.prems(1) e abs_map_key[OF p(2)] by (auto simp: name.wf_Cons)
    with Cons.IH[OF p] e str_less_irrefl str_less_trans show ?thesis by (simp, blast)
  qed
qed simp

lemma abs_insert_record:
  "name.wf_table db \<Longrightarrow>
    name.abs_map (insert_record h now db) = (name.abs_map db)(h := Some (case name.abs_map db h of None \<Rightarrow> agent_record_new now | Some r \<Rightarrow> r))"
  by (cases "name.abs_map db h") (auto simp: insert_record_def map_insert_present name.abs_map_insert)

definition updated :: "query_result \<Rightarrow> cstring \<Rightarrow> clong \<Rightarrow> agent_record \<Rightarrow> agent_record" where
  "updated result msg now r =
     (if result = QR_SUCCESS then r\<lparr>lastsuccess_ts := now, rec_name := msg\<rparr>
      else r\<lparr>lastfailure_ts := now, lastfailure_msg := msg\<rparr>)\<lparr>lastpoll_result := result\<rparr>"

lemma abs_update_record:
  "name.abs_map (update_record h result msg now db) = (name.abs_map db)(h := map_option (updated result msg now) (name.abs_map db h))"
  by (cases "name.abs_map db h") (auto simp: update_record_def updated_def name.map_find_abs name.abs_map_assign Let_def)

lemma abs_set_description:
  "name.abs_map (set_description h d db) = (name.abs_map db)(h := map_option (\<lambda>r. r\<lparr>rec_description := d\<rparr>) (name.abs_map db h))"
  by (cases "name.abs_map db h") (auto simp: set_description_def name.map_find_abs name.abs_map_assign)

lemma db_step_wf: "name.wf_table db \<Longrightarrow> name.wf_table (db_step (e, now) db)"
  by (cases e) (auto simp: insert_record_def update_record_def set_description_def name.wf_map_insert name.wf_map_assign Let_def
    split: option.splits)

text \<open>What an event changes for a home agent, in the database and in the specification.\<close>

fun event_effect :: "cstring \<Rightarrow> db_event \<Rightarrow> clong \<Rightarrow> agent_record option \<Rightarrow> agent_record option" where
  "event_effect h (Insert k) now r = (if k = h \<and> r = None then Some (agent_record_new now) else r)"
| "event_effect h (Update k result msg) now r = (if k = h then map_option (updated result msg now) r else r)"
| "event_effect h (Describe k d) now r = (if k = h then map_option (\<lambda>r. r\<lparr>rec_description := d\<rparr>) r else r)"

lemma db_step_effect:
  "name.wf_table db \<Longrightarrow> name.abs_map (db_step (e, now) db) h = event_effect h e now (name.abs_map db h)"
  by (cases e) (auto simp: abs_insert_record abs_update_record abs_set_description split: option.splits)

lemma record_of_effect: "record_of h (es @ [(e, now)]) = event_effect h e now (record_of h es)"
proof (cases "own_events h es")
  case Nil
  then show ?thesis
    by (cases e) (auto simp: record_of_def own_events_append reports_defs agent_record_new_def)
next
  case (Cons first own)
  then show ?thesis
    by (cases e) (auto simp: record_of_def own_events_append reports_defs updated_def)
qed

lemma db_run_record:
  "name.wf_table (db_run es []) \<and> name.abs_map (db_run es []) h = record_of h es"
proof (induction es rule: rev_induct)
  case Nil
  then show ?case by (simp add: db_run_def record_of_def)
next
  case (snoc e es)
  then show ?case by (cases e) (simp add: db_run_def db_step_wf db_step_effect record_of_effect)
qed

text \<open>
  C31. Whatever is reported, the database holds a record for exactly the home agents that were inserted, in the order of their names and each
  once: with the time of the first insertion, the last result reported since then, the message and time of the last success and
  of the last failure, and the last description; reports for other home agents do not change it.
\<close>

theorem db_records:
  "sorted_wrt str_less (map fst (db_run es [])) \<and> map_find str_less h (db_run es []) = record_of h es"
  using db_run_record[of es h] by (simp add: name.wf_table_def name.map_find_abs)

end
