(* ===== verification/Http_Requester.thy ===== *)
theory Http_Requester
  imports Memory
begin

text \<open>
  \<^verbatim>\<open>AsyncHTTPRequester\<close> of \<^verbatim>\<open>src/shared/asynchttprequester.cpp\<close>: a request with its callback, and the buffer for the response. libcurl,
  which makes the transfers, is the environment: it hands over the response in chunks, and when the write function returns less
  than the length of a chunk it ends the transfer with \<^verbatim>\<open>CURLE_WRITE_ERROR\<close>, as its documentation says.
\<close>

section \<open>The operations\<close>

text \<open>
  \<open>rq_added\<close> says that the easy handle is in the multi handle, that is that a transfer is under way. The options of the easy handle that
  the requests set are the address, and the body of a POST request, which has the header for XML.
\<close>

record 'cb requester =
  rq_buf :: cstring
  rq_cb :: "'cb option"
  rq_url :: cstring
  rq_post :: "cstring option"
  rq_added :: bool

definition requester_new :: "'cb requester" where
  "requester_new = \<lparr>rq_buf = [], rq_cb = None, rq_url = [], rq_post = None, rq_added = False\<rparr>"

definition MAX_BUF_SIZE_HTTP :: nat where "MAX_BUF_SIZE_HTTP = 1024 * 1024"

text \<open>Adding a handle that is there already is an error of libcurl's, which \<^verbatim>\<open>mcode_or_throw\<close> turns into an exception: None.\<close>

definition fetch :: "cstring \<Rightarrow> 'cb \<Rightarrow> cstring \<Rightarrow> 'cb requester \<Rightarrow> 'cb requester option" where
  "fetch url cb postdata r =
     (let r = r\<lparr>rq_cb := Some cb, rq_buf := [], rq_url := url, rq_post := (if postdata \<noteq> [] then Some postdata else None)\<rparr> in
      if rq_added r then None else Some (r\<lparr>rq_added := True\<rparr>))"

definition write_cb :: "cstring \<Rightarrow> 'cb requester \<Rightarrow> nat \<times> 'cb requester" where
  "write_cb ptr r =
     (let written = length ptr; oldsize = length (rq_buf r);
          written = (if oldsize + written > MAX_BUF_SIZE_HTTP then MAX_BUF_SIZE_HTTP - oldsize else written)
      in (written, r\<lparr>rq_buf := rq_buf r @ take written ptr\<rparr>))"

text \<open>\<^verbatim>\<open>done\<close>: the callback is called with the code and the contents of the buffer.\<close>

definition transfer_done :: "'cb requester \<Rightarrow> 'cb option \<times> cstring \<times> 'cb requester" where
  "transfer_done r = (rq_cb r, rq_buf r, r\<lparr>rq_added := False\<rparr>)"

text \<open>A transfer: the chunks libcurl hands over, and the code it ends with.\<close>

abbreviation "CURLE_OK \<equiv> 0 :: cint"
abbreviation "CURLE_WRITE_ERROR \<equiv> 23 :: cint"
abbreviation "CURLE_OPERATION_TIMEDOUT \<equiv> 28 :: cint"

fun receive_chunks :: "cstring list \<Rightarrow> 'cb requester \<Rightarrow> bool \<times> 'cb requester" where
  "receive_chunks [] r = (True, r)"
| "receive_chunks (c # cs) r = (let (n, r) = write_cb c r in if n = length c then receive_chunks cs r else (False, r))"

definition transfer :: "cstring list \<Rightarrow> cint \<Rightarrow> 'cb requester \<Rightarrow> cint \<times> 'cb option \<times> cstring \<times> 'cb requester" where
  "transfer chunks code r =
     (let (ok, r) = receive_chunks chunks r in (if ok then code else CURLE_WRITE_ERROR, transfer_done r))"

section \<open>The response\<close>

lemma receive_chunks_buf:
  "length (rq_buf r) \<le> MAX_BUF_SIZE_HTTP \<Longrightarrow>
    receive_chunks cs r =
      (length (rq_buf r @ concat cs) \<le> MAX_BUF_SIZE_HTTP, r\<lparr>rq_buf := take MAX_BUF_SIZE_HTTP (rq_buf r @ concat cs)\<rparr>)"
proof (induction cs arbitrary: r)
  case (Cons c cs)
  show ?case
  proof (cases "length (rq_buf r) + length c \<le> MAX_BUF_SIZE_HTTP")
    case True
    then have "length (rq_buf (r\<lparr>rq_buf := rq_buf r @ c\<rparr>)) \<le> MAX_BUF_SIZE_HTTP" by simp
    from Cons.IH[OF this] True show ?thesis by (simp add: write_cb_def)
  next
    case False
    with Cons.prems show ?thesis by (auto simp: write_cb_def Let_def)
  qed
qed simp

lemma transfer_callback:
  obtains code' content r' where "transfer chunks code r = (code', rq_cb r, content, r')" and "\<not> rq_added r'"
proof -
  have "rq_cb (snd (receive_chunks chunks r)) = rq_cb r"
    by (induction chunks arbitrary: r) (simp_all add: write_cb_def Let_def)
  then show thesis using that by (cases "receive_chunks chunks r") (auto simp: transfer_def transfer_done_def)
qed

lemma transfer_fetched:
  assumes "fetch url cb postdata r = Some r'"
  shows "transfer chunks code r' =
    (if length (concat chunks) \<le> MAX_BUF_SIZE_HTTP then code else CURLE_WRITE_ERROR, Some cb, take MAX_BUF_SIZE_HTTP (concat chunks),
     r'\<lparr>rq_buf := take MAX_BUF_SIZE_HTTP (concat chunks), rq_added := False\<rparr>)"
proof -
  have "rq_buf r' = []" "rq_cb r' = Some cb" using assms by (auto simp: fetch_def Let_def split: if_splits)
  then show ?thesis using receive_chunks_buf[of r' chunks] by (simp add: transfer_def transfer_done_def)
qed

text \<open>
  Whatever the requester was used for before, when a fetch succeeds its callback gets the bytes of this response, all of
  them and nothing else, and these are at most a megabyte; a longer response makes it fail with a write error. The requester can
  then be used again, and not before: a fetch while one is under way throws.
\<close>

theorem response_delivered:
  assumes "\<not> rq_added r"
  shows "\<exists>r' r''. fetch url cb postdata r = Some r' \<and> fetch url2 cb2 postdata2 r' = None \<and>
    transfer chunks CURLE_OK r' = (if length (concat chunks) \<le> 1048576 then (CURLE_OK, Some cb, concat chunks, r'')
      else (CURLE_WRITE_ERROR, Some cb, take 1048576 (concat chunks), r'')) \<and> \<not> rq_added r''"
proof -
  obtain r' where f: "fetch url cb postdata r = Some r'" "fetch url2 cb2 postdata2 r' = None"
    using assms by (simp add: fetch_def Let_def)
  from transfer_fetched[OF f(1), of chunks CURLE_OK] f show ?thesis by (auto simp: MAX_BUF_SIZE_HTTP_def)
qed

lemma response_delivered_witness:
  "\<exists>r' r''. fetch [104] True [] requester_new = Some r' \<and> transfer [[1, 2], [], [3]] CURLE_OK r' = (CURLE_OK, Some True, [1, 2, 3], r'')"
  using response_delivered[of "requester_new" "[104]" True "[]" "[]" False "[]" "[[1, 2], [], [3]]"] by (auto simp: requester_new_def)

end
