(* ===== verification/Poller.thy ===== *)
theory Poller
  imports Poller_Database Http_Requester
begin

text \<open>
  A poller process: \<^verbatim>\<open>poller.cpp\<close>, the filter of \<^verbatim>\<open>signals.hpp\<close> and the wiring of \<^verbatim>\<open>main.cpp\<close> in \<^verbatim>\<open>src/crawler_poller\<close>, with the
  data of \<^verbatim>\<open>src/crawler_parser/parser.hpp\<close>. Each home agent that is assigned to the process has a poller, which asks it for what has
  changed and posts that to Solr. The process has one thread, which is its default, so that what is dispatched to a
  strand runs at once. None is undefined behaviour, or an exception that ends the process.
\<close>

section \<open>What home agents send\<close>

record homeagent =
  ha_hostname :: cstring
  ha_description :: cstring
  ha_port :: cstring

record device =
  dev_owner :: cstring
  dev_name :: cstring
  dev_port :: cstring
  dev_type :: cstring
  dev_timestamp :: clong
  dev_location :: cstring
  dev_description :: cstring

record getall =
  haname :: cstring
  homeagents :: "homeagent list"
  devices :: "device list"
  updates :: "cstring list"

datatype access_level = PUBLIC | PRIVATE | NOT_SHARED

record video =
  vid_id :: cint
  vid_title :: cstring
  vid_filesize :: clong
  vid_mimetype :: cstring
  vid_description :: cstring
  vid_access :: access_level

text \<open>
  The environment: the addresses of the options (\<^verbatim>\<open>boost::format\<close> applied to its two arguments), the grammars of Boost.Spirit (None when the
  text is not accepted to its end), \<^verbatim>\<open>curl_easy_strerror\<close>, and whether there is a manager.
\<close>

record poller_env =
  hadevurlfmt :: "cstring \<Rightarrow> clong \<Rightarrow> cstring"
  haconurlfmt :: "cstring \<Rightarrow> cstring \<Rightarrow> cstring"
  solr_deviceurl :: cstring
  solr_contenturl :: cstring
  parse_getall :: "cstring \<Rightarrow> getall option"
  parse_contmeta :: "cstring \<Rightarrow> video list option"
  curl_easy_strerror :: "cint \<Rightarrow> cstring"
  has_manager :: bool

section \<open>What is posted\<close>

definition solr_field :: "char list \<Rightarrow> cstring \<Rightarrow> cstring" where
  "solr_field name v = str ''<field name='' @ [34] @ str name @ [34] @ str ''>'' @ v @ str ''</field>''"

definition device_doc :: "cstring \<Rightarrow> device \<Rightarrow> cstring" where
  "device_doc ha i =
     str ''<doc>'' @
     solr_field ''r_type'' (str ''device'') @
     solr_field ''r_key'' (dev_name i) @
     solr_field ''d_owner'' (dev_owner i) @
     solr_field ''d_name'' (dev_name i @ str ''.'' @ ha) @
     solr_field ''d_home'' ha @
     (if dev_port i \<noteq> [] then solr_field ''d_port'' (dev_port i) else []) @
     solr_field ''d_type'' (dev_type i) @
     solr_field ''d_timestamp'' (print_long (dev_timestamp i)) @
     solr_field ''d_location'' (dev_location i) @
     solr_field ''description'' (dev_description i) @
     str ''</doc>''"

definition solr_add :: "cstring list \<Rightarrow> cstring" where
  "solr_add docs = str ''<add overwrite='' @ [34] @ str ''true'' @ [34] @ str ''>'' @ concat docs @ str ''</add>''"

definition device_update :: "getall \<Rightarrow> cstring" where
  "device_update gall = solr_add (map (device_doc (haname gall)) (devices gall))"

definition newest :: "device list \<Rightarrow> clong" where
  "newest ds = foldl (\<lambda>newtimestamp i. if newtimestamp <s dev_timestamp i then dev_timestamp i else newtimestamp) 0 ds"

definition video_doc :: "cstring \<Rightarrow> video \<Rightarrow> cstring" where
  "video_doc dev i =
     (let key = dev @ str ''-vid'' @ print_int (vid_id i) in
      str ''<doc>'' @
      solr_field ''r_type'' (str ''content'') @
      solr_field ''r_key'' key @
      solr_field ''c_ctid'' key @
      solr_field ''c_id'' (print_int (vid_id i)) @
      solr_field ''c_device_name'' dev @
      solr_field ''c_title'' (vid_title i) @
      solr_field ''c_filesize'' (print_long (vid_filesize i)) @
      solr_field ''c_mimetype'' (vid_mimetype i) @
      solr_field ''description'' (vid_description i) @
      str ''</doc>'')"

text \<open>The loop over the videos, with the number of public ones.\<close>

fun content_docs :: "cstring \<Rightarrow> video list \<Rightarrow> cstring list \<times> nat" where
  "content_docs dev [] = ([], 0)"
| "content_docs dev (i # videos) =
     (let (out, pubcount) = content_docs dev videos in
      if vid_access i = PUBLIC then (video_doc dev i # out, pubcount + 1) else (out, pubcount))"

section \<open>The pollers\<close>

datatype poll_cb = Poll_cb | Post_cb clong
datatype content_cb = Content_cb cstring | Content_posted_cb cstring

text \<open>
  Of the timer of a poller, \<open>p_waits\<close> counts the waits that are pending and \<open>p_aborted\<close> those that were cancelled and whose
  handler has not run yet.
\<close>

record poller =
  p_hostname :: cstring
  p_timestamp :: clong
  p_requester :: "poll_cb requester"
  p_falling_behind :: bool
  p_waits :: nat
  p_aborted :: nat

definition poller_new :: "cstring \<Rightarrow> poller" where
  "poller_new hostname = \<lparr>p_hostname = hostname, p_timestamp = 1, p_requester = requester_new, p_falling_behind = False,
     p_waits = 0, p_aborted = 0\<rparr>"

record crawler =
  pollers :: "poller list"
  num_pollers :: clong
  num_falling_behind :: clong
  records :: database
  found :: "cstring set"
  to_manager :: "cstring list"
  contents :: "content_cb requester list"
  clock :: clong

definition crawler_new :: crawler where
  "crawler_new = \<lparr>pollers = [], num_pollers = 0, num_falling_behind = 0, records = [], found = {}, to_manager = [], contents = [],
     clock = 0\<rparr>"

definition update_poller :: "nat \<Rightarrow> (poller \<Rightarrow> poller) \<Rightarrow> crawler \<Rightarrow> crawler" where
  "update_poller i f s = s\<lparr>pollers := (pollers s)[i := f (pollers s ! i)]\<rparr>"

definition report_result :: "cstring \<Rightarrow> query_result \<Rightarrow> cstring \<Rightarrow> crawler \<Rightarrow> crawler" where
  "report_result hostname result msg s = s\<lparr>records := update_record hostname result msg (clock s) (records s)\<rparr>"

text \<open>Whether a timer's expiry is in the past when its poller waits for it is up to the environment: \<open>late\<close> says it for each host.\<close>

definition start :: "(cstring \<Rightarrow> bool) \<Rightarrow> nat \<Rightarrow> crawler \<Rightarrow> crawler" where
  "start late i s =
     (let p = pollers s ! i;
          s = (if late (p_hostname p)
               then if \<not> p_falling_behind p
                 then (update_poller i (\<lambda>p. p\<lparr>p_falling_behind := True\<rparr>) s)\<lparr>num_falling_behind := num_falling_behind s + 1\<rparr> else s
               else if p_falling_behind p
                 then (update_poller i (\<lambda>p. p\<lparr>p_falling_behind := False\<rparr>) s)\<lparr>num_falling_behind := num_falling_behind s - 1\<rparr> else s)
      in update_poller i (\<lambda>p. p\<lparr>p_waits := p_waits p + 1\<rparr>) s)"

definition create_poller :: "(cstring \<Rightarrow> bool) \<Rightarrow> cstring \<Rightarrow> crawler \<Rightarrow> crawler" where
  "create_poller late hostname s =
     start late (length (pollers s))
       (s\<lparr>pollers := pollers s @ [poller_new hostname], num_pollers := num_pollers s + 1,
          records := insert_record hostname (clock s) (records s)\<rparr>)"

text \<open>The filter, and what it is connected to: the manager, or the creation of pollers.\<close>

definition home_agent_discovered :: "poller_env \<Rightarrow> (cstring \<Rightarrow> bool) \<Rightarrow> cstring \<Rightarrow> crawler \<Rightarrow> crawler" where
  "home_agent_discovered env late hostname s =
     (if hostname \<in> found s then s
      else let s = s\<lparr>found := insert hostname (found s)\<rparr> in
        if has_manager env then s\<lparr>to_manager := to_manager s @ [hostname]\<rparr> else create_poller late hostname s)"

definition poller_fetch :: "nat \<Rightarrow> cstring \<Rightarrow> poll_cb \<Rightarrow> cstring \<Rightarrow> crawler \<Rightarrow> crawler option" where
  "poller_fetch i url cb postdata s =
     map_option (\<lambda>r. update_poller i (\<lambda>p. p\<lparr>p_requester := r\<rparr>) s) (fetch url cb postdata (p_requester (pollers s ! i)))"

text \<open>Setting the expiry of the timer cancels what is pending.\<close>

definition do_poll :: "poller_env \<Rightarrow> bool \<Rightarrow> nat \<Rightarrow> crawler \<Rightarrow> crawler option" where
  "do_poll env ec i s =
     (let s = update_poller i (\<lambda>p. p\<lparr>p_aborted := p_aborted p + p_waits p, p_waits := 0\<rparr>) s; p = pollers s ! i in
      if \<not> ec then poller_fetch i (hadevurlfmt env (p_hostname p) (p_timestamp p)) Poll_cb [] s else Some s)"

definition curlcode_to_query_result :: "cint \<Rightarrow> query_result" where
  "curlcode_to_query_result code = (if code = CURLE_OPERATION_TIMEDOUT then QR_TIMEOUT else QR_NETWORK_ERROR)"

definition neighbour :: "poller_env \<Rightarrow> (cstring \<Rightarrow> bool) \<Rightarrow> homeagent \<Rightarrow> crawler \<Rightarrow> crawler" where
  "neighbour env late i s =
     (let s = home_agent_discovered env late (ha_hostname i) s
      in s\<lparr>records := set_description (ha_hostname i) (ha_description i) (records s)\<rparr>)"

fun fetch_contents :: "poller_env \<Rightarrow> cstring \<Rightarrow> cstring \<Rightarrow> cstring list \<Rightarrow> crawler \<Rightarrow> crawler option" where
  "fetch_contents env hostname ha [] s = Some s"
| "fetch_contents env hostname ha (u # us) s =
     (if u = [] then fetch_contents env hostname ha us s
      else Option.bind (fetch (haconurlfmt env hostname u) (Content_cb (u @ str ''.'' @ ha)) [] requester_new)
        (\<lambda>r. fetch_contents env hostname ha us (s\<lparr>contents := contents s @ [r]\<rparr>)))"

definition handle_poll :: "poller_env \<Rightarrow> (cstring \<Rightarrow> bool) \<Rightarrow> nat \<Rightarrow> cint \<Rightarrow> cstring \<Rightarrow> crawler \<Rightarrow> crawler option" where
  "handle_poll env late i code content s =
     (let hostname = p_hostname (pollers s ! i) in
      if code = CURLE_OK
      then case parse_getall env content of
          None \<Rightarrow> Some (start late i (report_result hostname QR_PARSE_ERROR [] s))
        | Some gall \<Rightarrow>
            let s = report_result hostname QR_SUCCESS (haname gall) s;
                s = fold (neighbour env late) (homeagents gall) s
            in Option.bind
                (if devices gall \<noteq> []
                 then poller_fetch i (solr_deviceurl env @ str ''?commit=true'') (Post_cb (newest (devices gall))) (device_update gall) s
                 else Some (start late i s))
                (fetch_contents env hostname (haname gall) (updates gall))
      else Some (start late i (report_result hostname (curlcode_to_query_result code) (curl_easy_strerror env code) s)))"

text \<open>Adding 1 to the largest \<^verbatim>\<open>time_t\<close> is undefined.\<close>

definition handle_post :: "(cstring \<Rightarrow> bool) \<Rightarrow> nat \<Rightarrow> cint \<Rightarrow> clong \<Rightarrow> crawler \<Rightarrow> crawler option" where
  "handle_post late i code newtimestamp s =
     (if code = CURLE_OK
      then if sint newtimestamp = 2 ^ 63 - 1 then None
        else Some (start late i (update_poller i (\<lambda>p. p\<lparr>p_timestamp := newtimestamp + 1\<rparr>) s))
      else Some (start late i s))"

definition handle_getcontentlist :: "poller_env \<Rightarrow> nat \<Rightarrow> cstring \<Rightarrow> cint \<Rightarrow> cstring \<Rightarrow> crawler \<Rightarrow> crawler option" where
  "handle_getcontentlist env k dev code body s =
     (if code = CURLE_OK
      then case parse_contmeta env body of
          None \<Rightarrow> Some s
        | Some videos \<Rightarrow>
            let (out, pubcount) = content_docs dev videos in
            if pubcount > 0
            then map_option (\<lambda>r. s\<lparr>contents := (contents s)[k := r]\<rparr>)
              (fetch (solr_contenturl env @ str ''?softCommit=true'') (Content_posted_cb dev) (solr_add out) (contents s ! k))
            else Some s
      else Some s)"

section \<open>Runs\<close>

text \<open>
  Events: a timer of a poller, with its error; the handler of a wait that was cancelled; the end of the transfer of a poller
  or of a content request, with its chunks and code; and an assignment by the manager. Each has a time, and
  says which pollers are late.
\<close>

datatype poller_event =
  Timer nat bool | Timer_aborted nat | Response nat "cstring list" cint | Content_response nat "cstring list" cint | Assigned cstring

fun crawler_handle :: "poller_env \<Rightarrow> (cstring \<Rightarrow> bool) \<Rightarrow> poller_event \<Rightarrow> crawler \<Rightarrow> crawler option" where
  "crawler_handle env late (Timer i ec) s =
     (if i < length (pollers s) \<and> p_waits (pollers s ! i) > 0
      then do_poll env ec i (update_poller i (\<lambda>p. p\<lparr>p_waits := p_waits p - 1\<rparr>) s) else Some s)"
| "crawler_handle env late (Timer_aborted i) s =
     (if i < length (pollers s) \<and> p_aborted (pollers s ! i) > 0
      then do_poll env True i (update_poller i (\<lambda>p. p\<lparr>p_aborted := p_aborted p - 1\<rparr>) s) else Some s)"
| "crawler_handle env late (Response i chunks code) s =
     (if i < length (pollers s) \<and> rq_added (p_requester (pollers s ! i))
      then let (code, cb, content, r) = transfer chunks code (p_requester (pollers s ! i));
               s = update_poller i (\<lambda>p. p\<lparr>p_requester := r\<rparr>) s
           in case cb of
             None \<Rightarrow> Some s
           | Some Poll_cb \<Rightarrow> handle_poll env late i code content s
           | Some (Post_cb newtimestamp) \<Rightarrow> handle_post late i code newtimestamp s
      else Some s)"
| "crawler_handle env late (Content_response k chunks code) s =
     (if k < length (contents s) \<and> rq_added (contents s ! k)
      then let (code, cb, content, r) = transfer chunks code (contents s ! k);
               s = s\<lparr>contents := (contents s)[k := r]\<rparr>
           in case cb of
             Some (Content_cb dev) \<Rightarrow> handle_getcontentlist env k dev code content s
           | _ \<Rightarrow> Some s
      else Some s)"
| "crawler_handle env late (Assigned hostname) s = Some (if has_manager env then create_poller late hostname s else s)"

type_synonym timed_event = "clong \<times> (cstring \<Rightarrow> bool) \<times> poller_event"

fun crawler_step :: "poller_env \<Rightarrow> timed_event \<Rightarrow> crawler \<Rightarrow> crawler option" where
  "crawler_step env (now, late, e) s = crawler_handle env late e (s\<lparr>clock := now\<rparr>)"

fun crawler_run :: "poller_env \<Rightarrow> timed_event list \<Rightarrow> crawler \<Rightarrow> crawler option" where
  "crawler_run env [] s = Some s"
| "crawler_run env (e # es) s = Option.bind (crawler_step env e s) (crawler_run env es)"

definition crawler_start :: "poller_env \<Rightarrow> clong \<Rightarrow> (cstring \<Rightarrow> bool) \<Rightarrow> cstring list \<Rightarrow> crawler" where
  "crawler_start env now late home_agents = fold (home_agent_discovered env late) home_agents (crawler_new\<lparr>clock := now\<rparr>)"

end
