(* ===== verification/Manager_Connection.thy ===== *)
theory Manager_Connection
  imports Poller Crawler_Protocol
begin

text \<open>
  The connection of a poller process to the manager, \<^verbatim>\<open>src/crawler_poller/manconnection.cpp\<close>, and the process with both: what the
  filter of \<open>Poller\<close> passes on is sent to the manager, and what the manager assigns is polled.
\<close>

section \<open>The connection\<close>

text \<open>
  The operation that the connection waits for while it is being made; \<open>mc_open\<close> says that the socket has not been closed,
  \<open>mc_reading\<close> that the reader has been started, \<open>mc_stopped\<close> that the \<^verbatim>\<open>io_service\<close> has been stopped. The log has the errors.
\<close>

datatype waiting = Resolving | Connecting | Nothing

datatype log_error = Retry_error | Resolve_error | Connect_error | Shutdown_error | Close_error | Send_error message_type cstring

record manconnection =
  mc_waiting :: waiting
  mc_connected :: bool
  mc_open :: bool
  mc_reading :: bool
  mc_writer :: bufwrite
  mc_stopped :: bool
  mc_log :: "log_error list"

definition mc_error :: "log_error \<Rightarrow> manconnection \<Rightarrow> manconnection" where
  "mc_error e c = c\<lparr>mc_log := mc_log c @ [e]\<rparr>"

text \<open>\<open>errs\<close> are the errors of \<^verbatim>\<open>shutdown\<close> and \<^verbatim>\<open>close\<close>.\<close>

definition mc_disconnect :: "bool \<times> bool \<Rightarrow> manconnection \<Rightarrow> manconnection" where
  "mc_disconnect errs c =
     (let c = (if mc_connected c
               then let c = c\<lparr>mc_connected := False\<rparr>;
                        c = (if \<not> fst errs then mc_error Shutdown_error c else c);
                        c = c\<lparr>mc_open := False\<rparr>
                    in if \<not> snd errs then mc_error Close_error c else c
               else c)
      in c\<lparr>mc_stopped := True\<rparr>)"

definition mc_connect :: "bool \<times> bool \<Rightarrow> bool \<Rightarrow> manconnection \<Rightarrow> manconnection" where
  "mc_connect errs ec c = (if \<not> ec then c\<lparr>mc_waiting := Resolving\<rparr> else mc_disconnect errs (mc_error Retry_error c))"

definition mc_handle_resolve :: "bool \<times> bool \<Rightarrow> bool \<Rightarrow> manconnection \<Rightarrow> manconnection" where
  "mc_handle_resolve errs ec c =
     (if \<not> ec then c\<lparr>mc_waiting := Connecting\<rparr> else mc_disconnect errs (mc_error Resolve_error c))"

definition mc_handle_connect :: "bool \<times> bool \<Rightarrow> bool \<Rightarrow> manconnection \<Rightarrow> manconnection" where
  "mc_handle_connect errs ec c =
     (if \<not> ec then c\<lparr>mc_connected := True, mc_writer := bw_set_connected (mc_writer c), mc_reading := True\<rparr>
      else mc_disconnect errs (mc_error Connect_error c))"

definition manconnection_new :: manconnection where
  "manconnection_new = mc_connect (False, False) False
     \<lparr>mc_waiting = Nothing, mc_connected = False, mc_open = True, mc_reading = False, mc_writer = bufwrite_new True True,
      mc_stopped = False, mc_log = []\<rparr>"

definition mc_home_agent_discovered :: "bytes \<Rightarrow> cstring \<Rightarrow> manconnection \<Rightarrow> manconnection" where
  "mc_home_agent_discovered raw hostname c = c\<lparr>mc_writer := sendmsg raw HOME_AGENT_DISCOVERED hostname (mc_writer c)\<rparr>"

definition mc_send_failure :: "bool \<times> bool \<Rightarrow> message_type \<Rightarrow> cstring \<Rightarrow> manconnection \<Rightarrow> manconnection" where
  "mc_send_failure errs t s c = mc_disconnect errs (mc_error (Send_error t s) c)"

definition mc_report :: "bool \<times> bool \<Rightarrow> bool \<times> message_type \<times> cstring \<Rightarrow> manconnection \<Rightarrow> manconnection" where
  "mc_report errs r c = (case r of (ok, t, s) \<Rightarrow> if ok then c else mc_send_failure errs t s c)"

section \<open>The process\<close>

record poller_process =
  pp_crawler :: crawler
  pp_conn :: manconnection

text \<open>
  Events: those of the pollers; the end of resolving and of connecting, with its error; the error of the reader; and the end of a
  write, with its error. An assignment is a message that the reader has read.
\<close>

datatype link_event = Crawls timed_event | Resolved bool | Connection_made bool | Reader_failed | Write_done bool

fun assigns_agent :: "timed_event \<Rightarrow> bool" where
  "assigns_agent (now, late, Assigned h) = True"
| "assigns_agent _ = False"

definition pass_on :: "bytes \<Rightarrow> crawler \<Rightarrow> poller_process \<Rightarrow> poller_process" where
  "pass_on raw c s =
     \<lparr>pp_crawler = c,
      pp_conn = fold (mc_home_agent_discovered raw) (drop (length (to_manager (pp_crawler s))) (to_manager c)) (pp_conn s)\<rparr>"

fun link_handle :: "bytes \<Rightarrow> poller_env \<Rightarrow> bool \<times> bool \<Rightarrow> link_event \<Rightarrow> poller_process \<Rightarrow> poller_process option" where
  "link_handle raw env errs (Crawls e) s =
     (if assigns_agent e \<and> \<not> mc_reading (pp_conn s) then Some s
      else map_option (\<lambda>c. pass_on raw c s) (crawler_step env e (pp_crawler s)))"
| "link_handle raw env errs (Resolved ec) s =
     Some (if mc_waiting (pp_conn s) = Resolving
       then s\<lparr>pp_conn := mc_handle_resolve errs ec ((pp_conn s)\<lparr>mc_waiting := Nothing\<rparr>)\<rparr> else s)"
| "link_handle raw env errs (Connection_made ec) s =
     Some (if mc_waiting (pp_conn s) = Connecting
       then s\<lparr>pp_conn := mc_handle_connect errs ec ((pp_conn s)\<lparr>mc_waiting := Nothing\<rparr>)\<rparr> else s)"
| "link_handle raw env errs Reader_failed s =
     Some (if mc_reading (pp_conn s) then s\<lparr>pp_conn := mc_disconnect errs ((pp_conn s)\<lparr>mc_reading := False\<rparr>)\<rparr> else s)"
| "link_handle raw env errs (Write_done ec) s =
     (let w = mc_writer (pp_conn s); w' = writer_step (Written ec) w in
      Some (s\<lparr>pp_conn := fold (mc_report errs) (drop (length (bw_outcomes w)) (bw_outcomes w')) ((pp_conn s)\<lparr>mc_writer := w'\<rparr>)\<rparr>))"

text \<open>Once the \<^verbatim>\<open>io_service\<close> has been stopped no handler runs.\<close>

fun link_run :: "bytes \<Rightarrow> poller_env \<Rightarrow> ((bool \<times> bool) \<times> link_event) list \<Rightarrow> poller_process \<Rightarrow> poller_process option" where
  "link_run raw env [] s = Some s"
| "link_run raw env ((errs, e) # es) s =
     (if mc_stopped (pp_conn s) then Some s else Option.bind (link_handle raw env errs e s) (link_run raw env es))"

definition link_start :: "bytes \<Rightarrow> poller_env \<Rightarrow> clong \<Rightarrow> (cstring \<Rightarrow> bool) \<Rightarrow> cstring list \<Rightarrow> poller_process" where
  "link_start raw env now late home_agents =
     pass_on raw (crawler_start env now late home_agents) \<lparr>pp_crawler = crawler_new, pp_conn = manconnection_new\<rparr>"

end
