(* ===== verification/Poller_Behaviour.thy ===== *)
theory Poller_Behaviour
  imports Poller
begin

text \<open>
  What a poller process promises: every home agent it hears of is polled, by one poller that always has one thing
  to wait for, and the counts of the process are right.
\<close>

section \<open>The invariant\<close>

text \<open>
  A poller waits for its timer or for a transfer; the poller whose event is being handled waits for neither. \<open>crawler_inv M I s\<close>
  says that this is so for the pollers in \<open>I\<close>. \<open>M\<close> says that there is a manager; without one the home agents found are those polled.
\<close>

definition poller_ok :: "poller \<Rightarrow> bool" where
  "poller_ok p \<longleftrightarrow> p_aborted p = 0 \<and>
     (if rq_added (p_requester p)
      then p_waits p = 0 \<and>
        (case rq_cb (p_requester p) of None \<Rightarrow> False | Some Poll_cb \<Rightarrow> True | Some (Post_cb n) \<Rightarrow> sint n < 2 ^ 63 - 1)
      else p_waits p = 1)"

definition poller_busy :: "poller \<Rightarrow> bool" where
  "poller_busy p \<longleftrightarrow> p_aborted p = 0 \<and> \<not> rq_added (p_requester p) \<and> p_waits p = 0"

definition late_weight :: "poller \<Rightarrow> clong" where
  "late_weight p = (if p_falling_behind p then 1 else 0)"

definition hostnames :: "crawler \<Rightarrow> cstring list" where
  "hostnames s = map p_hostname (pollers s)"

definition crawler_inv :: "bool \<Rightarrow> nat set \<Rightarrow> crawler \<Rightarrow> bool" where
  "crawler_inv M I s \<longleftrightarrow> I \<subseteq> {..<length (pollers s)} \<and>
     (\<forall>j < length (pollers s). if j \<in> I then poller_busy (pollers s ! j) else poller_ok (pollers s ! j)) \<and>
     num_pollers s = of_nat (length (pollers s)) \<and> num_falling_behind s = sum_list (map late_weight (pollers s)) \<and>
     (\<not> M \<longrightarrow> distinct (hostnames s) \<and> set (hostnames s) = found s)"

lemma crawler_invI:
  assumes "I \<subseteq> {..<length (pollers s)}"
    and "\<And>j. j < length (pollers s) \<Longrightarrow> j \<in> I \<Longrightarrow> poller_busy (pollers s ! j)"
    and "\<And>j. j < length (pollers s) \<Longrightarrow> j \<notin> I \<Longrightarrow> poller_ok (pollers s ! j)"
    and "num_pollers s = of_nat (length (pollers s))" and "num_falling_behind s = sum_list (map late_weight (pollers s))"
    and "\<not> M \<Longrightarrow> distinct (hostnames s)" and "\<not> M \<Longrightarrow> set (hostnames s) = found s"
  shows "crawler_inv M I s"
  using assms unfolding crawler_inv_def by auto

lemma crawler_invD:
  assumes "crawler_inv M I s"
  shows "I \<subseteq> {..<length (pollers s)}"
    and "\<And>j. j < length (pollers s) \<Longrightarrow> j \<in> I \<Longrightarrow> poller_busy (pollers s ! j)"
    and "\<And>j. j < length (pollers s) \<Longrightarrow> j \<notin> I \<Longrightarrow> poller_ok (pollers s ! j)"
    and "num_pollers s = of_nat (length (pollers s))" and "num_falling_behind s = sum_list (map late_weight (pollers s))"
    and "\<not> M \<Longrightarrow> distinct (hostnames s)" and "\<not> M \<Longrightarrow> set (hostnames s) = found s"
  using assms unfolding crawler_inv_def by (auto split: if_splits)

text \<open>What the pollers do not look at can change.\<close>

lemma crawler_inv_cong:
  "pollers t = pollers s \<Longrightarrow> num_pollers t = num_pollers s \<Longrightarrow> num_falling_behind t = num_falling_behind s \<Longrightarrow>
    (\<not> M \<Longrightarrow> found t = found s) \<Longrightarrow> crawler_inv M I t = crawler_inv M I s"
  by (auto simp: crawler_inv_def hostnames_def)

lemma weights_update:
  "i < length ps \<Longrightarrow> sum_list (map late_weight (ps[i := p])) = sum_list (map late_weight ps) - late_weight (ps ! i) + late_weight p"
proof (induction ps arbitrary: i)
  case (Cons q ps)
  then show ?case by (cases i) auto
qed simp

lemma hostnames_update:
  "i < length (pollers s) \<Longrightarrow> p_hostname p = p_hostname (pollers s ! i) \<Longrightarrow>
    map p_hostname ((pollers s)[i := p]) = map p_hostname (pollers s)"
  by (metis list_update_id map_update nth_map)

text \<open>A poller is replaced by one for the same host; \<open>J\<close> says who waits for nothing then.\<close>

lemma replace_inv:
  assumes "crawler_inv M I s" and "i < length (pollers s)" and "J - {i} = I - {i}"
    and "p_hostname p = p_hostname (pollers s ! i)" and "if i \<in> J then poller_busy p else poller_ok p"
    and "pollers t = (pollers s)[i := p]" and "num_pollers t = num_pollers s" and "found t = found s"
    and "num_falling_behind t = num_falling_behind s - late_weight (pollers s ! i) + late_weight p"
  shows "crawler_inv M J t" and "hostnames t = hostnames s"
proof -
  note d = crawler_invD[OF assms(1)]
  show h: "hostnames t = hostnames s" unfolding hostnames_def assms(6) by (rule hostnames_update[OF assms(2,4)])
  show "crawler_inv M J t"
  proof (rule crawler_invI)
    show "J \<subseteq> {..<length (pollers t)}" using d(1) assms(2,3,6) by auto
    show "poller_busy (pollers t ! j)" if "j < length (pollers t)" "j \<in> J" for j
      using that assms(3,5,6) d(2)[of j] by (cases "j = i") auto
    show "poller_ok (pollers t ! j)" if "j < length (pollers t)" "j \<notin> J" for j
      using that assms(2,3,5,6) d(3)[of j] by (cases "j = i") auto
    show "num_falling_behind t = sum_list (map late_weight (pollers t))"
      unfolding assms(6,9) weights_update[OF assms(2)] using d(5) by simp
  qed (use d(4,6,7) h assms(6-8) in simp_all)
qed

section \<open>The operations\<close>

lemma start_inv:
  assumes "crawler_inv M {i} s"
  shows "crawler_inv M {} (start late i s)" and "hostnames (start late i s) = hostnames s" and "found (start late i s) = found s"
    and "length (pollers (start late i s)) = length (pollers s)" and "contents (start late i s) = contents s"
proof -
  have i: "i < length (pollers s)" using crawler_invD(1)[OF assms] by simp
  let ?p = "(pollers s ! i)\<lparr>p_falling_behind := late (p_hostname (pollers s ! i)), p_waits := p_waits (pollers s ! i) + 1\<rparr>"
  have ok: "if i \<in> {} then poller_busy ?p else poller_ok ?p"
    using crawler_invD(2)[OF assms i] by (simp add: poller_ok_def poller_busy_def)
  have p: "pollers (start late i s) = (pollers s)[i := ?p]"
    using i by (cases "pollers s ! i") (simp add: start_def update_poller_def Let_def)
  have n: "num_falling_behind (start late i s) = num_falling_behind s - late_weight (pollers s ! i) + late_weight ?p"
    using i by (auto simp: start_def update_poller_def Let_def late_weight_def)
  have f: "num_pollers (start late i s) = num_pollers s" "found (start late i s) = found s"
    by (auto simp: start_def update_poller_def Let_def)
  show "crawler_inv M {} (start late i s)" "hostnames (start late i s) = hostnames s"
    using replace_inv[OF assms i _ _ ok p f n] by simp_all
  show "found (start late i s) = found s" by (rule f)
  show "length (pollers (start late i s)) = length (pollers s)" by (simp add: p)
  show "contents (start late i s) = contents s" by (auto simp: start_def update_poller_def Let_def)
qed

lemma poller_fetch_inv:
  assumes "crawler_inv M {i} s" and "case cb of Poll_cb \<Rightarrow> True | Post_cb n \<Rightarrow> sint n < 2 ^ 63 - 1"
  shows "\<exists>t. poller_fetch i url cb postdata s = Some t \<and> crawler_inv M {} t \<and> hostnames t = hostnames s \<and> found t = found s"
proof -
  have i: "i < length (pollers s)" using crawler_invD(1)[OF assms(1)] by simp
  note b = crawler_invD(2)[OF assms(1) i, simplified]
  then obtain r where r: "fetch url cb postdata (p_requester (pollers s ! i)) = Some r" "rq_added r" "rq_cb r = Some cb"
    by (simp add: fetch_def poller_busy_def Let_def)
  let ?p = "(pollers s ! i)\<lparr>p_requester := r\<rparr>"
  have "if i \<in> {} then poller_busy ?p else poller_ok ?p"
    using b r assms(2) by (cases cb) (simp_all add: poller_ok_def poller_busy_def)
  from replace_inv[OF assms(1) i _ _ this, of "update_poller i (\<lambda>p. p\<lparr>p_requester := r\<rparr>) s"] r(1)
  show ?thesis by (simp add: poller_fetch_def update_poller_def late_weight_def)
qed

lemma create_poller_inv:
  assumes "crawler_inv M I s" and "\<not> M \<Longrightarrow> h \<notin> found s" and "\<not> M \<Longrightarrow> F = insert h (found s)"
  shows "crawler_inv M I (create_poller late h (s\<lparr>found := F\<rparr>))" and "found (create_poller late h (s\<lparr>found := F\<rparr>)) = F"
proof -
  note d = crawler_invD[OF assms(1)]
  let ?p = "(poller_new h)\<lparr>p_falling_behind := late h, p_waits := 1\<rparr>"
  let ?t = "create_poller late h (s\<lparr>found := F\<rparr>)"
  have p: "pollers ?t = pollers s @ [?p]"
    by (auto simp: create_poller_def start_def update_poller_def poller_new_def Let_def)
  have n: "num_pollers ?t = num_pollers s + 1" "found ?t = F"
    "num_falling_behind ?t = num_falling_behind s + late_weight ?p"
    by (auto simp: create_poller_def start_def update_poller_def poller_new_def Let_def late_weight_def)
  have h: "hostnames ?t = hostnames s @ [h]" by (simp add: hostnames_def p poller_new_def)
  show "found ?t = F" by (rule n)
  show "crawler_inv M I ?t"
  proof (rule crawler_invI)
    show "poller_busy (pollers ?t ! j)" if "j < length (pollers ?t)" "j \<in> I" for j
      using that d(1) d(2)[of j] by (auto simp: p nth_append)
    show "poller_ok (pollers ?t ! j)" if "j < length (pollers ?t)" "j \<notin> I" for j
      using that d(3)[of j] by (auto simp: p nth_append poller_ok_def poller_new_def requester_new_def)
    show "distinct (hostnames ?t)" if "\<not> M" using d(6,7) assms(2) that by (simp add: h)
    show "set (hostnames ?t) = found ?t" if "\<not> M" using d(7) assms(3) that unfolding h n(2) by simp
  qed (use d n in \<open>auto simp: p\<close>)
qed

lemma filter_inv:
  assumes "crawler_inv M I s" and "M = has_manager env"
  shows "crawler_inv M I (home_agent_discovered env late h s)" and "found (home_agent_discovered env late h s) = insert h (found s)"
proof -
  have "crawler_inv M I (home_agent_discovered env late h s) \<and> found (home_agent_discovered env late h s) = insert h (found s)"
  proof (cases "h \<in> found s \<or> M")
    case True
    then have "crawler_inv M I (home_agent_discovered env late h s) = crawler_inv M I s"
      using assms(2) by (intro crawler_inv_cong) (auto simp: home_agent_discovered_def Let_def)
    with True assms show ?thesis by (auto simp: home_agent_discovered_def Let_def)
  next
    case False
    with create_poller_inv[OF assms(1), of h "insert h (found s)" late] assms(2)
    show ?thesis by (simp add: home_agent_discovered_def Let_def)
  qed
  then show "crawler_inv M I (home_agent_discovered env late h s)" "found (home_agent_discovered env late h s) = insert h (found s)"
    by auto
qed

lemma neighbours_inv:
  assumes "crawler_inv M I s" and "M = has_manager env"
  shows "crawler_inv M I (fold (neighbour env late) hs s) \<and> found (fold (neighbour env late) hs s) = found s \<union> ha_hostname ` set hs"
  using assms(1)
proof (induction hs arbitrary: s)
  case (Cons h hs)
  let ?u = "home_agent_discovered env late (ha_hostname h) s"
  note u = filter_inv[OF Cons.prems assms(2), of late "ha_hostname h"]
  have "crawler_inv M I (neighbour env late h s) = crawler_inv M I ?u"
    by (rule crawler_inv_cong) (simp_all add: neighbour_def Let_def)
  moreover have "found (neighbour env late h s) = found ?u" by (simp add: neighbour_def Let_def)
  ultimately have "crawler_inv M I (neighbour env late h s)" "found (neighbour env late h s) = insert (ha_hostname h) (found s)"
    using u by simp_all
  with Cons.IH[of "neighbour env late h s"] show ?case by simp
qed simp

lemma fetch_contents_inv:
  "\<exists>t. fetch_contents env host ha us s = Some t \<and> pollers t = pollers s \<and> num_pollers t = num_pollers s \<and>
    num_falling_behind t = num_falling_behind s \<and> found t = found s"
proof (induction us arbitrary: s)
  case (Cons u us)
  obtain r :: "content_cb requester" where "fetch (haconurlfmt env host u) (Content_cb (u @ str ''.'' @ ha)) [] requester_new = Some r"
    by (simp add: fetch_def requester_new_def)
  then have "fetch_contents env host ha (u # us) s =
      fetch_contents env host ha us (if u = [] then s else s\<lparr>contents := contents s @ [r]\<rparr>)" by simp
  with Cons.IH[of "if u = [] then s else s\<lparr>contents := contents s @ [r]\<rparr>"] show ?case by (cases "u = []") simp_all
qed simp

section \<open>Events\<close>

text \<open>
  What a reply of a home agent to a poll contained, if an event is such a reply.
\<close>

fun reply_of :: "poller_env \<Rightarrow> poller_event \<Rightarrow> crawler \<Rightarrow> getall list" where
  "reply_of env (Response i chunks code) s =
     (if i < length (pollers s) \<and> rq_added (p_requester (pollers s ! i))
      then case transfer chunks code (p_requester (pollers s ! i)) of
          (code, Some Poll_cb, content, _) \<Rightarrow>
            if code = CURLE_OK then case parse_getall env content of None \<Rightarrow> [] | Some gall \<Rightarrow> [gall] else []
        | _ \<Rightarrow> []
      else [])"
| "reply_of env _ s = []"

definition small_timestamps :: "getall \<Rightarrow> bool" where
  "small_timestamps gall \<longleftrightarrow> list_all (\<lambda>d. sint (dev_timestamp d) < 2 ^ 63 - 1) (devices gall)"

definition small_replies :: "poller_env \<Rightarrow> bool" where
  "small_replies env \<longleftrightarrow> (\<forall>content gall. parse_getall env content = Some gall \<longrightarrow> small_timestamps gall)"

lemma newest_small:
  assumes "list_all (\<lambda>d. sint (dev_timestamp d) < 2 ^ 63 - 1) ds"
  shows "sint (newest ds) < 2 ^ 63 - 1"
proof -
  have "sint (foldl (\<lambda>n i. if n <s dev_timestamp i then dev_timestamp i else n) n ds) < 2 ^ 63 - 1"
    if "sint n < 2 ^ 63 - 1" for n
    using assms that by (induction ds arbitrary: n) auto
  from this[of 0] show ?thesis by (simp add: newest_def)
qed

lemma handle_poll_inv:
  assumes "crawler_inv M {i} s" and "M = has_manager env"
    and "small_replies env"
  shows "\<exists>t. handle_poll env late i code content s = Some t \<and> crawler_inv M {} t \<and>
    found t = found s \<union> (if code = CURLE_OK then case parse_getall env content of None \<Rightarrow> {} | Some gall \<Rightarrow> ha_hostname ` set (homeagents gall)
      else {})"
proof -
  have r: "crawler_inv M {i} (report_result h res msg s)" "found (report_result h res msg s) = found s" for h res msg
  proof -
    have "crawler_inv M {i} (report_result h res msg s) = crawler_inv M {i} s"
      by (rule crawler_inv_cong) (simp_all add: report_result_def)
    with assms(1) show "crawler_inv M {i} (report_result h res msg s)" by simp
  qed (simp add: report_result_def)
  show ?thesis
  proof (cases "code = CURLE_OK \<and> parse_getall env content \<noteq> None")
    case False
    then show ?thesis using start_inv[OF r(1)] r(2) by (auto simp: handle_poll_def Let_def split: option.splits)
  next
    case True
    then obtain gall where g: "code = CURLE_OK" "parse_getall env content = Some gall" by blast
    let ?s = "fold (neighbour env late) (homeagents gall) (report_result (p_hostname (pollers s ! i)) QR_SUCCESS (haname gall) s)"
    have n: "crawler_inv M {i} ?s" "found ?s = found s \<union> ha_hostname ` set (homeagents gall)"
      using neighbours_inv[OF r(1) assms(2)] r(2) by simp_all
    have "\<exists>u. (if devices gall \<noteq> []
        then poller_fetch i (solr_deviceurl env @ str ''?commit=true'') (Post_cb (newest (devices gall))) (device_update gall) ?s
        else Some (start late i ?s)) = Some u \<and> crawler_inv M {} u \<and> found u = found ?s"
    proof (cases "devices gall = []")
      case True
      with start_inv[OF n(1)] show ?thesis by simp
    next
      case False
      have "sint (newest (devices gall)) < 2 ^ 63 - 1"
        using assms(3) g(2) newest_small by (simp add: small_replies_def small_timestamps_def)
      with poller_fetch_inv[OF n(1), of "Post_cb (newest (devices gall))"] False show ?thesis by fastforce
    qed
    then obtain u where u: "(if devices gall \<noteq> []
        then poller_fetch i (solr_deviceurl env @ str ''?commit=true'') (Post_cb (newest (devices gall))) (device_update gall) ?s
        else Some (start late i ?s)) = Some u" "crawler_inv M {} u" "found u = found ?s" by blast
    obtain t where t: "fetch_contents env (p_hostname (pollers s ! i)) (haname gall) (updates gall) u = Some t" "pollers t = pollers u"
      "num_pollers t = num_pollers u" "num_falling_behind t = num_falling_behind u" "found t = found u"
      using fetch_contents_inv by blast
    have "handle_poll env late i code content s = Some t"
      using g u(1) t(1) by (simp add: handle_poll_def Let_def)
    moreover have "crawler_inv M {} t" using crawler_inv_cong[OF t(2-5)] u(2) by simp
    ultimately show ?thesis using g n(2) u(3) t(5) by simp
  qed
qed

lemma busy_inv:
  assumes "crawler_inv M {} s" and "i < length (pollers s)" and "poller_busy p" and "p_hostname p = p_hostname (pollers s ! i)"
    and "p_falling_behind p = p_falling_behind (pollers s ! i)"
  shows "crawler_inv M {i} (s\<lparr>pollers := (pollers s)[i := p]\<rparr>)" and "hostnames (s\<lparr>pollers := (pollers s)[i := p]\<rparr>) = hostnames s"
proof -
  have "if i \<in> {i} then poller_busy p else poller_ok p" using assms(3) by simp
  from replace_inv[OF assms(1,2) _ assms(4) this, of "s\<lparr>pollers := (pollers s)[i := p]\<rparr>"] assms(5)
  show "crawler_inv M {i} (s\<lparr>pollers := (pollers s)[i := p]\<rparr>)" "hostnames (s\<lparr>pollers := (pollers s)[i := p]\<rparr>) = hostnames s"
    by (simp_all add: late_weight_def)
qed

lemma timer_inv:
  assumes "crawler_inv M {} s"
  shows "\<exists>t. crawler_handle env late (Timer i False) s = Some t \<and> crawler_inv M {} t \<and> found t = found s"
proof (cases "i < length (pollers s) \<and> p_waits (pollers s ! i) > 0")
  case False
  then show ?thesis using assms by auto
next
  case True
  then have i: "i < length (pollers s)" by simp
  have ok: "poller_ok (pollers s ! i)" using crawler_invD(3)[OF assms i] by simp
  let ?p = "(pollers s ! i)\<lparr>p_waits := 0\<rparr>"
  let ?u = "s\<lparr>pollers := (pollers s)[i := ?p]\<rparr>"
  have b: "poller_busy ?p" using ok True by (auto simp: poller_ok_def poller_busy_def split: if_splits)
  have w: "p_waits (pollers s ! i) = 1" "p_aborted (pollers s ! i) = 0" using ok True by (auto simp: poller_ok_def split: if_splits)
  have e: "(pollers s ! i)\<lparr>p_aborted := 0, p_waits := 0\<rparr> = ?p" using w(2) by (cases "pollers s ! i") simp
  have "crawler_handle env late (Timer i False) s =
      poller_fetch i (hadevurlfmt env (p_hostname (pollers s ! i)) (p_timestamp (pollers s ! i))) Poll_cb []
        (s\<lparr>pollers := (pollers s)[i := (pollers s ! i)\<lparr>p_aborted := 0, p_waits := 0\<rparr>]\<rparr>)"
    using True w i by (simp add: do_poll_def update_poller_def)
  note this[unfolded e]
  moreover have "crawler_inv M {i} ?u" by (rule busy_inv(1)[OF assms i b]) simp_all
  moreover have "\<exists>t. poller_fetch i url Poll_cb [] ?u = Some t \<and> crawler_inv M {} t \<and> found t = found s" if "crawler_inv M {i} ?u" for url
    using poller_fetch_inv[OF that, of Poll_cb url "[]"] by auto
  ultimately show ?thesis by simp
qed

lemma response_inv:
  assumes "crawler_inv M {} s" and "M = has_manager env"
    and "small_replies env"
  shows "\<exists>t. crawler_handle env late (Response i chunks code) s = Some t \<and> crawler_inv M {} t \<and>
    found t = found s \<union> (\<Union>g\<in>set (reply_of env (Response i chunks code) s). ha_hostname ` set (homeagents g))"
proof (cases "i < length (pollers s) \<and> rq_added (p_requester (pollers s ! i))")
  case False
  then have "crawler_handle env late (Response i chunks code) s = Some s" "reply_of env (Response i chunks code) s = []"
    by (simp_all only: crawler_handle.simps reply_of.simps if_False)
  then show ?thesis using assms(1) by simp
next
  case True
  then have i: "i < length (pollers s)" by simp
  have ok: "poller_ok (pollers s ! i)" using crawler_invD(3)[OF assms(1) i] by simp
  obtain code' content r where t: "transfer chunks code (p_requester (pollers s ! i)) =
      (code', rq_cb (p_requester (pollers s ! i)), content, r)" "\<not> rq_added r" by (rule transfer_callback)
  let ?p = "(pollers s ! i)\<lparr>p_requester := r\<rparr>"
  let ?u = "s\<lparr>pollers := (pollers s)[i := ?p]\<rparr>"
  have "poller_busy ?p" using ok True t(2) by (simp add: poller_ok_def poller_busy_def)
  then have u: "crawler_inv M {i} ?u" by (rule busy_inv(1)[OF assms(1) i]) simp_all
  show ?thesis
  proof (cases "rq_cb (p_requester (pollers s ! i))")
    case None
    with ok True have False unfolding poller_ok_def by simp
    then show ?thesis ..
  next
    case (Some cb)
    show ?thesis
    proof (cases cb)
      case Poll_cb
      have "crawler_handle env late (Response i chunks code) s = handle_poll env late i code' content ?u"
        using True t(1) Some Poll_cb by (simp add: update_poller_def)
      moreover have "reply_of env (Response i chunks code) s =
          (if code' = CURLE_OK then case parse_getall env content of None \<Rightarrow> [] | Some gall \<Rightarrow> [gall] else [])"
        using True t(1) Some Poll_cb by simp
      ultimately show ?thesis using handle_poll_inv[OF u assms(2,3), where code = code' and content = content and late = late]
        by (simp only:) (cases "code' = CURLE_OK"; cases "parse_getall env content"; simp)
    next
      case (Post_cb n)
      have n: "sint n < 2 ^ 63 - 1" using ok True Some Post_cb by (simp add: poller_ok_def)
      let ?q = "?p\<lparr>p_timestamp := n + 1\<rparr>"
      have q: "poller_busy ?q" using \<open>poller_busy ?p\<close> by (simp add: poller_busy_def)
      have v: "crawler_inv M {i} (s\<lparr>pollers := (pollers s)[i := ?q]\<rparr>)" by (rule busy_inv(1)[OF assms(1) i q]) simp_all
      have "crawler_handle env late (Response i chunks code) s =
          Some (start late i (if code' = CURLE_OK then s\<lparr>pollers := (pollers s)[i := ?q]\<rparr> else ?u))"
        using True t(1) Some Post_cb n i by (auto simp: update_poller_def handle_post_def)
      with start_inv[OF u] start_inv[OF v] True t(1) Some Post_cb show ?thesis by (cases "code' = CURLE_OK") simp_all
    qed
  qed
qed

lemma content_inv:
  "\<exists>t. crawler_handle env late (Content_response k chunks code) s = Some t \<and> crawler_inv M {} t = crawler_inv M {} s \<and> found t = found s"
proof (cases "k < length (contents s) \<and> rq_added (contents s ! k)")
  case True
  obtain code' content r where t: "transfer chunks code (contents s ! k) = (code', rq_cb (contents s ! k), content, r)" "\<not> rq_added r"
    by (rule transfer_callback)
  have c: "crawler_inv M {} (s\<lparr>contents := cs\<rparr>) = crawler_inv M {} s" for cs by (rule crawler_inv_cong) simp_all
  have h: "\<exists>cs. handle_getcontentlist env k dev code' content (s\<lparr>contents := (contents s)[k := r]\<rparr>) = Some (s\<lparr>contents := cs\<rparr>)" for dev
    using True t(2) by (auto simp: handle_getcontentlist_def fetch_def split: option.splits prod.splits)
  have "\<exists>cs. crawler_handle env late (Content_response k chunks code) s = Some (s\<lparr>contents := cs\<rparr>)"
  proof (cases "\<exists>dev. rq_cb (contents s ! k) = Some (Content_cb dev)")
    case c: True
    then obtain dev where "rq_cb (contents s ! k) = Some (Content_cb dev)" by blast
    with True t(1) h[of dev] show ?thesis by simp
  next
    case c: False
    have "(case rq_cb (contents s ! k) of Some (Content_cb dev) \<Rightarrow> f dev | _ \<Rightarrow> x) = x" for f and x :: "crawler option"
      using c by (auto split: option.splits content_cb.splits)
    with True t(1) show ?thesis by (simp, blast)
  qed
  with c show ?thesis by fastforce
next
  case False
  then have "crawler_handle env late (Content_response k chunks code) s = Some s"
    by (simp only: crawler_handle.simps if_False)
  then show ?thesis by simp
qed

section \<open>Runs\<close>

fun timer_failed :: "poller_event \<Rightarrow> bool" where
  "timer_failed (Timer i ec) = ec"
| "timer_failed _ = False"

lemma crawler_handle_inv:
  assumes "crawler_inv M {} s" and "M = has_manager env" and "\<not> timer_failed e"
    and "small_replies env"
  shows "\<exists>t. crawler_handle env late e s = Some t \<and> crawler_inv M {} t \<and>
    found t = found s \<union> (\<Union>g\<in>set (reply_of env e s). ha_hostname ` set (homeagents g))"
proof (cases e)
  case (Timer i ec)
  with timer_inv[OF assms(1)] assms(3) show ?thesis by (cases ec) auto
next
  case (Timer_aborted i)
  have "\<not> (i < length (pollers s) \<and> p_aborted (pollers s ! i) > 0)"
    using crawler_invD(3)[OF assms(1), of i] by (auto simp: poller_ok_def)
  then have "crawler_handle env late e s = Some s" unfolding Timer_aborted by (simp only: crawler_handle.simps if_False)
  then show ?thesis using assms(1) Timer_aborted by simp
next
  case (Response i chunks code)
  with response_inv[OF assms(1,2,4)] show ?thesis by blast
next
  case (Content_response k chunks code)
  with content_inv[of env late k chunks code s M] assms(1) show ?thesis by auto
next
  case (Assigned h)
  have "s\<lparr>found := found s\<rparr> = s" by simp
  with create_poller_inv[OF assms(1), of h "found s" late] assms Assigned show ?thesis by (cases "has_manager env") simp_all
qed

text \<open>The replies of home agents that a run handles.\<close>

fun poll_replies :: "poller_env \<Rightarrow> timed_event list \<Rightarrow> crawler \<Rightarrow> getall list" where
  "poll_replies env [] s = []"
| "poll_replies env ((now, late, e) # es) s =
     reply_of env e (s\<lparr>clock := now\<rparr>) @
     (case crawler_step env (now, late, e) s of None \<Rightarrow> [] | Some t \<Rightarrow> poll_replies env es t)"

lemma crawler_run_inv:
  assumes "crawler_inv M {} s" and "M = has_manager env" and "list_all (\<lambda>(now, late, e). \<not> timer_failed e) es"
    and "small_replies env"
  shows "\<exists>t. crawler_run env es s = Some t \<and> crawler_inv M {} t \<and>
    found t = found s \<union> (\<Union>g\<in>set (poll_replies env es s). ha_hostname ` set (homeagents g))"
  using assms(1,3)
proof (induction es arbitrary: s)
  case (Cons ev es)
  obtain now late e where ev: "ev = (now, late, e)" by (cases ev) auto
  have "crawler_inv M {} (s\<lparr>clock := now\<rparr>) = crawler_inv M {} s" by (rule crawler_inv_cong) simp_all
  with Cons.prems have i: "crawler_inv M {} (s\<lparr>clock := now\<rparr>)" by simp
  obtain t where t: "crawler_step env ev s = Some t" "crawler_inv M {} t"
    "found t = found s \<union> (\<Union>g\<in>set (reply_of env e (s\<lparr>clock := now\<rparr>)). ha_hostname ` set (homeagents g))"
    using crawler_handle_inv[OF i assms(2) _ assms(4), where e = e and late = late] Cons.prems ev by auto
  from Cons.IH[OF t(2)] Cons.prems obtain u where "crawler_run env es t = Some u" "crawler_inv M {} u"
    "found u = found t \<union> (\<Union>g\<in>set (poll_replies env es t). ha_hostname ` set (homeagents g))" by auto
  with t ev show ?case by (auto simp del: crawler_step.simps)
qed simp

lemma crawler_start_inv:
  assumes "M = has_manager env"
  shows "crawler_inv M {} (crawler_start env now late seeds) \<and> found (crawler_start env now late seeds) = set seeds"
proof -
  have "crawler_inv M {} (fold (home_agent_discovered env late) seeds s) \<and>
      found (fold (home_agent_discovered env late) seeds s) = found s \<union> set seeds" if "crawler_inv M {} s" for s
    using that
  proof (induction seeds arbitrary: s)
    case (Cons h hs)
    with Cons.IH[OF filter_inv(1)[OF Cons.prems assms]] filter_inv(2)[OF Cons.prems assms] show ?case by simp
  qed simp
  from this[of "crawler_new\<lparr>clock := now\<rparr>"] show ?thesis
    by (simp add: crawler_start_def crawler_inv_def crawler_new_def hostnames_def)
qed

text \<open>
  C16. Without a manager, whatever the home agents and Solr answer and in whatever order, the process goes on (no transfer is started
  on a handle that is in use), and there is exactly one poller for each of the given home agents and of those named in
  a reply so far. Each of them waits either for its timer or for one transfer, so that none ever stops being polled, and the number of
  pollers and of those that fall behind are counted correctly. This is so as long as no timer reports an error other than
  being cancelled and no device has the largest time stamp there is.
\<close>

theorem all_home_agents_polled:
  assumes "\<not> has_manager env" and "list_all (\<lambda>(now, late, e). \<not> timer_failed e) es"
    and "small_replies env"
  shows "let s0 = crawler_start env now late seeds in
    \<exists>s. crawler_run env es s0 = Some s \<and> distinct (map p_hostname (pollers s)) \<and>
      p_hostname ` set (pollers s) = set seeds \<union> (\<Union>g\<in>set (poll_replies env es s0). ha_hostname ` set (homeagents g)) \<and>
      list_all (\<lambda>p. p_waits p + (if rq_added (p_requester p) then 1 else 0) = 1) (pollers s) \<and>
      num_pollers s = of_nat (length (pollers s)) \<and> num_falling_behind s = of_nat (length (filter p_falling_behind (pollers s)))"
proof -
  let ?s0 = "crawler_start env now late seeds"
  obtain s where s: "crawler_run env es ?s0 = Some s" "crawler_inv False {} s"
    "found s = set seeds \<union> (\<Union>g\<in>set (poll_replies env es ?s0). ha_hostname ` set (homeagents g))"
    using crawler_run_inv[OF _ _ assms(2,3), of False ?s0] crawler_start_inv[of False env now late seeds] assms(1) by (auto simp del: crawler_run.simps poll_replies.simps)
  note d = crawler_invD[OF s(2)]
  have "list_all (\<lambda>p. p_waits p + (if rq_added (p_requester p) then 1 else 0) = 1) (pollers s)"
    unfolding list_all_length using d(3) by (simp add: poller_ok_def)
  moreover have "sum_list (map late_weight ps) = of_nat (length (filter p_falling_behind ps))" for ps
    by (induction ps) (simp_all add: late_weight_def)
  moreover have "distinct (map p_hostname (pollers s))" "p_hostname ` set (pollers s) = found s"
    using d(6,7) by (simp_all add: hostnames_def)
  ultimately show ?thesis unfolding Let_def using s(1,3) d(4,5) by fastforce
qed

definition example_reply :: getall where
  "example_reply = \<lparr>haname = [120], homeagents = [\<lparr>ha_hostname = [98], ha_description = [], ha_port = []\<rparr>],
     devices = [\<lparr>dev_owner = [111], dev_name = [100], dev_port = [], dev_type = [116], dev_timestamp = 5, dev_location = [],
       dev_description = []\<rparr>], updates = [[100]]\<rparr>"

definition example_poller_env :: poller_env where
  "example_poller_env = \<lparr>hadevurlfmt = (\<lambda>h t. h), haconurlfmt = (\<lambda>h d. h @ d), solr_deviceurl = [115], solr_contenturl = [116],
     parse_getall = (\<lambda>c. if c = [1, 2] then Some example_reply else None), parse_contmeta = (\<lambda>_. None),
     curl_easy_strerror = (\<lambda>_. []), has_manager = False\<rparr>"

lemma example_env_ok: "small_replies example_poller_env" "\<not> has_manager example_poller_env"
  by (auto simp: small_replies_def small_timestamps_def example_poller_env_def example_reply_def split: if_splits)

lemmas poller_defs = crawler_start_def crawler_new_def home_agent_discovered_def create_poller_def start_def update_poller_def
  poller_new_def requester_new_def do_poll_def poller_fetch_def fetch_def handle_poll_def handle_post_def report_result_def
  neighbour_def transfer_def transfer_done_def write_cb_def MAX_BUF_SIZE_HTTP_def Let_def

lemma all_home_agents_polled_witness:
  "\<exists>s. crawler_run example_poller_env [(1, \<lambda>_. False, Timer 0 False), (2, \<lambda>_. False, Response 0 [[1], [2]] CURLE_OK)]
      (crawler_start example_poller_env 0 (\<lambda>_. False) [[97]]) = Some s \<and> p_hostname ` set (pollers s) = {[97], [98]} \<and>
    distinct (map p_hostname (pollers s))"
proof -
  let ?es = "[(1, \<lambda>_. False, Timer 0 False), (2, \<lambda>_. False, Response 0 [[1], [2]] CURLE_OK)] :: timed_event list"
  have e: "list_all (\<lambda>(now, late, e). \<not> timer_failed e) ?es" by simp
  have r: "poll_replies example_poller_env ?es (crawler_start example_poller_env 0 (\<lambda>_. False) [[97]]) = [example_reply]"
    by (simp add: poller_defs example_poller_env_def split: option.split)
  obtain s where s: "crawler_run example_poller_env ?es (crawler_start example_poller_env 0 (\<lambda>_. False) [[97]]) = Some s"
    "distinct (map p_hostname (pollers s))" "p_hostname ` set (pollers s) = set [[97]] \<union> (\<Union>g\<in>set [example_reply]. ha_hostname ` set (homeagents g))"
    using all_home_agents_polled[OF example_env_ok(2) e example_env_ok(1), of 0 "\<lambda>_. False" "[[97]]"] unfolding r Let_def by blast
  have "p_hostname ` set (pollers s) = {[97], [98]}" unfolding s(3) by (simp add: example_reply_def insert_commute)
  with s(1,2) show ?thesis by blast
qed

end
