(* ===== verification/Poller_Link.thy ===== *)
theory Poller_Link
  imports Manager_Connection Poller_Behaviour Crawler_Link
begin

text \<open>
  What a poller process with a manager promises: it goes on, or stops in good order, and the manager receives each home agent that it
  hears of once, in order.
\<close>

section \<open>What the filter passes on\<close>

definition reports :: "crawler \<Rightarrow> crawler \<Rightarrow> bool" where
  "reports s t \<longleftrightarrow> (\<exists>hs. to_manager t = to_manager s @ hs \<and> found t = found s \<union> set hs \<and> distinct hs \<and> set hs \<inter> found s = {})"

lemma reports_same: "to_manager t = to_manager s \<Longrightarrow> found t = found s \<Longrightarrow> reports s t"
  by (simp add: reports_def)

lemma reports_trans:
  assumes "reports s t" and "reports t u"
  shows "reports s u"
proof -
  obtain hs where h: "to_manager t = to_manager s @ hs" "found t = found s \<union> set hs" "distinct hs" "set hs \<inter> found s = {}"
    using assms(1) by (auto simp: reports_def)
  obtain hs' where h': "to_manager u = to_manager t @ hs'" "found u = found t \<union> set hs'" "distinct hs'" "set hs' \<inter> found t = {}"
    using assms(2) by (auto simp: reports_def)
  from h h' show ?thesis unfolding reports_def by (intro exI[of _ "hs @ hs'"]) auto
qed

text \<open>What has been found is what has been passed on, each home agent once.\<close>

definition filtered :: "crawler \<Rightarrow> bool" where
  "filtered s \<longleftrightarrow> distinct (to_manager s) \<and> set (to_manager s) = found s"

lemma reports_filtered: "reports s t \<Longrightarrow> filtered s \<Longrightarrow> filtered t"
  by (auto simp: reports_def filtered_def)

lemma start_reports: "reports s (start late i u) = reports s u"
  by (auto simp: reports_def start_def update_poller_def Let_def)

lemma poller_fetch_reports: "poller_fetch i url cb d s = Some t \<Longrightarrow> reports s t"
  by (auto simp: poller_fetch_def update_poller_def intro: reports_same)

lemma fetch_contents_reports: "fetch_contents env host ha us s = Some t \<Longrightarrow> reports s t"
proof (induction us arbitrary: s)
  case (Cons u us)
  then show ?case by (fastforce simp: reports_def split: if_splits bind_splits)
qed (simp add: reports_same)

lemma filter_reports: "has_manager env \<Longrightarrow> reports s (home_agent_discovered env late h s)"
  by (simp add: home_agent_discovered_def Let_def reports_same) (simp add: reports_def)

lemma neighbours_reports:
  assumes "has_manager env"
  shows "reports s (fold (neighbour env late) hs s)"
proof (induction hs arbitrary: s)
  case (Cons h hs)
  have "reports s (neighbour env late h s)"
    using filter_reports[OF assms, of s late "ha_hostname h"] by (simp add: neighbour_def reports_def Let_def)
  with Cons.IH reports_trans show ?case by fastforce
qed (simp add: reports_same)

lemma handle_poll_reports:
  assumes "has_manager env" and "handle_poll env late i code content s = Some t"
  shows "reports s t"
proof -
  have r: "reports s (report_result h r msg s)" for h r msg by (simp add: reports_same report_result_def)
  show ?thesis
  proof (cases "code = CURLE_OK \<and> parse_getall env content \<noteq> None")
    case False
    with assms(2) r show ?thesis by (auto simp: handle_poll_def Let_def start_reports split: option.splits if_splits)
  next
    case True
    then obtain gall where g: "code = CURLE_OK" "parse_getall env content = Some gall" by blast
    let ?s = "fold (neighbour env late) (homeagents gall) (report_result (p_hostname (pollers s ! i)) QR_SUCCESS (haname gall) s)"
    obtain u where u: "(if devices gall \<noteq> []
        then poller_fetch i (solr_deviceurl env @ str ''?commit=true'') (Post_cb (newest (devices gall))) (device_update gall) ?s
        else Some (start late i ?s)) = Some u"
      "fetch_contents env (p_hostname (pollers s ! i)) (haname gall) (updates gall) u = Some t"
      using assms(2) g by (auto simp: handle_poll_def Let_def split: bind_splits)
    have s: "reports s ?s" using reports_trans[OF r neighbours_reports[OF assms(1)]] .
    have "reports ?s u"
    proof (cases "devices gall = []")
      case True
      then have "u = start late i ?s" using u(1) by simp
      then show ?thesis using start_reports[of ?s late i ?s] by (simp add: reports_same)
    next
      case False
      then show ?thesis using u(1) poller_fetch_reports by simp
    qed
    from reports_trans[OF reports_trans[OF s this] fetch_contents_reports[OF u(2)]] show ?thesis .
  qed
qed

lemma crawler_handle_reports:
  assumes "has_manager env" and "crawler_handle env late e s = Some t"
  shows "reports s t"
proof (cases e)
  case (Timer i ec)
  with assms(2) show ?thesis
    by (auto simp: do_poll_def poller_fetch_def update_poller_def Let_def split: if_splits intro: reports_same)
next
  case (Timer_aborted i)
  with assms(2) show ?thesis by (auto simp: do_poll_def update_poller_def Let_def split: if_splits intro: reports_same)
next
  case (Response i chunks code)
  show ?thesis
  proof (cases "i < length (pollers s) \<and> rq_added (p_requester (pollers s ! i))")
    case True
    obtain code' content r where t: "transfer chunks code (p_requester (pollers s ! i)) =
        (code', rq_cb (p_requester (pollers s ! i)), content, r)" by (rule transfer_callback)
    let ?u = "update_poller i (\<lambda>p. p\<lparr>p_requester := r\<rparr>) s"
    have u: "reports s ?u" by (simp add: reports_same update_poller_def)
    have post: "reports s v" if "handle_post late i code' n ?u = Some v" for n v
      using that u start_reports by (auto simp: handle_post_def update_poller_def reports_def split: if_splits)
    have poll: "reports s v" if "handle_poll env late i code' content ?u = Some v" for v
      using reports_trans[OF u handle_poll_reports[OF assms(1) that]] .
    from assms(2) Response True t show ?thesis
      by (auto simp: Let_def u split: option.splits poll_cb.splits dest: post poll)
  qed (use assms(2) Response in \<open>auto simp: reports_same\<close>)
next
  case (Content_response k chunks code)
  show ?thesis
  proof (cases "k < length (contents s) \<and> rq_added (contents s ! k)")
    case True
    obtain code' content r where t: "transfer chunks code (contents s ! k) = (code', rq_cb (contents s ! k), content, r)"
      by (rule transfer_callback)
    have h: "reports s v" if "handle_getcontentlist env k dev code' content (s\<lparr>contents := cs\<rparr>) = Some v" for dev cs v
      using that by (auto simp: handle_getcontentlist_def reports_same split: option.splits prod.splits if_splits)
    from assms(2) Content_response True t show ?thesis
      by (auto simp: Let_def reports_same split: option.splits content_cb.splits dest: h)
  qed (use assms(2) Content_response in \<open>auto simp: reports_same\<close>)
next
  case (Assigned h)
  with assms show ?thesis by (auto simp: create_poller_def start_reports reports_same)
qed

section \<open>The process\<close>

definition send_all :: "bytes \<Rightarrow> cstring list \<Rightarrow> bufwrite \<Rightarrow> bufwrite" where
  "send_all raw hs w = fold (sendmsg raw HOME_AGENT_DISCOVERED) hs w"

lemma pass_on_eq:
  "pass_on raw c s = \<lparr>pp_crawler = c, pp_conn = (pp_conn s)\<lparr>mc_writer :=
     send_all raw (drop (length (to_manager (pp_crawler s))) (to_manager c)) (mc_writer (pp_conn s))\<rparr>\<rparr>"
proof -
  have "fold (mc_home_agent_discovered raw) hs x = x\<lparr>mc_writer := send_all raw hs (mc_writer x)\<rparr>" for hs x
    by (induction hs arbitrary: x) (simp_all add: mc_home_agent_discovered_def send_all_def)
  then show ?thesis by (simp add: pass_on_def)
qed

lemma send_all_sends:
  assumes "sends HOME_AGENT_DISCOVERED ms w" and "length raw = 3" and "\<forall>h\<in>set hs. host_ok h"
  shows "sends HOME_AGENT_DISCOVERED (ms @ hs) (send_all raw hs w) \<and> bw_connected (send_all raw hs w) = bw_connected w"
  using assms(1,3)
proof (induction hs arbitrary: ms w)
  case (Cons h hs)
  have "sends HOME_AGENT_DISCOVERED (ms @ [h]) (sendmsg raw HOME_AGENT_DISCOVERED h w)"
    using Cons.prems by (intro sends_sendmsg assms(2)) simp_all
  moreover have "bw_connected (sendmsg raw HOME_AGENT_DISCOVERED h w) = bw_connected w"
    by (simp add: sendmsg_def send_bufitem_def)
  ultimately show ?case using Cons.IH[of "ms @ [h]"] Cons.prems(2) by (simp add: send_all_def)
qed (simp add: send_all_def)

text \<open>The names that home agents send fit a message.\<close>

definition names_ok :: "poller_env \<Rightarrow> bool" where
  "names_ok env \<longleftrightarrow> (\<forall>content gall. parse_getall env content = Some gall \<longrightarrow> (\<forall>i\<in>set (homeagents gall). host_ok (ha_hostname i)))"

definition conn_inv :: "cstring list \<Rightarrow> manconnection \<Rightarrow> bool" where
  "conn_inv ms c \<longleftrightarrow> sends HOME_AGENT_DISCOVERED ms (mc_writer c) \<and> mc_open c \<and> mc_log c = [] \<and>
     mc_connected c = bw_connected (mc_writer c) \<and> mc_reading c = bw_connected (mc_writer c) \<and>
     (mc_waiting c = Nothing \<longleftrightarrow> bw_connected (mc_writer c))"

definition link_inv :: "poller_process \<Rightarrow> bool" where
  "link_inv s \<longleftrightarrow> crawler_inv True {} (pp_crawler s) \<and> filtered (pp_crawler s) \<and> (\<forall>h\<in>found (pp_crawler s). host_ok h) \<and>
     (mc_stopped (pp_conn s) \<or> conn_inv (to_manager (pp_crawler s)) (pp_conn s))"

lemma disconnect_stops: "mc_stopped (mc_disconnect errs c)"
  by (simp add: mc_disconnect_def Let_def)

lemma pass_on_inv:
  assumes "link_inv s" and "crawler_inv True {} c" and "reports (pp_crawler s) c" and "length raw = 3" and "\<forall>h\<in>found c. host_ok h"
  shows "link_inv (pass_on raw c s)" and "mc_stopped (pp_conn (pass_on raw c s)) = mc_stopped (pp_conn s)"
proof -
  obtain hs where h: "to_manager c = to_manager (pp_crawler s) @ hs" "set hs \<subseteq> found c"
    using assms(3) by (auto simp: reports_def)
  let ?w = "mc_writer (pp_conn s)"
  have "conn_inv (to_manager c) ((pp_conn s)\<lparr>mc_writer := send_all raw hs ?w\<rparr>)" if "conn_inv (to_manager (pp_crawler s)) (pp_conn s)"
    using that send_all_sends[of _ ?w raw hs] assms(4,5) h by (auto simp: conn_inv_def)
  then show "link_inv (pass_on raw c s)"
    using assms reports_filtered h(1) by (auto simp: pass_on_eq link_inv_def)
  show "mc_stopped (pp_conn (pass_on raw c s)) = mc_stopped (pp_conn s)" by (simp add: pass_on_eq)
qed

text \<open>An event of the connection leaves the pollers alone.\<close>

lemma conn_event_inv:
  assumes "link_inv s" and "mc_stopped c \<or> conn_inv (to_manager (pp_crawler s)) c"
  shows "link_inv (s\<lparr>pp_conn := c\<rparr>)"
  using assms by (simp add: link_inv_def)

fun link_calm :: "link_event \<Rightarrow> bool" where
  "link_calm (Crawls e) = True"
| "link_calm Reader_failed = False"
| "link_calm (Resolved ec) = (\<not> ec)"
| "link_calm (Connection_made ec) = (\<not> ec)"
| "link_calm (Write_done ec) = (\<not> ec)"

lemma write_done_inv:
  assumes "conn_inv ms c"
  shows "let w = mc_writer c; w' = writer_step (Written ec) w;
      d = fold (mc_report errs) (drop (length (bw_outcomes w)) (bw_outcomes w')) (c\<lparr>mc_writer := w'\<rparr>) in
    (mc_stopped d \<or> conn_inv ms d) \<and> (\<not> ec \<longrightarrow> mc_stopped d = mc_stopped c)"
proof -
  let ?w = "mc_writer c"
  have s: "sends HOME_AGENT_DISCOVERED ms ?w" using assms by (simp add: conn_inv_def)
  show ?thesis
  proof (cases "bw_writing ?w")
    case Nil
    then have "c\<lparr>mc_writer := writer_step (Written ec) ?w\<rparr> = c" by simp
    then show ?thesis using assms Nil by (simp add: Let_def)
  next
    case (Cons item rest)
    show ?thesis
    proof (cases ec)
      case True
      have "drop (length (bw_outcomes ?w)) (bw_outcomes (writer_step (Written True) ?w)) = map (report False) (item # bw_queue ?w)"
        using s Cons by (simp add: sends_def accounts_def handle_bufitem_sent_def Let_def)
      moreover have "mc_stopped (fold (mc_report errs) rs x)" if "mc_stopped x" for rs x
        using that by (induction rs arbitrary: x) (auto simp: mc_report_def mc_send_failure_def disconnect_stops split: prod.split)
      ultimately show ?thesis using True by (simp add: Let_def mc_report_def report_def mc_send_failure_def disconnect_stops del: writer_step.simps)
    next
      case False
      have "bw_connected (writer_step (Written False) ?w) = bw_connected ?w" using step_connected by (simp del: writer_step.simps)
      then have "conn_inv ms (c\<lparr>mc_writer := writer_step (Written False) ?w\<rparr>)"
        using assms sends_written[OF s] by (simp add: conn_inv_def del: writer_step.simps)
      then show ?thesis using False sends_outcomes[OF s Cons] by (simp add: Let_def mc_report_def report_def del: writer_step.simps)
    qed
  qed
qed

text \<open>The replies of home agents that an event hands to the pollers.\<close>

fun event_replies :: "poller_env \<Rightarrow> link_event \<Rightarrow> crawler \<Rightarrow> getall list" where
  "event_replies env (Crawls (now, late, e)) s = reply_of env e (s\<lparr>clock := now\<rparr>)"
| "event_replies env _ s = []"

lemma reply_parsed:
  assumes "g \<in> set (reply_of env e s)"
  shows "\<exists>content. parse_getall env content = Some g"
proof (cases e)
  case (Response i chunks code)
  obtain code' content r where t: "transfer chunks code (p_requester (pollers s ! i)) =
      (code', rq_cb (p_requester (pollers s ! i)), content, r)" by (rule transfer_callback)
  show ?thesis
  proof (cases "i < length (pollers s) \<and> rq_added (p_requester (pollers s ! i)) \<and> rq_cb (p_requester (pollers s ! i)) = Some Poll_cb")
    case True
    then have "reply_of env (Response i chunks code) s =
        (if code' = CURLE_OK then case parse_getall env content of None \<Rightarrow> [] | Some gall \<Rightarrow> [gall] else [])"
      using t by simp
    with assms Response show ?thesis
      by (cases "parse_getall env content"; cases "code' = CURLE_OK") (auto simp del: reply_of.simps)
  next
    case False
    then have "reply_of env (Response i chunks code) s = []"
      using t by (simp split: option.split poll_cb.split) blast
    with assms Response show ?thesis by (simp del: reply_of.simps)
  qed
qed (use assms in simp_all)

fun timer_ok :: "link_event \<Rightarrow> bool" where
  "timer_ok (Crawls (now, late, e)) = (\<not> timer_failed e)"
| "timer_ok _ = True"

lemma crawls_inv:
  assumes "link_inv s" and "has_manager env" and "small_replies env" and "names_ok env" and "length raw = 3" and "\<not> timer_failed e"
  shows "\<exists>t. link_handle raw env errs (Crawls (now, late, e)) s = Some t \<and> link_inv t \<and>
    found (pp_crawler t) = found (pp_crawler s) \<union>
      (\<Union>g\<in>set (reply_of env e ((pp_crawler s)\<lparr>clock := now\<rparr>)). ha_hostname ` set (homeagents g)) \<and>
    mc_stopped (pp_conn t) = mc_stopped (pp_conn s)"
proof (cases "assigns_agent (now, late, e) \<and> \<not> mc_reading (pp_conn s)")
  case True
  then obtain h where "e = Assigned h" by (cases e) auto
  with True assms(1) show ?thesis by simp
next
  case False
  let ?c = "(pp_crawler s)\<lparr>clock := now\<rparr>"
  have "crawler_inv True {} ?c = crawler_inv True {} (pp_crawler s)" by (rule crawler_inv_cong) simp_all
  then have i: "crawler_inv True {} ?c" using assms(1) by (simp add: link_inv_def)
  obtain t where t: "crawler_handle env late e ?c = Some t" "crawler_inv True {} t"
    "found t = found ?c \<union> (\<Union>g\<in>set (reply_of env e ?c). ha_hostname ` set (homeagents g))"
    using crawler_handle_inv[OF i _ assms(6,3)] assms(2) by blast
  have r: "reports (pp_crawler s) t"
    using crawler_handle_reports[OF assms(2) t(1)] by (simp add: reports_def)
  have "host_ok h" if hf: "h \<in> found t" for h
  proof (cases "h \<in> found (pp_crawler s)")
    case False
    have f: "found ?c = found (pp_crawler s)" by simp
    obtain g where g: "g \<in> set (reply_of env e ?c)" "h \<in> ha_hostname ` set (homeagents g)"
      using hf False unfolding t(3) f by blast
    from reply_parsed[OF g(1)] g(2) assms(4) show ?thesis by (auto simp: names_ok_def)
  qed (use assms(1) in \<open>simp add: link_inv_def\<close>)
  then have "\<forall>h\<in>found t. host_ok h" by blast
  note pass_on_inv[OF assms(1) t(2) r assms(5) this]
  moreover have "link_handle raw env errs (Crawls (now, late, e)) s = Some (pass_on raw t s)"
    using False t(1) by (simp only: link_handle.simps if_False crawler_step.simps option.map)
  ultimately show ?thesis using t(3) by (simp add: pass_on_eq)
qed

lemma link_handle_inv:
  assumes "link_inv s" and "has_manager env" and "small_replies env" and "names_ok env" and "length raw = 3" and "timer_ok e"
    and "\<not> mc_stopped (pp_conn s)"
  shows "\<exists>t. link_handle raw env errs e s = Some t \<and> link_inv t \<and>
    found (pp_crawler t) = found (pp_crawler s) \<union> (\<Union>g\<in>set (event_replies env e (pp_crawler s)). ha_hostname ` set (homeagents g)) \<and>
    (link_calm e \<longrightarrow> \<not> mc_stopped (pp_conn t))"
proof -
  let ?c = "pp_conn s"
  have c: "conn_inv (to_manager (pp_crawler s)) ?c" using assms(1,7) by (simp add: link_inv_def)
  show ?thesis
  proof (cases e)
    case (Crawls te)
    obtain now late ev where "te = (now, late, ev)" by (cases te)
    with crawls_inv[OF assms(1-5), of ev errs now late] Crawls assms(6,7) show ?thesis by (simp del: link_handle.simps reply_of.simps)
  next
    case (Resolved ec)
    then show ?thesis using assms(1,7) c
      by (auto intro!: conn_event_inv simp: mc_handle_resolve_def disconnect_stops conn_inv_def)
  next
    case (Connection_made ec)
    show ?thesis
    proof (cases "mc_waiting ?c = Connecting \<and> \<not> ec")
      case True
      then have n: "\<not> bw_connected (mc_writer ?c)" using c by (simp add: conn_inv_def)
      have "bw_connected (bw_set_connected (mc_writer ?c))" using step_connected[of Connect "mc_writer ?c"] by simp
      then have "conn_inv (to_manager (pp_crawler s)) (mc_handle_connect errs ec (?c\<lparr>mc_waiting := Nothing\<rparr>))"
        using c True sends_connect[OF _ n] by (simp add: conn_inv_def mc_handle_connect_def)
      with True Connection_made assms(1,7) show ?thesis by (simp add: conn_event_inv) (simp add: mc_handle_connect_def)
    next
      case False
      then show ?thesis using assms(1,7) c Connection_made by (auto intro!: conn_event_inv simp: mc_handle_connect_def disconnect_stops)
    qed
  next
    case Reader_failed
    then show ?thesis using assms(1) by (auto intro!: conn_event_inv simp: disconnect_stops)
  next
    case (Write_done ec)
    then show ?thesis using write_done_inv[OF c, of ec errs] assms(1,7)
      by (auto intro!: conn_event_inv simp: Let_def simp del: writer_step.simps)
  qed
qed

section \<open>Runs\<close>

fun link_replies :: "bytes \<Rightarrow> poller_env \<Rightarrow> ((bool \<times> bool) \<times> link_event) list \<Rightarrow> poller_process \<Rightarrow> getall list" where
  "link_replies raw env [] s = []"
| "link_replies raw env ((errs, e) # es) s =
     (if mc_stopped (pp_conn s) then []
      else event_replies env e (pp_crawler s) @
        (case link_handle raw env errs e s of None \<Rightarrow> [] | Some t \<Rightarrow> link_replies raw env es t))"

lemma link_run_inv:
  assumes "link_inv s" and "has_manager env" and "small_replies env" and "names_ok env" and "length raw = 3"
    and "list_all (\<lambda>(_, e). timer_ok e) es"
  shows "\<exists>t. link_run raw env es s = Some t \<and> link_inv t \<and>
    found (pp_crawler t) = found (pp_crawler s) \<union> (\<Union>g\<in>set (link_replies raw env es s). ha_hostname ` set (homeagents g)) \<and>
    (list_all (\<lambda>(_, e). link_calm e) es \<longrightarrow> mc_stopped (pp_conn t) = mc_stopped (pp_conn s))"
  using assms(1,6)
proof (induction es arbitrary: s)
  case (Cons ev es)
  obtain errs e where ev: "ev = (errs, e)" by (cases ev)
  show ?case
  proof (cases "mc_stopped (pp_conn s)")
    case True
    with Cons.prems ev show ?thesis by simp
  next
    case False
    have "timer_ok e" using Cons.prems(2) ev by simp
    from link_handle_inv[OF Cons.prems(1) assms(2-5) this False] obtain t where
      t: "link_handle raw env errs e s = Some t" "link_inv t"
        "found (pp_crawler t) = found (pp_crawler s) \<union> (\<Union>g\<in>set (event_replies env e (pp_crawler s)). ha_hostname ` set (homeagents g))"
        "link_calm e \<longrightarrow> \<not> mc_stopped (pp_conn t)" by blast
    from Cons.IH[OF t(2)] Cons.prems(2) obtain u where
      u: "link_run raw env es t = Some u" "link_inv u"
        "found (pp_crawler u) = found (pp_crawler t) \<union> (\<Union>g\<in>set (link_replies raw env es t). ha_hostname ` set (homeagents g))"
        "list_all (\<lambda>(_, e). link_calm e) es \<longrightarrow> mc_stopped (pp_conn u) = mc_stopped (pp_conn t)" by auto
    have "link_run raw env (ev # es) s = Some u" using False t(1) u(1) ev by (simp del: link_handle.simps)
    moreover have "link_replies raw env (ev # es) s = event_replies env e (pp_crawler s) @ link_replies raw env es t"
      using False t(1) ev by (simp del: link_handle.simps event_replies.simps)
    ultimately show ?thesis using u t(3,4) ev False by (auto simp del: link_run.simps link_replies.simps event_replies.simps)
  qed
qed simp

lemma link_start_inv:
  assumes "has_manager env" and "length raw = 3" and "\<forall>h\<in>set seeds. host_ok h"
  shows "link_inv (link_start raw env now late seeds)" and "found (pp_crawler (link_start raw env now late seeds)) = set seeds"
    and "\<not> mc_stopped (pp_conn (link_start raw env now late seeds))"
proof -
  let ?s = "\<lparr>pp_crawler = crawler_new, pp_conn = manconnection_new\<rparr>"
  let ?c = "crawler_start env now late seeds"
  have c: "crawler_inv True {} ?c" "found ?c = set seeds" using crawler_start_inv[of True env now late seeds] assms(1) by simp_all
  have "reports s (fold (home_agent_discovered env late) seeds s)" for s
  proof (induction seeds arbitrary: s)
    case (Cons h hs)
    with filter_reports[OF assms(1)] reports_trans show ?case by fastforce
  qed (simp add: reports_same)
  from this[of "crawler_new\<lparr>clock := now\<rparr>"] have r: "reports (pp_crawler ?s) ?c"
    by (simp add: crawler_start_def reports_def crawler_new_def)
  have "link_inv ?s"
    using bufwrite_new_sends
    by (simp add: link_inv_def filtered_def crawler_new_def crawler_inv_def manconnection_new_def mc_connect_def conn_inv_def)
      (simp add: bufwrite_new_def)
  note p = pass_on_inv[OF this c(1) r assms(2)]
  show "link_inv (link_start raw env now late seeds)" using p(1) c(2) assms(3) by (simp add: link_start_def)
  show "found (pp_crawler (link_start raw env now late seeds)) = set seeds" using c(2) by (simp add: link_start_def pass_on_def)
  show "\<not> mc_stopped (pp_conn (link_start raw env now late seeds))"
    using p(2) c(2) assms(3) by (simp add: link_start_def manconnection_new_def mc_connect_def)
qed

text \<open>
  C21. Whatever the home agents answer and whatever fails, a poller process with a manager goes on or stops in good order, and only a failure of the
  connection stops it. Until it stops, what it writes makes the manager's reader report home agents it has heard of, in the order in which
  it heard of them, and none twice; and when nothing waits to be written these are all the home agents that it was given and that were named in
  a reply. Names must fit a message, and no device may have the largest time stamp there is.
\<close>

theorem discoveries_reach_manager:
  assumes "has_manager env" and "small_replies env" and "names_ok env" and "length raw = 3" and "\<forall>h\<in>set seeds. host_ok h"
    and "list_all (\<lambda>(_, e). timer_ok e) es"
  shows "let s0 = link_start raw env now late seeds in
    \<exists>s. link_run raw env es s0 = Some s \<and> distinct (to_manager (pp_crawler s)) \<and>
      set (to_manager (pp_crawler s)) = set seeds \<union> (\<Union>g\<in>set (link_replies raw env es s0). ha_hostname ` set (homeagents g)) \<and>
      (list_all (\<lambda>(_, e). link_calm e) es \<longrightarrow> \<not> mc_stopped (pp_conn s)) \<and>
      (let w = mc_writer (pp_conn s); told = map (Pair HOME_AGENT_DISCOVERED) (to_manager (pp_crawler s));
           received = bufread_run [HOME_AGENT_DISCOVERED] buf (concat (map item_bytes (bw_wire w))) in
        \<not> mc_stopped (pp_conn s) \<longrightarrow> received = take (length (bw_wire w)) told \<and> (bw_queue w = [] \<longrightarrow> received = told))"
proof -
  let ?s0 = "link_start raw env now late seeds"
  note s0 = link_start_inv[OF assms(1,4,5), of now late]
  obtain s where s: "link_run raw env es ?s0 = Some s" "link_inv s"
    "found (pp_crawler s) = found (pp_crawler ?s0) \<union> (\<Union>g\<in>set (link_replies raw env es ?s0). ha_hostname ` set (homeagents g))"
    "list_all (\<lambda>(_, e). link_calm e) es \<longrightarrow> mc_stopped (pp_conn s) = mc_stopped (pp_conn ?s0)"
    using link_run_inv[OF s0(1) assms(1-4,6)] by blast
  have f: "distinct (to_manager (pp_crawler s))" "set (to_manager (pp_crawler s)) = found (pp_crawler s)"
    using s(2) by (simp_all add: link_inv_def filtered_def)
  have "sends HOME_AGENT_DISCOVERED (to_manager (pp_crawler s)) (mc_writer (pp_conn s))" if "\<not> mc_stopped (pp_conn s)"
    using s(2) that by (simp add: link_inv_def conn_inv_def)
  then have "let w = mc_writer (pp_conn s); told = map (Pair HOME_AGENT_DISCOVERED) (to_manager (pp_crawler s));
        received = bufread_run [HOME_AGENT_DISCOVERED] buf (concat (map item_bytes (bw_wire w))) in
      \<not> mc_stopped (pp_conn s) \<longrightarrow> received = take (length (bw_wire w)) told \<and> (bw_queue w = [] \<longrightarrow> received = told)"
    unfolding Let_def using sends_received by blast
  then show ?thesis unfolding Let_def using s(1,3,4) f s0(2,3) by (intro exI[of _ s] conjI) (simp_all only: simp_thms)
qed

definition managed_env :: poller_env where
  "managed_env = example_poller_env\<lparr>has_manager := True\<rparr>"

lemma managed_env_ok: "has_manager managed_env" "small_replies managed_env" "names_ok managed_env"
  by (auto simp: managed_env_def small_replies_def names_ok_def example_poller_env_def example_reply_def small_timestamps_def host_ok_def
      split: if_splits)

lemma discoveries_reach_manager_witness:
  "\<exists>s. link_run [0, 0, 0] managed_env [((False, False), Resolved False), ((False, False), Connection_made False),
        ((False, False), Crawls (1, \<lambda>_. False, Assigned [97])), ((False, False), Crawls (2, \<lambda>_. False, Timer 0 False)),
        ((False, False), Crawls (3, \<lambda>_. False, Response 0 [[1], [2]] CURLE_OK))]
      (link_start [0, 0, 0] managed_env 0 (\<lambda>_. False) [[97]]) = Some s \<and>
    distinct (to_manager (pp_crawler s)) \<and> set (to_manager (pp_crawler s)) = {[97], [98]} \<and> \<not> mc_stopped (pp_conn s)"
proof -
  let ?es = "[((False, False), Resolved False), ((False, False), Connection_made False),
        ((False, False), Crawls (1, \<lambda>_. False, Assigned [97])), ((False, False), Crawls (2, \<lambda>_. False, Timer 0 False)),
        ((False, False), Crawls (3, \<lambda>_. False, Response 0 [[1], [2]] CURLE_OK))]"
  let ?s0 = "link_start [0, 0, 0] managed_env 0 (\<lambda>_. False) [[97]]"
  have a: "length [0 :: byte, 0, 0] = 3" "\<forall>h\<in>set [[97]]. host_ok h" "list_all (\<lambda>(_, e). timer_ok e) ?es" "list_all (\<lambda>(_, e). link_calm e) ?es"
    by (simp_all add: host_ok_def)
  have r: "link_replies [0, 0, 0] managed_env ?es ?s0 = [example_reply]"
    by (simp add: poller_defs example_poller_env_def managed_env_def link_start_def pass_on_eq manconnection_new_def mc_connect_def
        mc_handle_resolve_def mc_handle_connect_def split: option.split)
  obtain s where s: "link_run [0, 0, 0] managed_env ?es ?s0 = Some s" "distinct (to_manager (pp_crawler s))"
    "set (to_manager (pp_crawler s)) = set [[97]] \<union> (\<Union>g\<in>set [example_reply]. ha_hostname ` set (homeagents g))"
    "list_all (\<lambda>(_, e). link_calm e) ?es \<longrightarrow> \<not> mc_stopped (pp_conn s)"
    using discoveries_reach_manager[OF managed_env_ok a(1-3), of 0 "\<lambda>_. False" "[]"] unfolding r Let_def by blast
  have "set (to_manager (pp_crawler s)) = {[97], [98]}" unfolding s(3) by (simp add: example_reply_def insert_commute)
  with s(1,2) s(4)[rule_format, OF a(4)] show ?thesis by blast
qed

end
