(* ===== verification/Configuration.thy ===== *)
theory Configuration
  imports Peer
begin

text \<open>
  The configuration of a home agent, \<^verbatim>\<open>plnode/ds/configuration.h\<close>: the file of \<^verbatim>\<open>key=value\<close> lines and what a peer takes from it.
  A \<^verbatim>\<open>double\<close> is its 64 bits, and \<open>atof\<close> the conversion of the C library. An \<^verbatim>\<open>int\<close> or \<^verbatim>\<open>double\<close> that has not been set is
  None; reading it is undefined.
\<close>

section \<open>State\<close>

record configuration =
  nodes_file_path :: cstring
  monitors_file_path :: cstring
  log_server_host_name :: cstring
  log_server_user_name :: cstring
  seq_file_path :: cstring
  input_file_path :: cstring
  client_listen_port :: "cint option"
  conf_K :: "cint option"
  conf_alpha :: "clong option"
  name_count :: "cint option"
  check_point_row :: "cint option"
  conf_timeout :: "clong option"
  conf_n_retry :: "cint option"
  conf_cache_storage :: cstring
  conf_cache_type :: cstring
  config_map :: "cstring \<rightharpoonup> cstring"

definition configuration_new :: configuration where
  "configuration_new = \<lparr>nodes_file_path = [], monitors_file_path = [], log_server_host_name = [], log_server_user_name = [],
     seq_file_path = [], input_file_path = [], client_listen_port = None, conf_K = None, conf_alpha = None, name_count = None,
     check_point_row = None, conf_timeout = None, conf_n_retry = None, conf_cache_storage = [], conf_cache_type = [],
     config_map = Map.empty\<rparr>"

section \<open>Reading the file\<close>

text \<open>\<^verbatim>\<open>fgets\<close>: the characters to the end of the line, and how many at most.\<close>

fun fgets :: "nat \<Rightarrow> cstring \<Rightarrow> cstring \<times> cstring" where
  "fgets 0 s = ([], s)"
| "fgets (Suc n) [] = ([], [])"
| "fgets (Suc n) (c # cs) = (if c = 10 then ([c], cs) else (c # fst (fgets n cs), snd (fgets n cs)))"

lemma fgets_shorter: "length (snd (fgets n s)) \<le> length s"
  by (induction n s rule: fgets.induct) (auto intro: le_SucI)

lemma fgets_progress: "s \<noteq> [] \<Longrightarrow> length (snd (fgets (Suc n) s)) < length s"
  using fgets_shorter by (cases s) (auto simp: less_Suc_eq_le)

text \<open>The lines, as C strings.\<close>

function config_lines :: "cstring \<Rightarrow> cstring list" where
  "config_lines s =
     (if s = [] then [] else takeWhile (\<lambda>c. c \<noteq> 0) (fst (fgets 199 s)) # config_lines (snd (fgets 199 s)))"
  by pat_completeness auto

termination config_lines
proof (relation "measure length", goal_cases)
  case (2 s)
  with fgets_progress[of s 198] show ?case by simp
qed simp

declare config_lines.simps [simp del]

definition is_alnum :: "byte \<Rightarrow> bool" where
  "is_alnum c \<longleftrightarrow> is_digit c \<or> 65 \<le> c \<and> c \<le> 90 \<or> 97 \<le> c \<and> c \<le> 122"

text \<open>An empty string is accessed in front of its first character.\<close>

definition stripNewline :: "cstring \<Rightarrow> cstring option" where
  "stripNewline s = (if s = [] then None else Some (if last s = 10 \<or> last s = 13 then butlast s else s))"

definition set_field :: "(cstring \<Rightarrow> clong) \<Rightarrow> cstring \<Rightarrow> cstring \<Rightarrow> configuration \<Rightarrow> configuration" where
  "set_field atof key v c =
     (if key = str ''node_file'' \<or> key = str ''nodes_file'' then c\<lparr>nodes_file_path := v\<rparr>
      else if key = str ''monitor_file'' \<or> key = str ''monitors_file'' \<or> key = str ''monitors_file_path'' \<or>
        key = str ''monitor_file_path'' then c\<lparr>monitors_file_path := v\<rparr>
      else if key = str ''log_server_name'' \<or> key = str ''log_server_host_name'' \<or> key = str ''log_server''
        then c\<lparr>log_server_host_name := v\<rparr>
      else if key = str ''log_server_user'' \<or> key = str ''log_server_user_name'' then c\<lparr>log_server_user_name := v\<rparr>
      else if key = str ''seq_file'' then c\<lparr>seq_file_path := v\<rparr>
      else if key = str ''k'' \<or> key = str ''K'' then c\<lparr>conf_K := Some (atoi v)\<rparr>
      else if key = str ''check_point_row'' then c\<lparr>check_point_row := Some (atoi v)\<rparr>
      else if key = str ''alpha'' then c\<lparr>conf_alpha := Some (atof v)\<rparr>
      else if key = str ''name_count'' then c\<lparr>name_count := Some (atoi v)\<rparr>
      else if key = str ''timeout'' then c\<lparr>conf_timeout := Some (atof v)\<rparr>
      else if key = str ''retry'' then c\<lparr>conf_n_retry := Some (atoi v)\<rparr>
      else if key = str ''cache_storage'' then c\<lparr>conf_cache_storage := v\<rparr>
      else if key = str ''cache_type'' then c\<lparr>conf_cache_type := v\<rparr>
      else if key = str ''input'' \<or> key = str ''input_file'' then c\<lparr>input_file_path := v\<rparr>
      else if key = str ''client_listen_port'' then c\<lparr>client_listen_port := Some (atoi v)\<rparr>
      else c)"

text \<open>\<^verbatim>\<open>insert\<close> keeps the value of a key that is there. The second call of \<^verbatim>\<open>strtok\<close> returns a null pointer at the end of the line.\<close>

definition set_entry :: "(cstring \<Rightarrow> clong) \<Rightarrow> cstring \<times> cstring \<Rightarrow> configuration \<Rightarrow> configuration" where
  "set_entry atof e c =
     set_field atof (fst e) (snd e)
       (case config_map c (fst e) of None \<Rightarrow> c\<lparr>config_map := (config_map c)(fst e \<mapsto> snd e)\<rparr> | Some _ \<Rightarrow> c)"

definition load_line :: "(cstring \<Rightarrow> clong) \<Rightarrow> cstring \<Rightarrow> configuration \<Rightarrow> configuration option" where
  "load_line atof line c =
     (if line = [] \<or> \<not> is_alnum (hd line) then Some c
      else let key = takeWhile (\<lambda>x. x \<noteq> 61) line; rest = dropWhile (\<lambda>x. x = 61) (drop (length key) line)
        in Option.bind (stripNewline key) (\<lambda>key.
           if rest = [] then None
           else Option.bind (stripNewline (takeWhile (\<lambda>x. x \<noteq> 61) rest)) (\<lambda>val. Some (set_entry atof (key, val) c))))"

fun load_lines :: "(cstring \<Rightarrow> clong) \<Rightarrow> cstring list \<Rightarrow> configuration \<Rightarrow> configuration option" where
  "load_lines atof [] c = Some c"
| "load_lines atof (l # ls) c = Option.bind (load_line atof l c) (load_lines atof ls)"

text \<open>\<open>file\<close> is None when it cannot be opened; \<^verbatim>\<open>fgets\<close> is then given a null pointer.\<close>

definition load_data :: "(cstring \<Rightarrow> clong) \<Rightarrow> cstring option \<Rightarrow> configuration \<Rightarrow> configuration option" where
  "load_data atof file c =
     Option.bind file (\<lambda>s. load_lines atof (config_lines s) (c\<lparr>config_map := Map.empty\<rparr>))"

definition Configuration_file :: "(cstring \<Rightarrow> clong) \<Rightarrow> cstring option \<Rightarrow> configuration option" where
  "Configuration_file atof file = load_data atof file configuration_new"

section \<open>What is read of it\<close>

fun isNumeric_from :: "nat \<Rightarrow> cstring \<Rightarrow> bool" where
  "isNumeric_from dot_count [] = True"
| "isNumeric_from dot_count (c # cs) =
     (if c = 46 then dot_count + 1 \<le> 1 \<and> isNumeric_from (dot_count + 1) cs
      else 48 \<le> c \<and> c \<le> 57 \<and> isNumeric_from dot_count cs)"

definition isNumeric :: "cstring \<Rightarrow> bool" where
  "isNumeric s = isNumeric_from 0 s"

definition getInt :: "cstring \<Rightarrow> configuration \<Rightarrow> cint" where
  "getInt key c =
     (if \<not> isNumeric key then - 1
      else case config_map c key of Some v \<Rightarrow> atoi v | None \<Rightarrow> - 1)"

definition getDouble :: "(cstring \<Rightarrow> clong) \<Rightarrow> cstring \<Rightarrow> configuration \<Rightarrow> clong" where
  "getDouble atof key c =
     (if \<not> isNumeric key then 0xBFF0000000000000
      else case config_map c key of Some v \<Rightarrow> atof v | None \<Rightarrow> 0xBFF0000000000000)"

definition getString :: "cstring \<Rightarrow> configuration \<Rightarrow> cstring" where
  "getString key c = (case config_map c key of Some v \<Rightarrow> v | None \<Rightarrow> [])"

text \<open>What a peer copies; None when something has not been set.\<close>

definition configured :: "configuration \<Rightarrow> peer_config option" where
  "configured c =
     Option.bind (conf_alpha c) (\<lambda>alpha. Option.bind (conf_K c) (\<lambda>k. Option.bind (conf_n_retry c) (\<lambda>retry.
       Option.bind (conf_timeout c) (\<lambda>timeout.
         Some \<lparr>cfg_alpha = alpha, cfg_K = k, cfg_n_retry = retry, cfg_timeout = timeout,
           cfg_cache_storage = conf_cache_storage c, cfg_cache_type = conf_cache_type c\<rparr>))))"

definition Peer_file :: "(cstring \<Rightarrow> clong) \<Rightarrow> (clong \<Rightarrow> cint) \<Rightarrow> (clong \<Rightarrow> cint) \<Rightarrow> cstring \<Rightarrow> cstring option \<Rightarrow> Peer \<Rightarrow> Peer option" where
  "Peer_file atof to_sec to_usec hostname file p =
     Option.bind (Option.bind (Configuration_file atof file) configured) (\<lambda>c. Some (Peer_config to_sec to_usec hostname c p))"

section \<open>Files in their usual form\<close>

text \<open>
  The value a field takes from the entries of a file, for the keys \<open>A\<close> that set it: the last one.
\<close>

fun setting :: "cstring set \<Rightarrow> (cstring \<times> cstring) list \<Rightarrow> cstring option" where
  "setting A [] = None"
| "setting A (e # es) = (case setting A es of Some v \<Rightarrow> Some v | None \<Rightarrow> if fst e \<in> A then Some (snd e) else None)"

definition entry_ok :: "cstring \<times> cstring \<Rightarrow> bool" where
  "entry_ok e \<longleftrightarrow> fst e \<noteq> [] \<and> is_alnum (hd (fst e)) \<and> set (fst e) \<inter> {0, 10, 61} = {} \<and> last (fst e) \<noteq> 13 \<and>
     set (snd e) \<inter> {0, 10, 61} = {} \<and> length (fst e) + length (snd e) \<le> 197"

definition entry_line :: "cstring \<times> cstring \<Rightarrow> cstring" where
  "entry_line e = fst e @ [61] @ snd e @ [10]"

lemma fgets_line: "10 \<notin> set l \<Longrightarrow> length l < n \<Longrightarrow> fgets n (l @ 10 # s) = (l @ [10], s)"
proof (induction l arbitrary: n)
  case Nil
  then show ?case by (cases n) auto
next
  case (Cons c l)
  then obtain m where "n = Suc m" by (cases n) auto
  with Cons show ?case by simp
qed

lemma config_lines_entries: "list_all entry_ok es \<Longrightarrow> config_lines (concat (map entry_line es)) = map entry_line es"
proof (induction es)
  case (Cons e es)
  let ?l = "fst e @ [61] @ snd e"
  have l: "10 \<notin> set ?l" "length ?l < 199" "0 \<notin> set (?l @ [10])" using Cons.prems by (auto simp: entry_ok_def)
  have f: "fgets 199 (entry_line e @ concat (map entry_line es)) = (entry_line e, concat (map entry_line es))"
    using fgets_line[OF l(1,2), of "concat (map entry_line es)"] by (simp add: entry_line_def)
  have "takeWhile (\<lambda>c. c \<noteq> 0) (entry_line e) = entry_line e" using l(3) by (auto simp: takeWhile_eq_all_conv entry_line_def)
  with f Cons show ?case by (subst config_lines.simps) (simp, simp add: entry_line_def)
qed (simp add: config_lines.simps)

lemma load_entry:
  assumes "entry_ok e"
  shows "load_line atof (entry_line e) c = Some (set_entry atof e c)"
proof -
  have k: "takeWhile (\<lambda>x. x \<noteq> 61) (fst e @ 61 # xs) = fst e" for xs
    using assms by (subst takeWhile_append2) (auto simp: entry_ok_def)
  have v: "dropWhile (\<lambda>x. x = 61) (snd e @ [10]) = snd e @ [10]" "takeWhile (\<lambda>x. x \<noteq> 61) (snd e @ [10]) = snd e @ [10]"
    using assms by (cases "snd e", auto simp: entry_ok_def takeWhile_eq_all_conv)+
  have s: "stripNewline (fst e) = Some (fst e)" "stripNewline (snd e @ [10]) = Some (snd e)"
    using assms last_in_set[of "fst e"] by (auto simp: stripNewline_def entry_ok_def dest: sym[of "last _"])
  show ?thesis using assms by (simp add: load_line_def entry_line_def k v s Let_def) (simp add: entry_ok_def)
qed

lemma load_entries:
  "list_all entry_ok es \<Longrightarrow> load_lines atof (map entry_line es) c = Some (fold (set_entry atof) es c)"
  by (induction es arbitrary: c) (simp_all add: load_entry)

section \<open>The values\<close>

section \<open>The values\<close>

definition path_keys :: "(cstring set \<times> (configuration \<Rightarrow> cstring)) list" where
  "path_keys =
     [({str ''node_file'', str ''nodes_file''}, nodes_file_path),
      ({str ''monitor_file'', str ''monitors_file'', str ''monitors_file_path'', str ''monitor_file_path''}, monitors_file_path),
      ({str ''log_server_name'', str ''log_server_host_name'', str ''log_server''}, log_server_host_name),
      ({str ''log_server_user'', str ''log_server_user_name''}, log_server_user_name),
      ({str ''seq_file''}, seq_file_path), ({str ''input'', str ''input_file''}, input_file_path),
      ({str ''cache_storage''}, conf_cache_storage), ({str ''cache_type''}, conf_cache_type)]"

definition int_keys :: "(cstring set \<times> (configuration \<Rightarrow> cint option)) list" where
  "int_keys =
     [({str ''k'', str ''K''}, conf_K), ({str ''retry''}, conf_n_retry), ({str ''check_point_row''}, check_point_row),
      ({str ''name_count''}, name_count), ({str ''client_listen_port''}, client_listen_port)]"

definition double_keys :: "(cstring set \<times> (configuration \<Rightarrow> clong option)) list" where
  "double_keys = [({str ''alpha''}, conf_alpha), ({str ''timeout''}, conf_timeout)]"

lemmas field_distrib =
  if_distrib[of nodes_file_path] if_distrib[of monitors_file_path] if_distrib[of log_server_host_name]
  if_distrib[of log_server_user_name] if_distrib[of seq_file_path] if_distrib[of input_file_path]
  if_distrib[of conf_cache_storage] if_distrib[of conf_cache_type] if_distrib[of conf_K] if_distrib[of conf_n_retry]
  if_distrib[of check_point_row] if_distrib[of name_count] if_distrib[of client_listen_port] if_distrib[of conf_alpha]
  if_distrib[of conf_timeout] if_distrib[of config_map]

lemma path_kept: "(A, f) \<in> set path_keys \<Longrightarrow> k \<notin> A \<Longrightarrow> f (set_field atof k v c) = f c"
  unfolding path_keys_def list.set
  by (elim insertE emptyE Pair_inject; simp add: set_field_def field_distrib cong: if_cong)

lemma path_set: "(A, f) \<in> set path_keys \<Longrightarrow> k \<in> A \<Longrightarrow> f (set_field atof k v c) = v"
  unfolding path_keys_def list.set
  by (elim insertE emptyE Pair_inject; simp; (elim disjE)?; simp add: set_field_def str_eq_iff)

lemma int_kept: "(A, f) \<in> set int_keys \<Longrightarrow> k \<notin> A \<Longrightarrow> f (set_field atof k v c) = f c"
  unfolding int_keys_def list.set
  by (elim insertE emptyE Pair_inject; simp add: set_field_def field_distrib cong: if_cong)

lemma int_set: "(A, f) \<in> set int_keys \<Longrightarrow> k \<in> A \<Longrightarrow> f (set_field atof k v c) = Some (atoi v)"
  unfolding int_keys_def list.set
  by (elim insertE emptyE Pair_inject; simp; (elim disjE)?; simp add: set_field_def str_eq_iff)

lemma double_kept: "(A, f) \<in> set double_keys \<Longrightarrow> k \<notin> A \<Longrightarrow> f (set_field atof k v c) = f c"
  unfolding double_keys_def list.set
  by (elim insertE emptyE Pair_inject; simp add: set_field_def field_distrib cong: if_cong)

lemma double_set: "(A, f) \<in> set double_keys \<Longrightarrow> k \<in> A \<Longrightarrow> f (set_field atof k v c) = Some (atof v)"
  unfolding double_keys_def list.set
  by (elim insertE emptyE Pair_inject; simp add: set_field_def str_eq_iff)

text \<open>A field \<open>f\<close> that the keys \<open>A\<close> set to \<open>g\<close> of the value.\<close>

lemma field_setting:
  assumes "\<And>k v c. k \<notin> A \<Longrightarrow> f (set_field atof k v c) = f c" and "\<And>k v c. k \<in> A \<Longrightarrow> f (set_field atof k v c) = g v"
    and "\<And>c m. f (c\<lparr>config_map := m\<rparr>) = f c"
  shows "f (fold (set_entry atof) es c) = (case setting A es of Some v \<Rightarrow> g v | None \<Rightarrow> f c)"
proof (induction es arbitrary: c)
  case (Cons e es)
  have "f (set_entry atof e c) = (if fst e \<in> A then g (snd e) else f c)"
    by (simp add: set_entry_def assms split: option.split)
  with Cons show ?case by (simp split: option.split)
qed simp

lemma config_map_kept: "config_map (set_field atof k v c) = config_map c"
  by (simp add: set_field_def field_distrib cong: if_cong)

lemma config_map_entries:
  "config_map (fold (set_entry atof) es c) k = (case config_map c k of Some v \<Rightarrow> Some v | None \<Rightarrow> map_of es k)"
proof (induction es arbitrary: c)
  case (Cons e es)
  have "config_map (set_entry atof e c) k = (case config_map c k of Some v \<Rightarrow> Some v | None \<Rightarrow> if k = fst e then Some (snd e) else None)"
    by (auto simp: set_entry_def config_map_kept split: option.split)
  with Cons show ?case by (cases e) (auto split: option.split)
qed (simp split: option.split)

lemma fields_new:
  "(A, p) \<in> set path_keys \<Longrightarrow> p configuration_new = [] \<and> (\<forall>c m. p (c\<lparr>config_map := m\<rparr>) = p c)"
  "(A, i) \<in> set int_keys \<Longrightarrow> i configuration_new = None \<and> (\<forall>c m. i (c\<lparr>config_map := m\<rparr>) = i c)"
  "(A, d) \<in> set double_keys \<Longrightarrow> d configuration_new = None \<and> (\<forall>c m. d (c\<lparr>config_map := m\<rparr>) = d c)"
  unfolding path_keys_def int_keys_def double_keys_def by (auto simp: configuration_new_def)

lemma configured_None: "configured c = None \<longleftrightarrow> conf_alpha c = None \<or> conf_K c = None \<or> conf_n_retry c = None \<or> conf_timeout c = None"
  by (auto simp: configured_def bind_eq_None_conv)

lemma Configuration_file_entries:
  "list_all entry_ok es \<Longrightarrow> Configuration_file atof (Some (concat (map entry_line es))) =
    Some (fold (set_entry atof) es (configuration_new\<lparr>config_map := Map.empty\<rparr>))"
  by (simp add: Configuration_file_def load_data_def config_lines_entries load_entries)

lemma fields_of_entries:
  defines "c \<equiv> configuration_new\<lparr>config_map := Map.empty\<rparr>"
  shows "(A, p) \<in> set path_keys \<Longrightarrow> p (fold (set_entry atof) es c) = (case setting A es of Some v \<Rightarrow> v | None \<Rightarrow> [])"
    and "(A, i) \<in> set int_keys \<Longrightarrow> i (fold (set_entry atof) es c) = map_option atoi (setting A es)"
    and "(A, d) \<in> set double_keys \<Longrightarrow> d (fold (set_entry atof) es c) = map_option atof (setting A es)"
proof -
  show "p (fold (set_entry atof) es c) = (case setting A es of Some v \<Rightarrow> v | None \<Rightarrow> [])" if k: "(A, p) \<in> set path_keys"
    using field_setting[of A p atof "\<lambda>v. v" es c] path_kept[OF k] path_set[OF k] fields_new(1)[OF k] by (simp add: c_def split: option.splits)
  show "i (fold (set_entry atof) es c) = map_option atoi (setting A es)" if k: "(A, i) \<in> set int_keys"
    using field_setting[of A i atof "\<lambda>v. Some (atoi v)" es c] int_kept[OF k] int_set[OF k] fields_new(2)[OF k]
    by (simp add: c_def split: option.splits)
  show "d (fold (set_entry atof) es c) = map_option atof (setting A es)" if k: "(A, d) \<in> set double_keys"
    using field_setting[of A d atof "\<lambda>v. Some (atof v)" es c] double_kept[OF k] double_set[OF k] fields_new(3)[OF k]
    by (simp add: c_def split: option.splits)
qed



section \<open>What goes wrong\<close>

text \<open>\<^verbatim>\<open>getInt\<close> asks whether the key is a number, not the value: a key with a letter is never found.\<close>

lemma getInt_letter: "x \<in> set key \<Longrightarrow> \<not> is_digit x \<Longrightarrow> x \<noteq> 46 \<Longrightarrow> getInt key c = - 1"
proof -
  have "isNumeric_from n s \<Longrightarrow> y \<in> set s \<Longrightarrow> is_digit y \<or> y = 46" for n s y
    by (induction n s rule: isNumeric_from.induct) (auto simp: is_digit_def split: if_splits)
  then show "x \<in> set key \<Longrightarrow> \<not> is_digit x \<Longrightarrow> x \<noteq> 46 \<Longrightarrow> getInt key c = - 1" by (auto simp: getInt_def isNumeric_def)
qed

text \<open>A line that has no \<^verbatim>\<open>=\<close>, or nothing behind it, ends the program.\<close>

lemma missing_value_crashes: "line \<noteq> [] \<Longrightarrow> is_alnum (hd line) \<Longrightarrow> 61 \<notin> set line \<Longrightarrow> load_line atof line c = None"
proof -
  assume l: "line \<noteq> []" "is_alnum (hd line)" "61 \<notin> set line"
  have "\<forall>x\<in>set line. x \<noteq> 61" using l(3) by blast
  then have t: "takeWhile (\<lambda>x. x \<noteq> 61) line = line" by (rule takeWhile_eq_all_conv[THEN iffD2])
  have r: "dropWhile (\<lambda>x. x = 61) (drop (length line) line) = []" by simp
  have "load_line atof line c = Option.bind (stripNewline line) (\<lambda>_. None)"
    using l(1,2) by (simp only: load_line_def t r Let_def) simp
  then show ?thesis by (cases "stripNewline line") simp_all
qed

end
