(* ===== verification/Log_File.thy ===== *)
theory Log_File
  imports Processing
begin

text \<open>
  The log of a home agent, \<^verbatim>\<open>plnode/logging/log.h\<close>: a text file that is uploaded, archived and started again after a number of
  rows, by commands of the shell. The shell is a parameter; its commands are the texts that the code puts together. What is written to an
  open file is in the file at once in the model; the code reads it only after closing the file. None is undefined behaviour.
\<close>

section \<open>State\<close>

text \<open>Files; tar files, with the names and contents of their members; and the files of the monitor, by login and path.\<close>

record disk =
  files :: "cstring \<rightharpoonup> cstring"
  tars :: "cstring \<rightharpoonup> (cstring \<times> cstring) list"
  remote :: "cstring \<times> cstring \<rightharpoonup> cstring"

text \<open>None: the pipe to the command could not be opened.\<close>

type_synonym shell = "cstring \<Rightarrow> disk \<Rightarrow> disk option"

record log =
  lg_type :: cstring
  lg_cache_type :: cstring
  lg_cache_storage :: cstring
  lg_K :: cstring
  lg_host_name :: cstring
  monitor_host_name :: cstring
  monitor_user_name :: cstring
  remote_ftp_directory :: cstring
  log_file_name :: cstring
  lg_mode :: cstring
  seq_file_name :: cstring
  archive_name :: cstring
  log_sequence_no :: cint
  current_segment_no :: cint
  current_row_count :: cint
  check_point_row_count :: cint
  log_file_ptr :: "cstring option"

definition ERROR_OPEN_FILE_FAIL :: cint where "ERROR_OPEN_FILE_FAIL = - 105"
definition ERROR_FILE_NOT_OPEN :: cint where "ERROR_FILE_NOT_OPEN = - 106"

section \<open>Names\<close>

text \<open>\<^verbatim>\<open>sprintf("%d")\<close> into an array of \<open>n\<close> characters.\<close>

definition sprintf_int :: "nat \<Rightarrow> cint \<Rightarrow> cstring option" where
  "sprintf_int n i = (if length (print_int i) < n then Some (print_int i) else None)"

definition setLogFileName :: "log \<Rightarrow> log option" where
  "setLogFileName l = map_option (\<lambda>i. l\<lparr>log_file_name := i @ str ''_'' @ lg_host_name l @ str ''_'' @ lg_type l @ str ''_'' @
     lg_cache_type l @ str ''_'' @ lg_cache_storage l @ str ''_k'' @ lg_K l @ str ''.txt''\<rparr>) (sprintf_int 10 (log_sequence_no l))"

definition setArchiveName :: "log \<Rightarrow> log option" where
  "setArchiveName l = map_option (\<lambda>i. l\<lparr>archive_name := i @ str ''_'' @ lg_host_name l @ str ''_'' @ lg_type l @ str ''.tar''\<rparr>)
     (sprintf_int 10 (log_sequence_no l))"

text \<open>The constructors; \<open>host\<close> is the name given or, without one, that of the host.\<close>

definition Log_default :: "cstring \<Rightarrow> log" where
  "Log_default host = \<lparr>lg_type = [], lg_cache_type = [], lg_cache_storage = [], lg_K = [], lg_host_name = host, monitor_host_name = [],
     monitor_user_name = [], remote_ftp_directory = [], log_file_name = [], lg_mode = [], seq_file_name = [], archive_name = [],
     log_sequence_no = - 1, current_segment_no = - 1, current_row_count = 0, check_point_row_count = 3, log_file_ptr = None\<rparr>"

definition Log_names :: "cstring \<Rightarrow> cstring \<Rightarrow> cint \<Rightarrow> log \<Rightarrow> log option" where
  "Log_names monitor_host monitor_user rows l =
     Option.bind (setLogFileName l) (\<lambda>l. Option.bind (setArchiveName l) (\<lambda>l.
       Some (l\<lparr>lg_mode := str ''w'', monitor_host_name := monitor_host, monitor_user_name := monitor_user,
         remote_ftp_directory := str ''/var/ftp/logs'', check_point_row_count := rows, current_row_count := 0, current_segment_no := 1,
         log_file_ptr := None\<rparr>)))"

definition Log_new :: "cint \<Rightarrow> cstring \<Rightarrow> cstring \<Rightarrow> cstring \<Rightarrow> cint \<Rightarrow> cstring \<Rightarrow> cstring \<Rightarrow> cstring \<Rightarrow> log option" where
  "Log_new seq_no type cachetype cachestorage K monitor_host monitor_user host =
     Option.bind (sprintf_int 12 K) (\<lambda>k.
       Log_names monitor_host monitor_user 10
         ((Log_default host)\<lparr>log_sequence_no := seq_no, lg_type := type, lg_cache_storage := cachestorage, lg_cache_type := cachetype,
            lg_K := k\<rparr>))"

text \<open>
  The constructor that counts the runs in a file: the number in it is read, and the next is written over its first characters.
  Text that is no number leaves the counter as it is, not initialised.
\<close>

definition starts_number :: "cstring \<Rightarrow> bool" where
  "starts_number s =
     (case dropWhile (\<lambda>c. c = 32 \<or> 9 \<le> c \<and> c \<le> 13) s of [] \<Rightarrow> False
      | c # cs \<Rightarrow> is_digit c \<or> (c = 43 \<or> c = 45) \<and> cs \<noteq> [] \<and> is_digit (hd cs))"

definition Log_seq :: "cstring \<Rightarrow> cstring \<Rightarrow> cstring \<Rightarrow> cstring \<Rightarrow> cstring \<Rightarrow> disk \<Rightarrow> (disk \<times> log) option" where
  "Log_seq seq_file type monitor_host monitor_user host w =
     Option.bind
       (case files w seq_file of
          None \<Rightarrow> Some (0, print_int 0 @ [10])
        | Some s \<Rightarrow>
            if starts_number s \<and> atoi s \<noteq> 0x7FFFFFFF
            then let n = atoi s + 1 in Some (n, print_int n @ drop (length (print_int n)) s)
            else None)
       (\<lambda>(n, s). map_option (Pair (w\<lparr>files := (files w)(seq_file \<mapsto> s)\<rparr>))
          (Log_names monitor_host monitor_user 3
            ((Log_default host)\<lparr>seq_file_name := seq_file, log_sequence_no := n, lg_type := type\<rparr>)))"

section \<open>Writing\<close>

definition appended :: "cstring option \<Rightarrow> cstring \<Rightarrow> cstring" where
  "appended old new = (case old of None \<Rightarrow> [] | Some c \<Rightarrow> c) @ new"

text \<open>\<open>ok\<close> says that \<^verbatim>\<open>fopen\<close> succeeds. A mode that starts with w empties the file.\<close>

definition open_log :: "bool \<Rightarrow> cstring \<Rightarrow> disk \<times> log \<Rightarrow> (cint \<times> disk \<times> log) option" where
  "open_log ok mode s =
     (case s of (w, l) \<Rightarrow>
       let l = l\<lparr>lg_mode := mode\<rparr> in
       if log_file_ptr l \<noteq> None then Some (0, w, l)
       else Option.bind (setLogFileName l) (\<lambda>l.
         if ok
         then Some (1, w\<lparr>files := (files w)(log_file_name l \<mapsto>
                  (if take 1 mode = str ''w'' then [] else appended (files w (log_file_name l)) []))\<rparr>,
                l\<lparr>log_file_ptr := Some (log_file_name l), current_row_count := 0\<rparr>)
         else Some (ERROR_OPEN_FILE_FAIL, w, l)))"

text \<open>The texts of the commands.\<close>

definition upload_command :: "cstring \<Rightarrow> cstring \<Rightarrow> cstring \<Rightarrow> cstring \<Rightarrow> cstring" where
  "upload_command file user monitor directory =
     str ''cat '' @ file @ str '' | '' @ str ''ssh -o StrictHostKeyChecking=no '' @ user @ str ''@'' @ monitor @ str '' '' @ [34] @
     str '' cat >> '' @ directory @ str ''/'' @ file @ [34]"

definition mv_command :: "cstring \<Rightarrow> cstring \<Rightarrow> cstring" where
  "mv_command a b = str ''mv '' @ a @ str '' '' @ b"

definition tar_command :: "bool \<Rightarrow> cstring \<Rightarrow> cstring \<Rightarrow> cstring" where
  "tar_command create archive file = (if create then str ''tar -cf '' else str ''tar -rf '') @ archive @ str '' '' @ file"

definition rm_command :: "cstring \<Rightarrow> cstring" where
  "rm_command a = str ''rm '' @ a"

definition sshUploadLog :: "shell \<Rightarrow> disk \<times> log \<Rightarrow> bool \<times> disk \<times> log" where
  "sshUploadLog sh s =
     (case s of (w, l) \<Rightarrow>
       case sh (upload_command (log_file_name l) (monitor_user_name l) (monitor_host_name l) (remote_ftp_directory l)) w of
         None \<Rightarrow> (False, w, l)
       | Some w \<Rightarrow> (True, w, l))"

definition archiveCurrentLog :: "shell \<Rightarrow> disk \<times> log \<Rightarrow> (disk \<times> log) option" where
  "archiveCurrentLog sh s =
     (case s of (w, l) \<Rightarrow>
       Option.bind (sprintf_int 10 (current_segment_no l)) (\<lambda>i.
         let new_name = log_file_name l @ str ''_'' @ i in
         Option.bind (sh (mv_command (log_file_name l) new_name) w) (\<lambda>w.
         Option.bind (sh (tar_command (current_segment_no l \<le>s 1) (archive_name l) new_name) w) (\<lambda>w.
         Option.bind (sh (rm_command new_name) w) (\<lambda>w.
           Some (w, l\<lparr>current_segment_no := current_segment_no l + 1\<rparr>))))))"

text \<open>What \<^verbatim>\<open>write\<close> does after the last row and \<^verbatim>\<open>flush\<close> does at once; both return with the file open again, if that succeeds.\<close>

definition rotate_log :: "shell \<Rightarrow> bool \<Rightarrow> disk \<times> log \<Rightarrow> (disk \<times> log) option" where
  "rotate_log sh ok s =
     (case s of (w, l) \<Rightarrow>
       Option.bind (archiveCurrentLog sh (snd (sshUploadLog sh (w, l\<lparr>log_file_ptr := None\<rparr>)))) (\<lambda>s.
         map_option snd (open_log ok (str ''w+'') s)))"

definition log_line :: "cstring \<Rightarrow> cstring \<Rightarrow> cstring" where
  "log_line key value = key @ str '' '' @ value @ [10]"

definition write_log :: "shell \<Rightarrow> bool \<Rightarrow> cstring \<Rightarrow> cstring \<Rightarrow> disk \<times> log \<Rightarrow> (cint \<times> disk \<times> log) option" where
  "write_log sh ok key value s =
     (case s of (w, l) \<Rightarrow>
       case log_file_ptr l of
         None \<Rightarrow> Some (ERROR_FILE_NOT_OPEN, w, l)
       | Some f \<Rightarrow>
           let w = w\<lparr>files := (files w)(f \<mapsto> appended (files w f) (log_line key value))\<rparr>;
               ret = of_nat (length (log_line key value))
           in if current_row_count l = 0x7FFFFFFF then None
             else let l = l\<lparr>current_row_count := current_row_count l + 1\<rparr> in
               if current_row_count l = check_point_row_count l then map_option (Pair ret) (rotate_log sh ok (w, l))
               else Some (ret, w, l))"

text \<open>Closing a file that is not open is undefined.\<close>

definition flush_log :: "shell \<Rightarrow> bool \<Rightarrow> disk \<times> log \<Rightarrow> (disk \<times> log) option" where
  "flush_log sh ok s = (if log_file_ptr (snd s) = None then None else rotate_log sh ok s)"

text \<open>The destructor; \<^verbatim>\<open>close\<close> also counts a segment more.\<close>

definition destroy_log :: "shell \<Rightarrow> disk \<times> log \<Rightarrow> (disk \<times> log) option" where
  "destroy_log sh s =
     (case s of (w, l) \<Rightarrow>
       let l = l\<lparr>log_file_ptr := None\<rparr> in
       if 0 <s current_row_count l
       then map_option (\<lambda>(w, l). (w, l\<lparr>current_row_count := 0\<rparr>)) (archiveCurrentLog sh (snd (sshUploadLog sh (w, l))))
       else Some (w, l))"

definition close_log :: "shell \<Rightarrow> disk \<times> log \<Rightarrow> (disk \<times> log) option" where
  "close_log sh s =
     Option.bind (destroy_log sh s) (\<lambda>(w, l).
       if current_segment_no l = 0x7FFFFFFF then None else Some (w, l\<lparr>current_segment_no := current_segment_no l + 1\<rparr>))"

section \<open>The logs of a peer\<close>

definition MAX_LOGS :: cint where "MAX_LOGS = 3"

text \<open>The calls of the logging thread on one log, and the choice of the log.\<close>

datatype log_op = Log_write cstring cstring | Log_flush

fun log_do :: "shell \<Rightarrow> bool \<Rightarrow> log_op \<Rightarrow> disk \<times> log \<Rightarrow> (disk \<times> log) option" where
  "log_do sh ok (Log_write key value) s = map_option snd (write_log sh ok key value s)"
| "log_do sh ok Log_flush s = flush_log sh ok s"

fun log_run :: "shell \<Rightarrow> bool \<Rightarrow> log_op list \<Rightarrow> disk \<times> log \<Rightarrow> (disk \<times> log) option" where
  "log_run sh ok [] s = Some s"
| "log_run sh ok (e # es) s = Option.bind (log_do sh ok e s) (log_run sh ok es)"

fun on_log :: "nat \<Rightarrow> (disk \<times> log \<Rightarrow> (disk \<times> log) option) \<Rightarrow> disk \<times> log list \<Rightarrow> (disk \<times> log list) option" where
  "on_log i f (w, ls) = map_option (\<lambda>(w, l). (w, ls[i := l])) (f (w, ls ! i))"

definition initLogs ::
    "bool \<Rightarrow> cint \<Rightarrow> cstring \<Rightarrow> cstring \<Rightarrow> cint \<Rightarrow> cint \<Rightarrow> cstring \<Rightarrow> cstring \<Rightarrow> cstring \<Rightarrow> disk \<Rightarrow> (disk \<times> log list) option" where
  "initLogs ok seq_no cachetype cachestorage K rows server user host w =
     Option.bind (Log_new seq_no (str ''get'') cachetype cachestorage K server user host) (\<lambda>g.
     Option.bind (Log_new seq_no (str ''put'') cachetype cachestorage K server user host) (\<lambda>p.
     Option.bind (Log_new seq_no (str ''storage'') cachetype cachestorage K server user host) (\<lambda>st.
       let opened = (\<lambda>s. map_option snd (open_log ok (str ''a'') s)) in
       Option.bind (on_log 0 opened (w, [g\<lparr>check_point_row_count := rows\<rparr>, p\<lparr>check_point_row_count := rows\<rparr>, st\<lparr>check_point_row_count := 1\<rparr>]))
         (\<lambda>s. Option.bind (on_log 1 opened s) (on_log 2 opened)))))"

text \<open>None for a type that has no log: the pointer is null, or read outside the array.\<close>

definition getLog :: "cint \<Rightarrow> nat option" where
  "getLog type = (if MAX_LOGS \<le>s type \<or> type <s 0 then None else Some (unat type))"

definition flushAllLog :: "shell \<Rightarrow> bool \<Rightarrow> disk \<times> log list \<Rightarrow> (disk \<times> log list) option" where
  "flushAllLog sh ok s =
     Option.bind (on_log 0 (flush_log sh ok) s) (\<lambda>s. Option.bind (on_log 1 (flush_log sh ok) s) (on_log 2 (flush_log sh ok)))"

text \<open>What the logging thread does with an entry.\<close>

definition write_entry :: "shell \<Rightarrow> bool \<Rightarrow> LogEntry \<Rightarrow> disk \<times> log list \<Rightarrow> (disk \<times> log list) option" where
  "write_entry sh ok entry s =
     (if log_type entry = ALL_LOGS then flushAllLog sh ok s
      else Option.bind (getLog (log_type entry)) (\<lambda>i. on_log i (log_do sh ok (Log_write (key_str entry) (value_str entry))) s))"

section \<open>The shell\<close>

definition plain :: "cstring \<Rightarrow> bool" where
  "plain s \<longleftrightarrow> s \<noteq> [] \<and> (\<forall>c\<in>set s. is_digit c \<or> 65 \<le> c \<and> c \<le> 90 \<or> 97 \<le> c \<and> c \<le> 122 \<or> c \<in> set (str ''_./-''))"

text \<open>
  What the commands do, for names without characters that the shell treats specially, when the files they read exist: \<^verbatim>\<open>mv\<close>, \<^verbatim>\<open>rm\<close>,
  \<^verbatim>\<open>tar -c\<close> and \<^verbatim>\<open>tar -r\<close>, and \<^verbatim>\<open>ssh\<close> with \<^verbatim>\<open>cat >>\<close>.
\<close>

definition mv_ok :: "shell \<Rightarrow> bool" where
  "mv_ok sh \<longleftrightarrow> (\<forall>a b c w. plain a \<longrightarrow> plain b \<longrightarrow> files w a = Some c \<longrightarrow>
     sh (mv_command a b) w = Some (w\<lparr>files := (files w)(a := None, b \<mapsto> c)\<rparr>))"

definition rm_ok :: "shell \<Rightarrow> bool" where
  "rm_ok sh \<longleftrightarrow> (\<forall>a c w. plain a \<longrightarrow> files w a = Some c \<longrightarrow> sh (rm_command a) w = Some (w\<lparr>files := (files w)(a := None)\<rparr>))"

definition tar_ok :: "shell \<Rightarrow> bool" where
  "tar_ok sh \<longleftrightarrow> (\<forall>create t a c w. plain t \<longrightarrow> plain a \<longrightarrow> files w a = Some c \<longrightarrow> create \<or> tars w t \<noteq> None \<longrightarrow>
     sh (tar_command create t a) w = Some (w\<lparr>tars := (tars w)(t \<mapsto> (if create then [] else the (tars w t)) @ [(a, c)])\<rparr>))"

definition upload_ok :: "shell \<Rightarrow> bool" where
  "upload_ok sh \<longleftrightarrow> (\<forall>a u h d c w. plain a \<longrightarrow> plain u \<longrightarrow> plain h \<longrightarrow> plain d \<longrightarrow> files w a = Some c \<longrightarrow>
     (let r = (u @ str ''@'' @ h, d @ str ''/'' @ a) in
       sh (upload_command a u h d) w = Some (w\<lparr>remote := (remote w)(r \<mapsto> appended (remote w r) c)\<rparr>)))"

definition shell_ok :: "shell \<Rightarrow> bool" where
  "shell_ok sh \<longleftrightarrow> mv_ok sh \<and> rm_ok sh \<and> tar_ok sh \<and> upload_ok sh"

end
