(* ===== verification/Log_Behaviour.thy ===== *)
theory Log_Behaviour
  imports Log_File
begin

text \<open>
  What the log of a home agent promises: no line is lost, however often the file is archived.
\<close>

section \<open>Names of segments\<close>

lemma print_nat_length: "n < 10 ^ k \<Longrightarrow> 0 < k \<Longrightarrow> length (print_nat n) \<le> k"
proof (induction k arbitrary: n)
  case (Suc k)
  show ?case
  proof (cases "n < 10")
    case False
    then have "0 < k" using Suc.prems(1) by (cases k) auto
    then have "length (print_nat (n div 10)) \<le> k" using Suc by (intro Suc.IH) auto
    with False show ?thesis by (simp add: print_nat.simps[of n])
  qed (simp add: print_nat.simps)
qed simp

definition segment_name :: "cstring \<Rightarrow> nat \<Rightarrow> cstring" where
  "segment_name n i = n @ str ''_'' @ print_nat (Suc i)"

lemma print_segment:
  assumes "Suc i < 10 ^ 9"
  shows "sprintf_int 10 (of_nat (Suc i)) = Some (print_nat (Suc i))" and "of_nat (Suc i) \<le>s (1 :: cint) \<longleftrightarrow> i = 0"
proof -
  have s: "sint (of_nat (Suc i) :: cint) = int (Suc i)"
    using assms by (intro sint_of_nat_small) simp
  show "sprintf_int 10 (of_nat (Suc i)) = Some (print_nat (Suc i))"
    unfolding sprintf_int_def print_int_def s using print_nat_length[OF assms] by (simp del: of_nat_Suc)
  show "of_nat (Suc i) \<le>s (1 :: cint) \<longleftrightarrow> i = 0"
    unfolding word_sle_eq s by simp
qed

lemma plain_append: "plain (a @ b) \<longleftrightarrow> (plain a \<and> plain b) \<or> (a = [] \<and> plain b) \<or> (plain a \<and> b = [])"
  by (auto simp: plain_def)

lemma plain_segment: "plain n \<Longrightarrow> plain (segment_name n i)"
  using print_nat_digits print_nat_nonempty by (auto simp: segment_name_def plain_append) (auto simp: plain_def str_def)

section \<open>Archiving\<close>

definition remote_path :: "log \<Rightarrow> cstring \<times> cstring" where
  "remote_path l = (monitor_user_name l @ str ''@'' @ monitor_host_name l, remote_ftp_directory l @ str ''/'' @ log_file_name l)"

lemma name_set:
  "setLogFileName l = Some l \<longleftrightarrow> (\<exists>i. sprintf_int 10 (log_sequence_no l) = Some i \<and> log_file_name l = i @ str ''_'' @ lg_host_name l @
     str ''_'' @ lg_type l @ str ''_'' @ lg_cache_type l @ str ''_'' @ lg_cache_storage l @ str ''_k'' @ lg_K l @ str ''.txt'')"
proof -
  have "l\<lparr>log_file_name := x\<rparr> = l \<longleftrightarrow> log_file_name l = x" for x by (cases l) auto
  then show ?thesis by (auto simp: setLogFileName_def)
qed

text \<open>A log whose names the shell takes as they are.\<close>

definition log_names_ok :: "log \<Rightarrow> bool" where
  "log_names_ok l \<longleftrightarrow> setLogFileName l = Some l \<and> plain (log_file_name l) \<and> plain (archive_name l) \<and> plain (monitor_user_name l) \<and>
     plain (monitor_host_name l) \<and> plain (remote_ftp_directory l)"

lemma archive_moves:
  assumes "shell_ok sh" and "log_names_ok l" and "current_segment_no l = of_nat (Suc i)" and "Suc i < 10 ^ 9"
    and "files w (log_file_name l) = Some c" and "i = 0 \<or> tars w (archive_name l) \<noteq> None"
  shows "archiveCurrentLog sh (snd (sshUploadLog sh (w, l))) = Some
    (w\<lparr>remote := (remote w)(remote_path l \<mapsto> appended (remote w (remote_path l)) c),
       files := (files w)(log_file_name l := None, segment_name (log_file_name l) i := None),
       tars := (tars w)(archive_name l \<mapsto> (if i = 0 then [] else the (tars w (archive_name l))) @ [(segment_name (log_file_name l) i, c)])\<rparr>,
     l\<lparr>current_segment_no := current_segment_no l + 1\<rparr>)"
proof -
  let ?n = "log_file_name l" and ?s = "segment_name (log_file_name l) i" and ?r = "remote_path l"
  let ?w1 = "w\<lparr>remote := (remote w)(?r \<mapsto> appended (remote w ?r) c)\<rparr>"
  let ?w2 = "?w1\<lparr>files := (files w)(?n := None, ?s \<mapsto> c)\<rparr>"
  let ?w3 = "?w2\<lparr>tars := (tars w)(archive_name l \<mapsto> (if i = 0 then [] else the (tars w (archive_name l))) @ [(?s, c)])\<rparr>"
  have p: "plain ?n" "plain (archive_name l)" "plain ?s" using assms(2) plain_segment by (simp_all add: log_names_ok_def)
  have u: "sshUploadLog sh (w, l) = (True, ?w1, l)"
    using assms(1,2,5) by (simp add: sshUploadLog_def shell_ok_def upload_ok_def log_names_ok_def remote_path_def Let_def)
  have m: "sh (mv_command ?n ?s) ?w1 = Some ?w2" using assms(1,5) p by (simp add: shell_ok_def mv_ok_def)
  have t: "sh (tar_command (i = 0) (archive_name l) ?s) ?w2 = Some ?w3"
    using assms(1,6) p by (auto simp: shell_ok_def tar_ok_def)
  have r: "sh (rm_command ?s) ?w3 = Some (?w3\<lparr>files := (files w)(?n := None, ?s := None)\<rparr>)"
    using assms(1) p by (simp add: shell_ok_def rm_ok_def)
  have seg: "sprintf_int 10 (current_segment_no l) = Some (print_nat (Suc i))" "current_segment_no l \<le>s 1 \<longleftrightarrow> i = 0"
    "?n @ str ''_'' @ print_nat (Suc i) = ?s"
    using print_segment[OF assms(4)] unfolding assms(3) segment_name_def by simp_all
  show ?thesis using m t r by (simp add: u archiveCurrentLog_def seg Let_def)
qed

text \<open>A file and its segments.\<close>

lemma segment_differs: "segment_name n i \<noteq> n"
  by (simp add: segment_name_def str_def)

definition members :: "cstring \<Rightarrow> cstring list list \<Rightarrow> (cstring \<times> cstring) list" where
  "members n segs = map (\<lambda>i. (segment_name n i, concat (segs ! i))) [0..<length segs]"

lemma members_snoc: "members n (segs @ [s]) = members n segs @ [(segment_name n (length segs), concat s)]"
  by (simp add: members_def nth_append)

text \<open>
  The state of a log that was opened as \<open>l0\<close> on the disk \<open>w0\<close>, when the lines in \<open>segs\<close> have been archived and those in \<open>cur\<close>
  are in the file.
\<close>

definition log_state :: "disk \<Rightarrow> log \<Rightarrow> cstring list list \<Rightarrow> cstring list \<Rightarrow> disk \<times> log \<Rightarrow> bool" where
  "log_state w0 l0 segs cur s \<longleftrightarrow>
     (\<exists>mode. snd s = l0\<lparr>lg_mode := mode, log_file_ptr := Some (log_file_name l0), current_row_count := of_nat (length cur),
        current_segment_no := of_nat (Suc (length segs))\<rparr>) \<and>
     files (fst s) (log_file_name l0) = Some (concat cur) \<and>
     tars (fst s) (archive_name l0) = (if segs = [] then tars w0 (archive_name l0) else Some (members (log_file_name l0) segs)) \<and>
     remote (fst s) (remote_path l0) = (if segs = [] then remote w0 (remote_path l0)
       else Some (appended (remote w0 (remote_path l0)) (concat (concat segs))))"

lemma rotate_state:
  assumes "shell_ok sh" and "log_names_ok l0" and "Suc (length segs) < 10 ^ 9" and "files w (log_file_name l0) = Some (concat cur)"
    and "tars w (archive_name l0) = (if segs = [] then tars w0 (archive_name l0) else Some (members (log_file_name l0) segs))"
    and "remote w (remote_path l0) = (if segs = [] then remote w0 (remote_path l0)
       else Some (appended (remote w0 (remote_path l0)) (concat (concat segs))))"
    and "l = l0\<lparr>lg_mode := mode, log_file_ptr := p, current_row_count := rows, current_segment_no := of_nat (Suc (length segs))\<rparr>"
  shows "\<exists>s. rotate_log sh True (w, l) = Some s \<and> log_state w0 l0 (segs @ [cur]) [] s"
proof -
  let ?l = "l\<lparr>log_file_ptr := None\<rparr>"
  have n: "log_names_ok ?l" "setLogFileName (?l\<lparr>current_segment_no := j, lg_mode := mode'\<rparr>) = Some (?l\<lparr>current_segment_no := j, lg_mode := mode'\<rparr>)"
    for j mode'
    using assms(2) unfolding assms(7) by (simp_all add: log_names_ok_def name_set)
  have f: "log_file_name ?l = log_file_name l0" "archive_name ?l = archive_name l0" "remote_path ?l = remote_path l0"
    "current_segment_no ?l = of_nat (Suc (length segs))"
    unfolding assms(7) by (simp_all add: remote_path_def)
  have t: "length segs = 0 \<or> tars w (archive_name ?l) \<noteq> None" using assms(5) f by simp
  note a = archive_moves[OF assms(1) n(1) f(4) assms(3) _ t, unfolded f, OF assms(4)]
  have m: "(if length segs = 0 then [] else the (tars w (archive_name l0))) @ [(segment_name (log_file_name l0) (length segs), concat cur)] =
      members (log_file_name l0) (segs @ [cur])"
    using assms(5) by (auto simp: members_snoc) (simp add: members_def)
  have r: "appended (remote w (remote_path l0)) (concat cur) = appended (remote w0 (remote_path l0)) (concat (concat (segs @ [cur])))"
    using assms(6) by (auto simp: appended_def)
  have e: "l0\<lparr>current_segment_no := j, lg_mode := x, log_file_ptr := q, current_row_count := 0\<rparr> =
      l0\<lparr>lg_mode := x, log_file_ptr := q, current_row_count := 0, current_segment_no := j\<rparr>" for j x q
    by (cases l0) simp
  have w: "take (Suc 0) (str ''w+'') = str ''w''" by (simp add: str_def)
  show ?thesis unfolding rotate_log_def
    using a n(2) m r by (simp add: open_log_def log_state_def f assms(7) Let_def e w) blast
qed

section \<open>Runs\<close>

fun op_lines :: "log_op list \<Rightarrow> cstring list" where
  "op_lines [] = []"
| "op_lines (Log_write key value # es) = log_line key value # op_lines es"
| "op_lines (Log_flush # es) = op_lines es"

text \<open>Every segment has as many rows as the check point says, or fewer when it was flushed.\<close>

definition segments_ok :: "nat \<Rightarrow> bool \<Rightarrow> cstring list list \<Rightarrow> bool" where
  "segments_ok k flushed segs \<longleftrightarrow> (\<forall>s\<in>set segs. length s \<le> k \<and> (flushed \<or> length s = k))"

lemma log_write_do:
  assumes "check_point_row_count l0 = of_nat k" and "k < 2 ^ 31" and "length cur < k" and "files w (log_file_name l0) = Some (concat cur)"
    and "l = l0\<lparr>lg_mode := mode, log_file_ptr := Some (log_file_name l0), current_row_count := of_nat (length cur), current_segment_no := j\<rparr>"
  shows "log_do sh ok (Log_write key val) (w, l) =
    (let c = cur @ [log_line key val]; s = (w\<lparr>files := (files w)(log_file_name l0 \<mapsto> concat c)\<rparr>, l\<lparr>current_row_count := of_nat (length c)\<rparr>)
     in if length c = k then rotate_log sh ok s else Some s)"
proof -
  have u: "unat (of_nat m :: cint) = m" if "m \<le> k" for m using that assms(2) by (simp add: unat_of_nat)
  have n: "(of_nat (length cur) :: cint) \<noteq> 0x7FFFFFFF"
  proof
    assume "(of_nat (length cur) :: cint) = 0x7FFFFFFF"
    then have "unat (of_nat (length cur) :: cint) = 0x7FFFFFFF" by simp
    with u[of "length cur"] assms(2,3) show False by simp
  qed
  have k: "(of_nat (Suc (length cur)) :: cint) = of_nat k \<longleftrightarrow> Suc (length cur) = k"
    using u[of "Suc (length cur)"] u[of k] assms(3) by (metis Suc_leI order_refl)
  have kk: "Suc (length cur) = k \<Longrightarrow> (of_nat k :: cint) = 1 + of_nat (length cur)" by auto
  show ?thesis
    using n k kk assms(1,4)
    by (simp add: assms(5) write_log_def appended_def Let_def option.map_comp comp_def option.map_ident add.commute)
qed

lemma log_do_state:
  assumes "shell_ok sh" and "log_names_ok l0" and "check_point_row_count l0 = of_nat k" and "0 < k" and "k < 2 ^ 31"
    and "log_state w0 l0 segs cur s" and "length cur < k" and "Suc (length segs) < 10 ^ 9" and "segments_ok k fl segs"
  shows "\<exists>s' segs' cur'. log_do sh True e s = Some s' \<and> log_state w0 l0 segs' cur' s' \<and> length cur' < k \<and>
    length segs' \<le> Suc (length segs) \<and> segments_ok k (fl \<or> e = Log_flush) segs' \<and>
    concat segs' @ cur' = concat segs @ cur @ op_lines [e]"
proof -
  obtain w l where s: "s = (w, l)" by (cases s)
  obtain mode where l: "l = l0\<lparr>lg_mode := mode, log_file_ptr := Some (log_file_name l0), current_row_count := of_nat (length cur),
      current_segment_no := of_nat (Suc (length segs))\<rparr>"
    using assms(6) by (auto simp: log_state_def s)
  have d: "files w (log_file_name l0) = Some (concat cur)"
    "tars w (archive_name l0) = (if segs = [] then tars w0 (archive_name l0) else Some (members (log_file_name l0) segs))"
    "remote w (remote_path l0) = (if segs = [] then remote w0 (remote_path l0)
       else Some (appended (remote w0 (remote_path l0)) (concat (concat segs))))"
    using assms(6) by (simp_all add: log_state_def s)
  show ?thesis
  proof (cases e)
    case Log_flush
    obtain t where t: "rotate_log sh True (w, l) = Some t" "log_state w0 l0 (segs @ [cur]) [] t"
      using rotate_state[OF assms(1,2,8) d l] by blast
    have "log_do sh True e s = Some t" using t(1) Log_flush by (simp add: flush_log_def s l)
    moreover have "segments_ok k True (segs @ [cur])" using assms(7,9) by (auto simp: segments_ok_def)
    ultimately show ?thesis using t(2) Log_flush assms(4)
      by (intro exI[of _ t] exI[of _ "segs @ [cur]"] exI[of _ "[]"]) simp
  next
    case (Log_write key val)
    let ?c = "cur @ [log_line key val]"
    let ?w = "w\<lparr>files := (files w)(log_file_name l0 \<mapsto> concat ?c)\<rparr>"
    let ?l = "l\<lparr>current_row_count := of_nat (length ?c)\<rparr>"
    have wd: "files ?w (log_file_name l0) = Some (concat ?c)"
      "tars ?w (archive_name l0) = (if segs = [] then tars w0 (archive_name l0) else Some (members (log_file_name l0) segs))"
      "remote ?w (remote_path l0) = (if segs = [] then remote w0 (remote_path l0)
         else Some (appended (remote w0 (remote_path l0)) (concat (concat segs))))"
      using d by simp_all
    have ll: "?l = l0\<lparr>lg_mode := mode, log_file_ptr := Some (log_file_name l0), current_row_count := of_nat (length ?c),
        current_segment_no := of_nat (Suc (length segs))\<rparr>"
      by (cases l0) (simp add: l)
    have do: "log_do sh True e s = (if length ?c = k then rotate_log sh True (?w, ?l) else Some (?w, ?l))"
      using log_write_do[OF assms(3,5,7) d(1) l, of sh True key val] by (simp add: s Log_write Let_def)
    show ?thesis
    proof (cases "length ?c = k")
      case True
      obtain t where t: "rotate_log sh True (?w, ?l) = Some t" "log_state w0 l0 (segs @ [?c]) [] t"
        using rotate_state[OF assms(1,2,8) wd ll] by blast
      have "segments_ok k (fl \<or> e = Log_flush) (segs @ [?c])" using assms(9) True by (auto simp: segments_ok_def)
      moreover have "log_do sh True e s = Some t" unfolding do using True t(1) by (simp only: if_True simp_thms)
      ultimately show ?thesis using t(2) Log_write assms(4)
        by (intro exI[of _ t] exI[of _ "segs @ [?c]"] exI[of _ "[]"]) simp
    next
      case False
      have "log_state w0 l0 segs ?c (?w, ?l)" using wd ll by (auto simp: log_state_def)
      moreover have "length ?c < k" using False assms(7) by simp
      ultimately show ?thesis using do False Log_write assms(9)
        by (intro exI[of _ "(?w, ?l)"] exI[of _ segs] exI[of _ ?c]) simp
    qed
  qed
qed

lemma op_lines_Cons: "op_lines (e # es) = op_lines [e] @ op_lines es"
  by (cases e) simp_all

lemma log_run_state:
  assumes "shell_ok sh" and "log_names_ok l0" and "check_point_row_count l0 = of_nat k" and "0 < k" and "k < 2 ^ 31"
    and "log_state w0 l0 segs cur s" and "length cur < k" and "length segs + length es < 10 ^ 9 - 1" and "segments_ok k fl segs"
  shows "\<exists>s' segs' cur'. log_run sh True es s = Some s' \<and> log_state w0 l0 segs' cur' s' \<and> length cur' < k \<and>
    length segs' \<le> length segs + length es \<and> segments_ok k (fl \<or> Log_flush \<in> set es) segs' \<and>
    concat segs' @ cur' = concat segs @ cur @ op_lines es"
  using assms(6-9)
proof (induction es arbitrary: s segs cur fl)
  case (Cons e es)
  obtain t segs1 cur1 where t: "log_do sh True e s = Some t" "log_state w0 l0 segs1 cur1 t" "length cur1 < k"
    "length segs1 \<le> Suc (length segs)" "segments_ok k (fl \<or> e = Log_flush) segs1" "concat segs1 @ cur1 = concat segs @ cur @ op_lines [e]"
    using log_do_state[OF assms(1-5) Cons.prems(1,2) _ Cons.prems(4), of e] Cons.prems(3) by auto
  have b: "length segs1 + length es < 10 ^ 9 - 1" using t(4) Cons.prems(3) by simp
  obtain s' segs' cur' where r: "log_run sh True es t = Some s'" "log_state w0 l0 segs' cur' s'" "length cur' < k"
    "length segs' \<le> length segs1 + length es" "segments_ok k ((fl \<or> e = Log_flush) \<or> Log_flush \<in> set es) segs'"
    "concat segs' @ cur' = concat segs1 @ cur1 @ op_lines es"
    using Cons.IH[OF t(2,3) b t(5)] by blast
  have "concat segs' @ cur' = concat segs @ cur @ op_lines (e # es)"
    using r(6) t(6) op_lines_Cons[of e es] by (metis append.assoc)
  moreover have "length segs' \<le> length segs + length (e # es)" using r(4) t(4) by simp
  moreover have "segments_ok k (fl \<or> Log_flush \<in> set (e # es)) segs'" using r(5) by (simp add: disj_ac eq_commute)
  ultimately show ?case using t(1) r(1-3) by (intro exI[of _ s'] exI[of _ segs'] exI[of _ cur']) simp
qed (auto intro: exI)

lemma Log_new_names:
  assumes "Log_new seq_no type ctype cstorage K monitor user host = Some l"
  shows "setLogFileName l = Some l" "current_segment_no l = 1" "log_file_ptr l = None" "monitor_user_name l = user"
    "monitor_host_name l = monitor" "remote_ftp_directory l = str ''/var/ftp/logs''"
  using assms unfolding name_set by (auto simp: Log_new_def Log_names_def setLogFileName_def setArchiveName_def split: bind_splits)

lemma plain_directory: "plain (str ''/var/ftp/logs'')"
  by (simp add: plain_def str_def is_digit_def)

text \<open>What is left when the log is destroyed.\<close>

lemma destroy_state:
  assumes "shell_ok sh" and "log_names_ok l0" and "log_state w0 l0 segs cur (w, l)" and "Suc (length segs) < 10 ^ 9" and "length cur < 2 ^ 31"
  shows "\<exists>s. destroy_log sh (w, l) = Some s \<and>
    appended (remote (fst s) (remote_path l0)) [] = appended (remote w0 (remote_path l0)) (concat (concat segs) @ concat cur)"
proof -
  let ?l = "l\<lparr>log_file_ptr := None\<rparr>"
  obtain mode where l: "l = l0\<lparr>lg_mode := mode, log_file_ptr := Some (log_file_name l0), current_row_count := of_nat (length cur),
      current_segment_no := of_nat (Suc (length segs))\<rparr>"
    using assms(3) by (auto simp: log_state_def)
  have d: "files w (log_file_name l0) = Some (concat cur)" "length segs = 0 \<or> tars w (archive_name l0) \<noteq> None"
    "appended (remote w (remote_path l0)) x = appended (remote w0 (remote_path l0)) (concat (concat segs) @ x)" for x
    using assms(3) by (auto simp: log_state_def appended_def split: if_splits)
  have f: "log_file_name ?l = log_file_name l0" "archive_name ?l = archive_name l0" "remote_path ?l = remote_path l0"
    "current_segment_no ?l = of_nat (Suc (length segs))" "log_names_ok ?l"
    using assms(2) unfolding l by (simp_all add: remote_path_def log_names_ok_def name_set)
  have c: "0 <s current_row_count ?l \<longleftrightarrow> cur \<noteq> []"
  proof -
    have "sint (of_nat (length cur) :: cint) = int (length cur)" using assms(5) by (intro sint_of_nat_small) simp
    then show ?thesis by (simp add: l word_sless_alt)
  qed
  note a = archive_moves[OF assms(1) f(5,4) assms(4), unfolded f(1,2), OF d(1,2), unfolded f(3)]
  show ?thesis
  proof (cases "cur = []")
    case True
    then show ?thesis using c d(3)[of "[]"] by (simp add: destroy_log_def Let_def)
  next
    case False
    then show ?thesis using c a d(3)[of "concat cur"] by (simp add: destroy_log_def Let_def) (simp add: appended_def)
  qed
qed

text \<open>
  C24. No line of a log is lost. After any writes and flushes of a log that has been opened, the lines written are, in order, those of the
  segments in the tar file followed by those in the file; no segment has more rows than the check point says, and all have just as
  many when nothing was flushed; the file of the monitor has been extended by the archived lines. When the log is destroyed the rest is
  sent as well. The shell commands must do what they are documented to do, files open, and there be fewer than 10^9 - 1 calls, the most
  that the buffer for the number of a segment allows.
\<close>

theorem log_keeps_lines:
  assumes "shell_ok sh" and "Log_new seq_no type ctype cstorage K monitor user host = Some l" and "plain monitor" and "plain user"
    and "plain (log_file_name l)" and "plain (archive_name l)" and "0 < k" and "k < 2 ^ 31" and "files w (log_file_name l) = None"
    and "length ops < 10 ^ 9 - 1"
  shows "\<exists>w' l' segs cur.
    Option.bind (open_log True (str ''a'') (w, l\<lparr>check_point_row_count := of_nat k\<rparr>)) (\<lambda>(_, s). log_run sh True ops s) = Some (w', l') \<and>
    op_lines ops = concat segs @ cur \<and> files w' (log_file_name l) = Some (concat cur) \<and>
    (segs \<noteq> [] \<longrightarrow> tars w' (archive_name l) = Some (members (log_file_name l) segs)) \<and>
    segments_ok k (Log_flush \<in> set ops) segs \<and> length cur < k \<and>
    appended (remote w' (remote_path l)) [] = appended (remote w (remote_path l)) (concat (concat segs)) \<and>
    (\<exists>s. destroy_log sh (w', l') = Some s \<and>
      appended (remote (fst s) (remote_path l)) [] = appended (remote w (remote_path l)) (concat (op_lines ops)))"
proof -
  let ?l0 = "l\<lparr>check_point_row_count := of_nat k\<rparr>"
  have n: "log_names_ok l" "current_segment_no l = 1" "log_file_ptr l = None"
    using Log_new_names[OF assms(2)] plain_directory assms(3-6) by (simp_all add: log_names_ok_def)
  have n0: "log_names_ok ?l0" using n(1) by (simp add: log_names_ok_def name_set)
  have f: "log_file_name ?l0 = log_file_name l" "archive_name ?l0 = archive_name l" "remote_path ?l0 = remote_path l"
    by (simp_all add: remote_path_def)
  have nm: "setLogFileName (?l0\<lparr>lg_mode := m\<rparr>) = Some (?l0\<lparr>lg_mode := m\<rparr>)" for m using n(1) by (simp add: log_names_ok_def name_set)
  obtain w1 l1 where o: "open_log True (str ''a'') (w, ?l0) = Some (1, w1, l1)" "log_state w ?l0 [] [] (w1, l1)"
  proof
    let ?l1 = "?l0\<lparr>lg_mode := str ''a'', log_file_ptr := Some (log_file_name l), current_row_count := 0\<rparr>"
    have "?l1 = ?l0\<lparr>lg_mode := str ''a'', log_file_ptr := Some (log_file_name l), current_row_count := 0, current_segment_no := 1\<rparr>"
      using n(2) by (cases l) simp
    then show "log_state w ?l0 [] [] (w\<lparr>files := (files w)(log_file_name l \<mapsto> [])\<rparr>, ?l1)"
      by (auto simp: log_state_def f)
    show "open_log True (str ''a'') (w, ?l0) = Some (1, w\<lparr>files := (files w)(log_file_name l \<mapsto> [])\<rparr>, ?l1)"
      using n(3) assms(9) nm by (simp add: open_log_def Let_def appended_def)
  qed
  have k0: "check_point_row_count ?l0 = of_nat k" "length ([] :: cstring list) < k" "length ([] :: cstring list list) + length ops < 10 ^ 9 - 1"
    "segments_ok k False []"
    using assms(7,10) by (simp_all add: segments_ok_def)
  obtain s segs cur where s: "log_run sh True ops (w1, l1) = Some s" "log_state w ?l0 segs cur s" "length cur < k"
    "length segs \<le> length ([] :: cstring list list) + length ops" "segments_ok k (False \<or> Log_flush \<in> set ops) segs"
    "concat segs @ cur = concat [] @ [] @ op_lines ops"
    using log_run_state[OF assms(1) n0 k0(1) assms(7,8) o(2) k0(2-4)] by blast
  obtain w' l' where wl: "s = (w', l')" by (cases s)
  have lines: "op_lines ops = concat segs @ cur" using s(6) by simp
  have b: "Suc (length segs) < 10 ^ 9" "length cur < 2 ^ 31" using s(3,4) assms(8,10) by simp_all
  note e = destroy_state[OF assms(1) n0 s(2)[unfolded wl] b, unfolded f]
  have r: "appended (remote w' (remote_path l)) [] = appended (remote w (remote_path l)) (concat (concat segs))"
    using s(2) wl by (auto simp: log_state_def f appended_def)
  show ?thesis
    using o(1) s(1-3,5) wl lines e r
    by (intro exI[of _ w'] exI[of _ l'] exI[of _ segs] exI[of _ cur]) (auto simp: log_state_def f)
qed

text \<open>A shell that knows these commands.\<close>

fun split_at :: "byte \<Rightarrow> cstring \<Rightarrow> cstring list" where
  "split_at b [] = [[]]"
| "split_at b (c # cs) = (if c = b then [] # split_at b cs else case split_at b cs of w # ws \<Rightarrow> (c # w) # ws | [] \<Rightarrow> [])"

lemma split_at_cons: "\<exists>w ws. split_at b s = w # ws"
  by (induction s) auto

lemma split_at_plain: "plain a \<Longrightarrow> split_at 32 (a @ s) = (case split_at 32 s of w # ws \<Rightarrow> (a @ w) # ws | [] \<Rightarrow> [])"
proof -
  have "32 \<notin> set a \<Longrightarrow> split_at 32 (a @ s) = (case split_at 32 s of w # ws \<Rightarrow> (a @ w) # ws | [] \<Rightarrow> [])"
    using split_at_cons[of 32 s] by (induction a) auto
  moreover assume "plain a"
  then have "32 \<notin> set a" by (auto simp: plain_def is_digit_def str_def)
  ultimately show ?thesis by blast
qed

lemma split_at_plain_end: "plain a \<Longrightarrow> split_at 32 a = [a]"
  using split_at_plain[of a "[]"] by simp

definition example_shell :: shell where
  "example_shell cmd w =
     (case split_at 32 cmd of
        [c, a] \<Rightarrow> if c = str ''rm'' then Some (w\<lparr>files := (files w)(a := None)\<rparr>) else None
      | [c, a, b] \<Rightarrow> if c = str ''mv'' then map_option (\<lambda>x. w\<lparr>files := (files w)(a := None, b \<mapsto> x)\<rparr>) (files w a) else None
      | [c, m, t, a] \<Rightarrow>
          if c = str ''tar''
          then map_option (\<lambda>x. w\<lparr>tars := (tars w)(t \<mapsto> (if m = str ''-cf'' then [] else the (tars w t)) @ [(a, x)])\<rparr>) (files w a)
          else None
      | [c, a, _, _, _, _, login, _, _, _, dest] \<Rightarrow>
          map_option (\<lambda>x. w\<lparr>remote := (remote w)((login, butlast dest) \<mapsto> appended (remote w (login, butlast dest)) x)\<rparr>) (files w a)
      | _ \<Rightarrow> None)"

lemma example_shell_ok: "shell_ok example_shell"
  unfolding shell_ok_def
proof (intro conjI)
  show "mv_ok example_shell"
    by (simp add: mv_ok_def example_shell_def mv_command_def str_def split_at_plain split_at_plain_end)
  show "rm_ok example_shell"
    by (simp add: rm_ok_def example_shell_def rm_command_def str_def split_at_plain_end)
  show "tar_ok example_shell"
    by (simp add: tar_ok_def example_shell_def tar_command_def str_def split_at_plain split_at_plain_end)
  show "upload_ok example_shell"
    by (simp add: upload_ok_def example_shell_def upload_command_def str_def split_at_plain butlast_append Let_def)
qed

lemma log_keeps_lines_witness:
  "\<exists>l w' l' segs cur. Log_new 7 (str ''get'') (str ''reactive'') (str ''path'') 12 (str ''cn101'') (str ''pweb'') (str ''h'') = Some l \<and>
    Option.bind (open_log True (str ''a'') (\<lparr>files = Map.empty, tars = Map.empty, remote = Map.empty\<rparr>, l\<lparr>check_point_row_count := of_nat 2\<rparr>))
      (\<lambda>(_, s). log_run example_shell True [Log_write [97] [98], Log_write [99] [], Log_write [100] [101]] s) = Some (w', l') \<and>
    concat segs @ cur = [[97, 32, 98, 10], [99, 32, 10], [100, 32, 101, 10]] \<and> segments_ok 2 False segs \<and> length cur < 2"
proof -
  let ?new = "Log_new 7 (str ''get'') (str ''reactive'') (str ''path'') 12 (str ''cn101'') (str ''pweb'') (str ''h'')"
  let ?ops = "[Log_write [97] [98], Log_write [99] [], Log_write [100] [101]]"
  obtain l where l: "?new = Some l" "plain (log_file_name l)" "plain (archive_name l)"
    by (simp add: Log_new_def Log_names_def setLogFileName_def setArchiveName_def sprintf_int_def print_int_def print_nat.simps
        Log_default_def plain_def str_def is_digit_def)
  have p: "plain (str ''cn101'')" "plain (str ''pweb'')" by (simp_all add: plain_def str_def is_digit_def)
  have w: "files \<lparr>files = Map.empty, tars = Map.empty, remote = Map.empty\<rparr> (log_file_name l) = None" by simp
  have o: "op_lines ?ops = [[97, 32, 98, 10], [99, 32, 10], [100, 32, 101, 10]]" by (simp add: log_line_def str_def)
  from log_keeps_lines[OF example_shell_ok l(1) p l(2,3) _ _ w, of 2 ?ops] obtain w' l' segs cur where
    "Option.bind (open_log True (str ''a'') (\<lparr>files = Map.empty, tars = Map.empty, remote = Map.empty\<rparr>, l\<lparr>check_point_row_count := of_nat 2\<rparr>))
      (\<lambda>(_, s). log_run example_shell True ?ops s) = Some (w', l')" "op_lines ?ops = concat segs @ cur"
    "segments_ok 2 (Log_flush \<in> set ?ops) segs" "length cur < 2" by force
  then show ?thesis using l(1) o by (intro exI[of _ l] exI[of _ w'] exI[of _ l'] exI[of _ segs] exI[of _ cur]) simp
qed

end
