(* ===== verification/Bootstrap.thy ===== *)
theory Bootstrap
  imports Build_Tree Configuration Log_File Codes Processing "HOL-Library.Signed_Division"
begin

text \<open>
  The central program, \<^verbatim>\<open>client_system_test.cc\<close>: it reads the configuration, the host list and the list of monitors,
  builds the overlay and sends each peer an INIT message with its id, its routing table and its share of the names. The host list is
  read by \<open>Build_Tree\<close>; connecting to a peer is a parameter, and what is sent is returned.
  Then it carries out the commands that are typed, and prints the answers to its requests.
\<close>

section \<open>The files\<close>

definition is_space :: "byte \<Rightarrow> bool" where
  "is_space c \<longleftrightarrow> c = 32 \<or> 9 \<le> c \<and> c \<le> 13"

text \<open>
  \<^verbatim>\<open>fscanf\<close> with \<^verbatim>\<open>%s\<close>, a number of times, into an array of 300 characters: at the end of the file the array keeps the word before.
\<close>

fun scan_words :: "nat \<Rightarrow> cstring \<Rightarrow> cstring option \<Rightarrow> cstring list option" where
  "scan_words 0 s name = Some []"
| "scan_words (Suc n) s name =
     (let s = dropWhile is_space s; w = takeWhile (\<lambda>c. \<not> is_space c) s in
      if s = [] then Option.bind name (\<lambda>w. map_option ((#) (takeWhile (\<lambda>c. c \<noteq> 0) w)) (scan_words n [] name))
      else if 300 \<le> length w then None
      else map_option ((#) (takeWhile (\<lambda>c. c \<noteq> 0) w)) (scan_words n (drop (length w) s) (Some w)))"

text \<open>What follows the number that \<^verbatim>\<open>%d\<close> has read.\<close>

definition after_number :: "cstring \<Rightarrow> cstring" where
  "after_number s =
     (let s = dropWhile is_space s in
      dropWhile is_digit (case s of [] \<Rightarrow> [] | c # cs \<Rightarrow> if c = 43 \<or> c = 45 then cs else s))"

text \<open>
  A file that cannot be opened is read through a null pointer, a number that is missing is not set, and one below zero
  is counted down until it overflows.
\<close>

definition loadMonitors :: "cstring option \<Rightarrow> cstring list \<Rightarrow> cstring list option" where
  "loadMonitors file servers =
     Option.bind file (\<lambda>s.
       if \<not> starts_number s \<or> sint (atoi s) < 0 then None
       else map_option (\<lambda>ws. servers @ ws) (scan_words (nat (sint (atoi s))) (after_number s) None))"

definition getLogServer :: "cstring list \<Rightarrow> nat \<Rightarrow> cstring option" where
  "getLogServer servers node_index = (if servers = [] then None else Some (servers ! (node_index mod length servers)))"

text \<open>The number of the run, and the file afterwards: the number is written over the first characters.\<close>

definition getRunSequenceNo :: "cstring option \<Rightarrow> (cint \<times> cstring) option" where
  "getRunSequenceNo file =
     (case file of
        None \<Rightarrow> Some (0, print_int 0 @ [10])
      | Some s \<Rightarrow>
          let old = (if starts_number s then atoi s else 0) in
          if old = 0x7FFFFFFF then None
          else Some (old + 1, print_int (old + 1) @ drop (length (print_int (old + 1))) s))"

section \<open>Messages to the peers\<close>

text \<open>The names that a peer publishes and looks up, from the first to the last.\<close>

definition name_range :: "cint \<Rightarrow> cint \<Rightarrow> nat \<Rightarrow> cint \<times> cint" where
  "name_range names n i =
     (let name_interval = word_of_int (sint names sdiv sint n) in
      (name_interval * of_nat i,
       if of_nat i <s n - 1 then name_interval * (of_nat i + 1) - 1 else names - 1))"

record init_settings =
  is_k :: cint
  is_alpha :: clong
  is_names :: cint
  is_user :: cstring
  is_servers :: "cstring list"
  is_run :: cint

text \<open>The setters, on a new message.\<close>

definition init_message :: "init_settings \<Rightarrow> BuildTree \<Rightarrow> nat \<Rightarrow> cstring \<Rightarrow> cint \<Rightarrow> PeerInitMessage \<Rightarrow> PeerInitMessage" where
  "init_message c t i log_server port m =
     m\<lparr>dest_host := hostName (hAddArray t ! i), dest_port := hostPort (hAddArray t ! i), dst_oid := idArray t ! i,
       pi_n_peers := treeSize t, pi_k := is_k c, pi_alpha := is_alpha c, pi_routing_table := rtArray t ! i,
       pi_run_sequence_no := is_run c, pi_log_server_name := log_server, pi_log_server_user := is_user c,
       pi_peer_name := aliasArray t ! i,
       pi_publish_start := fst (name_range (is_names c) (treeSize t) i), pi_publish_end := snd (name_range (is_names c) (treeSize t) i),
       pi_lookup_start := fst (name_range (is_names c) (treeSize t) i), pi_lookup_end := snd (name_range (is_names c) (treeSize t) i),
       pi_webserver_port := port\<rparr>"

text \<open>
  The loop over the peers: \<open>up\<close> says which can be connected to, \<open>raw\<close> is the memory of a new message, \<open>cow\<close> whether strings
  share their buffers. The ports of the web servers are counted for the peers that are reached.
\<close>

fun send_init_loop ::
    "(nat \<Rightarrow> bool) \<Rightarrow> (nat \<Rightarrow> PeerInitMessage) \<Rightarrow> bool \<Rightarrow> init_settings \<Rightarrow> BuildTree \<Rightarrow> nat list \<Rightarrow> cint \<Rightarrow> cint \<Rightarrow>
     (cint \<times> (nat \<times> HostAddress \<times> buffer) list) option" where
  "send_init_loop up raw cow c t [] port gen = Some (gen, [])"
| "send_init_loop up raw cow c t (i # is) port gen =
     (if \<not> up i then send_init_loop up raw cow c t is port gen
      else
        let (gen, m) = PeerInitMessage_new 0 gen (raw i) in
        Option.bind (getLogServer (is_servers c) i) (\<lambda>log_server.
        Option.bind (PeerInitMessage_serialize cow (init_message c t i log_server port m)) (\<lambda>b.
        Option.bind (send_init_loop up raw cow c t is (port + 1) gen) (\<lambda>(gen, sent).
          Some (gen, (i, hAddArray t ! i, b) # sent)))))"

text \<open>\<open>central\<close> are the statics of the program: the monitors read so far, the generator of sequence numbers, and the disk.\<close>

record central =
  log_servers :: "cstring list"
  generator :: cint
  disk_files :: "cstring \<rightharpoonup> cstring"

definition send_init_message ::
    "(nat \<Rightarrow> bool) \<Rightarrow> (nat \<Rightarrow> PeerInitMessage) \<Rightarrow> bool \<Rightarrow> configuration \<Rightarrow> BuildTree \<Rightarrow> cint \<Rightarrow> central \<Rightarrow>
     (central \<times> (nat \<times> HostAddress \<times> buffer) list) option" where
  "send_init_message up raw cow conf t names s =
     Option.bind (getRunSequenceNo (disk_files s (seq_file_path conf))) (\<lambda>(seq_no, text).
     let s = s\<lparr>disk_files := (disk_files s)(seq_file_path conf \<mapsto> text)\<rparr> in
     Option.bind (loadMonitors (disk_files s (monitors_file_path conf)) (log_servers s)) (\<lambda>servers.
     Option.bind (conf_K conf) (\<lambda>k. Option.bind (conf_alpha conf) (\<lambda>alpha.
     Option.bind
       (send_init_loop up raw cow
         \<lparr>is_k = k, is_alpha = alpha, is_names = names, is_user = log_server_user_name conf, is_servers = servers, is_run = seq_no\<rparr>
         t [0..<nat (sint (treeSize t))] 8080 (generator s)) (\<lambda>(gen, sent).
       Some (s\<lparr>log_servers := servers, generator := gen\<rparr>, sent))))))"

text \<open>A message without further fields, to each peer that can be reached.\<close>

fun send_message_to_all_peers ::
    "(nat \<Rightarrow> bool) \<Rightarrow> nat \<Rightarrow> message \<Rightarrow> BuildTree \<Rightarrow> nat list \<Rightarrow> (nat \<times> HostAddress \<times> buffer) list option" where
  "send_message_to_all_peers up rv msg t [] = Some []"
| "send_message_to_all_peers up rv msg t (i # is) =
     (let msg = on_base (\<lambda>m. m\<lparr>dst_oid := idArray t ! i\<rparr>) msg in
      if \<not> up i then send_message_to_all_peers up rv msg t is
      else Option.bind (serialize True rv msg) (\<lambda>b.
        map_option ((#) (i, hAddArray t ! i, b)) (send_message_to_all_peers up rv msg t is)))"

section \<open>The start\<close>

text \<open>The lines \<^verbatim>\<open>getline\<close> reads.\<close>

function file_lines :: "cstring \<Rightarrow> cstring list" where
  "file_lines s =
     (if s = [] then [] else takeWhile (\<lambda>c. c \<noteq> 10) s # file_lines (drop (Suc (length (takeWhile (\<lambda>c. c \<noteq> 10) s))) s))"
  by pat_completeness auto

termination file_lines
  by (relation "measure length") auto

declare file_lines.simps [simp del]

definition central_main ::
    "(cstring \<Rightarrow> clong) \<Rightarrow> cstring \<Rightarrow> (nat \<Rightarrow> bool) \<Rightarrow> (nat \<Rightarrow> PeerInitMessage) \<Rightarrow> bool \<Rightarrow> central \<Rightarrow>
     (BuildTree \<times> central \<times> (nat \<times> HostAddress \<times> buffer) list) option" where
  "central_main atof config_file up raw cow s =
     Option.bind (Configuration_file atof (disk_files s config_file)) (\<lambda>conf.
     Option.bind (name_count conf) (\<lambda>names.
     Option.bind (disk_files s (nodes_file_path conf)) (\<lambda>hosts.
     Option.bind (execute GolayCode_K (file_lines hosts)) (\<lambda>t.
     map_option (Pair t) (send_init_message up raw cow conf t names s)))))"

section \<open>Commands\<close>

text \<open>\<^verbatim>\<open>strtok\<close> until the end of the string.\<close>

fun strtok_all :: "byte \<Rightarrow> cstring \<Rightarrow> cstring \<Rightarrow> cstring list" where
  "strtok_all d acc [] = (if acc = [] then [] else [acc])"
| "strtok_all d acc (c # cs) =
     (if c = d then (if acc = [] then [] else [acc]) @ strtok_all d [] cs else strtok_all d (acc @ [c]) cs)"

text \<open>
  What a command does: it ends the program, or changes the state; messages go to the peers, and that of a request is given
  to \<^verbatim>\<open>send_message\<close>. The peer of the program and its protocol are \<open>p\<close>; they share the generator of sequence numbers.
\<close>

datatype 's command_result =
  Leave
| Ready central "'s Plexus" "(nat \<times> HostAddress \<times> buffer) list" "message option"

definition client_request ::
    "('s Plexus \<Rightarrow> (message \<times> 's Plexus) option) \<Rightarrow> central \<Rightarrow> 's Plexus \<Rightarrow> 's command_result option" where
  "client_request request s p =
     map_option (\<lambda>(m, p). Ready (s\<lparr>generator := sequence_no_generator p\<rparr>) p [] (Some m))
       (request (p\<lparr>sequence_no_generator := generator s\<rparr>))"

definition control_command ::
    "(nat \<Rightarrow> bool) \<Rightarrow> nat \<Rightarrow> BuildTree \<Rightarrow> (ABSMessage \<Rightarrow> message) \<Rightarrow> cint \<times> ABSMessage \<Rightarrow> central \<Rightarrow> 's Plexus \<Rightarrow>
     's command_result option" where
  "control_command up rv t wrap new s p =
     map_option (\<lambda>sent. Ready (s\<lparr>generator := fst new\<rparr>) p sent None)
       (send_message_to_all_peers up rv (wrap (snd new)) t [0..<nat (sint (treeSize t))])"

text \<open>The peer a request is sent to, from the random number \<open>r\<close>.\<close>

definition random_host :: "BuildTree \<Rightarrow> nat \<Rightarrow> HostAddress" where
  "random_host t r = hAddArray t ! (r mod nat (sint (treeSize t)))"

text \<open>
  A line of input; one of 1000 characters overruns the array, and one without a word gives \<^verbatim>\<open>strcmp\<close> a null pointer. The address
  of a \<^verbatim>\<open>put\<close> is split at colons.
\<close>

definition central_command ::
    "(nat \<Rightarrow> bool) \<Rightarrow> (nat \<Rightarrow> PeerInitMessage) \<Rightarrow> bool \<Rightarrow> nat \<Rightarrow> ABSMessage \<Rightarrow> 's env \<Rightarrow> configuration \<Rightarrow> BuildTree \<Rightarrow> cint \<Rightarrow> nat \<Rightarrow>
     cstring \<Rightarrow> central \<Rightarrow> 's Plexus \<Rightarrow> 's command_result option" where
  "central_command up raw cow rv raw_message env conf t names r input s p =
     (if 1000 \<le> length input then None else
      case strtok_all 32 [] (takeWhile (\<lambda>c. c \<noteq> 0) input) of
        [] \<Rightarrow> None
      | command # args \<Rightarrow>
          if command \<in> {str ''exit'', str ''bye'', str ''quit''} then Some Leave
          else if command = str ''put'' then
            (case args of
               [] \<Rightarrow> Some (Ready s p [] None)
             | [name] \<Rightarrow>
                 client_request (put_from_client env name (HostAddress_new (str ''dummy_host'') 11111) (random_host t r)) s p
             | name # address # _ \<Rightarrow>
                 (case strtok_all 58 [] address of
                    hostname # port # _ \<Rightarrow>
                      client_request (put_from_client env name (HostAddress_new hostname (atoi port)) (random_host t r)) s p
                  | _ \<Rightarrow> Some (Ready s p [] None)))
          else if command = str ''get'' then
            (case args of
               [] \<Rightarrow> Some (Ready s p [] None)
             | name # _ \<Rightarrow> client_request (get_from_client env name (random_host t r)) s p)
          else if command \<in> {str ''init'', str ''INIT''} then
            map_option (\<lambda>(s, sent). Ready s p sent None) (send_init_message up raw cow conf t names s)
          else if command \<in> {str ''publish'', str ''pub''} then
            control_command up rv t Msg_GEN_NAME (PeerStartGenNameMessage_new 0 (generator s) raw_message) s p
          else if command \<in> {str ''lookup'', str ''lkp''} then
            control_command up rv t Msg_LOOKUP_NAME (PeerStartLookupNameMessage_new 0 (generator s) raw_message) s p
          else if command \<in> {str ''force'', str ''flush''} then
            control_command up rv t Msg_FORCE_LOG (ABSMessage_type 0 MSG_PEER_FORCE_LOG (generator s) raw_message) s p
          else Some (Ready s p [] None))"

text \<open>The thread that listens: what it prints of a connection, the address in a GET_REPLY.\<close>

definition central_receives :: "cint \<Rightarrow> MessageGET_REPLY \<Rightarrow> buffer \<Rightarrow> (cint \<times> HostAddress option) option" where
  "central_receives gen raw buffer =
     (if buffer = [] then Some (gen, None)
      else Option.bind (rd_char buffer) (\<lambda>(messageType, _).
        if messageType = MSG_PLEXUS_GET_REPLY then
          let (gen, m) = ABSMessage_INIT 0 gen raw in
          map_option (\<lambda>m. (gen, Some (gr_host_address m))) (MessageGET_REPLY_deserialize buffer m)
        else Some (gen, None)))"

end
