(* ===== verification/Bootstrap_Behaviour.thy ===== *)
theory Bootstrap_Behaviour
  imports Bootstrap Overlay_Tree Peer_Safety
begin

text \<open>
  From the configuration to the overlay: every peer is sent what makes it the peer of the tree that it is meant to be, and every name
  is the share of one of them.
\<close>

section \<open>What the messages carry\<close>

lemma pattern_int_key: "pattern K p \<Longrightarrow> K \<le> 31 \<Longrightarrow> int_key p"
proof -
  assume p: "pattern K p" "K \<le> 31"
  have b: "\<not> bit (overlay_id p) i" if "31 \<le> i" for i using p that by (auto simp: pattern_def fits_def)
  have "(scast (ucast (overlay_id p) :: cint) :: clong) = overlay_id p"
    by (rule bit_word_eqI) (auto simp: bit_signed_iff bit_unsigned_iff b min_def)
  then show "int_key p" by (simp add: int_key_def GetOverlay_id_def)
qed

lemma token_chars: "t \<in> set (tokens s) \<Longrightarrow> set t \<subseteq> set s \<and> length t \<le> length s"
proof (induction s rule: tokens.induct)
  case (1 s)
  let ?s = "dropWhile (\<lambda>c. c = 32 \<or> c = 10) s"
  let ?r = "dropWhile (\<lambda>c. c \<noteq> 32 \<and> c \<noteq> 10) ?s"
  have d: "set ?s \<subseteq> set s" "length ?s \<le> length s" "set ?r \<subseteq> set s" "length ?r \<le> length s"
    using length_dropWhile_le[of "\<lambda>c. c = 32 \<or> c = 10" s] length_dropWhile_le[of "\<lambda>c. c \<noteq> 32 \<and> c \<noteq> 10" ?s]
    by (auto dest!: set_dropWhileD)
  show ?case
  proof (cases "?s = []")
    case True
    with 1(2) show ?thesis by (simp add: tokens.simps[of s])
  next
    case False
    then have "t = takeWhile (\<lambda>c. c \<noteq> 32 \<and> c \<noteq> 10) ?s \<or> t \<in> set (tokens ?r)"
      using 1(2) unfolding tokens.simps[of s] Let_def by (simp only: if_False set_simps insert_iff)
    then show ?thesis
    proof
      assume "t = takeWhile (\<lambda>c. c \<noteq> 32 \<and> c \<noteq> 10) ?s"
      then show ?thesis using d(1,2) length_takeWhile_le[of "\<lambda>c. c \<noteq> 32 \<and> c \<noteq> 10" ?s] by (auto dest!: set_takeWhileD)
    next
      assume "t \<in> set (tokens ?r)"
      with 1(1)[OF refl False] d show ?thesis by fastforce
    qed
  qed
qed

definition text_ok :: "cstring \<Rightarrow> bool" where
  "text_ok s \<longleftrightarrow> string_ok s \<and> 0 \<notin> set s"

lemma parse_line_ok:
  assumes "parse_line line = Some (ha, alias)"
  shows "string_ok (hostName ha)" and "text_ok alias"
proof -
  let ?l = "takeWhile (\<lambda>c. c \<noteq> 0) line"
  have l: "length line < 400" using assms by (auto simp: parse_line_def split: if_splits)
  have c: "text_ok t" if "t \<in> set (tokens ?l)" for t
    using token_chars[OF that] l length_takeWhile_le[of "\<lambda>c. c \<noteq> 0" line] by (auto simp: text_ok_def string_ok_def dest!: set_takeWhileD)
  obtain host port ip rest where t: "tokens ?l = host # port # ip # alias # rest" "ha = HostAddress_new host (atoi port)"
    using assms by (auto simp: parse_line_def split: if_splits list.splits)
  show "string_ok (hostName ha)" "text_ok alias" using c t by (simp_all add: HostAddress_new_def text_ok_def)
qed

lemma scan_words_ok:
  assumes "scan_words n s name = Some ws" and "\<And>w. name = Some w \<Longrightarrow> length w < 300"
  shows "length ws = n \<and> (\<forall>w\<in>set ws. text_ok w)"
  using assms
proof (induction n arbitrary: s name ws)
  case (Suc n)
  let ?s = "dropWhile is_space s"
  let ?w = "takeWhile (\<lambda>c. \<not> is_space c) ?s"
  have ok: "text_ok (takeWhile (\<lambda>c. c \<noteq> 0) w)" if "length w < 300" for w :: cstring
    using that length_takeWhile_le[of "\<lambda>c. c \<noteq> 0" w] by (auto simp: text_ok_def string_ok_def dest: set_takeWhileD)
  show ?case
  proof (cases "?s = []")
    case True
    then obtain w ws' where "name = Some w" "scan_words n [] name = Some ws'" "ws = takeWhile (\<lambda>c. c \<noteq> 0) w # ws'"
      using Suc.prems(1) by (auto simp: Let_def split: bind_splits)
    with Suc.IH[of "[]" name ws'] Suc.prems(2) ok show ?thesis by auto
  next
    case False
    then obtain ws' where w: "length ?w < 300" "scan_words n (drop (length ?w) ?s) (Some ?w) = Some ws'"
      "ws = takeWhile (\<lambda>c. c \<noteq> 0) ?w # ws'"
      using Suc.prems(1) by (auto simp: Let_def split: if_splits)
    with Suc.IH[OF w(2)] ok[OF w(1)] show ?thesis by auto
  qed
qed simp

section \<open>The shares of the names\<close>

lemma div_bounds:
  assumes "0 < (q :: int)"
  shows "q * (x div q) \<le> x" and "x < q * (x div q + 1)"
proof -
  have "q * (x div q) + x mod q = x" by simp
  with pos_mod_sign[OF assms, of x] pos_mod_bound[OF assms, of x]
  show "q * (x div q) \<le> x" "x < q * (x div q + 1)" unfolding distrib_left mult_1_right by linarith+
qed

lemma sint_word_of_int_small: "- (2 ^ 31) \<le> x \<Longrightarrow> x < 2 ^ 31 \<Longrightarrow> sint (word_of_int x :: cint) = x"
  by (simp add: signed_of_int signed_take_bit_int_eq_self)

lemma name_range_values:
  assumes "0 \<le> sint names" and "0 < n" and "n < 2 ^ 31" and "i < n"
  shows "sint (fst (name_range names (of_nat n) i)) = sint names div int n * int i"
    and "sint (snd (name_range names (of_nat n) i)) =
      (if i < n - 1 then sint names div int n * (int i + 1) - 1 else sint names - 1)"
proof -
  let ?q = "sint names div int n"
  have N: "sint names < 2 ^ 31" using sint_lt[of names] by simp
  have n: "sint (of_nat n :: cint) = int n" "sint (of_nat i :: cint) = int i" "sint (of_nat n - 1 :: cint) = int n - 1"
    using assms(2-4) sint_of_nat_small[of n] sint_of_nat_small[of i] sint_of_nat_small[of "n - 1"]
    by (auto simp: of_nat_diff)
  have q: "sint names sdiv int n = ?q" "0 \<le> ?q" using assms(1,2) by (auto simp: signed_divide_int_def sgn_if pos_imp_zdiv_nonneg_iff)
  have b: "?q * int j \<le> sint names" if "j \<le> n" for j
  proof -
    have "?q * int j \<le> ?q * int n" using q(2) that by (intro mult_left_mono) auto
    also have "\<dots> \<le> sint names" using div_bounds(1)[of "int n" "sint names"] assms(2) by (simp add: mult.commute)
    finally show ?thesis .
  qed
  have w: "word_of_int ?q * of_nat j = (word_of_int (?q * int j) :: cint)" for j by simp
  have s: "sint (word_of_int ?q * of_nat j :: cint) = ?q * int j" if "j \<le> n" for j
  proof -
    have "0 \<le> ?q * int j" using q(2) by simp
    then show ?thesis unfolding w using b[OF that] N by (intro sint_word_of_int_small) simp_all
  qed
  show "sint (fst (name_range names (of_nat n) i)) = ?q * int i"
    using s[of i] assms(4) by (simp add: name_range_def n(1) q(1) Let_def)
  have e: "sint (word_of_int ?q * (of_nat i + 1) - 1 :: cint) = ?q * (int i + 1) - 1"
  proof -
    have "word_of_int ?q * (of_nat i + 1) - 1 = (word_of_int (?q * (int i + 1) - 1) :: cint)" by simp
    moreover have "0 \<le> ?q * (int i + 1)" "?q * (int i + 1) \<le> sint names" using q(2) b[of "Suc i"] assms(4) by (simp_all add: add.commute)
    ultimately show ?thesis using N by (simp only:) (rule sint_word_of_int_small; linarith)
  qed
  have l: "sint (names - 1) = sint names - 1"
  proof -
    have "names - 1 = word_of_int (sint names - 1)" by simp
    then show ?thesis using assms(1) N by (simp only:) (rule sint_word_of_int_small; linarith)
  qed
  have c: "of_nat i <s (of_nat n - 1 :: cint) \<longleftrightarrow> i < n - 1" using assms(2) by (auto simp: word_sless_alt n)
  show "sint (snd (name_range names (of_nat n) i)) = (if i < n - 1 then ?q * (int i + 1) - 1 else sint names - 1)"
    using e l c by (simp add: name_range_def n(1) q(1) Let_def)
qed

lemma name_range_partition:
  assumes "0 \<le> sint names" and "0 < n" and "n < 2 ^ 31" and "0 \<le> x" and "x < sint names"
  shows "\<exists>!i. i < n \<and> sint (fst (name_range names (of_nat n) i)) \<le> x \<and> x \<le> sint (snd (name_range names (of_nat n) i))"
proof -
  let ?q = "sint names div int n"
  have q: "0 \<le> ?q" using assms(1,2) by (simp add: pos_imp_zdiv_nonneg_iff)
  let ?in = "\<lambda>i. i < n \<and> ?q * int i \<le> x \<and> x \<le> (if i < n - 1 then ?q * (int i + 1) - 1 else sint names - 1)"
  have "\<exists>i. ?in i"
  proof (cases "?q * int (n - 1) \<le> x")
    case True
    then show ?thesis using assms(2,5) by (intro exI[of _ "n - 1"]) auto
  next
    case False
    then have p: "0 < ?q" using q assms(4) by (cases "?q = 0") auto
    let ?i = "nat (x div ?q)"
    have i: "int ?i = x div ?q" using assms(4) p by (simp add: pos_imp_zdiv_nonneg_iff)
    have m: "?q * (x div ?q) \<le> x" "x < ?q * (x div ?q + 1)"
      using div_bounds[OF p] by blast+
    have "?q * (x div ?q) < ?q * int (n - 1)" using m(1) False by (meson le_less_trans not_le)
    then have "x div ?q < int (n - 1)" using mult_less_cancel_left_pos[OF p] by blast
    then have "?i < n - 1" using i by linarith
    then show ?thesis using m i by (intro exI[of _ ?i]) auto
  qed
  moreover have "i = j" if "?in i" "?in j" for i j
  proof -
    have no: False if "i < j" "?in i" "?in j" for i j
    proof -
      have "x \<le> ?q * (int i + 1) - 1" using that by (auto split: if_splits)
      also have "?q * (int i + 1) \<le> ?q * int j" using q that(1) by (intro mult_left_mono) auto
      finally show False using that(3) by linarith
    qed
    show ?thesis using no[of i j] no[of j i] that by (cases i j rule: linorder_cases) auto
  qed
  ultimately have "\<exists>!i. ?in i" by blast
  moreover have "?in i \<longleftrightarrow> i < n \<and> sint (fst (name_range names (of_nat n) i)) \<le> x \<and> x \<le> sint (snd (name_range names (of_nat n) i))" for i
    using name_range_values[OF assms(1-3), of i] by auto
  ultimately show ?thesis by simp
qed

section \<open>The messages arrive\<close>

lemma wf_distinct: "oid.wf_table t \<Longrightarrow> distinct t"
  by (induction t) (auto simp: oid.wf_Cons oid.lt_irrefl)

lemma peers_table_entries:
  assumes n: "2 \<le> n" "ceil_log2 n \<le> K" "K \<le> 31" and rt: "peers_table K n ha A rt" and A: "A \<subseteq> {..<n}"
    and h: "\<And>i. i < n \<Longrightarrow> string_ok (hostName (ha i))"
  shows "list_all Control_Messages.entry_ok rt" and "length rt \<le> n"
proof -
  have e: "\<exists>k<n. e = (leaf_id K n k, ha k)" if "e \<in> set rt" for e
    using rt A that unfolding peers_table_def by fastforce
  show "list_all Control_Messages.entry_ok rt"
    unfolding list_all_iff
  proof
    fix e assume "e \<in> set rt"
    then obtain k where "k < n" "e = (leaf_id K n k, ha k)" using e by blast
    then show "Control_Messages.entry_ok e"
      using h[of k] pattern_int_key[OF leaf_pattern_ok[OF n, of k] n(3)] by (simp add: Control_Messages.entry_ok_def)
  qed
  have "distinct rt" using rt wf_distinct[of rt] unfolding peers_table_def by blast
  moreover have "set rt \<subseteq> (\<lambda>k. (leaf_id K n k, ha k)) ` {..<n}" using e by auto
  then have "card (set rt) \<le> n" using card_mono[of "(\<lambda>k. (leaf_id K n k, ha k)) ` {..<n}" "set rt"]
      card_image_le[of "{..<n}" "\<lambda>k. (leaf_id K n k, ha k)"] by simp
  ultimately show "length rt \<le> n" by (simp add: distinct_card)
qed

lemma init_message_simps [simp]:
  "messageType (init_message c t i l port m) = messageType m" "source_host (init_message c t i l port m) = source_host m"
  "src_oid (init_message c t i l port m) = src_oid m" "dst_oid (init_message c t i l port m) = idArray t ! i"
  "dest_host (init_message c t i l port m) = hostName (hAddArray t ! i)"
  "pi_routing_table (init_message c t i l port m) = rtArray t ! i" "pi_n_peers (init_message c t i l port m) = treeSize t"
  "pi_k (init_message c t i l port m) = is_k c" "pi_alpha (init_message c t i l port m) = is_alpha c"
  "pi_peer_name (init_message c t i l port m) = aliasArray t ! i" "pi_log_server_name (init_message c t i l port m) = l"
  "pi_log_server_user (init_message c t i l port m) = is_user c" "pi_run_sequence_no (init_message c t i l port m) = is_run c"
  "pi_webserver_port (init_message c t i l port m) = port"
  "(pi_publish_start (init_message c t i l port m), pi_publish_end (init_message c t i l port m)) = name_range (is_names c) (treeSize t) i"
  "pi_lookup_start (init_message c t i l port m) = pi_publish_start (init_message c t i l port m)"
  "pi_lookup_end (init_message c t i l port m) = pi_publish_end (init_message c t i l port m)"
  by (simp_all add: init_message_def)

lemma PeerInitMessage_new_simps:
  "fst (PeerInitMessage_new ns gen raw) = gen + 1"
  "messageType (snd (PeerInitMessage_new ns gen raw)) = MSG_PEER_INIT"
  "source_host (snd (PeerInitMessage_new ns gen raw)) = []" "src_oid (snd (PeerInitMessage_new ns gen raw)) = src_oid raw"
  by (simp_all add: PeerInitMessage_new_def ABSMessage_INIT_def calculateOverlayTTL_def)

text \<open>The message for peer \<open>i\<close>: ports and sequence numbers are counted.\<close>

definition message_for :: "(nat \<Rightarrow> PeerInitMessage) \<Rightarrow> init_settings \<Rightarrow> BuildTree \<Rightarrow> cint \<Rightarrow> cint \<Rightarrow> nat \<Rightarrow> PeerInitMessage" where
  "message_for raw c t port gen i =
     init_message c t i (is_servers c ! (i mod length (is_servers c))) port (snd (PeerInitMessage_new 0 gen (raw i)))"

lemma send_init_loop_all:
  assumes "is_servers c \<noteq> []" and "\<forall>i\<in>set is. up i \<and> (\<forall>port gen. init_ok (message_for raw c t port gen i))"
  shows "\<exists>sent. send_init_loop up raw True c t is port gen = Some (gen + of_nat (length is), sent) \<and> length sent = length is \<and>
    (\<forall>j<length is. \<exists>b. sent ! j = (is ! j, hAddArray t ! (is ! j), b) \<and>
      PeerInitMessage_serialize True (message_for raw c t (port + of_nat j) (gen + of_nat j) (is ! j)) = Some b)"
  using assms(2)
proof (induction "is" arbitrary: port gen)
  case (Cons i "is")
  then have i: "up i" "init_ok (message_for raw c t port gen i)" by simp_all
  obtain b where b: "PeerInitMessage_serialize True (message_for raw c t port gen i) = Some b"
    using INIT_written[OF i(2)] by blast
  obtain sent where s: "send_init_loop up raw True c t is (port + 1) (gen + 1) = Some (gen + 1 + of_nat (length is), sent)"
    "length sent = length is" "\<forall>j<length is. \<exists>b. sent ! j = (is ! j, hAddArray t ! (is ! j), b) \<and>
      PeerInitMessage_serialize True (message_for raw c t (port + 1 + of_nat j) (gen + 1 + of_nat j) (is ! j)) = Some b"
    using Cons.IH[of "port + 1" "gen + 1"] Cons.prems by auto
  have g: "PeerInitMessage_new 0 gen (raw i) = (gen + 1, snd (PeerInitMessage_new 0 gen (raw i)))"
    by (rule prod_eqI) (simp_all add: PeerInitMessage_new_simps)
  let ?sent = "(i, hAddArray t ! i, b) # sent"
  have "send_init_loop up raw True c t (i # is) port gen = Some (gen + of_nat (length (i # is)), ?sent)"
    using i(1) b s(1) assms(1) by (subst send_init_loop.simps, subst g) (simp add: getLogServer_def message_for_def add.assoc)
  moreover have "\<exists>b. ?sent ! j = ((i # is) ! j, hAddArray t ! ((i # is) ! j), b) \<and>
      PeerInitMessage_serialize True (message_for raw c t (port + of_nat j) (gen + of_nat j) ((i # is) ! j)) = Some b"
    if "j < length (i # is)" for j
    using that b s(3) by (cases j) (auto simp: add.assoc)
  ultimately show ?case using s(2) by (intro exI[of _ ?sent]) simp
qed simp

text \<open>A peer that gets an INIT message for its place in the tree takes that place.\<close>

lemma message_for_simps [simp]:
  "messageType (message_for raw c t port gen i) = MSG_PEER_INIT" "dst_oid (message_for raw c t port gen i) = idArray t ! i"
  "pi_routing_table (message_for raw c t port gen i) = rtArray t ! i" "pi_n_peers (message_for raw c t port gen i) = treeSize t"
  "pi_k (message_for raw c t port gen i) = is_k c" "pi_alpha (message_for raw c t port gen i) = is_alpha c"
  by (simp_all add: message_for_def PeerInitMessage_new_simps)

lemma message_for_ok:
  assumes n: "2 \<le> n" "ceil_log2 n \<le> K" "K \<le> 31" and T: "tree_ok K n (host_of lines) T" "aliasArray T = map (alias_of lines) [0..<n]"
    and l: "host_list n lines" and n31: "n < 2 ^ 31" and i: "i < n"
    and c: "is_servers c \<noteq> []" "\<forall>w\<in>set (is_servers c). text_ok w" "text_ok (is_user c)" "int_key (src_oid (raw i))"
  shows "init_ok (message_for raw c T port gen i)"
proof -
  have p: "string_ok (hostName (host_of lines k))" "text_ok (alias_of lines k)" if "k < n" for k
  proof -
    have "parse_line (lines ! Suc k) \<noteq> None" using l that unfolding host_list_def by blast
    then obtain ha al where "parse_line (lines ! Suc k) = Some (ha, al)" by auto
    with parse_line_ok[OF this] show "string_ok (hostName (host_of lines k))" "text_ok (alias_of lines k)"
      by (simp_all add: host_of_def alias_of_def)
  qed
  have f: "idArray T ! i = leaf_id K n i" "hAddArray T ! i = host_of lines i" "aliasArray T ! i = alias_of lines i"
    "peers_table K n (host_of lines) ({..<n} - {i}) (rtArray T ! i)"
    using T i by (simp_all add: tree_ok_def filled_def)
  note e = peers_table_entries[OF n f(4) _ p(1)]
  have "int_key (leaf_id K n i)" using pattern_int_key[OF leaf_pattern_ok[OF n i] n(3)] .
  moreover have "text_ok (is_servers c ! (i mod length (is_servers c)))" using c(1,2) by simp
  moreover have "string_ok ([] :: cstring)" by (simp add: string_ok_def)
  moreover have "oid.wf_table (rtArray T ! i)" using f(4) by (simp add: peers_table_def)
  moreover have "length (rtArray T ! i) < 2 ^ 31" using e(2) n31 by fastforce
  ultimately show ?thesis using e(1) p[OF i] c(3,4) f(1-3)
    by (auto simp: init_ok_def base_ok_def message_for_def PeerInitMessage_new_simps text_ok_def)
qed

lemma message_arrives:
  assumes m: "init_ok (message_for raw c T port gen i)" and b: "PeerInitMessage_serialize True (message_for raw c T port gen i) = Some b"
  shows "receive (Some 0) ns g b = Some (Some (g + 1, Msg_INIT (message_for raw c T port gen i)))"
proof -
  have "message_ok 0 (Msg_INIT (message_for raw c T port gen i))"
    "messageType (message_base (Msg_INIT (message_for raw c T port gen i))) = class_type (Msg_INIT (message_for raw c T port gen i))"
    using m by (simp_all add: ABSMessage.defs)
  from message_received[OF this, of ns g] b show ?thesis by auto
qed

lemma peer_takes_place:
  assumes n: "2 \<le> n" "ceil_log2 n \<le> GolayCode_K" and T: "tree_ok GolayCode_K n ha T" and i: "i < n" and k: "2 \<le> sint (is_k c)"
    and p: "plexus_base golay_inv p"
  shows "\<exists>m' p'. processMessage env (Msg_INIT (message_for raw c T port gen i)) p = Some (False, m', p') \<and> plexus_ok golay_inv p' \<and>
    routing_table p' = rtArray T ! i \<and> peer_overlay_id (px_peer p') = idArray T ! i \<and> network_size p' = treeSize T \<and>
    init_rcvd (px_peer p')"
proof -
  have K: "GolayCode_K \<le> 31" "0 < GolayCode_K" by (simp_all add: GolayCode_K_def)
  have "idArray T ! i = leaf_id GolayCode_K n i" "oid.wf_table (rtArray T ! i)"
    using T i by (simp_all add: tree_ok_def filled_def peers_table_def)
  then have "message_safe env GolayCode_N (Msg_INIT (message_for raw c T port gen i))"
    using k pattern_length_ok[OF leaf_pattern_ok[OF n K(1) i] K(2) K(1)] by simp
  from init_establishes_invariant[OF p this] show ?thesis by auto
qed

lemma ceil_log2_31: "2 \<le> n \<Longrightarrow> ceil_log2 n \<le> GolayCode_K \<Longrightarrow> n < 2 ^ 31"
proof -
  assume n: "2 \<le> n" "ceil_log2 n \<le> GolayCode_K"
  have "n \<le> 2 ^ ceil_log2 n" using leaf_bounds(3)[OF n(1)] .
  also have "(2::nat) ^ ceil_log2 n < 2 ^ 31" using n(2) by (intro power_strict_increasing) (simp_all add: GolayCode_K_def)
  finally show ?thesis .
qed


section \<open>Commands to all peers\<close>

lemma dst_twice: "on_base (\<lambda>m. m\<lparr>dst_oid := a\<rparr>) (on_base (\<lambda>m. m\<lparr>dst_oid := b\<rparr>) msg) = on_base (\<lambda>m. m\<lparr>dst_oid := a\<rparr>) msg"
  by (cases msg) (simp_all add: on_base_def ABSMessage.defs)

lemma send_message_all:
  assumes "\<forall>i\<in>set is. up i \<and> (\<exists>b. serialize True rv (on_base (\<lambda>m. m\<lparr>dst_oid := idArray t ! i\<rparr>) msg) = Some b)"
  shows "\<exists>sent. send_message_to_all_peers up rv msg t is = Some sent \<and> length sent = length is \<and>
    (\<forall>j<length is. \<exists>b. sent ! j = (is ! j, hAddArray t ! (is ! j), b) \<and>
      serialize True rv (on_base (\<lambda>m. m\<lparr>dst_oid := idArray t ! (is ! j)\<rparr>) msg) = Some b)"
  using assms
proof (induction "is" arbitrary: msg)
  case (Cons i "is")
  obtain b where b: "serialize True rv (on_base (\<lambda>m. m\<lparr>dst_oid := idArray t ! i\<rparr>) msg) = Some b" using Cons.prems by auto
  let ?msg = "on_base (\<lambda>m. m\<lparr>dst_oid := idArray t ! i\<rparr>) msg"
  have "\<forall>i\<in>set is. up i \<and> (\<exists>b. serialize True rv (on_base (\<lambda>m. m\<lparr>dst_oid := idArray t ! i\<rparr>) ?msg) = Some b)"
    using Cons.prems by (simp add: dst_twice)
  from Cons.IH[OF this] obtain sent where s: "send_message_to_all_peers up rv ?msg t is = Some sent" "length sent = length is"
    "\<forall>j<length is. \<exists>b. sent ! j = (is ! j, hAddArray t ! (is ! j), b) \<and>
      serialize True rv (on_base (\<lambda>m. m\<lparr>dst_oid := idArray t ! (is ! j)\<rparr>) msg) = Some b" by (auto simp: dst_twice)
  let ?sent = "(i, hAddArray t ! i, b) # sent"
  have "send_message_to_all_peers up rv msg t (i # is) = Some ?sent" using b s(1) Cons.prems by (simp add: Let_def)
  moreover have "\<exists>b. ?sent ! j = ((i # is) ! j, hAddArray t ! ((i # is) ! j), b) \<and>
      serialize True rv (on_base (\<lambda>m. m\<lparr>dst_oid := idArray t ! ((i # is) ! j)\<rparr>) msg) = Some b" if "j < length (i # is)" for j
    using that b s(3) by (cases j) auto
  ultimately show ?case using s(2) by (intro exI[of _ ?sent]) simp
qed simp

text \<open>
  The commands \<^verbatim>\<open>publish\<close>, \<^verbatim>\<open>lookup\<close> and \<^verbatim>\<open>force\<close> reach every peer of the overlay: each gets the message, addressed to its id.
\<close>

theorem commands_reach_peers:
  assumes T: "execute GolayCode_K lines = Some T" and lines: "host_list n lines" "2 \<le> n" "ceil_log2 n \<le> GolayCode_K"
    and up: "\<forall>i<n. up i" and raw: "int_key (src_oid raw_message)"
    and input: "(input, wrap, ty) \<in> {(str ''publish'', Msg_GEN_NAME, MSG_START_GENERATE_NAME),
      (str ''lookup'', Msg_LOOKUP_NAME, MSG_START_LOOKUP_NAME), (str ''force'', Msg_FORCE_LOG, MSG_PEER_FORCE_LOG)}"
  shows "\<exists>sent. central_command up raw cow rv raw_message env conf T names r input s p =
      Some (Ready (s\<lparr>generator := generator s + 1\<rparr>) p sent None) \<and> length sent = n \<and>
    (\<forall>i<n. \<exists>b m. sent ! i = (i, host_of lines i, b) \<and> messageType m = ty \<and> dst_oid m = idArray T ! i \<and>
      (\<forall>ns g. receive (Some 0) ns g b = Some (Some (g + 1, wrap m))))"
proof -
  have K: "GolayCode_K \<le> 31" "ceil_log2 n < 31" using lines(3) by (simp_all add: GolayCode_K_def)
  have t: "tree_ok GolayCode_K n (host_of lines) T" "treeSize T = of_nat n"
    using execute_full[OF lines(2,3) K lines(1)] T by auto
  have sz: "nat (sint (treeSize T)) = n" using ceil_log2_31[OF lines(2,3)] by (simp add: t(2) sint_of_nat_small)
  let ?new = "ABSMessage_type 0 ty (generator s) raw_message"
  let ?m = "\<lambda>i. (snd ?new)\<lparr>dst_oid := idArray T ! i\<rparr>"
  have ids: "int_key (idArray T ! i)" "hAddArray T ! i = host_of lines i" if "i < n" for i
    using t(1) that pattern_int_key[OF leaf_pattern_ok[OF lines(2,3) K(1) that] K(1)] by (simp_all add: tree_ok_def filled_def)
  have ok: "message_ok rv (wrap (?m i))" "messageType (message_base (wrap (?m i))) = class_type (wrap (?m i))"
    "on_base (\<lambda>m. m\<lparr>dst_oid := idArray T ! i\<rparr>) (wrap (snd ?new)) = wrap (?m i)" if "i < n" for i
    using input ids[OF that] raw
    by (auto simp: base_ok_def ABSMessage_type_def ABSMessage_INIT_def calculateOverlayTTL_def string_ok_def ABSMessage.defs on_base_def)
  have "\<exists>b. serialize True rv (on_base (\<lambda>m. m\<lparr>dst_oid := idArray T ! i\<rparr>) (wrap (snd ?new))) = Some b" if "i < n" for i
    using message_received[OF ok(1,2)[OF that]] ok(3)[OF that] by auto
  then obtain sent where s: "send_message_to_all_peers up rv (wrap (snd ?new)) T [0..<n] = Some sent" "length sent = n"
    "\<forall>j<n. \<exists>b. sent ! j = (j, hAddArray T ! j, b) \<and>
      serialize True rv (on_base (\<lambda>m. m\<lparr>dst_oid := idArray T ! j\<rparr>) (wrap (snd ?new))) = Some b"
    using send_message_all[of "[0..<n]" up rv T "wrap (snd ?new)"] up by auto
  have "central_command up raw cow rv raw_message env conf T names r input s p = control_command up rv T wrap ?new s p"
    using input by (elim insertE emptyE; simp add: central_command_def str_eq_iff)
     (simp_all add: str_def PeerStartGenNameMessage_new_def PeerStartLookupNameMessage_new_def)
  then have "central_command up raw cow rv raw_message env conf T names r input s p =
      Some (Ready (s\<lparr>generator := generator s + 1\<rparr>) p sent None)"
    using s(1) sz by (simp add: control_command_def ABSMessage_type_def ABSMessage_INIT_def)
  moreover have "\<exists>b m. sent ! i = (i, host_of lines i, b) \<and> messageType m = ty \<and> dst_oid m = idArray T ! i \<and>
      (\<forall>ns g. receive (Some 0) ns g b = Some (Some (g + 1, wrap m)))" if i: "i < n" for i
  proof -
    obtain b where b: "sent ! i = (i, hAddArray T ! i, b)" "serialize True rv (wrap (?m i)) = Some b"
      using s(3) i ok(3)[OF i] by fastforce
    have "messageType (?m i) = ty" "dst_oid (?m i) = idArray T ! i" by (simp_all add: ABSMessage_type_def)
    moreover have "receive (Some 0) ns g b = Some (Some (g + 1, wrap (?m i)))" for ns g
      using message_received[OF ok(1,2)[OF i], of ns g] b(2) by auto
    ultimately show ?thesis using b(1) ids(2)[OF i] by (intro exI[of _ b] exI[of _ "?m i"]) simp
  qed
  ultimately show ?thesis using s(2) by blast
qed

section \<open>An example\<close>

definition text_of :: "cstring list \<Rightarrow> cstring" where
  "text_of ls = concat (map (\<lambda>l. l @ [10]) ls)"

definition example_entries :: "(cstring \<times> cstring) list" where
  "example_entries =
     [(str ''nodes_file'', str ''h''), (str ''monitors_file'', str ''m''), (str ''seq_file'', str ''q''), (str ''k'', str ''10''),
      (str ''alpha'', str ''1''), (str ''name_count'', str ''7''), (str ''log_server_user'', str ''u'')]"

definition example_files :: "(cstring \<times> cstring) list" where
  "example_files =
     [(str ''c'', concat (map entry_line example_entries)), (str ''h'', text_of three_hosts),
      (str ''m'', text_of [str ''2'', str ''log1'', str ''log2''])]"

definition example_central :: central where
  "example_central = \<lparr>log_servers = [], generator = 0, disk_files = map_of example_files\<rparr>"

lemma example_values: "atoi (str ''7'') = 7" "atoi (str ''10'') = 10"
  by code_simp+

lemma example_configuration:
  "\<exists>conf. Configuration_file (\<lambda>_. 0) (disk_files example_central (str ''c'')) = Some conf \<and> name_count conf = Some 7 \<and>
    conf_K conf = Some 10 \<and> conf_alpha conf = Some 0 \<and> log_server_user_name conf = str ''u'' \<and>
    nodes_file_path conf = str ''h'' \<and> seq_file_path conf = str ''q'' \<and> monitors_file_path conf = str ''m''"
proof -
  let ?c = "fold (set_entry (\<lambda>_. 0)) example_entries (configuration_new\<lparr>config_map := Map.empty\<rparr>)"
  note p = fields_of_entries(1)[of _ _ "\<lambda>_. 0" example_entries] and i = fields_of_entries(2)[of _ _ "\<lambda>_. 0" example_entries]
    and d = fields_of_entries(3)[of _ _ "\<lambda>_. 0" example_entries]
  have "list_all Configuration.entry_ok example_entries"
    by (simp add: example_entries_def Configuration.entry_ok_def str_def is_alnum_def is_digit_def)
  from Configuration_file_entries[OF this, of "\<lambda>_. 0"]
  have "Configuration_file (\<lambda>_. 0) (disk_files example_central (str ''c'')) = Some ?c"
    by (simp add: example_central_def example_files_def)
  moreover have "name_count ?c = map_option atoi (setting {str ''name_count''} example_entries)" by (rule i) (simp add: int_keys_def)
  moreover have "conf_K ?c = map_option atoi (setting {str ''k'', str ''K''} example_entries)" by (rule i) (simp add: int_keys_def)
  moreover have "conf_alpha ?c = map_option (\<lambda>_. 0) (setting {str ''alpha''} example_entries)" by (rule d) (simp add: double_keys_def)
  moreover have "log_server_user_name ?c = (case setting {str ''log_server_user'', str ''log_server_user_name''} example_entries of Some v \<Rightarrow> v | None \<Rightarrow> [])"
    by (rule p) (simp add: path_keys_def)
  moreover have "nodes_file_path ?c = (case setting {str ''node_file'', str ''nodes_file''} example_entries of Some v \<Rightarrow> v | None \<Rightarrow> [])"
    by (rule p) (simp add: path_keys_def)
  moreover have "seq_file_path ?c = (case setting {str ''seq_file''} example_entries of Some v \<Rightarrow> v | None \<Rightarrow> [])"
    by (rule p) (simp add: path_keys_def)
  moreover have "monitors_file_path ?c = (case setting {str ''monitor_file'', str ''monitors_file'', str ''monitors_file_path'', str ''monitor_file_path''} example_entries of Some v \<Rightarrow> v | None \<Rightarrow> [])"
    by (rule p) (simp add: path_keys_def)
  ultimately show ?thesis by (intro exI[of _ ?c]) (simp add: example_entries_def str_eq_iff example_values)
qed

lemma example_disk:
  "disk_files example_central (str ''h'') = Some (text_of three_hosts)" "file_lines (text_of three_hosts) = three_hosts"
  "getRunSequenceNo (disk_files example_central (str ''q'')) = Some (0, str ''0'' @ [10])"
  "loadMonitors (disk_files example_central (str ''m'')) [] = Some [str ''log1'', str ''log2'']"
  by (simp add: example_central_def example_files_def str_eq_iff, code_simp, code_simp, code_simp)


end
