(* ===== verification/Poller_Updates.thy ===== *)
theory Poller_Updates
  imports Poller_Behaviour
begin

text \<open>
  The time stamps by which a poller asks a home agent for what is new: which updates reach Solr, and which are lost.
\<close>

section \<open>What an event does to a poller it is not about\<close>

fun about :: "poller_event \<Rightarrow> nat option" where
  "about (Timer i ec) = Some i"
| "about (Timer_aborted i) = Some i"
| "about (Response i chunks code) = Some i"
| "about _ = None"

text \<open>What counts here of a poller: its time stamp and its requester.\<close>

definition view :: "nat \<Rightarrow> crawler \<Rightarrow> (clong \<times> poll_cb requester) option" where
  "view i s = (if i < length (pollers s) then Some (p_timestamp (pollers s ! i), p_requester (pollers s ! i)) else None)"

lemma view_update_other: "i \<noteq> j \<Longrightarrow> view i (update_poller j f s) = view i s"
  by (simp add: view_def update_poller_def)

lemma view_update:
  "i < length (pollers s) \<Longrightarrow> view i (update_poller i f s) = Some (p_timestamp (f (pollers s ! i)), p_requester (f (pollers s ! i)))"
  by (simp add: view_def update_poller_def)

lemma view_start: "view i (start late j s) = view i s"
  by (cases "i = j") (auto simp: start_def view_def update_poller_def Let_def)

lemma view_fields [simp]:
  "view i (s\<lparr>records := r\<rparr>) = view i s" "view i (s\<lparr>found := f\<rparr>) = view i s" "view i (s\<lparr>to_manager := m\<rparr>) = view i s"
  "view i (s\<lparr>contents := c\<rparr>) = view i s" "view i (s\<lparr>clock := t\<rparr>) = view i s" "view i (report_result h res msg s) = view i s"
  by (simp_all add: view_def report_result_def)

lemma view_create: "view i s = Some v \<Longrightarrow> view i (create_poller late h s) = Some v"
  by (auto simp: create_poller_def view_start) (auto simp: view_def nth_append split: if_splits)

lemma view_neighbours: "view i s = Some v \<Longrightarrow> view i (fold (neighbour env late) hs s) = Some v"
  by (induction hs arbitrary: s) (auto simp: neighbour_def home_agent_discovered_def view_create Let_def)

lemma view_fetch_contents: "fetch_contents env host ha us s = Some t \<Longrightarrow> view i t = view i s"
proof (induction us arbitrary: s)
  case (Cons u us)
  show ?case
  proof (cases "u = []")
    case False
    with Cons.prems obtain r where "fetch_contents env host ha us (s\<lparr>contents := contents s @ [r]\<rparr>) = Some t"
      by (auto simp: Option.bind_eq_Some_conv)
    from Cons.IH[OF this] show ?thesis by simp
  qed (use Cons in simp)
qed simp

lemma view_poller_fetch_other: "poller_fetch j url cb body s = Some t \<Longrightarrow> i \<noteq> j \<Longrightarrow> view i t = view i s"
  by (auto simp: poller_fetch_def view_update_other)

lemma view_do_poll_other: "do_poll env ec j s = Some t \<Longrightarrow> i \<noteq> j \<Longrightarrow> view i t = view i s"
  by (auto simp: do_poll_def Let_def view_update_other split: if_splits dest: view_poller_fetch_other)

lemma view_handle_poll_other:
  assumes "handle_poll env late j code content s = Some t" and "i \<noteq> j" and "view i s = Some v"
  shows "view i t = Some v"
proof (cases "code = CURLE_OK \<and> parse_getall env content \<noteq> None")
  case False
  with assms show ?thesis by (auto simp: handle_poll_def view_start Let_def split: option.splits if_splits)
next
  case True
  then obtain gall where g: "code = CURLE_OK" "parse_getall env content = Some gall" by blast
  let ?s = "fold (neighbour env late) (homeagents gall) (report_result (p_hostname (pollers s ! j)) QR_SUCCESS (haname gall) s)"
  have v: "view i ?s = Some v" using assms(3) by (intro view_neighbours) simp
  from assms(1) g obtain u where u: "(if devices gall \<noteq> []
      then poller_fetch j (solr_deviceurl env @ str ''?commit=true'') (Post_cb (newest (devices gall))) (device_update gall) ?s
      else Some (start late j ?s)) = Some u" "fetch_contents env (p_hostname (pollers s ! j)) (haname gall) (updates gall) u = Some t"
    by (auto simp: handle_poll_def Let_def Option.bind_eq_Some_conv)
  have "view i u = Some v" using u(1) v view_poller_fetch_other[OF _ assms(2)] by (cases "devices gall = []") (auto simp: view_start)
  with view_fetch_contents[OF u(2)] show ?thesis by simp
qed

lemma view_other:
  assumes "crawler_handle env late e s = Some t" and "about e \<noteq> Some i" and "view i s = Some v"
  shows "view i t = Some v"
proof (cases e)
  case (Timer j ec)
  with assms show ?thesis by (auto simp: view_update_other split: if_splits dest: view_do_poll_other)
next
  case (Timer_aborted j)
  with assms show ?thesis by (auto simp: view_update_other split: if_splits dest: view_do_poll_other)
next
  case (Response j chunks code)
  then have j: "i \<noteq> j" using assms(2) by simp
  show ?thesis
  proof (cases "j < length (pollers s) \<and> rq_added (p_requester (pollers s ! j))")
    case False
    with assms(1,3) Response show ?thesis by (simp only: crawler_handle.simps if_False option.inject)
  next
    case True
    obtain code' content r where x: "transfer chunks code (p_requester (pollers s ! j)) =
      (code', rq_cb (p_requester (pollers s ! j)), content, r)" by (rule transfer_callback)
    let ?u = "update_poller j (\<lambda>p. p\<lparr>p_requester := r\<rparr>) s"
    have u: "view i ?u = Some v" using assms(3) j by (simp add: view_update_other)
    have h: "(case rq_cb (p_requester (pollers s ! j)) of None \<Rightarrow> Some ?u | Some Poll_cb \<Rightarrow> handle_poll env late j code' content ?u
        | Some (Post_cb n) \<Rightarrow> handle_post late j code' n ?u) = Some t"
      using assms(1) Response True x by (simp add: Let_def)
    show ?thesis
    proof (cases "rq_cb (p_requester (pollers s ! j))")
      case None
      with h u show ?thesis by simp
    next
      case (Some cb)
      with h u j show ?thesis
        by (cases cb) (auto simp: handle_post_def view_start view_update_other split: if_splits dest: view_handle_poll_other)
    qed
  qed
next
  case (Content_response k chunks code)
  with assms show ?thesis
    by (auto simp: handle_getcontentlist_def Let_def split: if_splits prod.splits option.splits content_cb.splits)
next
  case (Assigned h)
  with assms show ?thesis by (auto simp: view_create split: if_splits)
qed

section \<open>What its own events do\<close>

lemma own_timer:
  assumes "crawler_handle env late (Timer i False) s = Some t" and "view i s = Some (ts, r)"
  shows "view i t = Some (ts, r) \<or> (\<exists>r'. view i t = Some (ts, r') \<and> rq_cb r' = Some Poll_cb \<and> rq_added r')"
proof (cases "i < length (pollers s) \<and> p_waits (pollers s ! i) > 0")
  case False
  with assms(1) have "t = s" by (simp only: crawler_handle.simps if_False option.inject)
  with assms(2) show ?thesis by simp
next
  case True
  with assms show ?thesis
    by (auto simp: do_poll_def poller_fetch_def fetch_def update_poller_def view_def Let_def split: if_splits)
qed

text \<open>A transfer of the poller ends: a poll or a post.\<close>

lemma own_response:
  assumes "crawler_handle env late (Response i chunks code) s = Some t" and "view i s = Some (ts, r)" and "rq_added r"
  obtains code' content r' where "transfer chunks code r = (code', rq_cb r, content, r')" and "\<not> rq_added r'"
    and "view i (update_poller i (\<lambda>p. p\<lparr>p_requester := r'\<rparr>) s) = Some (ts, r')"
    and "case rq_cb r of None \<Rightarrow> True
      | Some Poll_cb \<Rightarrow> handle_poll env late i code' content (update_poller i (\<lambda>p. p\<lparr>p_requester := r'\<rparr>) s) = Some t
      | Some (Post_cb n) \<Rightarrow> handle_post late i code' n (update_poller i (\<lambda>p. p\<lparr>p_requester := r'\<rparr>) s) = Some t"
proof -
  have i: "i < length (pollers s)" "p_requester (pollers s ! i) = r" "p_timestamp (pollers s ! i) = ts"
    using assms(2) by (auto simp: view_def split: if_splits)
  obtain code' content r' where x: "transfer chunks code r = (code', rq_cb r, content, r')" "\<not> rq_added r'"
    by (rule transfer_callback)
  have v: "view i (update_poller i (\<lambda>p. p\<lparr>p_requester := r'\<rparr>) s) = Some (ts, r')" using i by (simp add: view_update)
  have "case rq_cb r of None \<Rightarrow> True
      | Some Poll_cb \<Rightarrow> handle_poll env late i code' content (update_poller i (\<lambda>p. p\<lparr>p_requester := r'\<rparr>) s) = Some t
      | Some (Post_cb n) \<Rightarrow> handle_post late i code' n (update_poller i (\<lambda>p. p\<lparr>p_requester := r'\<rparr>) s) = Some t"
    using assms(1,3) i x by (simp add: Let_def split: option.splits poll_cb.splits)
  with x v show thesis by (rule that)
qed

lemma own_post:
  assumes "crawler_handle env late (Response i chunks code) s = Some t" and "view i s = Some (ts, r)" and "rq_added r"
    and "rq_cb r = Some (Post_cb n)"
  shows "\<exists>code' content x r'. transfer chunks code r = (code', x, content, r') \<and> \<not> rq_added r' \<and>
    (if code' = CURLE_OK then sint n \<noteq> 2 ^ 63 - 1 \<and> view i t = Some (n + 1, r') else view i t = Some (ts, r'))"
proof -
  obtain code' content r' where x: "transfer chunks code r = (code', rq_cb r, content, r')" "\<not> rq_added r'"
    "view i (update_poller i (\<lambda>p. p\<lparr>p_requester := r'\<rparr>) s) = Some (ts, r')"
    and c: "case rq_cb r of None \<Rightarrow> True
      | Some Poll_cb \<Rightarrow> handle_poll env late i code' content (update_poller i (\<lambda>p. p\<lparr>p_requester := r'\<rparr>) s) = Some t
      | Some (Post_cb n) \<Rightarrow> handle_post late i code' n (update_poller i (\<lambda>p. p\<lparr>p_requester := r'\<rparr>) s) = Some t"
    by (rule own_response[OF assms(1-3)])
  let ?u = "update_poller i (\<lambda>p. p\<lparr>p_requester := r'\<rparr>) s"
  have h: "handle_post late i code' n ?u = Some t" using c assms(4) by simp
  have l: "i < length (pollers ?u)" "p_requester (pollers ?u ! i) = r'" using x(3) by (auto simp: view_def split: if_splits)
  have "if code' = CURLE_OK then sint n \<noteq> 2 ^ 63 - 1 \<and> view i t = Some (n + 1, r') else view i t = Some (ts, r')"
  proof (cases "code' = CURLE_OK")
    case True
    with h have "sint n \<noteq> 2 ^ 63 - 1" "t = start late i (update_poller i (\<lambda>p. p\<lparr>p_timestamp := n + 1\<rparr>) ?u)"
      by (auto simp: handle_post_def split: if_splits)
    with True l show ?thesis by (simp add: view_start view_update)
  next
    case False
    with h have "t = start late i ?u" by (simp add: handle_post_def)
    with False x(3) show ?thesis by (simp add: view_start)
  qed
  with x(1,2) show ?thesis by blast
qed

text \<open>After a poll the poller waits, or posts the devices of the reply.\<close>

lemma own_poll:
  assumes "crawler_handle env late (Response i chunks code) s = Some t" and "view i s = Some (ts, r)" and "rq_added r"
    and "rq_cb r = Some Poll_cb"
  shows "\<exists>r'. view i t = Some (ts, r') \<and>
    (case reply_of env (Response i chunks code) s of
      [] \<Rightarrow> \<not> rq_added r'
    | gall # _ \<Rightarrow> if devices gall = [] then \<not> rq_added r'
        else rq_added r' \<and> rq_cb r' = Some (Post_cb (newest (devices gall))) \<and> rq_post r' = Some (device_update gall) \<and> rq_buf r' = [])"
proof -
  obtain code' content r' where x: "transfer chunks code r = (code', rq_cb r, content, r')" "\<not> rq_added r'"
    "view i (update_poller i (\<lambda>p. p\<lparr>p_requester := r'\<rparr>) s) = Some (ts, r')"
    and c: "case rq_cb r of None \<Rightarrow> True
      | Some Poll_cb \<Rightarrow> handle_poll env late i code' content (update_poller i (\<lambda>p. p\<lparr>p_requester := r'\<rparr>) s) = Some t
      | Some (Post_cb n) \<Rightarrow> handle_post late i code' n (update_poller i (\<lambda>p. p\<lparr>p_requester := r'\<rparr>) s) = Some t"
    by (rule own_response[OF assms(1-3)])
  let ?u = "update_poller i (\<lambda>p. p\<lparr>p_requester := r'\<rparr>) s"
  have h: "handle_poll env late i code' content ?u = Some t" using c assms(4) by simp
  have i: "i < length (pollers s)" "p_requester (pollers s ! i) = r" using assms(2) by (auto simp: view_def split: if_splits)
  have rep: "reply_of env (Response i chunks code) s =
      (if code' = CURLE_OK then case parse_getall env content of None \<Rightarrow> [] | Some gall \<Rightarrow> [gall] else [])"
    using assms(3,4) i x(1) by simp
  show ?thesis
  proof (cases "code' = CURLE_OK \<and> parse_getall env content \<noteq> None")
    case False
    with h x(3) have "view i t = Some (ts, r')" by (auto simp: handle_poll_def view_start Let_def split: option.splits if_splits)
    with False rep x(2) show ?thesis by (auto split: option.splits)
  next
    case True
    then obtain gall where g: "code' = CURLE_OK" "parse_getall env content = Some gall" by blast
    let ?s = "fold (neighbour env late) (homeagents gall) (report_result (p_hostname (pollers ?u ! i)) QR_SUCCESS (haname gall) ?u)"
    have v: "view i ?s = Some (ts, r')" using x(3) by (intro view_neighbours) simp
    from h g obtain u where u: "(if devices gall \<noteq> []
        then poller_fetch i (solr_deviceurl env @ str ''?commit=true'') (Post_cb (newest (devices gall))) (device_update gall) ?s
        else Some (start late i ?s)) = Some u" "fetch_contents env (p_hostname (pollers ?u ! i)) (haname gall) (updates gall) u = Some t"
      by (auto simp: handle_poll_def Let_def Option.bind_eq_Some_conv)
    have p: "i < length (pollers ?s)" "p_requester (pollers ?s ! i) = r'" "p_timestamp (pollers ?s ! i) = ts"
      using v by (auto simp: view_def split: if_splits)
    have d: "device_update gall \<noteq> []" by (simp add: device_update_def solr_add_def)
    have "\<exists>r2. view i u = Some (ts, r2) \<and> (if devices gall = [] then \<not> rq_added r2
        else rq_added r2 \<and> rq_cb r2 = Some (Post_cb (newest (devices gall))) \<and> rq_post r2 = Some (device_update gall) \<and> rq_buf r2 = [])"
      using u(1) v p d x(2)
      by (cases "devices gall = []") (auto simp: view_start poller_fetch_def fetch_def view_update Let_def split: if_splits)
    with view_fetch_contents[OF u(2)] rep g show ?thesis by simp
  qed
qed

section \<open>Updates\<close>

text \<open>
  A home agent and its poller: \<open>U\<close> are the updates the home agent has made, \<open>P\<close> the devices of the post that is under way and \<open>A\<close> those of
  the posts that have succeeded. The home agent is honest: its reply has the updates that are not older than the time stamp
  it is asked for. With \<open>strict\<close> it stamps every update later than all those before it. In between anything happens to other pollers.
\<close>

type_synonym poll_state = "crawler \<times> device set \<times> device set \<times> device set"

inductive poll_step :: "poller_env \<Rightarrow> nat \<Rightarrow> bool \<Rightarrow> poll_state \<Rightarrow> poll_state \<Rightarrow> bool" for env i strict where
  poll_change: "strict \<longrightarrow> 0 <s dev_timestamp d \<and> (\<forall>d'\<in>U. dev_timestamp d' <s dev_timestamp d) \<Longrightarrow>
    poll_step env i strict (s, U, A, P) (s, insert d U, A, P)"
| poll_other: "crawler_step env (now, late, e) s = Some t \<Longrightarrow> about e \<noteq> Some i \<Longrightarrow> poll_step env i strict (s, U, A, P) (t, U, A, P)"
| poll_timer: "crawler_step env (now, late, Timer i False) s = Some t \<Longrightarrow> poll_step env i strict (s, U, A, P) (t, U, A, P)"
| poll_reply: "view i s = Some (ts, r) \<Longrightarrow> rq_added r \<Longrightarrow> rq_cb r = Some Poll_cb \<Longrightarrow>
    crawler_step env (now, late, Response i chunks code) s = Some t \<Longrightarrow>
    \<forall>g\<in>set (reply_of env (Response i chunks code) s). set (devices g) = {d \<in> U. ts \<le>s dev_timestamp d} \<Longrightarrow>
    poll_step env i strict (s, U, A, P) (t, U, A, \<Union>g\<in>set (reply_of env (Response i chunks code) s). set (devices g))"
| poll_post: "view i s = Some (ts, r) \<Longrightarrow> rq_added r \<Longrightarrow> rq_cb r = Some (Post_cb n) \<Longrightarrow>
    crawler_step env (now, late, Response i chunks code) s = Some t \<Longrightarrow>
    poll_step env i strict (s, U, A, P) (t, U, if fst (transfer chunks code r) = CURLE_OK then A \<union> P else A, {})"

text \<open>What holds in every state of the two.\<close>

definition step_inv :: "bool \<Rightarrow> device set \<Rightarrow> device set \<Rightarrow> device set \<Rightarrow> clong \<Rightarrow> poll_cb requester \<Rightarrow> bool" where
  "step_inv strict U A P ts r \<longleftrightarrow> A \<subseteq> U \<and> P \<subseteq> U \<and> (sint ts \<le> 1 \<or> (\<exists>d\<in>U. sint ts \<le> sint (dev_timestamp d) + 1)) \<and>
     (strict \<longrightarrow> (\<forall>d\<in>U. d \<in> A \<or> sint ts \<le> sint (dev_timestamp d))) \<and>
     (\<forall>n. rq_added r \<longrightarrow> rq_cb r = Some (Post_cb n) \<longrightarrow>
        sint ts \<le> sint n \<and> (n = 0 \<or> (\<exists>d\<in>P. dev_timestamp d = n)) \<and>
        (strict \<longrightarrow> (\<forall>d\<in>U. d \<in> A \<or> d \<in> P \<or> sint n < sint (dev_timestamp d))))"

definition poll_inv :: "nat \<Rightarrow> bool \<Rightarrow> poll_state \<Rightarrow> bool" where
  "poll_inv i strict = (\<lambda>(s, U, A, P). \<exists>ts r. view i s = Some (ts, r) \<and> step_inv strict U A P ts r)"

lemma sint_plus_one: "sint (n :: clong) \<noteq> 2 ^ 63 - 1 \<Longrightarrow> sint (n + 1) = sint n + 1"
proof -
  assume "sint n \<noteq> 2 ^ 63 - 1"
  moreover have "- (2 ^ 63) \<le> sint n" "sint n < 2 ^ 63" using sint_greater_eq[of n] sint_less[of n] by simp_all
  moreover have "sint (n + 1) = signed_take_bit 63 (sint n + 1)" by (simp add: sint_word_ariths)
  ultimately show ?thesis by (simp add: signed_take_bit_int_eq_self)
qed

lemma newest_bounds:
  "(\<forall>d\<in>set ds. dev_timestamp d \<le>s newest ds) \<and> (newest ds = 0 \<or> (\<exists>d\<in>set ds. dev_timestamp d = newest ds))"
proof -
  let ?f = "foldl (\<lambda>n i. if n <s dev_timestamp i then dev_timestamp i else n)"
  have "n \<le>s ?f n ds \<and> (\<forall>d\<in>set ds. dev_timestamp d \<le>s ?f n ds) \<and> (?f n ds = n \<or> (\<exists>d\<in>set ds. dev_timestamp d = ?f n ds))" for n
  proof (induction ds arbitrary: n)
    case (Cons d ds)
    from Cons.IH[of n] Cons.IH[of "dev_timestamp d"] show ?case by (auto simp: word_sle_eq word_sless_alt)
  qed simp
  from this[of 0] show ?thesis by (simp add: newest_def)
qed

lemma reply_of_cases: "reply_of env e s = [] \<or> (\<exists>g. reply_of env e s = [g])"
  by (cases "(env, e, s)" rule: reply_of.cases) (auto split: option.splits poll_cb.splits prod.splits)

lemma reply_of_clock: "reply_of env e (s\<lparr>clock := now\<rparr>) = reply_of env e s"
  by (cases "(env, e, s)" rule: reply_of.cases) simp_all

lemma newest_ge: "ds \<noteq> [] \<Longrightarrow> \<forall>d\<in>set ds. ts \<le>s dev_timestamp d \<Longrightarrow> sint ts \<le> sint (newest ds)"
  using newest_bounds[of ds] by (cases ds) (auto simp: word_sle_eq)

lemma step_invD:
  assumes "step_inv strict U A P ts r"
  shows "A \<subseteq> U" "P \<subseteq> U" "sint ts \<le> 1 \<or> (\<exists>d\<in>U. sint ts \<le> sint (dev_timestamp d) + 1)"
    and "\<And>d. strict \<Longrightarrow> d \<in> U \<Longrightarrow> d \<in> A \<or> sint ts \<le> sint (dev_timestamp d)"
    and "\<And>n. rq_added r \<Longrightarrow> rq_cb r = Some (Post_cb n) \<Longrightarrow> sint ts \<le> sint n"
    and "\<And>n. rq_added r \<Longrightarrow> rq_cb r = Some (Post_cb n) \<Longrightarrow> n = 0 \<or> (\<exists>d\<in>P. dev_timestamp d = n)"
    and "\<And>n d. rq_added r \<Longrightarrow> rq_cb r = Some (Post_cb n) \<Longrightarrow> strict \<Longrightarrow> d \<in> U \<Longrightarrow> d \<in> A \<or> d \<in> P \<or> sint n < sint (dev_timestamp d)"
  using assms unfolding step_inv_def by blast+

lemma step_invI:
  assumes "A \<subseteq> U" and "P \<subseteq> U" and "sint ts \<le> 1 \<or> (\<exists>d\<in>U. sint ts \<le> sint (dev_timestamp d) + 1)"
    and "\<And>d. strict \<Longrightarrow> d \<in> U \<Longrightarrow> d \<in> A \<or> sint ts \<le> sint (dev_timestamp d)"
    and "\<And>n. rq_added r \<Longrightarrow> rq_cb r = Some (Post_cb n) \<Longrightarrow> sint ts \<le> sint n"
    and "\<And>n. rq_added r \<Longrightarrow> rq_cb r = Some (Post_cb n) \<Longrightarrow> n = 0 \<or> (\<exists>d\<in>P. dev_timestamp d = n)"
    and "\<And>n d. rq_added r \<Longrightarrow> rq_cb r = Some (Post_cb n) \<Longrightarrow> strict \<Longrightarrow> d \<in> U \<Longrightarrow> d \<in> A \<or> d \<in> P \<or> sint n < sint (dev_timestamp d)"
  shows "step_inv strict U A P ts r"
  using assms unfolding step_inv_def by blast

lemma step_inv_change:
  assumes "step_inv strict U A P ts r"
    and "strict \<longrightarrow> 0 <s dev_timestamp d \<and> (\<forall>d'\<in>U. dev_timestamp d' <s dev_timestamp d)"
  shows "step_inv strict (insert d U) A P ts r"
proof (rule step_invI)
  note v = step_invD[OF assms(1)]
  show "x \<in> A \<or> sint ts \<le> sint (dev_timestamp x)" if "strict" "x \<in> insert d U" for x
    using that v(3) v(4)[of x] assms(2) by (auto simp: word_sless_alt)
  show "x \<in> A \<or> x \<in> P \<or> sint n < sint (dev_timestamp x)"
    if "rq_added r" "rq_cb r = Some (Post_cb n)" "strict" "x \<in> insert d U" for n x
    using that v(2) v(6)[OF that(1,2)] v(7)[OF that(1-3), of x] assms(2) by (auto simp: word_sless_alt)
qed (use step_invD[OF assms(1)] in auto)

lemma step_inv_timer:
  assumes "step_inv strict U A P ts r" and "rq_cb r' = Some Poll_cb"
  shows "step_inv strict U A P ts r'"
  using assms unfolding step_inv_def by simp

lemma step_inv_reply:
  assumes "step_inv strict U A P ts r" and "set ds = {d \<in> U. ts \<le>s dev_timestamp d}"
    and "if ds = [] then \<not> rq_added r' else rq_cb r' = Some (Post_cb (newest ds))"
  shows "step_inv strict U A (set ds) ts r'"
proof (cases "ds = []")
  case True
  with assms(1,3) show ?thesis by (simp add: step_inv_def)
next
  case False
  have "sint ts \<le> sint (newest ds)" using False assms(2) by (intro newest_ge) auto
  moreover have "newest ds = 0 \<or> (\<exists>d\<in>set ds. dev_timestamp d = newest ds)" using newest_bounds[of ds] by simp
  moreover have "d \<in> A \<or> d \<in> set ds" if "strict" "d \<in> U" for d
    using step_invD(4)[OF assms(1) that] that assms(2) by (auto simp: word_sle_eq)
  ultimately show ?thesis using False assms(2,3) step_invD[OF assms(1)] by (intro step_invI) auto
qed

lemma step_inv_post:
  assumes "step_inv strict U A P ts r" and "rq_added r" and "rq_cb r = Some (Post_cb n)" and "\<not> rq_added r'" and "sint n \<noteq> 2 ^ 63 - 1"
  shows "step_inv strict U (A \<union> P) {} (n + 1) r'"
proof (rule step_invI)
  note v = step_invD[OF assms(1)] and n = sint_plus_one[OF assms(5)]
  show "sint (n + 1) \<le> 1 \<or> (\<exists>d\<in>U. sint (n + 1) \<le> sint (dev_timestamp d) + 1)"
    using v(2) v(6)[OF assms(2,3)] n by auto
  show "d \<in> A \<union> P \<or> sint (n + 1) \<le> sint (dev_timestamp d)" if "strict" "d \<in> U" for d
    using v(7)[OF assms(2,3) that] n by auto
qed (use assms(4) step_invD(1,2)[OF assms(1)] in auto)

lemma step_inv_idle:
  "step_inv strict U A P ts r \<Longrightarrow> \<not> rq_added r' \<Longrightarrow> step_inv strict U A {} ts r'"
  by (simp add: step_inv_def)

lemma view_clock: "crawler_step env (now, late, e) s = Some t \<Longrightarrow> crawler_handle env late e (s\<lparr>clock := now\<rparr>) = Some t"
  by simp

lemma poll_step_inv:
  assumes "poll_step env i strict x y" and "poll_inv i strict x"
  shows "poll_inv i strict y"
  using assms
proof (cases rule: poll_step.cases)
  case (poll_change d U s A P)
  with assms(2) step_inv_change show ?thesis unfolding poll_inv_def by fastforce
next
  case (poll_other now late e s t U A P)
  with assms(2) obtain ts r where v: "view i s = Some (ts, r)" "step_inv strict U A P ts r" by (auto simp: poll_inv_def)
  have "view i (s\<lparr>clock := now\<rparr>) = Some (ts, r)" using v(1) by simp
  from view_other[OF view_clock[OF poll_other(3)] poll_other(4) this] v(2) poll_other(2) show ?thesis by (auto simp: poll_inv_def)
next
  case (poll_timer now late s t U A P)
  with assms(2) obtain ts r where v: "view i s = Some (ts, r)" "step_inv strict U A P ts r" by (auto simp: poll_inv_def)
  have "view i (s\<lparr>clock := now\<rparr>) = Some (ts, r)" using v(1) by simp
  from own_timer[OF view_clock[OF poll_timer(3)] this] v(2) poll_timer(2) step_inv_timer show ?thesis by (fastforce simp: poll_inv_def)
next
  case (poll_reply s ts r now late chunks code t U A P)
  have v: "view i (s\<lparr>clock := now\<rparr>) = Some (ts, r)" "step_inv strict U A P ts r"
    using assms(2) poll_reply(1,3) by (auto simp: poll_inv_def)
  let ?rep = "reply_of env (Response i chunks code) s"
  obtain r' where r: "view i t = Some (ts, r')" "case ?rep of [] \<Rightarrow> \<not> rq_added r'
      | gall # _ \<Rightarrow> if devices gall = [] then \<not> rq_added r'
        else rq_added r' \<and> rq_cb r' = Some (Post_cb (newest (devices gall))) \<and> rq_post r' = Some (device_update gall) \<and> rq_buf r' = []"
    using own_poll[OF view_clock[OF poll_reply(6)] v(1) poll_reply(4,5)] unfolding reply_of_clock by blast
  have "step_inv strict U A (\<Union>g\<in>set ?rep. set (devices g)) ts r'"
  proof (cases "?rep = []")
    case True
    show ?thesis using r(2) step_inv_idle[OF v(2)] unfolding True by simp
  next
    case False
    then obtain g where g: "?rep = [g]" using reply_of_cases by blast
    have "set (devices g) = {d \<in> U. ts \<le>s dev_timestamp d}" using poll_reply(7) unfolding g by simp
    moreover have "if devices g = [] then \<not> rq_added r' else rq_cb r' = Some (Post_cb (newest (devices g)))"
      using r(2) unfolding g by (simp split: if_splits)
    ultimately show ?thesis using step_inv_reply[OF v(2)] unfolding g by simp
  qed
  with r(1) show ?thesis unfolding poll_reply(2) poll_inv_def prod.case by blast
next
  case (poll_post s ts r n now late chunks code t U A P)
  have v: "view i (s\<lparr>clock := now\<rparr>) = Some (ts, r)" "step_inv strict U A P ts r"
    using assms(2) poll_post(1,3) by (auto simp: poll_inv_def)
  from own_post[OF view_clock[OF poll_post(6)] v(1) poll_post(4,5)] obtain code' content cb r' where
    r: "transfer chunks code r = (code', cb, content, r')" "\<not> rq_added r'"
    "if code' = CURLE_OK then sint n \<noteq> 2 ^ 63 - 1 \<and> view i t = Some (n + 1, r') else view i t = Some (ts, r')" by blast
  have y: "y = (t, U, if code' = CURLE_OK then A \<union> P else A, {})" using poll_post(2) r(1) by simp
  show ?thesis
  proof (cases "code' = CURLE_OK")
    case True
    with r(3) have "sint n \<noteq> 2 ^ 63 - 1" "view i t = Some (n + 1, r')" by simp_all
    with step_inv_post[OF v(2) poll_post(4,5) r(2)] y True show ?thesis by (simp add: poll_inv_def)
  next
    case False
    with r(3) step_inv_idle[OF v(2) r(2)] y show ?thesis by (simp add: poll_inv_def)
  qed
qed

lemma poll_steps_inv:
  "(poll_step env i strict)\<^sup>*\<^sup>* x y \<Longrightarrow> poll_inv i strict x \<Longrightarrow> poll_inv i strict y"
  by (induction rule: rtranclp_induct) (auto intro: poll_step_inv)

lemma poll_first_inv: "view i s = Some (1, r) \<Longrightarrow> \<not> rq_added r \<Longrightarrow> poll_inv i strict (s, {}, {}, {})"
  by (simp add: poll_inv_def step_inv_def)


text \<open>A reply with devices, and the post of them with success, are two steps.\<close>

lemma reply_and_post:
  assumes "i < length (pollers s)" and "rq_added (p_requester (pollers s ! i))" and "rq_cb (p_requester (pollers s ! i)) = Some Poll_cb"
    and "crawler_step env (now, late, Response i chunks code) s = Some t" and "reply_of env (Response i chunks code) s = [g]"
    and "devices g \<noteq> []" and "set (devices g) = {d \<in> U. p_timestamp (pollers s ! i) \<le>s dev_timestamp d}"
    and "crawler_step env (now2, late2, Response i chunks2 CURLE_OK) t = Some u" and "length (concat chunks2) \<le> 1048576"
  shows "poll_step env i strict (s, U, A, P) (t, U, A, set (devices g))"
    and "poll_step env i strict (t, U, A, set (devices g)) (u, U, A \<union> set (devices g), {})"
    and "rq_post (p_requester (pollers t ! i)) = Some (device_update g)"
proof -
  define ts r where d: "ts = p_timestamp (pollers s ! i)" "r = p_requester (pollers s ! i)"
  have v: "view i s = Some (ts, r)" "view i (s\<lparr>clock := now\<rparr>) = Some (ts, r)" "rq_added r" "rq_cb r = Some Poll_cb"
    using assms(1-3) d by (simp_all add: view_def)
  have "\<forall>g\<in>set (reply_of env (Response i chunks code) s). set (devices g) = {d \<in> U. ts \<le>s dev_timestamp d}"
    unfolding assms(5) d using assms(7) by simp
  from poll_reply[OF v(1,3,4) assms(4) this] show "poll_step env i strict (s, U, A, P) (t, U, A, set (devices g))"
    unfolding assms(5) by simp
  obtain r' where r: "view i t = Some (ts, r')" "rq_added r'" "rq_cb r' = Some (Post_cb (newest (devices g)))"
    "rq_post r' = Some (device_update g)" "rq_buf r' = []"
    using own_poll[OF view_clock[OF assms(4)] v(2-4)] assms(6) unfolding reply_of_clock assms(5) by auto
  have c: "fst (transfer chunks2 CURLE_OK r') = CURLE_OK"
    using receive_chunks_buf[of r' chunks2] assms(9) r(5) by (simp add: transfer_def MAX_BUF_SIZE_HTTP_def)
  show "poll_step env i strict (t, U, A, set (devices g)) (u, U, A \<union> set (devices g), {})"
    using poll_post[OF r(1-3) assms(8), of strict U A "set (devices g)"] c by simp
  show "rq_post (p_requester (pollers t ! i)) = Some (device_update g)"
    using r(1,4) by (simp add: view_def split: if_splits)
qed


text \<open>An update that is older than what the poller asks for, and in no post.\<close>

definition too_old :: "nat \<Rightarrow> device \<Rightarrow> poll_state \<Rightarrow> bool" where
  "too_old i d = (\<lambda>(s, U, A, P). d \<notin> A \<and> d \<notin> P \<and> (\<exists>ts r. view i s = Some (ts, r) \<and> sint (dev_timestamp d) < sint ts))"

lemma too_old_step:
  assumes "poll_step env i strict x y" and "poll_inv i strict x" and "too_old i d x"
  shows "too_old i d y"
  using assms(1)
proof (cases rule: poll_step.cases)
  case (poll_change d' U s A P)
  with assms(3) show ?thesis by (simp add: too_old_def)
next
  case (poll_other now late e s t U A P)
  with assms(3) obtain ts r where v: "view i s = Some (ts, r)" "sint (dev_timestamp d) < sint ts" "d \<notin> A" "d \<notin> P"
    by (auto simp: too_old_def)
  have "view i (s\<lparr>clock := now\<rparr>) = Some (ts, r)" using v(1) by simp
  from view_other[OF view_clock[OF poll_other(3)] poll_other(4) this] v poll_other(2) show ?thesis by (auto simp: too_old_def)
next
  case (poll_timer now late s t U A P)
  with assms(3) obtain ts r where v: "view i s = Some (ts, r)" "sint (dev_timestamp d) < sint ts" "d \<notin> A" "d \<notin> P"
    by (auto simp: too_old_def)
  have "view i (s\<lparr>clock := now\<rparr>) = Some (ts, r)" using v(1) by simp
  from own_timer[OF view_clock[OF poll_timer(3)] this] v poll_timer(2) show ?thesis by (auto simp: too_old_def)
next
  case (poll_reply s ts r now late chunks code t U A P)
  have v: "view i (s\<lparr>clock := now\<rparr>) = Some (ts, r)" "sint (dev_timestamp d) < sint ts" "d \<notin> A"
    using assms(3) poll_reply(1,3) by (auto simp: too_old_def)
  obtain r' where "view i t = Some (ts, r')" using own_poll[OF view_clock[OF poll_reply(6)] v(1) poll_reply(4,5)] by blast
  moreover have "d \<notin> (\<Union>g\<in>set (reply_of env (Response i chunks code) s). set (devices g))"
  proof
    assume "d \<in> (\<Union>g\<in>set (reply_of env (Response i chunks code) s). set (devices g))"
    then obtain g where "g \<in> set (reply_of env (Response i chunks code) s)" "d \<in> set (devices g)" by blast
    with poll_reply(7) have "ts \<le>s dev_timestamp d" by blast
    with v(2) show False by (simp add: word_sle_eq)
  qed
  ultimately show ?thesis unfolding poll_reply(2) too_old_def prod.case using v(2,3) by blast
next
  case (poll_post s ts r n now late chunks code t U A P)
  have v: "view i (s\<lparr>clock := now\<rparr>) = Some (ts, r)" "sint (dev_timestamp d) < sint ts" "d \<notin> A" "d \<notin> P"
    using assms(3) poll_post(1,3) by (auto simp: too_old_def)
  have "step_inv strict U A P ts r" using assms(2) poll_post(1,3) by (auto simp: poll_inv_def)
  then have n: "sint ts \<le> sint n" using step_invD(5) poll_post(4,5) by blast
  from own_post[OF view_clock[OF poll_post(6)] v(1) poll_post(4,5)] obtain r' where
    "(sint n \<noteq> 2 ^ 63 - 1 \<and> view i t = Some (n + 1, r')) \<or> view i t = Some (ts, r')" by (metis (full_types))
  then have "\<exists>ts r. view i t = Some (ts, r) \<and> sint (dev_timestamp d) < sint ts" using v(2) n sint_plus_one[of n] by auto
  then show ?thesis unfolding poll_post(2) too_old_def prod.case using v(3,4) by simp
qed


section \<open>An example\<close>

abbreviation "example_start \<equiv> crawler_start example_poller_env 0 (\<lambda>_. False) [[97]]"
definition example_device :: device where "example_device = hd (devices example_reply)"

lemma example_start_ok:
  "0 < length (pollers example_start)" "p_timestamp (pollers example_start ! 0) = 1" "\<not> rq_added (p_requester (pollers example_start ! 0))"
  by (simp_all add: poller_defs example_poller_env_def)

lemma example_polls:
  "\<exists>s t u. crawler_step example_poller_env (1, \<lambda>_. False, Timer 0 False) example_start = Some s \<and>
    0 < length (pollers s) \<and> rq_added (p_requester (pollers s ! 0)) \<and> rq_cb (p_requester (pollers s ! 0)) = Some Poll_cb \<and>
    p_timestamp (pollers s ! 0) = 1 \<and>
    crawler_step example_poller_env (2, \<lambda>_. False, Response 0 [[1], [2]] CURLE_OK) s = Some t \<and>
    reply_of example_poller_env (Response 0 [[1], [2]] CURLE_OK) s = [example_reply] \<and>
    crawler_step example_poller_env (3, \<lambda>_. False, Response 0 [[57]] CURLE_OK) t = Some u \<and> p_timestamp (pollers u ! 0) = 6"
  by (simp add: poller_defs example_poller_env_def example_reply_def newest_def word_sless_alt)

lemma example_device_ok:
  "devices example_reply = [example_device]" "dev_timestamp example_device = 5"
  by (simp_all add: example_reply_def example_device_def)

lemma example_late_enough: "0 <s dev_timestamp example_device"
  unfolding example_device_ok(2) by (simp add: word_sless_alt)

lemma example_honest:
  assumes "p_timestamp (pollers s ! 0) = 1"
  shows "devices example_reply \<noteq> []"
    and "set (devices example_reply) = {d \<in> {example_device}. p_timestamp (pollers s ! 0) \<le>s dev_timestamp d}"
  using assms example_device_ok by (auto simp: word_sle_eq)

lemma example_reach:
  "\<exists>s t u. (poll_step example_poller_env 0 True)\<^sup>*\<^sup>* (example_start, {}, {}, {}) (s, {example_device}, {}, {}) \<and>
    0 < length (pollers s) \<and> rq_added (p_requester (pollers s ! 0)) \<and> rq_cb (p_requester (pollers s ! 0)) = Some Poll_cb \<and>
    p_timestamp (pollers s ! 0) = 1 \<and>
    crawler_step example_poller_env (2, \<lambda>_. False, Response 0 [[1], [2]] CURLE_OK) s = Some t \<and>
    reply_of example_poller_env (Response 0 [[1], [2]] CURLE_OK) s = [example_reply] \<and>
    crawler_step example_poller_env (3, \<lambda>_. False, Response 0 [[57]] CURLE_OK) t = Some u \<and> p_timestamp (pollers u ! 0) = 6"
proof -
  obtain s t u where s: "crawler_step example_poller_env (1, \<lambda>_. False, Timer 0 False) example_start = Some s"
    "0 < length (pollers s) \<and> rq_added (p_requester (pollers s ! 0)) \<and> rq_cb (p_requester (pollers s ! 0)) = Some Poll_cb \<and>
    p_timestamp (pollers s ! 0) = 1 \<and>
    crawler_step example_poller_env (2, \<lambda>_. False, Response 0 [[1], [2]] CURLE_OK) s = Some t \<and>
    reply_of example_poller_env (Response 0 [[1], [2]] CURLE_OK) s = [example_reply] \<and>
    crawler_step example_poller_env (3, \<lambda>_. False, Response 0 [[57]] CURLE_OK) t = Some u \<and> p_timestamp (pollers u ! 0) = 6"
    using example_polls by blast
  have "poll_step example_poller_env 0 True (example_start, {}, {}, {}) (example_start, {example_device}, {}, {})"
    using example_late_enough by (intro poll_change) simp
  moreover have "poll_step example_poller_env 0 True (example_start, {example_device}, {}, {}) (s, {example_device}, {}, {})"
    by (rule poll_timer[OF s(1)])
  ultimately show ?thesis using s(2) by (meson converse_rtranclp_into_rtranclp rtranclp.rtrancl_refl)
qed



definition example_late :: device where "example_late = example_device\<lparr>dev_name := [101]\<rparr>"

lemma poll_step_weaken: "poll_step env i True x y \<Longrightarrow> poll_step env i False x y"
  by (induction rule: poll_step.induct) (blast intro: poll_step.intros)+

lemma poll_steps_weaken: "(poll_step env i True)\<^sup>*\<^sup>* x y \<Longrightarrow> (poll_step env i False)\<^sup>*\<^sup>* x y"
  by (induction rule: rtranclp_induct) (auto intro: poll_step_weaken rtranclp.rtrancl_into_rtrancl)


end
