(* ===== verification/Poller_Contents.thy ===== *)
theory Poller_Contents
  imports Poller_Behaviour
begin

text \<open>
  The second kind of request of a poller process: the content lists of devices, of which only the public videos may
  be published.
\<close>

lemma content_docs_public:
  "content_docs dev videos = (map (video_doc dev) (filter (\<lambda>v. vid_access v = PUBLIC) videos),
     length (filter (\<lambda>v. vid_access v = PUBLIC) videos))"
  by (induction videos) simp_all

lemma fetch_contents_requests:
  "\<exists>rs. fetch_contents env host ha us s = Some (s\<lparr>contents := contents s @ rs\<rparr>) \<and>
    map (\<lambda>r. (rq_url r, rq_cb r, rq_post r, rq_added r)) rs =
      map (\<lambda>u. (haconurlfmt env host u, Some (Content_cb (u @ str ''.'' @ ha)), None, True)) (filter (\<lambda>u. u \<noteq> []) us)"
proof (induction us arbitrary: s)
  case Nil
  then show ?case by (simp add: exI[of _ "[]"])
next
  case (Cons u us)
  show ?case
  proof (cases "u = []")
    case True
    with Cons.IH[of s] show ?thesis by simp
  next
    case False
    obtain r :: "content_cb requester" where r: "fetch (haconurlfmt env host u) (Content_cb (u @ str ''.'' @ ha)) [] requester_new = Some r"
      "rq_url r = haconurlfmt env host u" "rq_cb r = Some (Content_cb (u @ str ''.'' @ ha))" "rq_post r = None" "rq_added r"
      by (simp add: fetch_def requester_new_def)
    obtain rs where rs: "fetch_contents env host ha us (s\<lparr>contents := contents s @ [r]\<rparr>) = Some (s\<lparr>contents := contents s @ r # rs\<rparr>)"
      "map (\<lambda>r. (rq_url r, rq_cb r, rq_post r, rq_added r)) rs =
        map (\<lambda>u. (haconurlfmt env host u, Some (Content_cb (u @ str ''.'' @ ha)), None, True)) (filter (\<lambda>u. u \<noteq> []) us)"
      using Cons.IH[of "s\<lparr>contents := contents s @ [r]\<rparr>"] by auto
    with r False show ?thesis by (intro exI[of _ "r # rs"]) simp
  qed
qed

text \<open>
  C30. When a home agent has answered a request for the content of a device, what is posted to Solr are exactly the documents of its public
  videos, in their order, and when there is none nothing is posted: the answer's other videos have no influence on what
  leaves the process, and no other request is touched.
\<close>

theorem only_public_videos_posted:
  assumes "k < length (contents s)" and "rq_added (contents s ! k)" and "rq_cb (contents s ! k) = Some (Content_cb dev)"
    and "rq_buf (contents s ! k) = []" and "length (concat chunks) \<le> 1048576" and "parse_contmeta env (concat chunks) = Some videos"
  shows "let public = filter (\<lambda>v. vid_access v = PUBLIC) videos in
    \<exists>r. crawler_handle env late (Content_response k chunks CURLE_OK) s = Some (s\<lparr>contents := (contents s)[k := r]\<rparr>) \<and>
      (if public = [] then \<not> rq_added r
       else rq_added r \<and> rq_url r = solr_contenturl env @ str ''?softCommit=true'' \<and>
         rq_post r = Some (solr_add (map (video_doc dev) public)))"
proof -
  let ?public = "filter (\<lambda>v. vid_access v = PUBLIC) videos"
  let ?r = "(contents s ! k)\<lparr>rq_buf := concat chunks, rq_added := False\<rparr>"
  have t: "transfer chunks CURLE_OK (contents s ! k) = (CURLE_OK, Some (Content_cb dev), concat chunks, ?r)"
    using receive_chunks_buf[of "contents s ! k" chunks] assms(3-5)
    by (simp add: transfer_def transfer_done_def MAX_BUF_SIZE_HTTP_def)
  then have h: "crawler_handle env late (Content_response k chunks CURLE_OK) s =
      handle_getcontentlist env k dev CURLE_OK (concat chunks) (s\<lparr>contents := (contents s)[k := ?r]\<rparr>)"
    using assms(1,2) by simp
  have d: "solr_add (map (video_doc dev) ?public) \<noteq> []" by (simp add: solr_add_def str_def)
  show ?thesis
  proof (cases "?public = []")
    case True
    with h assms(6) show ?thesis by (simp add: handle_getcontentlist_def content_docs_public) (auto intro: exI[of _ ?r])
  next
    case False
    with h assms(1,6) d show ?thesis
      by (simp add: handle_getcontentlist_def content_docs_public fetch_def Let_def) (auto intro: exI)
  qed
qed

definition example_video :: "access_level \<Rightarrow> video" where
  "example_video access = \<lparr>vid_id = 1, vid_title = [116], vid_filesize = 7, vid_mimetype = [109], vid_description = [], vid_access = access\<rparr>"

definition example_content_env :: poller_env where
  "example_content_env = example_poller_env\<lparr>parse_contmeta := (\<lambda>_. Some [example_video PUBLIC, example_video PRIVATE])\<rparr>"

lemma only_public_videos_posted_witness:
  "\<exists>r s. crawler_handle example_content_env (\<lambda>_. False) (Content_response 0 [[1]] CURLE_OK)
      (crawler_new\<lparr>contents := [\<lparr>rq_buf = [], rq_cb = Some (Content_cb [100]), rq_url = [], rq_post = None, rq_added = True\<rparr>]\<rparr>) = Some s \<and>
    r = contents s ! 0 \<and> rq_post r = Some (solr_add [video_doc [100] (example_video PUBLIC)])"
proof -
  let ?s = "crawler_new\<lparr>contents := [\<lparr>rq_buf = [], rq_cb = Some (Content_cb [100]), rq_url = [], rq_post = None, rq_added = True\<rparr>]\<rparr>"
  have a: "0 < length (contents ?s)" "rq_added (contents ?s ! 0)" "rq_cb (contents ?s ! 0) = Some (Content_cb [100])"
    "rq_buf (contents ?s ! 0) = []" "length (concat [[1 :: byte]]) \<le> 1048576"
    "parse_contmeta example_content_env (concat [[1]]) = Some [example_video PUBLIC, example_video PRIVATE]"
    by (simp_all add: example_content_env_def)
  from only_public_videos_posted[OF a, of "\<lambda>_. False"] obtain r where
    "crawler_handle example_content_env (\<lambda>_. False) (Content_response 0 [[1]] CURLE_OK) ?s = Some (?s\<lparr>contents := (contents ?s)[0 := r]\<rparr>)"
    "rq_post r = Some (solr_add [video_doc [100] (example_video PUBLIC)])"
    by (auto simp: example_video_def simp del: crawler_handle.simps)
  then show ?thesis by (simp del: crawler_handle.simps)
qed

end
