(* ===== verification/Instrumenter.thy ===== *)
theory Instrumenter
  imports Memory
begin

text \<open>
  \<^verbatim>\<open>src/dnsgw/instrumenter.cpp\<close>: \<^verbatim>\<open>udp_instrumenter\<close> gathers serialised metrics until a datagram is full or a timer of half a second
  has expired. Its functions run in a strand, so each is a step; serialising a metric is Boost's, and a metric is the string
  that results.
\<close>

section \<open>The operations\<close>

text \<open>
  \<open>in_buf\<close> and \<open>in_size\<close> are \<^verbatim>\<open>buf_\<close> and \<^verbatim>\<open>buf_size_\<close>, \<open>in_datagrams\<close> the buffers of each call of \<^verbatim>\<open>async_send\<close>; \<open>in_waiting\<close> says
  that the timer has a wait that is pending, \<open>in_fired\<close> counts the handlers of waits that ended by expiry and \<open>in_cancelled\<close> those
  of waits that were cancelled, which asio has still to run.
\<close>

record udp_instrumenter =
  in_size :: nat
  in_buf :: "cstring list"
  in_datagrams :: "cstring list list"
  in_waiting :: bool
  in_fired :: nat
  in_cancelled :: nat

definition MAX_BUF_SIZE :: nat where "MAX_BUF_SIZE = 65507"

definition udp_instrumenter_new :: udp_instrumenter where
  "udp_instrumenter_new = \<lparr>in_size = 0, in_buf = [], in_datagrams = [], in_waiting = False, in_fired = 0, in_cancelled = 0\<rparr>"

definition cancel_wait :: "udp_instrumenter \<Rightarrow> udp_instrumenter" where
  "cancel_wait s = (if in_waiting s then s\<lparr>in_waiting := False, in_cancelled := in_cancelled s + 1\<rparr> else s)"

definition send_now :: "udp_instrumenter \<Rightarrow> udp_instrumenter" where
  "send_now s = (let s = cancel_wait s in s\<lparr>in_datagrams := in_datagrams s @ [in_buf s], in_buf := [], in_size := 0\<rparr>)"

text \<open>Setting the expiry of a timer cancels the wait that is pending.\<close>

definition start_timer :: "udp_instrumenter \<Rightarrow> udp_instrumenter" where
  "start_timer s = (cancel_wait s)\<lparr>in_waiting := True\<rparr>"

definition add_metric :: "cstring \<Rightarrow> udp_instrumenter \<Rightarrow> udp_instrumenter" where
  "add_metric buf s =
     (let my_buf_size = length buf;
          s = (if in_size s + my_buf_size > MAX_BUF_SIZE then send_now s else s);
          s = s\<lparr>in_size := in_size s + my_buf_size, in_buf := in_buf s @ [buf]\<rparr>;
          s = (if in_size s = MAX_BUF_SIZE then send_now s else s)
      in if in_size s = my_buf_size then start_timer s else s)"

datatype timer_error = No_error | Operation_aborted | Other_error

definition handle_nagle_timeout :: "timer_error \<Rightarrow> udp_instrumenter \<Rightarrow> udp_instrumenter" where
  "handle_nagle_timeout ec s = (if ec = No_error then send_now s else s)"

text \<open>Metrics, the expiry of the timer, and the handler of a wait that has ended.\<close>

datatype instrumenter_event = Metric cstring | Expires | Handler timer_error

fun instrumenter_step :: "instrumenter_event \<Rightarrow> udp_instrumenter \<Rightarrow> udp_instrumenter" where
  "instrumenter_step (Metric buf) s = add_metric buf s"
| "instrumenter_step Expires s = (if in_waiting s then s\<lparr>in_waiting := False, in_fired := in_fired s + 1\<rparr> else s)"
| "instrumenter_step (Handler No_error) s =
     (if in_fired s > 0 then handle_nagle_timeout No_error (s\<lparr>in_fired := in_fired s - 1\<rparr>) else s)"
| "instrumenter_step (Handler ec) s =
     (if in_cancelled s > 0 then handle_nagle_timeout ec (s\<lparr>in_cancelled := in_cancelled s - 1\<rparr>) else s)"

definition instrumenter_run :: "instrumenter_event list \<Rightarrow> udp_instrumenter \<Rightarrow> udp_instrumenter" where
  "instrumenter_run es s = fold instrumenter_step es s"

section \<open>What holds in every state\<close>

definition sizes :: "cstring list \<Rightarrow> nat" where
  "sizes ms = sum_list (map length ms)"

lemma sizes_simps [simp]: "sizes [] = 0" "sizes (ms @ [m]) = sizes ms + length m"
  by (simp_all add: sizes_def)

fun metrics_of :: "instrumenter_event list \<Rightarrow> cstring list" where
  "metrics_of [] = []"
| "metrics_of (Metric m # es) = m # metrics_of es"
| "metrics_of (_ # es) = metrics_of es"

lemma metrics_of_append [simp]: "metrics_of (es @ fs) = metrics_of es @ metrics_of fs"
  by (induction es rule: metrics_of.induct) auto

definition inst_inv :: "udp_instrumenter \<Rightarrow> bool" where
  "inst_inv s \<longleftrightarrow> in_size s = sizes (in_buf s) \<and> in_size s < MAX_BUF_SIZE \<and> [] \<notin> set (in_buf s) \<and>
     (in_buf s \<noteq> [] \<longrightarrow> in_waiting s \<or> in_fired s > 0) \<and> (\<forall>d \<in> set (in_datagrams s). sizes d \<le> MAX_BUF_SIZE)"

lemma inst_new_inv: "inst_inv udp_instrumenter_new"
  by (simp add: inst_inv_def udp_instrumenter_new_def MAX_BUF_SIZE_def)

lemmas inst_defs = send_now_def cancel_wait_def start_timer_def Let_def

lemma send_now_fields [simp]:
  "in_size (send_now s) = 0" "in_buf (send_now s) = []" "in_datagrams (send_now s) = in_datagrams s @ [in_buf s]"
  "in_fired (send_now s) = in_fired s" "\<not> in_waiting (send_now s)"
  by (simp_all add: inst_defs)

lemma start_timer_fields [simp]:
  "in_size (start_timer s) = in_size s" "in_buf (start_timer s) = in_buf s" "in_datagrams (start_timer s) = in_datagrams s"
  "in_fired (start_timer s) = in_fired s" "in_waiting (start_timer s)"
  by (simp_all add: inst_defs)

lemma sizes_empty: "[] \<notin> set ms \<Longrightarrow> sizes ms = 0 \<longleftrightarrow> ms = []"
  by (cases ms) (auto simp: sizes_def)

lemma add_metric_inv:
  assumes "inst_inv s" and "m \<noteq> []" and "length m \<le> MAX_BUF_SIZE"
  shows "inst_inv (add_metric m s)"
  using assms sizes_empty[of "in_buf s"] unfolding inst_inv_def add_metric_def Let_def
  by (auto simp: MAX_BUF_SIZE_def)

lemma add_metric_all: "concat (in_datagrams (add_metric m s)) @ in_buf (add_metric m s) = concat (in_datagrams s) @ in_buf s @ [m]"
  by (simp add: add_metric_def Let_def)

lemma instrumenter_step_inv:
  assumes "inst_inv s" and "\<forall>m \<in> set (metrics_of [e]). m \<noteq> [] \<and> length m \<le> MAX_BUF_SIZE"
  shows "inst_inv (instrumenter_step e s)"
proof (cases e)
  case (Metric m)
  with assms add_metric_inv show ?thesis by simp
next
  case (Handler ec)
  with assms(1) show ?thesis by (cases ec) (auto simp: inst_inv_def handle_nagle_timeout_def)
qed (use assms(1) in \<open>auto simp: inst_inv_def\<close>)

lemma instrumenter_step_all:
  "concat (in_datagrams (instrumenter_step e s)) @ in_buf (instrumenter_step e s) =
    concat (in_datagrams s) @ in_buf s @ metrics_of [e]"
proof (cases e)
  case (Metric m)
  then show ?thesis by (simp add: add_metric_all)
next
  case (Handler ec)
  then show ?thesis by (cases ec) (simp_all add: handle_nagle_timeout_def)
qed simp

lemma instrumenter_run_all:
  assumes "\<forall>m \<in> set (metrics_of es). m \<noteq> [] \<and> length m \<le> MAX_BUF_SIZE" and "inst_inv s"
  shows "inst_inv (instrumenter_run es s) \<and>
    concat (in_datagrams (instrumenter_run es s)) @ in_buf (instrumenter_run es s) = concat (in_datagrams s) @ in_buf s @ metrics_of es"
  using assms
proof (induction es arbitrary: s)
  case Nil
  then show ?case by (simp add: instrumenter_run_def)
next
  case (Cons e es)
  have m: "metrics_of (e # es) = metrics_of [e] @ metrics_of es" by (cases e) simp_all
  with Cons.prems have "inst_inv (instrumenter_step e s)" by (intro instrumenter_step_inv) auto
  with Cons.IH[of "instrumenter_step e s"] Cons.prems(1) m instrumenter_step_all[of e s]
  show ?case by (auto simp: instrumenter_run_def simp flip: append_assoc)
qed

text \<open>
  C36. When no metric is empty or larger than a datagram, every metric given to the instrumenter is in exactly one datagram
  or still in the buffer, in the order in which they were given, and no datagram is larger than 65507 bytes. As long as the buffer is not empty the
  timer is running or its handler is about to run, so that once the timer has expired and one handler
  for it has run everything is sent.
\<close>

theorem metrics_sent:
  assumes "\<forall>m \<in> set (metrics_of es). m \<noteq> [] \<and> length m \<le> MAX_BUF_SIZE"
  shows "let s = instrumenter_run es udp_instrumenter_new; t = instrumenter_run [Expires, Handler No_error] s in
    concat (in_datagrams s) @ in_buf s = metrics_of es \<and> (\<forall>d \<in> set (in_datagrams s). sizes d \<le> MAX_BUF_SIZE) \<and>
    (in_buf s \<noteq> [] \<longrightarrow> in_waiting s \<or> in_fired s > 0) \<and> concat (in_datagrams t) = metrics_of es"
proof -
  let ?s = "instrumenter_run es udp_instrumenter_new"
  have r: "inst_inv ?s" "concat (in_datagrams ?s) @ in_buf ?s = metrics_of es"
    using instrumenter_run_all[OF assms inst_new_inv] by (simp_all add: udp_instrumenter_new_def)
  then show ?thesis by (auto simp: Let_def inst_inv_def instrumenter_run_def handle_nagle_timeout_def)
qed

lemma metrics_sent_witness:
  "let s = instrumenter_run [Metric [1, 2], Metric [3], Expires, Handler No_error, Metric [4]] udp_instrumenter_new in
    concat (in_datagrams s) @ in_buf s = [[1, 2], [3], [4]] \<and> in_datagrams s = [[[1, 2], [3]]]"
  using metrics_sent[of "[Metric [1, 2], Metric [3], Expires, Handler No_error, Metric [4]]"]
  by (simp add: Let_def instrumenter_run_def add_metric_def handle_nagle_timeout_def MAX_BUF_SIZE_def inst_defs udp_instrumenter_new_def)

end
