(* ===== verification/Spec2Isabelle.thy ===== *)
theory Spec2Isabelle
  imports Plexus_Behaviour Node_Behaviour Overlay_Tree Dns_Stream Gateway_Replies Manager_Behaviour Poller_Link Configuration Log_Behaviour Bootstrap_Behaviour Poller_Updates
    Poller_Contents Instrumenter
begin

text \<open>
  A verification of pWeb: of its home agent, the peer program under \<^verbatim>\<open>src/dnsgw_test_ha/klink\<close> (paths without
  \<^verbatim>\<open>src\<close> are relative to it), of its DNS gateway, under \<^verbatim>\<open>src/dnsgw\<close>, and of its crawler, under \<^verbatim>\<open>src/crawler_*\<close>.

  \<^bold>\<open>The home agent.\<close> Home agents are the peers of an overlay, Plexus, that maps names to host addresses. A
  peer has an overlay id, a word of a linear code, and knows a few neighbours. A PUT or GET message
  carries the id its name decodes to and is routed greedily, by the longest matching prefix, to a
  peer that stores or looks up the name; replies go back in the same way and are cached. A central
  program configures each peer with an INIT message. Devices register their names with a home agent
  over HTTP. The program (\<^verbatim>\<open>server_system_test.cc\<close>) runs threads that share one protocol object:
  listening (bytes to messages, to the incoming queue), processing (a message of the incoming queue,
  changing the tables and filling the outgoing and the log queue), forwarding, logging,
  controlling (test requests), one for the messages that came before INIT, and the web interface.

  \<^bold>\<open>The gateway.\<close> The gateway answers DNS queries for the names of devices. Its speakers receive queries over UDP and
  TCP; a load balancer gives each query to a home agent; a connection sends the request, and the
  query waits in a map, by its DNS id, until the home agent sends its reply over a
  connection of its own or a timer fires. Then the query is completed: its speaker composes and sends the response.

  \<^bold>\<open>The crawler.\<close> Pollers ask home agents over HTTP, at intervals, for their neighbours and for the devices that have changed, and
  post these, and the public content of the devices, to a search engine, Solr. A manager, which the pollers are connected to, gives
  each home agent that a poller has discovered to one of them; without a manager a poller polls all it discovers.

  \<^bold>\<open>Theories and code.\<close> A class is a record, a method a function on it that returns it updated; undefined
  behaviour of C++ (an access outside a buffer, a null or freed pointer, an uninitialised read
  that matters) and a call that never returns are None. Integers are words of their C++ width.

  \<^item> \<open>Prelude\<close>, \<open>Memory\<close>, \<open>Wire\<close>: word lemmas; buffers, strings and library functions of C; readers and
    writers of fields, with the locale \<open>wire_field\<close> for an encoder and its reader.
  \<^item> \<open>Golay\<close> (\<^verbatim>\<open>plnode/protocol/plexus/golay\<close>), \<open>Codes\<close> (\<^verbatim>\<open>protocol/code.h\<close>, \<^verbatim>\<open>null_code.h\<close>): the
    Golay tables, encoder and decoder; the locales \<open>ABSCode\<close> and \<open>Total_ABSCode\<close> of a code.
  \<^item> \<open>Lookup_Table\<close>, \<open>Overlay_ID\<close>, \<open>Double_Linked_List\<close>, \<open>Cache\<close> (\<^verbatim>\<open>plnode/ds\<close>): ordered tables with
    iterators (locale \<open>key_order\<close>), ids, host addresses, the linked list on a heap of nodes, and
    the cache with its policies.
  \<^item> \<open>Messages\<close>, \<open>Peer_Messages\<close>, \<open>Control_Messages\<close>, \<open>Receive\<close> (\<^verbatim>\<open>plnode/message\<close>): the message
    classes, their sizes, \<^verbatim>\<open>serialize\<close> and \<^verbatim>\<open>deserialize\<close>, and the switch of the listener.
  \<^item> \<open>Log_Entry\<close>, \<open>Util\<close>, \<open>Peer\<close>, \<open>Plexus_State\<close> (\<^verbatim>\<open>logging/log_entry.h\<close>, \<^verbatim>\<open>common/util.h\<close>,
    \<^verbatim>\<open>peer/peer.h\<close>, \<^verbatim>\<open>protocol/protocol.h\<close>): entries of the log, hashes and texts, the peer with its
    counters and name database, the protocol object with its queues (locale \<open>message_queue\<close>).
    \<open>Configuration\<close> (\<^verbatim>\<open>ds/configuration.h\<close>): the configuration file, and what is shown of reading it.
    \<open>Log_File\<close> (\<^verbatim>\<open>logging/log.h\<close>): the logs, on a disk with files, tar files and the files of the monitor.
  \<^item> \<open>Routing\<close>, \<open>Processing\<close> (\<^verbatim>\<open>plexus_protocol.h\<close>, \<^verbatim>\<open>plexus_message_processor.h\<close>): \<^verbatim>\<open>setNextHop\<close>, and
    \<^verbatim>\<open>processMessage\<close> with every message type and the requests \<^verbatim>\<open>get\<close> and \<^verbatim>\<open>put\<close>.
  \<^item> \<open>Web_Interface\<close> (\<^verbatim>\<open>common/query_string_parser.h\<close>, \<^verbatim>\<open>interface_callback\<close>): the HTTP interface.
  \<^item> \<open>Node\<close> (\<^verbatim>\<open>server_system_test.cc\<close>): the threads, as steps of a node.
  \<^item> \<open>Build_Tree\<close> (\<^verbatim>\<open>monitor/tree/BuildTree.h\<close>): the ids and routing tables of all peers, which the
    central program computes from the list of hosts. \<open>Bootstrap\<close> (\<^verbatim>\<open>client_system_test.cc\<close>): that program, its files, the INIT
    messages and its commands.
  \<^item> \<open>Dns_Message\<close>, \<open>Dns_Speaker\<close> (\<^verbatim>\<open>src/dnsgw/dnsspeaker.cpp\<close>, \<^verbatim>\<open>dnsquery.hpp\<close>, \<^verbatim>\<open>src/shared/protocol_helper.hpp\<close>): DNS
    messages, with exceptions as values of \<open>outcome\<close>, whose third case is an access outside the buffer; the speakers.
  \<^item> \<open>Ha_Protocol\<close>, \<open>Gateway\<close> (\<^verbatim>\<open>src/dnsgw/haproxy.cpp\<close>, \<^verbatim>\<open>haloadbalancer.cpp\<close>): the requests and replies between
    gateway and home agents; the query map, timers, connections and the load balancer, as steps of a gateway.
    \<open>Instrumenter\<close> (\<^verbatim>\<open>src/dnsgw/instrumenter.cpp\<close>): the buffer of metrics.
  \<^item> \<open>Crawler_Protocol\<close> (\<^verbatim>\<open>src/crawler_protocol\<close>): headers, writer and reader of the messages between manager and pollers.
    \<open>Home_Agent_Db\<close> (\<^verbatim>\<open>src/crawler_manager/homeagentdb.cpp\<close>): the assignment of home agents.
    \<open>Manager_Process\<close> (\<^verbatim>\<open>src/crawler_manager/pollerconnector.cpp\<close>, \<^verbatim>\<open>main.cpp\<close>): the connections of the manager, joined to that database.
  \<^item> \<open>Poller_Database\<close>, \<open>Http_Requester\<close>, \<open>Poller\<close> (\<^verbatim>\<open>src/crawler_poller\<close>, \<^verbatim>\<open>src/shared/asynchttprequester.cpp\<close>): what a poller
    process records, its HTTP requests, and its pollers with all their handlers. \<open>Manager_Connection\<close>: its connection to the manager.

  \<^bold>\<open>What is shown.\<close>

  \<^item> The Golay tables come out right and decoding corrects every pattern of up to three errors; above
    23 bits the decoder does not return. Each code meets its interface.
  \<^item> A lookup table is a map, a list a sequence, the cache an LRU list of bounded length.
  \<^item> A message the wire format can carry is received as it was sent; the classes for which this fails,
    and how, are stated too.
  \<^item> \<open>Routing\<close>: the next hop refines greedy routing over the known entries.
  \<^item> \<open>Peer_Safety\<close>: an invariant of the protocol object; INIT establishes it, and every safe message is
    processed without undefined behaviour and keeps it. \<open>Plexus_Behaviour\<close>: what the handlers
    do: a name put is found, forwarding ends, CACHE_ME spreads, open requests stay open, queues are
    first-in first-out.
  \<^item> \<open>Web_Registry\<close>: the web interface refines a registry of names; the requests that crash it.
  \<^item> \<open>Node_Safety\<close>, \<open>Node_Behaviour\<close>: the invariant of a node holds in every state its threads
    reach, in any order of their steps; how a message can be lost; what forwarding counts.
  \<^item> \<open>Overlay_Tree\<close>: the ids partition the targets, and following the routing tables reaches the peer that
    covers a target; here \<open>follow\<close> has a hop for each bit, which is proved to be enough.
    \<open>Bootstrap_Behaviour\<close>: the central program puts each peer in its place in this overlay, and each name is the share of one peer.
  \<^item> \<open>Dns_Roundtrip\<close>: composing and parsing DNS messages are inverse, never leave their buffers, and what is parsed is well
    formed; the fields share the locale \<open>dns_field\<close>. \<open>Dns_Replies\<close>, \<open>Dns_Stream\<close>: what the speakers receive and
    send, over the locale \<open>reply_speaker\<close>, and how a long name silences them.
  \<^item> \<open>Ha_Interop\<close>: what the gateway sends is received by the model of the home agent, and back.
  \<^item> \<open>Gateway_Behaviour\<close>: queries are answered while ids are distinct, and what happens when they are not; how an
    agent is selected; how the address a home agent returns becomes the answer. \<open>Gateway_Replies\<close>: an answer that is too long.
  \<^item> \<open>Crawler_Link\<close>: the writer reports every message and the reader receives what was sent, up to 255 bytes. \<open>Crawler_Manager\<close>:
    every home agent is with one connected poller, and the loads are even. \<open>Manager_Behaviour\<close>: each poller is sent the list that the
    manager holds for it, and one failed write ends the manager. \<open>Poller_Link\<close>: the manager is told each home agent a poller process hears of.
  \<^item> \<open>Poller_Behaviour\<close>: the invariant of a poller process; \<open>Poller_Updates\<close>: which updates of a home agent reach Solr, as a step relation
    of a home agent and its poller; \<open>Poller_Contents\<close>: only public videos are posted.
  \<^item> \<open>Log_Behaviour\<close>: no line of a log is lost when it is archived.

  \<^bold>\<open>Recursion and bounds.\<close> The loops of the decoder and of the cache are \<^verbatim>\<open>partial_function (option)\<close>; that they
  return is proved where they do. \<^verbatim>\<open>processMessage\<close> calls itself for the request of a client, and that call
  makes none: two levels are the whole recursion (\<open>processMessage_rec\<close>), no fuel is needed.

  \<^bold>\<open>Assumptions.\<close> The environment of a handler (record \<open>env\<close>) holds what the code does not determine: how
  \<^verbatim>\<open>printf\<close> writes a \<^verbatim>\<open>double\<close>, the time, the content of uninitialised fields; so does \<open>program\<close> for a node.
  A \<^verbatim>\<open>double\<close> is its 64 bits. A handler runs as one step, as the program has one processing thread;
  the races of the controlling and web threads with it inside a handler are not modelled. Of the gateway, each handler that
  asio runs is a step, in any order the state allows; with several threads two handlers may overlap, which is not modelled,
  nor is an exception of a speaker passing through the handler that completed the query.
  \<^verbatim>\<open>ip::address::from_string\<close> is a field of the record \<open>gateway_env\<close>. A poller process has one thread; the record \<open>poller_env\<close> has the grammars of
  Boost.Spirit, which are programs of that library, and \<^verbatim>\<open>boost::format\<close>; libcurl hands over responses in chunks and ends a transfer
  when the write function refuses one, as it documents. The shell commands of the logs are texts given to a parameter, which \<open>shell_ok\<close> says what they do for.

  \<^bold>\<open>Not modelled.\<close> Sockets, the host file and address database (DNS, \<^verbatim>\<open>ping\<close>), the statistics thread and most of the status page, the start of the
  program, printing. The Reed-Muller code, which the program does not use, the simulator, the
  start of the gateway, and what asio does to resolve, accept and connect are left out, as is the glue between libcurl and asio. \<^verbatim>\<open>mongoose.c\<close> is third-party code.
\<close>

end
